(* ===== verification/Prelude.thy ===== *)
theory Prelude
  imports Complex_Main "HOL-Library.AList" "HOL-Library.Word"
begin

text \<open>
  Shared vocabulary of the development: exceptions and outcomes of C++ functions, the C
  character classes, decimal text (\<open>%d\<close> and its reading), ordered hashes as association
  lists, and the reachability/invariant interface every state machine of the driver uses.
\<close>

section \<open>Fact collections\<close>

named_theorems driver_simps \<open>evaluation rules of the small driver operations\<close>
named_theorems inv_intros \<open>preservation lemmas of component invariants\<close>

section \<open>Exceptions and outcomes\<close>

text \<open>
  \<open>xsink->raiseException(code, fmt, ...)\<close> is \<open>Exn code what\<close>: the exception code and the
  words of the message that tell the branch (formatted arguments are not kept).  The
  result of a C++ function that may raise or run into undefined behaviour (signed
  overflow, a read behind a buffer) is an \<open>outcome\<close>.
\<close>

datatype exn = Exn (exn_code: string) (exn_what: string)

type_synonym sink = "exn list"

datatype 'a outcome = Value 'a | Raised exn | Undefined

fun bind_outcome :: "'a outcome \<Rightarrow> ('a \<Rightarrow> 'b outcome) \<Rightarrow> 'b outcome" where
  "bind_outcome (Value x) f = f x"
| "bind_outcome (Raised e) f = Raised e"
| "bind_outcome Undefined f = Undefined"

lemma bind_outcome_Value_iff [simp]:
  "bind_outcome m f = Value y \<longleftrightarrow> (\<exists>x. m = Value x \<and> f x = Value y)"
  by (cases m) auto

lemma bind_outcome_Undefined_iff:
  "bind_outcome m f = Undefined \<longleftrightarrow> m = Undefined \<or> (\<exists>x. m = Value x \<and> f x = Undefined)"
  by (cases m) auto

fun of_checked :: "'a option \<Rightarrow> 'a outcome" where
  "of_checked None = Undefined"
| "of_checked (Some x) = Value x"

lemma of_checked_Value_iff [simp]: "of_checked m = Value y \<longleftrightarrow> m = Some y"
  by (cases m) auto

section \<open>Characters\<close>

text \<open>The character classes of \<open>ctype.h\<close> in the C locale; a \<open>char\<close> is a byte.\<close>

definition chr_code :: "char \<Rightarrow> nat" where
  "chr_code c = of_char c"

definition c_isdigit :: "char \<Rightarrow> bool" where
  "c_isdigit c \<longleftrightarrow> 48 \<le> chr_code c \<and> chr_code c \<le> 57"

definition c_isupper :: "char \<Rightarrow> bool" where
  "c_isupper c \<longleftrightarrow> 65 \<le> chr_code c \<and> chr_code c \<le> 90"

definition c_islower :: "char \<Rightarrow> bool" where
  "c_islower c \<longleftrightarrow> 97 \<le> chr_code c \<and> chr_code c \<le> 122"

definition c_isalpha :: "char \<Rightarrow> bool" where
  "c_isalpha c \<longleftrightarrow> c_isupper c \<or> c_islower c"

definition c_isalnum :: "char \<Rightarrow> bool" where
  "c_isalnum c \<longleftrightarrow> c_isalpha c \<or> c_isdigit c"

definition c_isspace :: "char \<Rightarrow> bool" where
  "c_isspace c \<longleftrightarrow> chr_code c = 32 \<or> (9 \<le> chr_code c \<and> chr_code c \<le> 13)"

definition c_toupper :: "char \<Rightarrow> char" where
  "c_toupper c = (if c_islower c then char_of (chr_code c - 32) else c)"

definition c_tolower :: "char \<Rightarrow> char" where
  "c_tolower c = (if c_isupper c then char_of (chr_code c + 32) else c)"

lemmas c_class_defs =
  c_isdigit_def c_isupper_def c_islower_def c_isalpha_def c_isalnum_def c_isspace_def chr_code_def

lemma chr_code_less [simp]: "chr_code c < 256"
  by (simp add: chr_code_def)

lemma chr_code_char_of: "n < 256 \<Longrightarrow> chr_code (char_of n) = n"
  by (simp add: chr_code_def)

lemma chr_code_inject [simp]: "chr_code c = chr_code d \<longleftrightarrow> c = d"
  by (simp add: chr_code_def)

lemma c_isspace_not_digit: "c_isspace c \<Longrightarrow> \<not> c_isdigit c"
  by (auto simp: c_class_defs)

lemma c_isupper_toupper: "c_isalpha c \<Longrightarrow> c_isupper (c_toupper c)"
  by (auto simp: c_toupper_def c_isalpha_def c_isupper_def c_islower_def chr_code_char_of)

lemma c_toupper_idem [simp]: "c_toupper (c_toupper c) = c_toupper c"
  by (auto simp: c_toupper_def c_islower_def chr_code_char_of)

section \<open>Decimal text\<close>

definition digit_val :: "char \<Rightarrow> nat" where
  "digit_val c = chr_code c - 48"

definition digit_char :: "nat \<Rightarrow> char" where
  "digit_char d = char_of (48 + d)"

lemma digit_char_class [simp]:
  assumes "d < 10"
  shows "c_isdigit (digit_char d)" and "digit_val (digit_char d) = d"
  using assms by (simp_all add: digit_char_def digit_val_def c_isdigit_def chr_code_char_of)

lemma digit_val_less: "c_isdigit c \<Longrightarrow> digit_val c < 10"
  by (auto simp: c_isdigit_def digit_val_def)

lemma digit_char_val [simp]: "c_isdigit c \<Longrightarrow> digit_char (digit_val c) = c"
  by (simp add: c_isdigit_def digit_val_def digit_char_def chr_code_def)

lemma digit_char_inject: "d < 10 \<Longrightarrow> e < 10 \<Longrightarrow> digit_char d = digit_char e \<longleftrightarrow> d = e"
  by (metis digit_char_class(2))

text \<open>The value of a string of digits, and \<open>%d\<close>/\<open>%u\<close> of a non-negative number.\<close>

definition dec_val :: "string \<Rightarrow> nat" where
  "dec_val ds = foldl (\<lambda>a c. 10 * a + digit_val c) 0 ds"

function show_nat :: "nat \<Rightarrow> string" where
  "show_nat n = (if n < 10 then [digit_char n] else show_nat (n div 10) @ [digit_char (n mod 10)])"
  by pat_completeness auto
termination
  by (relation "measure id") auto

declare show_nat.simps [simp del]

definition show_int :: "int \<Rightarrow> string" where
  "show_int i = (if i < 0 then CHR ''-'' # show_nat (nat (- i)) else show_nat (nat i))"

lemma dec_val_Nil [simp]: "dec_val [] = 0"
  by (simp add: dec_val_def)

lemma dec_val_snoc [simp]: "dec_val (ds @ [c]) = 10 * dec_val ds + digit_val c"
  by (simp add: dec_val_def)

lemma dec_val_append: "dec_val (xs @ ys) = dec_val xs * 10 ^ length ys + dec_val ys"
proof (induction ys rule: rev_induct)
  case Nil
  then show ?case by simp
next
  case (snoc y ys)
  have "dec_val ((xs @ ys) @ [y]) = 10 * dec_val (xs @ ys) + digit_val y"
    by (rule dec_val_snoc)
  with snoc show ?case by (simp add: algebra_simps)
qed

lemma dec_val_Cons: "dec_val (c # ds) = digit_val c * 10 ^ length ds + dec_val ds"
  using dec_val_append [of "[c]" ds] dec_val_snoc [of "[]" c] by simp

lemma dec_val_replicate_0 [simp]: "dec_val (replicate n CHR ''0'') = 0"
  by (induction n) (simp_all add: dec_val_Cons digit_val_def chr_code_def)

lemma dec_val_less: "list_all c_isdigit ds \<Longrightarrow> dec_val ds < 10 ^ length ds"
proof (induction ds rule: rev_induct)
  case (snoc c ds)
  then have "dec_val ds < 10 ^ length ds" and "digit_val c < 10"
    by (simp_all add: digit_val_less)
  then show ?case by simp
qed simp

lemma dec_val_ge:
  assumes "c_isdigit c" and "c \<noteq> CHR ''0''"
  shows "10 ^ length ds \<le> dec_val (c # ds)"
proof -
  have "1 \<le> digit_val c"
  proof (rule ccontr)
    assume "\<not> 1 \<le> digit_val c"
    with assms(1) have "chr_code c = 48" by (auto simp: digit_val_def c_isdigit_def)
    also have "48 = chr_code CHR ''0''" by (simp add: chr_code_def)
    finally show False using assms(2) by (simp only: chr_code_inject)
  qed
  then show ?thesis by (simp add: dec_val_Cons le_SucI trans_le_add1)
qed

lemma dec_val_dropWhile_0 [simp]: "dec_val (dropWhile ((=) CHR ''0'') ds) = dec_val ds"
  by (induction ds) (auto simp: dec_val_Cons digit_val_def chr_code_def)

lemma show_nat_small: "n < 10 \<Longrightarrow> show_nat n = [digit_char n]"
  by (subst show_nat.simps) simp

lemma show_nat_big: "10 \<le> n \<Longrightarrow> show_nat n = show_nat (n div 10) @ [digit_char (n mod 10)]"
  by (subst show_nat.simps) simp

lemma show_nat_digits [simp]: "list_all c_isdigit (show_nat n)"
proof (induction n rule: show_nat.induct)
  case (1 n)
  then show ?case by (cases "n < 10") (simp_all add: show_nat_small show_nat_big)
qed

lemma show_nat_ne [simp]: "show_nat n \<noteq> []"
  by (cases "n < 10") (simp_all add: show_nat_small show_nat_big)

lemma dec_val_show_nat [simp]: "dec_val (show_nat n) = n"
proof (induction n rule: show_nat.induct)
  case (1 n)
  show ?case
  proof (cases "n < 10")
    case True
    then show ?thesis using dec_val_snoc [of "[]" "digit_char n"] by (simp add: show_nat_small)
  next
    case False
    then show ?thesis using "1.IH" by (simp add: show_nat_big)
  qed
qed

lemma show_nat_inject [simp]: "show_nat m = show_nat n \<longleftrightarrow> m = n"
  by (metis dec_val_show_nat)

lemma show_nat_head: "0 < n \<Longrightarrow> hd (show_nat n) \<noteq> CHR ''0''"
proof (induction n rule: show_nat.induct)
  case (1 n)
  show ?case
  proof (cases "n < 10")
    case True
    have "digit_char n \<noteq> digit_char 0" using True "1.prems" by (simp add: digit_char_inject)
    moreover have "digit_char 0 = CHR ''0''" by (simp add: digit_char_def char_of_def bit_simps)
    ultimately show ?thesis using True by (simp add: show_nat_small)
  next
    case False
    then show ?thesis using "1.IH" by (simp add: show_nat_big)
  qed
qed

section \<open>Ordered hashes\<close>

text \<open>
  A Qore hash keeps its keys in insertion order: an association list, where assigning an
  existing key replaces the value in place and a new key is appended.
\<close>

type_synonym 'v ohash = "(string \<times> 'v) list"

abbreviation hash_get :: "'v ohash \<Rightarrow> string \<Rightarrow> 'v option" where
  "hash_get h k \<equiv> map_of h k"

abbreviation hash_set :: "string \<Rightarrow> 'v \<Rightarrow> 'v ohash \<Rightarrow> 'v ohash" where
  "hash_set k v h \<equiv> AList.update k v h"

lemma hash_get_set [simp]: "hash_get (hash_set k v h) k' = (if k' = k then Some v else hash_get h k')"
  by (simp add: update_conv')

lemma hash_set_fresh: "hash_get h k = None \<Longrightarrow> hash_set k v h = h @ [(k, v)]"
  by (induction h) (auto split: if_splits)

lemma hash_keys_set: "map fst (hash_set k v h) = (if k \<in> set (map fst h) then map fst h else map fst h @ [k])"
  by (induction h) auto

section \<open>State machines\<close>

inductive reach :: "('s \<Rightarrow> bool) \<Rightarrow> ('s \<Rightarrow> 's \<Rightarrow> bool) \<Rightarrow> 's \<Rightarrow> bool"
  for init :: "'s \<Rightarrow> bool" and step :: "'s \<Rightarrow> 's \<Rightarrow> bool" where
  reach_init: "init s \<Longrightarrow> reach init step s"
| reach_step: "reach init step s \<Longrightarrow> step s t \<Longrightarrow> reach init step t"

locale transition_invariant =
  fixes init :: "'s \<Rightarrow> bool"
    and step :: "'s \<Rightarrow> 's \<Rightarrow> bool"
    and inv :: "'s \<Rightarrow> bool"
  assumes inv_init: "init s \<Longrightarrow> inv s"
    and inv_step: "inv s \<Longrightarrow> step s t \<Longrightarrow> inv t"
begin

lemma reachable_inv: "reach init step s \<Longrightarrow> inv s"
proof (induction rule: reach.induct)
  case (reach_init s)
  then show ?case by (rule inv_init)
next
  case (reach_step s t)
  then show ?case by (blast intro: inv_step)
qed

end

end
