(* ===== verification/Qore_Values.thy ===== *)
theory Qore_Values
  imports Prelude
begin

text \<open>
  The values that cross the driver: Qore values, the Oracle type codes of
  \<open>ocilib/oci_defs.h\<close>, dates, and the conversions of the Qore library, which are
  arguments of the definitions that use them.
\<close>

section \<open>Dates\<close>

record date_fields =
  d_year :: int
  d_month :: int
  d_day :: int
  d_hour :: int
  d_minute :: int
  d_second :: int
  d_us :: int

text \<open>
  A date is absolute in a zone (an offset, the server's zone or the local zone) or relative.
\<close>

datatype zone = LocalZone | ServerZone | OffsetZone int

datatype qdate = AbsDate zone date_fields | RelDate date_fields

section \<open>Qore values\<close>

text \<open>
  A double is its IEEE bit pattern; strings and binaries are byte sequences, a string with
  the name of its encoding; an object is the reference the driver holds.
\<close>

datatype qval =
    QNothing
  | QNull
  | QBool bool
  | QInt int
  | QFloat "64 word"
  | QNumber string
  | QString string string
  | QDate qdate
  | QBinary string
  | QList "qval list"
  | QHash "(string \<times> qval) list"
  | QObject nat

datatype qtype = NT_NOTHING | NT_NULL | NT_BOOLEAN | NT_INT | NT_FLOAT | NT_NUMBER | NT_STRING
  | NT_DATE | NT_BINARY | NT_LIST | NT_HASH | NT_OBJECT

fun qtype_of :: "qval \<Rightarrow> qtype" where
  "qtype_of QNothing = NT_NOTHING"
| "qtype_of QNull = NT_NULL"
| "qtype_of (QBool _) = NT_BOOLEAN"
| "qtype_of (QInt _) = NT_INT"
| "qtype_of (QFloat _) = NT_FLOAT"
| "qtype_of (QNumber _) = NT_NUMBER"
| "qtype_of (QString _ _) = NT_STRING"
| "qtype_of (QDate _) = NT_DATE"
| "qtype_of (QBinary _) = NT_BINARY"
| "qtype_of (QList _) = NT_LIST"
| "qtype_of (QHash _) = NT_HASH"
| "qtype_of (QObject _) = NT_OBJECT"

definition is_null_or_nothing :: "qval \<Rightarrow> bool" where
  "is_null_or_nothing v \<longleftrightarrow> v = QNothing \<or> v = QNull"

lemma is_null_or_nothing_simps [simp]:
  "is_null_or_nothing QNothing" "is_null_or_nothing QNull" "\<not> is_null_or_nothing (QInt i)"
  "\<not> is_null_or_nothing (QString s e)" "\<not> is_null_or_nothing (QBinary b)" "\<not> is_null_or_nothing (QFloat f)"
  "\<not> is_null_or_nothing (QDate d)" "\<not> is_null_or_nothing (QBool b')" "\<not> is_null_or_nothing (QNumber n)"
  "\<not> is_null_or_nothing (QList l)" "\<not> is_null_or_nothing (QHash h)" "\<not> is_null_or_nothing (QObject x)"
  by (simp_all add: is_null_or_nothing_def)

text \<open>Lookup in a Qore hash: a missing key is \<open>NOTHING\<close>.\<close>

definition key_value :: "qval ohash \<Rightarrow> string \<Rightarrow> qval" where
  "key_value h k = (case hash_get h k of None \<Rightarrow> QNothing | Some v \<Rightarrow> v)"

lemma key_value_set [simp]: "key_value (hash_set k v h) k' = (if k' = k then v else key_value h k')"
  by (simp add: key_value_def)

section \<open>Oracle type codes\<close>

datatype sqlt =
    SQLT_CHR | SQLT_NUM | SQLT_INT | SQLT_FLT | SQLT_STR | SQLT_VNU | SQLT_LNG | SQLT_DAT
  | SQLT_BFLOAT | SQLT_BDOUBLE | SQLT_BIN | SQLT_LBI | SQLT_UIN | SQLT_LVB | SQLT_AFC | SQLT_AVC
  | SQLT_IBFLOAT | SQLT_IBDOUBLE | SQLT_RDD | SQLT_NTY | SQLT_CLOB | SQLT_BLOB | SQLT_RSET | SQLT_NCO
  | SQLT_ODT | SQLT_DATE | SQLT_TIMESTAMP | SQLT_TIMESTAMP_TZ | SQLT_INTERVAL_YM | SQLT_INTERVAL_DS
  | SQLT_TIMESTAMP_LTZ | SQLT_other int

fun sqlt_code :: "sqlt \<Rightarrow> int" where
  "sqlt_code SQLT_CHR = 1"
| "sqlt_code SQLT_NUM = 2"
| "sqlt_code SQLT_INT = 3"
| "sqlt_code SQLT_FLT = 4"
| "sqlt_code SQLT_STR = 5"
| "sqlt_code SQLT_VNU = 6"
| "sqlt_code SQLT_LNG = 8"
| "sqlt_code SQLT_DAT = 12"
| "sqlt_code SQLT_BFLOAT = 21"
| "sqlt_code SQLT_BDOUBLE = 22"
| "sqlt_code SQLT_BIN = 23"
| "sqlt_code SQLT_LBI = 24"
| "sqlt_code SQLT_UIN = 68"
| "sqlt_code SQLT_LVB = 95"
| "sqlt_code SQLT_AFC = 96"
| "sqlt_code SQLT_AVC = 97"
| "sqlt_code SQLT_IBFLOAT = 100"
| "sqlt_code SQLT_IBDOUBLE = 101"
| "sqlt_code SQLT_RDD = 104"
| "sqlt_code SQLT_NTY = 108"
| "sqlt_code SQLT_CLOB = 112"
| "sqlt_code SQLT_BLOB = 113"
| "sqlt_code SQLT_RSET = 116"
| "sqlt_code SQLT_NCO = 122"
| "sqlt_code SQLT_ODT = 156"
| "sqlt_code SQLT_DATE = 184"
| "sqlt_code SQLT_TIMESTAMP = 187"
| "sqlt_code SQLT_TIMESTAMP_TZ = 188"
| "sqlt_code SQLT_INTERVAL_YM = 189"
| "sqlt_code SQLT_INTERVAL_DS = 190"
| "sqlt_code SQLT_TIMESTAMP_LTZ = 232"
| "sqlt_code (SQLT_other n) = n"

text \<open>
  The case labels \<open>SQLT_FLT\<close>, \<open>SQLT_BFLOAT\<close>, \<open>SQLT_BDOUBLE\<close>, \<open>SQLT_IBFLOAT\<close>, \<open>SQLT_IBDOUBLE\<close> and
  the time stamp labels appear together in every switch of the driver.
\<close>

definition is_float_type :: "sqlt \<Rightarrow> bool" where
  "is_float_type t \<longleftrightarrow> t \<in> {SQLT_FLT, SQLT_BFLOAT, SQLT_BDOUBLE, SQLT_IBFLOAT, SQLT_IBDOUBLE}"

definition is_int_type :: "sqlt \<Rightarrow> bool" where
  "is_int_type t \<longleftrightarrow> t \<in> {SQLT_INT, SQLT_UIN}"

definition is_timestamp_type :: "sqlt \<Rightarrow> bool" where
  "is_timestamp_type t \<longleftrightarrow> t \<in> {SQLT_TIMESTAMP, SQLT_TIMESTAMP_TZ, SQLT_TIMESTAMP_LTZ, SQLT_DATE}"

definition is_raw_type :: "sqlt \<Rightarrow> bool" where
  "is_raw_type t \<longleftrightarrow> t \<in> {SQLT_BIN, SQLT_LBI}"

lemmas type_class_defs = is_float_type_def is_int_type_def is_timestamp_type_def is_raw_type_def

end
