(* ===== verification/Decimal128.thy ===== *)
theory Decimal128
  imports Prelude
begin

text \<open>
  The numeric text conversions of the driver: the \<open>decimal128\<close> parser of the columnar
  result path (QoreOracleStatement.cpp, \<open>oracle_columnar_*\<close>) and the "optimal number"
  conversion of QoreOracleConnection.h.  A \<open>__int128\<close> is an \<open>int\<close> whose range every
  operation checks; overflow is undefined behaviour and is the outcome \<open>Undefined\<close>.
\<close>

unbundle bit_operations_syntax

section \<open>128-bit arithmetic\<close>

definition i128_ok :: "int \<Rightarrow> bool" where
  "i128_ok v \<longleftrightarrow> - (2 ^ 127) \<le> v \<and> v < 2 ^ 127"

definition i128_chk :: "int \<Rightarrow> int option" where
  "i128_chk v = (if i128_ok v then Some v else None)"

lemma i128_chk_Some [simp]: "i128_chk v = Some w \<longleftrightarrow> i128_ok v \<and> w = v"
  by (auto simp: i128_chk_def)

lemma i128_chk_None [simp]: "i128_chk v = None \<longleftrightarrow> \<not> i128_ok v"
  by (simp add: i128_chk_def)

definition oracle_columnar_decimal_metadata_supported :: "int \<Rightarrow> int \<Rightarrow> bool" where
  "oracle_columnar_decimal_metadata_supported precision scale \<longleftrightarrow>
     precision > 0 \<and> precision \<le> 38 \<and> scale \<ge> 0 \<and> scale \<le> precision"

definition oracle_columnar_decimal_abs :: "int \<Rightarrow> int option" where
  "oracle_columnar_decimal_abs v = (if v < 0 then i128_chk (- v) else Some v)"

text \<open>\<open>for (int32_t i = 0; i < exponent; ++i) rv *= 10;\<close>\<close>

fun pow10_loop :: "nat \<Rightarrow> int \<Rightarrow> int option" where
  "pow10_loop 0 rv = Some rv"
| "pow10_loop (Suc n) rv = Option.bind (i128_chk (rv * 10)) (pow10_loop n)"

definition oracle_columnar_decimal_pow10 :: "int \<Rightarrow> int option" where
  "oracle_columnar_decimal_pow10 exponent = pow10_loop (nat exponent) 1"

text \<open>\<open>while (value >= 10) { value /= 10; ++rv; }\<close>\<close>

function precision_loop :: "int \<Rightarrow> int \<Rightarrow> int" where
  "precision_loop v rv = (if 10 \<le> v then precision_loop (v div 10) (rv + 1) else rv)"
  by pat_completeness auto
termination
  by (relation "measure (\<lambda>(v, rv). nat v)") auto

declare precision_loop.simps [simp del]

definition oracle_columnar_decimal_precision :: "int \<Rightarrow> int option" where
  "oracle_columnar_decimal_precision v =
     map_option (\<lambda>a. precision_loop a 1) (oracle_columnar_decimal_abs v)"

section \<open>Storage\<close>

record decimal128 =
  d128_lo :: "64 word"
  d128_hi :: "64 word"

definition oracle_columnar_decimal_storage :: "int \<Rightarrow> decimal128" where
  "oracle_columnar_decimal_storage v =
     (let bits = (word_of_int v :: 128 word)
      in \<lparr>d128_lo = ucast bits, d128_hi = ucast (drop_bit 64 bits)\<rparr>)"

definition decimal128_value :: "decimal128 \<Rightarrow> int" where
  "decimal128_value d = sint (d128_hi d) * 2 ^ 64 + uint (d128_lo d)"

section \<open>Parsing a NUMBER text\<close>

abbreviation decimal_error :: "string \<Rightarrow> exn" where
  "decimal_error what \<equiv> Exn ''ORACLE-COLUMNAR-DECIMAL-ERROR'' what"

definition trim_spaces :: "string \<Rightarrow> string" where
  "trim_spaces s = rev (dropWhile c_isspace (rev (dropWhile c_isspace s)))"

definition parse_sign :: "string \<Rightarrow> bool \<times> string" where
  "parse_sign s = (case s of
      [] \<Rightarrow> (False, [])
    | c # cs \<Rightarrow> if c = CHR ''+'' \<or> c = CHR ''-'' then (c = CHR ''-'', cs) else (False, s))"

record mantissa =
  seen_digit :: bool
  seen_dot :: bool
  fractional_digits :: int
  digits :: string

fun scan_mantissa :: "mantissa \<Rightarrow> string \<Rightarrow> mantissa \<times> string" where
  "scan_mantissa st [] = (st, [])"
| "scan_mantissa st (c # cs) =
     (if c_isdigit c then
        scan_mantissa (st\<lparr>seen_digit := True, digits := digits st @ [c],
          fractional_digits := (if seen_dot st then fractional_digits st + 1 else fractional_digits st)\<rparr>) cs
      else if c = CHR ''.'' \<and> \<not> seen_dot st then scan_mantissa (st\<lparr>seen_dot := True\<rparr>) cs
      else (st, c # cs))"

fun scan_exponent :: "int \<Rightarrow> string \<Rightarrow> (int \<times> string) outcome" where
  "scan_exponent e [] = Value (e, [])"
| "scan_exponent e (c # cs) =
     (if c_isdigit c then
        let e' = e * 10 + int (digit_val c)
        in if e' > 76 then Raised (decimal_error ''exponent is too large'') else scan_exponent e' cs
      else Value (e, c # cs))"

definition parse_exponent :: "string \<Rightarrow> (int \<times> string) outcome" where
  "parse_exponent s = (case s of
      [] \<Rightarrow> Value (0, [])
    | c # cs \<Rightarrow>
        if c = CHR ''e'' \<or> c = CHR ''E'' then
          let (exponent_negative, t) = parse_sign cs
          in if t = [] \<or> \<not> c_isdigit (hd t) then Raised (decimal_error ''invalid exponent'')
             else bind_outcome (scan_exponent 0 t)
                    (\<lambda>(e, u). Value (if exponent_negative then - e else e, u))
        else Value (0, s))"

text \<open>\<open>unscaled = (unscaled * 10) + (digits[i] - '0')\<close> over the significant digits.\<close>

fun accumulate_digits :: "int \<Rightarrow> string \<Rightarrow> int option" where
  "accumulate_digits u [] = Some u"
| "accumulate_digits u (c # cs) =
     Option.bind (i128_chk (u * 10)) (\<lambda>v. Option.bind (i128_chk (v + int (digit_val c))) (\<lambda>w. accumulate_digits w cs))"

text \<open>
  Bringing \<open>unscaled\<close> from the scale of the text to the declared scale.  The C++ \<open>%\<close> and
  \<open>/\<close> truncate; the remainder is tested for zero only, and the quotient is then exact.
\<close>

definition rescale :: "int \<Rightarrow> int \<Rightarrow> int \<Rightarrow> int outcome" where
  "rescale unscaled source_scale target_scale =
     (if source_scale < target_scale then
        of_checked (Option.bind (oracle_columnar_decimal_pow10 (target_scale - source_scale))
                      (\<lambda>f. i128_chk (unscaled * f)))
      else if source_scale > target_scale then
        bind_outcome (of_checked (oracle_columnar_decimal_pow10 (source_scale - target_scale)))
          (\<lambda>divisor. if unscaled mod divisor \<noteq> 0 then Raised (decimal_error ''without losing precision'')
                     else Value (unscaled div divisor))
      else Value unscaled)"

text \<open>The arithmetic half of the parser: digits, their scale and the sign to the stored value.\<close>

definition decimal_from_digits :: "bool \<Rightarrow> string \<Rightarrow> int \<Rightarrow> int \<Rightarrow> int \<Rightarrow> decimal128 outcome" where
  "decimal_from_digits negative ds0 source_scale0 target_precision target_scale =
     (let ds = (if source_scale0 < 0 then ds0 @ replicate (nat (- source_scale0)) CHR ''0'' else ds0);
          source_scale = max source_scale0 0;
          sig = dropWhile ((=) CHR ''0'') ds
      in if sig = [] then Value (oracle_columnar_decimal_storage 0)
         else if length sig > 38 then Raised (decimal_error ''exceeds decimal128 maximum precision 38'')
         else bind_outcome (of_checked (accumulate_digits 0 sig)) (\<lambda>u.
              bind_outcome (of_checked (if negative then i128_chk (- u) else Some u)) (\<lambda>unscaled.
              bind_outcome (rescale unscaled source_scale target_scale) (\<lambda>v.
              bind_outcome (of_checked (oracle_columnar_decimal_precision v)) (\<lambda>p.
                if p > target_precision then Raised (decimal_error ''value exceeds declared precision'')
                else Value (oracle_columnar_decimal_storage v))))))"

definition oracle_columnar_parse_decimal128 :: "string option \<Rightarrow> int \<Rightarrow> int \<Rightarrow> decimal128 outcome" where
  "oracle_columnar_parse_decimal128 input target_precision target_scale =
     (case input of
        None \<Rightarrow> Raised (decimal_error ''value is not available'')
      | Some s \<Rightarrow>
          let t = trim_spaces s
          in if t = [] then Raised (decimal_error ''empty value'')
             else let (negative, u) = parse_sign t;
                      (m, r) = scan_mantissa \<lparr>seen_digit = False, seen_dot = False,
                                              fractional_digits = 0, digits = []\<rparr> u
                  in if \<not> seen_digit m then Raised (decimal_error ''expected at least one digit'')
                     else bind_outcome (parse_exponent r) (\<lambda>(exponent, rest).
                       if rest \<noteq> [] then Raised (decimal_error ''unexpected character'')
                       else decimal_from_digits negative (digits m) (fractional_digits m - exponent)
                              target_precision target_scale))"

section \<open>Integers\<close>

text \<open>
  The C library's \<open>strtoll(str, &end, 10)\<close>: the value (clamped), the text at \<open>end\<close> and
  whether \<open>errno\<close> is \<open>ERANGE\<close>.
\<close>

definition i64_ok :: "int \<Rightarrow> bool" where
  "i64_ok v \<longleftrightarrow> - (2 ^ 63) \<le> v \<and> v < 2 ^ 63"

definition c_strtoll :: "string \<Rightarrow> int \<times> string \<times> bool" where
  "c_strtoll s =
     (let (negative, u) = parse_sign (dropWhile c_isspace s);
          ds = takeWhile c_isdigit u;
          v = (if negative then - int (dec_val ds) else int (dec_val ds))
      in if ds = [] then (0, s, False)
         else if i64_ok v then (v, dropWhile c_isdigit u, False)
         else (if negative then - (2 ^ 63) else 2 ^ 63 - 1, dropWhile c_isdigit u, True))"

definition oracle_columnar_parse_int64 :: "string option \<Rightarrow> int option" where
  "oracle_columnar_parse_int64 str =
     (case str of
        None \<Rightarrow> None
      | Some s \<Rightarrow>
          if s = [] \<or> CHR ''.'' \<in> set s \<or> CHR ''e'' \<in> set s \<or> CHR ''E'' \<in> set s then None
          else let (rv, end, erange) = c_strtoll s
               in if erange \<or> end \<noteq> [] then None else Some rv)"

text \<open>\<open>strcmp(a, b) <= 0\<close>, comparing bytes as \<open>unsigned char\<close>.\<close>

fun strcmp_le :: "string \<Rightarrow> string \<Rightarrow> bool" where
  "strcmp_le [] bs = True"
| "strcmp_le (a # as) [] = False"
| "strcmp_le (a # as) (b # bs) = (chr_code a < chr_code b \<or> (a = b \<and> strcmp_le as bs))"

datatype number_value = NumInt int | NumNumber string

definition getNumberOptimal :: "string \<Rightarrow> number_value" where
  "getNumberOptimal str =
     (let sign = (str \<noteq> [] \<and> hd str = CHR ''-'');
          len = length str - (if sign then 1 else 0)
      in if CHR ''.'' \<notin> set str
            \<and> (len < 19
               \<or> (len = 19
                  \<and> ((\<not> sign \<and> strcmp_le str ''9223372036854775807'')
                     \<or> (sign \<and> strcmp_le str ''-9223372036854775808''))))
         then NumInt (fst (c_strtoll str))
         else NumNumber str)"

section \<open>Arithmetic lemmas\<close>

lemma i128_ok_pow10: "i128_ok (10 ^ n) \<longleftrightarrow> n \<le> 38"
proof
  assume "i128_ok (10 ^ n)"
  show "n \<le> 38"
  proof (rule ccontr)
    assume "\<not> n \<le> 38"
    then have "(10::int) ^ 39 \<le> 10 ^ n" by (intro power_increasing) auto
    with \<open>i128_ok (10 ^ n)\<close> show False by (simp add: i128_ok_def)
  qed
next
  assume "n \<le> 38"
  then have "(10::int) ^ n \<le> 10 ^ 38" by (intro power_increasing) auto
  moreover have "(0::int) \<le> 10 ^ n" and "(10::int) ^ 38 < 2 ^ 127" by simp_all
  ultimately show "i128_ok (10 ^ n)" unfolding i128_ok_def by linarith
qed

lemma pow10_loop_eq:
  "1 \<le> rv \<Longrightarrow> pow10_loop n rv = (if n = 0 \<or> i128_ok (rv * 10 ^ n) then Some (rv * 10 ^ n) else None)"
proof (induction n arbitrary: rv)
  case 0
  then show ?case by simp
next
  case (Suc n)
  show ?case
  proof (cases "i128_ok (rv * 10)")
    case True
    have e: "(rv * 10) * 10 ^ n = rv * 10 ^ Suc n" by simp
    have "pow10_loop n (rv * 10) =
        (if n = 0 \<or> i128_ok (rv * 10 ^ Suc n) then Some (rv * 10 ^ Suc n) else None)"
      unfolding e [symmetric] using Suc.prems by (intro Suc.IH) simp
    moreover have "n = 0 \<Longrightarrow> i128_ok (rv * 10 ^ Suc n)" using True by simp
    ultimately show ?thesis using True by (simp add: i128_chk_def del: power_Suc)
  next
    case False
    have "rv * 10 \<le> rv * 10 ^ Suc n" using Suc.prems by simp
    moreover have "2 ^ 127 \<le> rv * 10" using False Suc.prems by (auto simp: i128_ok_def)
    ultimately have "2 ^ 127 \<le> rv * 10 ^ Suc n" by linarith
    then have "\<not> i128_ok (rv * 10 ^ Suc n)" unfolding i128_ok_def by linarith
    then show ?thesis using False by (simp add: i128_chk_def del: power_Suc)
  qed
qed

lemma pow10_eq: "oracle_columnar_decimal_pow10 e = (if e \<le> 38 then Some (10 ^ nat e) else None)"
  by (auto simp: oracle_columnar_decimal_pow10_def pow10_loop_eq i128_ok_pow10)

lemma precision_loop_ge: "rv \<le> precision_loop v rv"
proof (induction v rv rule: precision_loop.induct)
  case (1 v rv)
  then show ?case by (cases "10 \<le> v") (simp_all add: precision_loop.simps [of v rv])
qed

lemma div10_less_iff: "(v::int) div 10 < m \<longleftrightarrow> v < m * 10"
  by presburger

lemma precision_loop_le:
  "0 \<le> v \<Longrightarrow> precision_loop v rv \<le> rv + int n \<longleftrightarrow> v < 10 ^ Suc n"
proof (induction n arbitrary: v rv)
  case 0
  then show ?case
    using precision_loop_ge [of "rv + 1" "v div 10"] by (simp add: precision_loop.simps [of v rv])
next
  case (Suc n)
  show ?case
  proof (cases "10 \<le> v")
    case True
    have "precision_loop (v div 10) (rv + 1) \<le> rv + 1 + int n \<longleftrightarrow> v div 10 < 10 ^ Suc n"
      using Suc by simp
    moreover have "v div 10 < 10 ^ Suc n \<longleftrightarrow> v < 10 ^ Suc (Suc n)"
      unfolding power_Suc2 [of 10 "Suc n"] by (rule div10_less_iff)
    ultimately show ?thesis
      using True by (simp add: precision_loop.simps [of v rv] add.assoc del: power_Suc)
  next
    case False
    have "(10::int) ^ 1 \<le> 10 ^ Suc (Suc n)" by (intro power_increasing) auto
    with False show ?thesis by (simp add: precision_loop.simps [of v rv] del: power_Suc)
  qed
qed

lemma precision_le:
  assumes "oracle_columnar_decimal_precision v = Some q" and "0 < p"
  shows "q \<le> p \<longleftrightarrow> \<bar>v\<bar> < 10 ^ nat p"
proof -
  from assms(1) have q: "q = precision_loop \<bar>v\<bar> 1"
    by (auto simp: oracle_columnar_decimal_precision_def oracle_columnar_decimal_abs_def split: if_splits)
  obtain n where n: "p = 1 + int n" using assms(2) by (metis add.commute zle_iff_zadd zless_imp_add1_zle add_0)
  then have "nat p = Suc n" by simp
  with n q show ?thesis using precision_loop_le [of "\<bar>v\<bar>" 1 n] by simp
qed

lemma precision_Some: "v < 2 ^ 127 \<Longrightarrow> - (2 ^ 127) < v \<Longrightarrow> \<exists>q. oracle_columnar_decimal_precision v = Some q"
  by (simp add: oracle_columnar_decimal_precision_def oracle_columnar_decimal_abs_def i128_chk_def i128_ok_def)

lemma storage_value:
  assumes "i128_ok v"
  shows "decimal128_value (oracle_columnar_decimal_storage v) = v"
proof -
  let ?b = "word_of_int v :: 128 word"
  have lo: "uint (ucast ?b :: 64 word) = v mod 2 ^ 64"
    by (simp add: unsigned_ucast_eq unsigned_of_int take_bit_eq_mod mod_mod_cancel)
  define y where "y = v div 2 ^ 64"
  have y: "- (2 ^ 63) \<le> y" "y < 2 ^ 63"
    using assms by (auto simp: y_def i128_ok_def)
  have "uint (drop_bit 64 ?b) = drop_bit 64 (take_bit 128 v)"
    by (simp only: unsigned_drop_bit_eq unsigned_of_int) simp
  also have "\<dots> = take_bit 64 y"
    unfolding drop_bit_take_bit y_def by (simp add: drop_bit_eq_div)
  finally have "uint (drop_bit 64 ?b) = take_bit 64 y" .
  then have "uint (ucast (drop_bit 64 ?b) :: 64 word) = take_bit 64 y"
    by (simp add: unsigned_ucast_eq)
  then have "sint (ucast (drop_bit 64 ?b) :: 64 word) = signed_take_bit 63 (take_bit 64 y)"
    by (simp add: sint_uint)
  also have "\<dots> = take_bit 64 (y + 2 ^ 63) - 2 ^ 63"
    by (simp add: signed_take_bit_eq_take_bit_shift take_bit_eq_mod mod_add_left_eq)
  also have "\<dots> = y"
    unfolding take_bit_eq_mod using y by (subst mod_pos_pos_trivial) auto
  finally have hi: "sint (ucast (drop_bit 64 ?b) :: 64 word) = v div 2 ^ 64"
    by (simp add: y_def)
  show ?thesis
    by (simp add: decimal128_value_def oracle_columnar_decimal_storage_def Let_def lo hi)
qed

section \<open>The texts of numbers\<close>

text \<open>
  The abstract specification of the parser: a number text is white space around an optional
  sign, digits with at most one dot and at least one digit, and an optional exponent.
\<close>

record number_text =
  nt_pre :: string
  nt_sign :: "char option"
  nt_int :: string
  nt_frac :: "string option"
  nt_exp :: "(char \<times> char option \<times> string) option"
  nt_post :: string

definition sign_string :: "char option \<Rightarrow> string" where
  "sign_string s = (case s of None \<Rightarrow> [] | Some c \<Rightarrow> [c])"

definition sign_ok :: "char option \<Rightarrow> bool" where
  "sign_ok s \<longleftrightarrow> s = None \<or> s = Some CHR ''+'' \<or> s = Some CHR ''-''"

definition sign_neg :: "char option \<Rightarrow> bool" where
  "sign_neg s \<longleftrightarrow> s = Some CHR ''-''"

definition frac_digits :: "number_text \<Rightarrow> string" where
  "frac_digits nt = (case nt_frac nt of None \<Rightarrow> [] | Some f \<Rightarrow> f)"

definition frac_string :: "number_text \<Rightarrow> string" where
  "frac_string nt = (case nt_frac nt of None \<Rightarrow> [] | Some f \<Rightarrow> CHR ''.'' # f)"

definition exp_string :: "number_text \<Rightarrow> string" where
  "exp_string nt = (case nt_exp nt of None \<Rightarrow> [] | Some (c, s, ds) \<Rightarrow> c # sign_string s @ ds)"

definition nt_exponent :: "number_text \<Rightarrow> int" where
  "nt_exponent nt = (case nt_exp nt of None \<Rightarrow> 0
     | Some (c, s, ds) \<Rightarrow> if sign_neg s then - int (dec_val ds) else int (dec_val ds))"

definition number_text_string :: "number_text \<Rightarrow> string" where
  "number_text_string nt =
     nt_pre nt @ sign_string (nt_sign nt) @ nt_int nt @ frac_string nt @ exp_string nt @ nt_post nt"

definition number_text_ok :: "number_text \<Rightarrow> bool" where
  "number_text_ok nt \<longleftrightarrow>
     list_all c_isspace (nt_pre nt) \<and> list_all c_isspace (nt_post nt) \<and> sign_ok (nt_sign nt)
     \<and> list_all c_isdigit (nt_int nt) \<and> list_all c_isdigit (frac_digits nt)
     \<and> nt_int nt @ frac_digits nt \<noteq> []
     \<and> (case nt_exp nt of None \<Rightarrow> True
        | Some (c, s, ds) \<Rightarrow> (c = CHR ''e'' \<or> c = CHR ''E'') \<and> sign_ok s \<and> ds \<noteq> [] \<and> list_all c_isdigit ds)"

definition nt_digits :: "number_text \<Rightarrow> string" where
  "nt_digits nt = nt_int nt @ frac_digits nt"

definition nt_scale :: "number_text \<Rightarrow> int" where
  "nt_scale nt = int (length (frac_digits nt)) - nt_exponent nt"

definition number_text_value :: "number_text \<Rightarrow> rat" where
  "number_text_value nt =
     (if sign_neg (nt_sign nt) then - 1 else 1) * of_nat (dec_val (nt_digits nt)) * 10 powi (- nt_scale nt)"

section \<open>Scanner lemmas\<close>

lemma c_class_consts [simp]:
  "\<not> c_isdigit CHR ''+''" "\<not> c_isdigit CHR ''-''" "\<not> c_isdigit CHR ''.''"
  "\<not> c_isdigit CHR ''e''" "\<not> c_isdigit CHR ''E''" "c_isdigit CHR ''0''"
  "\<not> c_isspace CHR ''+''" "\<not> c_isspace CHR ''-''" "\<not> c_isspace CHR ''.''"
  "\<not> c_isspace CHR ''e''" "\<not> c_isspace CHR ''E''"
  by (simp_all add: c_isdigit_def c_isspace_def chr_code_def)

lemma dropWhile_all_append: "list_all P xs \<Longrightarrow> dropWhile P (xs @ ys) = dropWhile P ys"
  by (induction xs) auto

lemma trim_spaces_core:
  assumes "list_all c_isspace pre" "list_all c_isspace post"
    and "core \<noteq> []" "\<not> c_isspace (hd core)" "\<not> c_isspace (last core)"
  shows "trim_spaces (pre @ core @ post) = core"
proof -
  have "dropWhile c_isspace (pre @ core @ post) = core @ post"
    using assms by (cases core) (simp_all add: dropWhile_all_append)
  moreover have "dropWhile c_isspace (rev post @ rev core) = rev core"
    using assms by (cases core rule: rev_cases) (simp_all add: dropWhile_all_append list_all_iff)
  ultimately show ?thesis by (simp add: trim_spaces_def)
qed

lemma trim_spaces_split:
  "\<exists>pre post. list_all c_isspace pre \<and> list_all c_isspace post \<and> s = pre @ trim_spaces s @ post"
proof (intro exI conjI)
  let ?t = "dropWhile c_isspace s"
  show "list_all c_isspace (takeWhile c_isspace s)"
    by (auto simp: list_all_iff dest: set_takeWhileD)
  show "list_all c_isspace (rev (takeWhile c_isspace (rev ?t)))"
    by (auto simp: list_all_iff dest: set_takeWhileD)
  have "rev ?t = takeWhile c_isspace (rev ?t) @ dropWhile c_isspace (rev ?t)" by simp
  then have t: "?t = rev (dropWhile c_isspace (rev ?t)) @ rev (takeWhile c_isspace (rev ?t))"
    by (metis rev_append rev_rev_ident)
  have "s = takeWhile c_isspace s @ ?t" by simp
  with t show "s = takeWhile c_isspace s @ trim_spaces s @ rev (takeWhile c_isspace (rev ?t))"
    unfolding trim_spaces_def by metis
qed

lemma parse_sign_sound:
  "parse_sign s = (neg, r) \<Longrightarrow> \<exists>sg. sign_ok sg \<and> s = sign_string sg @ r \<and> neg = sign_neg sg"
proof (cases s)
  case Nil
  assume "parse_sign s = (neg, r)"
  with Nil show ?thesis
    by (intro exI [of _ None]) (simp add: parse_sign_def sign_ok_def sign_neg_def sign_string_def)
next
  case (Cons c cs)
  assume "parse_sign s = (neg, r)"
  with Cons show ?thesis
    by (intro exI [of _ "if c = CHR ''+'' \<or> c = CHR ''-'' then Some c else None"])
       (auto simp: parse_sign_def sign_ok_def sign_neg_def sign_string_def split: if_splits)
qed

lemma parse_sign_complete:
  "sign_ok sg \<Longrightarrow> r = [] \<or> (hd r \<noteq> CHR ''+'' \<and> hd r \<noteq> CHR ''-'') \<Longrightarrow>
     parse_sign (sign_string sg @ r) = (sign_neg sg, r)"
  by (cases r) (auto simp: parse_sign_def sign_ok_def sign_neg_def sign_string_def)

lemma scan_mantissa_digits:
  "list_all c_isdigit ds \<Longrightarrow>
     scan_mantissa st (ds @ r) =
       scan_mantissa (st\<lparr>seen_digit := seen_digit st \<or> ds \<noteq> [], digits := digits st @ ds,
         fractional_digits := fractional_digits st + (if seen_dot st then int (length ds) else 0)\<rparr>) r"
  by (induction ds arbitrary: st) (auto simp: add.assoc)

lemma scan_mantissa_stop:
  "r = [] \<or> (\<not> c_isdigit (hd r) \<and> (hd r \<noteq> CHR ''.'' \<or> seen_dot st)) \<Longrightarrow> scan_mantissa st r = (st, r)"
  by (cases r) auto

lemma scan_mantissa_split:
  "\<exists>ds r'. list_all c_isdigit ds \<and> r = ds @ r' \<and> (r' = [] \<or> \<not> c_isdigit (hd r'))"
  by (rule exI [of _ "takeWhile c_isdigit r"], rule exI [of _ "dropWhile c_isdigit r"])
     (metis hd_dropWhile list_all_iff set_takeWhileD takeWhile_dropWhile_id dropWhile_eq_Nil_conv)

abbreviation mantissa0 :: mantissa where
  "mantissa0 \<equiv> \<lparr>seen_digit = False, seen_dot = False, fractional_digits = 0, digits = []\<rparr>"

lemma scan_mantissa_complete:
  assumes "list_all c_isdigit ip" "list_all c_isdigit fp" "r = [] \<or> (\<not> c_isdigit (hd r) \<and> hd r \<noteq> CHR ''.'')"
  shows "scan_mantissa mantissa0 (ip @ r) =
           (\<lparr>seen_digit = ip \<noteq> [], seen_dot = False, fractional_digits = 0, digits = ip\<rparr>, r)"
    and "scan_mantissa mantissa0 (ip @ CHR ''.'' # fp @ r) =
           (\<lparr>seen_digit = ip @ fp \<noteq> [], seen_dot = True, fractional_digits = int (length fp), digits = ip @ fp\<rparr>, r)"
  using assms by (auto simp: scan_mantissa_digits scan_mantissa_stop)

lemma scan_mantissa_sound:
  assumes "scan_mantissa mantissa0 s = (m, r)"
  shows "\<exists>ip fo. list_all c_isdigit ip \<and> (case fo of None \<Rightarrow> True | Some f \<Rightarrow> list_all c_isdigit f)
     \<and> s = ip @ (case fo of None \<Rightarrow> [] | Some f \<Rightarrow> CHR ''.'' # f) @ r
     \<and> digits m = ip @ (case fo of None \<Rightarrow> [] | Some f \<Rightarrow> f)
     \<and> fractional_digits m = int (length (case fo of None \<Rightarrow> [] | Some f \<Rightarrow> f))
     \<and> (seen_digit m \<longleftrightarrow> digits m \<noteq> [])"
proof -
  obtain ip r1 where 1: "list_all c_isdigit ip" "s = ip @ r1" "r1 = [] \<or> \<not> c_isdigit (hd r1)"
    using scan_mantissa_split by blast
  show ?thesis
  proof (cases "r1 = [] \<or> hd r1 \<noteq> CHR ''.''")
    case True
    with 1 assms show ?thesis
      by (intro exI [of _ ip] exI [of _ None]) (auto simp: scan_mantissa_digits scan_mantissa_stop)
  next
    case False
    then obtain r2 where r2: "r1 = CHR ''.'' # r2" by (cases r1) auto
    obtain fp r3 where 3: "list_all c_isdigit fp" "r2 = fp @ r3" "r3 = [] \<or> \<not> c_isdigit (hd r3)"
      using scan_mantissa_split by blast
    from 1 r2 3 assms show ?thesis
      by (intro exI [of _ ip] exI [of _ "Some fp"]) (auto simp: scan_mantissa_digits scan_mantissa_stop)
  qed
qed

lemma dec_val_append_le: "dec_val xs \<le> dec_val (xs @ ys)"
  by (simp add: dec_val_append) (simp add: trans_le_add1)

lemma scan_exponent_complete:
  assumes "list_all c_isdigit ds" "dec_val (ps @ ds) \<le> 76"
  shows "scan_exponent (int (dec_val ps)) ds = Value (int (dec_val (ps @ ds)), [])"
  using assms
proof (induction ds arbitrary: ps)
  case Nil
  then show ?case by simp
next
  case (Cons c cs)
  have "dec_val (ps @ [c]) \<le> dec_val ((ps @ [c]) @ cs)" by (rule dec_val_append_le)
  with Cons.prems have le: "dec_val (ps @ [c]) \<le> 76" by simp
  have e: "int (dec_val ps) * 10 + int (digit_val c) = int (dec_val (ps @ [c]))" by simp
  have "scan_exponent (int (dec_val (ps @ [c]))) cs = Value (int (dec_val ((ps @ [c]) @ cs)), [])"
    using Cons.prems by (intro Cons.IH) auto
  with le Cons.prems show ?case
    unfolding scan_exponent.simps e Let_def by simp
qed

lemma scan_exponent_sound:
  "scan_exponent (int (dec_val ps)) t = Value (e, r) \<Longrightarrow>
     \<exists>ds. list_all c_isdigit ds \<and> t = ds @ r \<and> e = int (dec_val (ps @ ds)) \<and> (r = [] \<or> \<not> c_isdigit (hd r))"
proof (induction t arbitrary: ps)
  case Nil
  then show ?case by auto
next
  case (Cons c cs)
  have e: "int (dec_val ps) * 10 + int (digit_val c) = int (dec_val (ps @ [c]))" by simp
  show ?case
  proof (cases "c_isdigit c")
    case True
    with Cons.prems have "scan_exponent (int (dec_val (ps @ [c]))) cs = Value (e, r)"
      unfolding scan_exponent.simps e Let_def by (simp split: if_splits)
    from Cons.IH [OF this] obtain ds where
      "list_all c_isdigit ds" "cs = ds @ r" "e = int (dec_val ((ps @ [c]) @ ds))" "r = [] \<or> \<not> c_isdigit (hd r)"
      by blast
    with True show ?thesis by (intro exI [of _ "c # ds"]) simp
  next
    case False
    with Cons.prems show ?thesis by (intro exI [of _ "[]"]) auto
  qed
qed

section \<open>The arithmetic half\<close>

lemma accumulate_digits_eq:
  assumes "list_all c_isdigit ds" "0 \<le> u" "u * 10 ^ length ds + int (dec_val ds) < 2 ^ 127"
  shows "accumulate_digits u ds = Some (u * 10 ^ length ds + int (dec_val ds))"
  using assms
proof (induction ds arbitrary: u)
  case Nil
  then show ?case by simp
next
  case (Cons c cs)
  let ?w = "u * 10 + int (digit_val c)"
  have eq: "u * 10 ^ length (c # cs) + int (dec_val (c # cs)) = ?w * 10 ^ length cs + int (dec_val cs)"
    by (simp add: dec_val_Cons algebra_simps)
  have "?w \<le> ?w * 10 ^ length cs" using Cons.prems(2) by (simp add: mult_le_cancel_left1)
  with Cons.prems(3) have "?w < 2 ^ 127" unfolding eq by linarith
  with Cons.prems(2) have "i128_ok ?w" "i128_ok (u * 10)" by (auto simp: i128_ok_def)
  moreover have "accumulate_digits ?w cs = Some (?w * 10 ^ length cs + int (dec_val cs))"
    using Cons.prems unfolding eq by (intro Cons.IH) auto
  ultimately show ?case unfolding eq by (simp add: i128_chk_def)
qed

lemma accumulate_significant:
  assumes "list_all c_isdigit ds" "length ds \<le> 38"
  shows "accumulate_digits 0 ds = Some (int (dec_val ds))" and "int (dec_val ds) < 10 ^ 38"
proof -
  have "dec_val ds < 10 ^ length ds" using assms(1) by (rule dec_val_less)
  also have "\<dots> \<le> (10 :: nat) ^ 38" using assms(2) by (intro power_increasing) auto
  finally have "int (dec_val ds) < int (10 ^ 38)" by (simp only: of_nat_less_iff)
  then show 1: "int (dec_val ds) < 10 ^ 38" by simp
  then have "int (dec_val ds) < 2 ^ 127" by simp
  with assms(1) show "accumulate_digits 0 ds = Some (int (dec_val ds))"
    using accumulate_digits_eq [of ds 0] by simp
qed

lemma powi_int: "0 \<le> k \<Longrightarrow> (10 :: rat) powi k = of_int (10 ^ nat k)"
  by (simp add: power_int_def)

lemma rescale_sound:
  assumes "rescale u ss ts = Value v"
  shows "rat_of_int v = rat_of_int u * 10 powi (ts - ss)"
proof -
  consider "ss < ts" | "ss > ts" | "ss = ts" by linarith
  then show ?thesis
  proof cases
    case 1
    with assms have "v = u * 10 ^ nat (ts - ss)"
      by (auto simp: rescale_def pow10_eq bind_eq_Some_conv split: if_splits)
    with 1 show ?thesis using powi_int [of "ts - ss"] by simp
  next
    case 2
    with assms have m: "u mod 10 ^ nat (ss - ts) = 0" and v: "v = u div 10 ^ nat (ss - ts)"
      by (auto simp: rescale_def pow10_eq split: if_splits)
    from m v have "u = v * 10 ^ nat (ss - ts)" by auto
    then have "rat_of_int u = rat_of_int v * rat_of_int (10 ^ nat (ss - ts))"
      by (metis of_int_mult)
    also have "rat_of_int (10 ^ nat (ss - ts)) = 10 powi (ss - ts)"
      using 2 powi_int [of "ss - ts"] by simp
    finally have "rat_of_int u * 10 powi (ts - ss) = rat_of_int v * (10 powi (ss - ts) * 10 powi (ts - ss))"
      by simp
    also have "(10 :: rat) powi (ss - ts) * 10 powi (ts - ss) = 1"
      by (simp flip: power_int_add)
    finally show ?thesis by simp
  next
    case 3
    with assms show ?thesis by (simp add: rescale_def)
  qed
qed

lemma rescale_complete:
  assumes "rat_of_int v = rat_of_int u * 10 powi (ts - ss)" "i128_ok v" "ts - ss \<le> 38" "ss - ts \<le> 38"
  shows "rescale u ss ts = Value v"
proof -
  consider "ss < ts" | "ss > ts" | "ss = ts" by linarith
  then show ?thesis
  proof cases
    case 1
    with assms(1) have "rat_of_int v = rat_of_int (u * 10 ^ nat (ts - ss))"
      using powi_int [of "ts - ss"] by simp
    then have "v = u * 10 ^ nat (ts - ss)" by (simp only: of_int_eq_iff)
    with 1 assms show ?thesis by (simp add: rescale_def pow10_eq i128_chk_def)
  next
    case 2
    have "rat_of_int v * 10 powi (ss - ts) = rat_of_int u * (10 powi (ts - ss) * 10 powi (ss - ts))"
      using assms(1) by simp
    also have "(10 :: rat) powi (ts - ss) * 10 powi (ss - ts) = 1"
      by (simp flip: power_int_add)
    finally have "rat_of_int (v * 10 ^ nat (ss - ts)) = rat_of_int u"
      using 2 powi_int [of "ss - ts"] by simp
    then have "u = v * 10 ^ nat (ss - ts)" by (simp only: of_int_eq_iff)
    with 2 assms show ?thesis by (simp add: rescale_def pow10_eq)
  next
    case 3
    with assms(1) have "v = u" by simp
    with 3 show ?thesis by (simp add: rescale_def)
  qed
qed

text \<open>The digits after padding, and what they stand for.\<close>

definition padded_digits :: "string \<Rightarrow> int \<Rightarrow> string" where
  "padded_digits ds sc = (if sc < 0 then ds @ replicate (nat (- sc)) CHR ''0'' else ds)"

definition significant_digits :: "string \<Rightarrow> int \<Rightarrow> string" where
  "significant_digits ds sc = dropWhile ((=) CHR ''0'') (padded_digits ds sc)"

lemma decimal_from_digits_alt:
  "decimal_from_digits negative ds sc p s =
     (let sig = significant_digits ds sc
      in if sig = [] then Value (oracle_columnar_decimal_storage 0)
         else if length sig > 38 then Raised (decimal_error ''exceeds decimal128 maximum precision 38'')
         else bind_outcome (of_checked (accumulate_digits 0 sig)) (\<lambda>u.
              bind_outcome (of_checked (if negative then i128_chk (- u) else Some u)) (\<lambda>unscaled.
              bind_outcome (rescale unscaled (max sc 0) s) (\<lambda>v.
              bind_outcome (of_checked (oracle_columnar_decimal_precision v)) (\<lambda>q.
                if q > p then Raised (decimal_error ''value exceeds declared precision'')
                else Value (oracle_columnar_decimal_storage v))))))"
  by (simp add: decimal_from_digits_def significant_digits_def padded_digits_def Let_def)

lemma significant_value:
  "rat_of_nat (dec_val (significant_digits ds sc)) * 10 powi (- max sc 0) = rat_of_nat (dec_val ds) * 10 powi (- sc)"
proof (cases "sc < 0")
  case True
  then have "dec_val (significant_digits ds sc) = dec_val ds * 10 ^ nat (- sc)"
    by (simp add: significant_digits_def padded_digits_def dec_val_append)
  with True show ?thesis using powi_int [of "- sc"] by simp
next
  case False
  then show ?thesis by (simp add: significant_digits_def padded_digits_def)
qed

lemma list_all_dropWhile: "list_all P xs \<Longrightarrow> list_all P (dropWhile Q xs)"
  by (induction xs) auto

lemma significant_all_digits: "list_all c_isdigit ds \<Longrightarrow> list_all c_isdigit (significant_digits ds sc)"
  unfolding significant_digits_def padded_digits_def
  by (intro list_all_dropWhile) (simp add: list_all_iff)

definition apply_sign :: "bool \<Rightarrow> int \<Rightarrow> int" where
  "apply_sign negative v = (if negative then - v else v)"

lemma significant_scaled:
  "rat_of_int (apply_sign negative (int (dec_val ds))) * 10 powi (s - sc)
     = rat_of_int (apply_sign negative (int (dec_val (significant_digits ds sc)))) * 10 powi (s - max sc 0)"
proof -
  have split: "(10 :: rat) powi (s - sc) = 10 powi (- sc) * 10 powi s"
    by (simp flip: power_int_add)
  have "rat_of_int (int (dec_val ds)) * 10 powi (s - sc)
      = rat_of_int (int (dec_val (significant_digits ds sc))) * 10 powi (s - max sc 0)"
    using significant_value [of ds sc] unfolding split by (simp add: power_int_diff power_int_minus field_simps)
  then show ?thesis by (simp add: apply_sign_def)
qed

lemma decimal_from_digits_sound:
  assumes ds: "list_all c_isdigit ds"
    and sup: "oracle_columnar_decimal_metadata_supported p s"
    and res: "decimal_from_digits negative ds sc p s = Value d"
  shows "rat_of_int (decimal128_value d) = rat_of_int (apply_sign negative (int (dec_val ds))) * 10 powi (s - sc)
         \<and> \<bar>decimal128_value d\<bar> < 10 ^ nat p"
proof -
  let ?sig = "significant_digits ds sc"
  have p: "0 < p" "p \<le> 38" using sup by (simp_all add: oracle_columnar_decimal_metadata_supported_def)
  have digits: "list_all c_isdigit ?sig" by (rule significant_all_digits [OF ds])
  note val = significant_scaled [of negative ds s sc]
  show ?thesis
  proof (cases "?sig = []")
    case True
    then have "rat_of_int (apply_sign negative (int (dec_val ds))) * 10 powi (s - sc) = 0"
      unfolding val by (simp add: apply_sign_def)
    moreover have "decimal128_value d = 0"
      using res True by (auto simp: decimal_from_digits_alt storage_value i128_ok_def)
    ultimately show ?thesis by simp
  next
    case False
    with res have len: "length ?sig \<le> 38" by (auto simp: decimal_from_digits_alt Let_def split: if_splits)
    note acc = accumulate_significant [OF digits len]
    from res False len acc(1) obtain v q where
      v: "rescale (apply_sign negative (int (dec_val ?sig))) (max sc 0) s = Value v"
      and q: "oracle_columnar_decimal_precision v = Some q" "q \<le> p"
      and d: "d = oracle_columnar_decimal_storage v"
      by (auto simp: decimal_from_digits_alt Let_def apply_sign_def split: if_splits)
    have bound: "\<bar>v\<bar> < 10 ^ nat p" using precision_le [OF q(1) p(1)] q(2) by simp
    also have "(10 :: int) ^ nat p \<le> 10 ^ 38" using p by (intro power_increasing) auto
    finally have "i128_ok v" by (auto simp: i128_ok_def)
    then have "decimal128_value d = v" by (simp add: d storage_value)
    with bound rescale_sound [OF v] val show ?thesis by simp
  qed
qed

lemma decimal_from_digits_complete:
  assumes ds: "list_all c_isdigit ds"
    and sup: "oracle_columnar_decimal_metadata_supported p s"
    and val: "rat_of_int v = rat_of_int (apply_sign negative (int (dec_val ds))) * 10 powi (s - sc)"
    and v: "\<bar>v\<bar> < 10 ^ nat p"
    and len: "length (significant_digits ds sc) \<le> 38" and sc: "sc - s \<le> 38"
  shows "decimal_from_digits negative ds sc p s = Value (oracle_columnar_decimal_storage v)"
proof -
  let ?sig = "significant_digits ds sc"
  have p: "0 < p" "p \<le> 38" "0 \<le> s" "s \<le> p"
    using sup by (simp_all add: oracle_columnar_decimal_metadata_supported_def)
  have digits: "list_all c_isdigit ?sig" by (rule significant_all_digits [OF ds])
  note acc = accumulate_significant [OF digits len]
  from val have val': "rat_of_int v = rat_of_int (apply_sign negative (int (dec_val ?sig))) * 10 powi (s - max sc 0)"
    by (simp only: significant_scaled [of negative ds s sc])
  have "(10 :: int) ^ nat p \<le> 10 ^ 38" using p by (intro power_increasing) auto
  with v have v38: "\<bar>v\<bar> < 10 ^ 38" by linarith
  then have vok: "i128_ok v" and vpm: "- (2 ^ 127) < v" "v < 2 ^ 127" by (auto simp: i128_ok_def)
  show ?thesis
  proof (cases "?sig = []")
    case True
    then have "v = 0" using val' by (cases negative) (simp_all add: apply_sign_def)
    with True show ?thesis by (simp add: decimal_from_digits_alt)
  next
    case False
    have r: "rescale (apply_sign negative (int (dec_val ?sig))) (max sc 0) s = Value v"
      using val' vok sc p by (intro rescale_complete) auto
    obtain q where q: "oracle_columnar_decimal_precision v = Some q"
      using precision_Some vpm by blast
    have "q \<le> p" using precision_le [OF q p(1)] v by simp
    moreover have "i128_ok (- int (dec_val ?sig))" using acc(2) by (simp add: i128_ok_def)
    then have "of_checked (if negative then i128_chk (- int (dec_val ?sig)) else Some (int (dec_val ?sig)))
        = Value (apply_sign negative (int (dec_val ?sig)))"
      using acc(2) by (auto simp: apply_sign_def i128_chk_def i128_ok_def)
    ultimately show ?thesis using False len acc(1) r q
      by (simp add: decimal_from_digits_alt Let_def not_less del: bind_outcome_Value_iff of_checked_Value_iff)
  qed
qed


section \<open>The parser against its specification\<close>

lemma number_text_value_alt:
  "number_text_value nt * 10 powi s
     = rat_of_int (apply_sign (sign_neg (nt_sign nt)) (int (dec_val (nt_digits nt)))) * 10 powi (s - nt_scale nt)"
proof -
  have "(10 :: rat) powi (s - nt_scale nt) = 10 powi (- nt_scale nt) * 10 powi s"
    by (simp flip: power_int_add)
  then show ?thesis by (simp add: number_text_value_def apply_sign_def)
qed

lemma parse_exponent_sound:
  assumes "parse_exponent r = Value (e, rest)"
  shows "\<exists>xo. (case xo of None \<Rightarrow> True
            | Some (c, s, ds) \<Rightarrow> (c = CHR ''e'' \<or> c = CHR ''E'') \<and> sign_ok s \<and> ds \<noteq> [] \<and> list_all c_isdigit ds)
     \<and> r = (case xo of None \<Rightarrow> [] | Some (c, s, ds) \<Rightarrow> c # sign_string s @ ds) @ rest
     \<and> e = (case xo of None \<Rightarrow> 0 | Some (c, s, ds) \<Rightarrow> if sign_neg s then - int (dec_val ds) else int (dec_val ds))"
proof (cases "r \<noteq> [] \<and> (hd r = CHR ''e'' \<or> hd r = CHR ''E'')")
  case True
  then obtain c cs where r: "r = c # cs" and c: "c = CHR ''e'' \<or> c = CHR ''E''" by (cases r) auto
  obtain neg t where ps: "parse_sign cs = (neg, t)" by force
  obtain sg where sg: "sign_ok sg" "cs = sign_string sg @ t" "neg = sign_neg sg"
    using parse_sign_sound [OF ps] by blast
  from assms r c ps obtain e' where ne: "t \<noteq> []" "c_isdigit (hd t)"
    and sc: "scan_exponent 0 t = Value (e', rest)" and e: "e = (if neg then - e' else e')"
    by (auto simp: parse_exponent_def split: if_splits prod.splits)
  obtain ds where ds: "list_all c_isdigit ds" "t = ds @ rest" "e' = int (dec_val ds)"
      "rest = [] \<or> \<not> c_isdigit (hd rest)"
    using scan_exponent_sound [of "[]" t e' rest] sc by auto
  from ds ne have "ds \<noteq> []" by auto
  with r c sg ds e show ?thesis by (intro exI [of _ "Some (c, sg, ds)"]) auto
next
  case False
  with assms show ?thesis
    by (intro exI [of _ None]) (auto simp: parse_exponent_def split: list.splits if_splits)
qed

lemma parse_exponent_complete:
  assumes "number_text_ok nt" "\<bar>nt_exponent nt\<bar> \<le> 76"
  shows "parse_exponent (exp_string nt) = Value (nt_exponent nt, [])"
proof (cases "nt_exp nt")
  case None
  then show ?thesis by (simp add: exp_string_def nt_exponent_def parse_exponent_def)
next
  case (Some x)
  obtain c sg ds where x: "x = (c, sg, ds)" by (cases x)
  from assms Some x have c: "c = CHR ''e'' \<or> c = CHR ''E''" and sg: "sign_ok sg"
    and ds: "ds \<noteq> []" "list_all c_isdigit ds"
    by (auto simp: number_text_ok_def)
  from assms(2) Some x have le: "dec_val ds \<le> 76" by (simp add: nt_exponent_def split: if_splits)
  have hd: "c_isdigit (hd ds)" using ds by (cases ds) auto
  then have "hd ds \<noteq> CHR ''+''" "hd ds \<noteq> CHR ''-''" by auto
  then have "parse_sign (sign_string sg @ ds) = (sign_neg sg, ds)"
    using sg by (intro parse_sign_complete) auto
  moreover have "scan_exponent 0 ds = Value (int (dec_val ds), [])"
    using scan_exponent_complete [of ds "[]"] ds le by simp
  ultimately show ?thesis using Some x c ds hd
    by (auto simp: exp_string_def nt_exponent_def parse_exponent_def)
qed

text \<open>
  The parser run on a well-formed text: every scanning stage returns the pieces of the text.
\<close>

lemma parse_decimal128_text:
  assumes ok: "number_text_ok nt" and e: "\<bar>nt_exponent nt\<bar> \<le> 76"
  shows "oracle_columnar_parse_decimal128 (Some (number_text_string nt)) p s
           = decimal_from_digits (sign_neg (nt_sign nt)) (nt_digits nt) (nt_scale nt) p s"
proof -
  let ?body = "nt_int nt @ frac_string nt @ exp_string nt"
  let ?core = "sign_string (nt_sign nt) @ ?body"
  have dig: "list_all c_isdigit (nt_int nt)" "list_all c_isdigit (frac_digits nt)"
    "nt_int nt @ frac_digits nt \<noteq> []" and sg: "sign_ok (nt_sign nt)"
    using ok by (simp_all add: number_text_ok_def)
  have body_ne: "?body \<noteq> []"
    using dig by (auto simp: frac_string_def frac_digits_def split: option.splits)
  have core_ne: "?core \<noteq> []" using body_ne by blast
  have exp_hd: "exp_string nt = [] \<or> (\<not> c_isdigit (hd (exp_string nt)) \<and> hd (exp_string nt) \<noteq> CHR ''.'')"
    using ok by (auto simp: exp_string_def number_text_ok_def split: option.splits)
  have body_hd: "c_isdigit (hd ?body) \<or> hd ?body = CHR ''.''"
    using dig by (cases "nt_int nt") (auto simp: frac_string_def frac_digits_def split: option.splits)
  have exp_last: "exp_string nt \<noteq> [] \<Longrightarrow> c_isdigit (last (exp_string nt))"
    using ok by (auto simp: exp_string_def number_text_ok_def list_all_iff split: option.splits)
  have nb_last: "exp_string nt = [] \<Longrightarrow> c_isdigit (last ?body) \<or> last ?body = CHR ''.''"
  proof -
    assume "exp_string nt = []"
    moreover have "frac_string nt = [] \<Longrightarrow> c_isdigit (last (nt_int nt))"
      using dig by (auto simp: frac_string_def frac_digits_def list_all_iff split: option.splits)
    moreover have "frac_string nt \<noteq> [] \<Longrightarrow> c_isdigit (last (frac_string nt)) \<or> last (frac_string nt) = CHR ''.''"
      using dig by (auto simp: frac_string_def frac_digits_def list_all_iff split: option.splits)
    ultimately show ?thesis by (cases "frac_string nt = []") auto
  qed
  have last: "\<not> c_isspace (last ?core)"
    using exp_last nb_last body_ne c_isspace_not_digit by (cases "exp_string nt = []") auto
  have hd: "\<not> c_isspace (hd ?core)"
    using sg body_hd body_ne c_isspace_not_digit
    by (auto simp: sign_string_def sign_ok_def split: option.splits)
  have trim: "trim_spaces (number_text_string nt) = ?core"
    using trim_spaces_core [of "nt_pre nt" "nt_post nt" ?core] ok hd last body_ne
    by (simp add: number_text_string_def number_text_ok_def)
  have sign: "parse_sign ?core = (sign_neg (nt_sign nt), ?body)"
    using body_hd sg by (intro parse_sign_complete) auto
  obtain m where scan: "scan_mantissa mantissa0 ?body = (m, exp_string nt)"
    and m: "digits m = nt_digits nt" "fractional_digits m = int (length (frac_digits nt))" "seen_digit m"
  proof (cases "nt_frac nt")
    case None
    with dig exp_hd that show ?thesis
      using scan_mantissa_complete(1) [of "nt_int nt" "[]" "exp_string nt"]
      by (auto simp: frac_string_def frac_digits_def nt_digits_def)
  next
    case (Some f)
    with dig exp_hd that show ?thesis
      using scan_mantissa_complete(2) [of "nt_int nt" f "exp_string nt"]
      by (auto simp: frac_string_def frac_digits_def nt_digits_def)
  qed
  show ?thesis
    unfolding oracle_columnar_parse_decimal128_def option.case trim Let_def
    using core_ne sign scan m body_ne parse_exponent_complete [OF ok e]
    by (simp add: nt_scale_def del: append_is_Nil_conv)
qed

lemma parse_decimal128_accepts:
  assumes "oracle_columnar_parse_decimal128 (Some txt) p s = Value d"
  shows "\<exists>nt. number_text_ok nt \<and> txt = number_text_string nt
     \<and> decimal_from_digits (sign_neg (nt_sign nt)) (nt_digits nt) (nt_scale nt) p s = Value d"
proof -
  let ?t = "trim_spaces txt"
  obtain pre post where sp: "list_all c_isspace pre" "list_all c_isspace post" "txt = pre @ ?t @ post"
    using trim_spaces_split by blast
  obtain neg u where ps: "parse_sign ?t = (neg, u)" by force
  obtain sg where sg: "sign_ok sg" "?t = sign_string sg @ u" "neg = sign_neg sg"
    using parse_sign_sound [OF ps] by blast
  obtain m r where sm: "scan_mantissa mantissa0 u = (m, r)" by force
  obtain ip fo where f: "list_all c_isdigit ip" "case fo of None \<Rightarrow> True | Some f \<Rightarrow> list_all c_isdigit f"
     "u = ip @ (case fo of None \<Rightarrow> [] | Some f \<Rightarrow> CHR ''.'' # f) @ r"
     "digits m = ip @ (case fo of None \<Rightarrow> [] | Some f \<Rightarrow> f)"
     "fractional_digits m = int (length (case fo of None \<Rightarrow> [] | Some f \<Rightarrow> f))"
     "seen_digit m \<longleftrightarrow> digits m \<noteq> []"
    using scan_mantissa_sound [OF sm] by blast
  from assms ps sm obtain e where sd: "seen_digit m" and pe: "parse_exponent r = Value (e, [])"
    and dd: "decimal_from_digits neg (digits m) (fractional_digits m - e) p s = Value d"
    by (auto simp: oracle_columnar_parse_decimal128_def Let_def split: if_splits prod.splits)
  obtain xo where x: "case xo of None \<Rightarrow> True
       | Some (c, s, ds) \<Rightarrow> (c = CHR ''e'' \<or> c = CHR ''E'') \<and> sign_ok s \<and> ds \<noteq> [] \<and> list_all c_isdigit ds"
     "r = (case xo of None \<Rightarrow> [] | Some (c, s, ds) \<Rightarrow> c # sign_string s @ ds)"
     "e = (case xo of None \<Rightarrow> 0 | Some (c, s, ds) \<Rightarrow> if sign_neg s then - int (dec_val ds) else int (dec_val ds))"
    using parse_exponent_sound [OF pe] by auto
  let ?nt = "\<lparr>nt_pre = pre, nt_sign = sg, nt_int = ip, nt_frac = fo, nt_exp = xo, nt_post = post\<rparr>"
  have fd: "frac_digits ?nt = (case fo of None \<Rightarrow> [] | Some f \<Rightarrow> f)"
    by (simp add: frac_digits_def)
  have "number_text_ok ?nt"
    using sp sg f x sd unfolding number_text_ok_def fd by (auto split: option.splits)
  moreover have "txt = number_text_string ?nt"
    using sp(3) sg(2) f(3) x(2) by (simp add: number_text_string_def frac_string_def exp_string_def)
  moreover have "decimal_from_digits (sign_neg (nt_sign ?nt)) (nt_digits ?nt) (nt_scale ?nt) p s = Value d"
    using dd sg(3) f(4,5) x(3) by (simp add: nt_digits_def nt_scale_def fd nt_exponent_def)
  ultimately show ?thesis by blast
qed

section \<open>Texts of integers\<close>

lemma strcmp_le_digits:
  "length a = length b \<Longrightarrow> list_all c_isdigit a \<Longrightarrow> list_all c_isdigit b \<Longrightarrow>
     strcmp_le a b \<longleftrightarrow> dec_val a \<le> dec_val b"
proof (induction a b rule: strcmp_le.induct)
  case (3 x xs y ys)
  have dx: "c_isdigit x" and dy: "c_isdigit y" using 3 by simp_all
  have lx: "dec_val xs < 10 ^ length xs" and ly: "dec_val ys < 10 ^ length xs"
    using 3 dec_val_less [of xs] dec_val_less [of ys] by simp_all
  have cv: "chr_code x < chr_code y \<longleftrightarrow> digit_val x < digit_val y"
    using dx dy by (auto simp: c_isdigit_def digit_val_def)
  have ce: "x = y \<longleftrightarrow> digit_val x = digit_val y"
    using dx dy by (metis digit_char_val)
  have len: "length ys = length xs" using 3 by simp
  let ?p = "10 ^ length xs :: nat"
  consider "digit_val x < digit_val y" | "digit_val y < digit_val x" | "digit_val x = digit_val y" by linarith
  then show ?case
  proof cases
    case 1
    then have "digit_val x * ?p + ?p \<le> digit_val y * ?p"
      by (metis Suc_leI mult_Suc add.commute mult_le_mono1)
    with 1 lx show ?thesis by (simp add: cv dec_val_Cons len)
  next
    case 2
    then have "digit_val y * ?p + ?p \<le> digit_val x * ?p"
      by (metis Suc_leI mult_Suc add.commute mult_le_mono1)
    with 2 ly show ?thesis by (simp add: cv ce dec_val_Cons len)
  next
    case 3
    then show ?thesis using "3.IH" "3.prems" \<open>length ys = length xs\<close> ce
      by (auto simp: cv dec_val_Cons)
  qed
qed simp_all

lemma show_nat_length: "length (show_nat n) \<le> k \<longleftrightarrow> n < 10 ^ k \<and> 0 < k"
proof (cases "n = 0")
  case True
  then show ?thesis by (auto simp: show_nat_small Suc_le_eq)
next
  case False
  have ub: "n < 10 ^ length (show_nat n)" using dec_val_less [of "show_nat n"] by simp
  obtain c cs where s: "show_nat n = c # cs" by (cases "show_nat n") auto
  have "c_isdigit c" "c \<noteq> CHR ''0''" using False show_nat_head [of n] show_nat_digits [of n] s by auto
  then have lb: "10 ^ length cs \<le> n" using dec_val_ge [of c cs] s by (metis dec_val_show_nat)
  show ?thesis
  proof
    assume le: "length (show_nat n) \<le> k"
    then have "(10 :: nat) ^ length (show_nat n) \<le> 10 ^ k" by (intro power_increasing) auto
    with ub have "n < 10 ^ k" by linarith
    moreover have "0 < k" using le unfolding s by simp
    ultimately show "n < 10 ^ k \<and> 0 < k" by simp
  next
    assume "n < 10 ^ k \<and> 0 < k"
    with lb have "(10 :: nat) ^ length cs < 10 ^ k" by linarith
    then have "length cs < k" by (rule power_less_imp_less_exp [rotated]) simp
    then show "length (show_nat n) \<le> k" by (simp add: s)
  qed
qed

lemma digit_hd: "list_all c_isdigit ds \<Longrightarrow> ds \<noteq> [] \<Longrightarrow> c_isdigit (hd ds)"
  by (cases ds) auto

lemma c_strtoll_show_int:
  "c_strtoll (show_int i) = (if i64_ok i then (i, [], False) else (if i < 0 then - (2 ^ 63) else 2 ^ 63 - 1, [], True))"
proof -
  let ?n = "nat \<bar>i\<bar>"
  have d: "c_isdigit (hd (show_nat ?n))" by (simp add: digit_hd)
  then obtain c cs where s: "show_nat ?n = c # cs" "c_isdigit c" by (cases "show_nat ?n") auto
  then have ns: "\<not> c_isspace c" "c \<noteq> CHR ''+''" "c \<noteq> CHR ''-''" using c_isspace_not_digit by auto
  have tw: "takeWhile c_isdigit (show_nat ?n) = show_nat ?n" "dropWhile c_isdigit (show_nat ?n) = []"
    using show_nat_digits [of ?n, unfolded list_all_iff] by (auto simp: takeWhile_eq_all_conv dropWhile_eq_Nil_conv)
  have ne: "show_nat ?n \<noteq> []" by simp
  show ?thesis
  proof (cases "i < 0")
    case True
    then have ps: "parse_sign (dropWhile c_isspace (show_int i)) = (True, show_nat ?n)"
      by (simp add: show_int_def parse_sign_def)
    show ?thesis unfolding c_strtoll_def ps Let_def prod.case tw using True by simp
  next
    case False
    then have ps: "parse_sign (dropWhile c_isspace (show_int i)) = (False, show_nat ?n)"
      using s ns by (simp add: show_int_def parse_sign_def)
    show ?thesis unfolding c_strtoll_def ps Let_def prod.case tw using False by simp
  qed
qed

lemma show_int_chars: "c \<in> set (show_int i) \<Longrightarrow> c_isdigit c \<or> c = CHR ''-''"
  using show_nat_digits unfolding show_int_def list_all_iff by (auto split: if_splits)

lemma strcmp_le_show_nat:
  assumes "length (show_nat n) = length ds" "list_all c_isdigit ds"
  shows "strcmp_le (show_nat n) ds \<longleftrightarrow> n \<le> dec_val ds"
  using strcmp_le_digits [of "show_nat n" ds] assms by simp

text \<open>The test of \<open>getNumberOptimal\<close> on the decimal text of an integer is the range test.\<close>

lemma optimal_test_nat:
  assumes m: "list_all c_isdigit mx" "length mx = 19"
  shows "length (show_nat n) < 19 \<or> (length (show_nat n) = 19 \<and> strcmp_le (show_nat n) mx)
           \<longleftrightarrow> n \<le> dec_val mx \<or> n < 10 ^ 18"
proof -
  have l18: "length (show_nat n) < 19 \<longleftrightarrow> n < 10 ^ 18" using show_nat_length [of n 18] by auto
  have l19: "length (show_nat n) \<le> 19 \<longleftrightarrow> n < 10 ^ 19" using show_nat_length [of n 19] by auto
  have "dec_val mx < 10 ^ 19" using dec_val_less [OF m(1)] m(2) by simp
  then show ?thesis using l18 l19 strcmp_le_show_nat [of n mx] m by linarith
qed

lemma getNumberOptimal_show_int:
  "getNumberOptimal (show_int i) = (if i64_ok i then NumInt i else NumNumber (show_int i))"
proof -
  let ?n = "nat \<bar>i\<bar>"
  have dot: "CHR ''.'' \<notin> set (show_int i)" using show_int_chars by force
  have vmax: "dec_val ''9223372036854775807'' = 9223372036854775807"
    by (simp add: dec_val_def digit_val_def chr_code_def)
  have vmin: "dec_val ''9223372036854775808'' = 9223372036854775808"
    by (simp add: dec_val_def digit_val_def chr_code_def)
  have dig: "list_all c_isdigit ''9223372036854775807''" "list_all c_isdigit ''9223372036854775808''"
    by (simp_all add: c_isdigit_def chr_code_def)
  have d: "c_isdigit (hd (show_nat ?n))" by (simp add: digit_hd)
  then have hd: "hd (show_nat ?n) \<noteq> CHR ''-''" by auto
  show ?thesis
  proof (cases "i < 0")
    case True
    then have s: "show_int i = CHR ''-'' # show_nat ?n" by (simp add: show_int_def)
    have "i64_ok i \<longleftrightarrow> ?n \<le> dec_val ''9223372036854775808'' \<or> ?n < 10 ^ 18"
      using True unfolding vmin by (auto simp: i64_ok_def)
    also have "\<dots> \<longleftrightarrow> length (show_nat ?n) < 19 \<or> (length (show_nat ?n) = 19 \<and> strcmp_le (show_nat ?n) ''9223372036854775808'')"
      by (rule optimal_test_nat [symmetric]) (use dig in simp_all)
    finally show ?thesis using dot c_strtoll_show_int [of i] s
      by (auto simp: getNumberOptimal_def Let_def)
  next
    case False
    then have s: "show_int i = show_nat ?n" by (simp add: show_int_def)
    have "i64_ok i \<longleftrightarrow> ?n \<le> dec_val ''9223372036854775807'' \<or> ?n < 10 ^ 18"
      using False unfolding vmax by (auto simp: i64_ok_def)
    also have "\<dots> \<longleftrightarrow> length (show_nat ?n) < 19 \<or> (length (show_nat ?n) = 19 \<and> strcmp_le (show_nat ?n) ''9223372036854775807'')"
      by (rule optimal_test_nat [symmetric]) (use dig in simp_all)
    finally show ?thesis using dot hd c_strtoll_show_int [of i] s
      by (auto simp: getNumberOptimal_def Let_def)
  qed
qed

lemma parse_int64_show_int:
  "oracle_columnar_parse_int64 (Some (show_int i)) = (if i64_ok i then Some i else None)"
proof -
  have "CHR ''.'' \<notin> set (show_int i)" "CHR ''e'' \<notin> set (show_int i)" "CHR ''E'' \<notin> set (show_int i)"
    using show_int_chars by force+
  moreover have "show_int i \<noteq> []" by (simp add: show_int_def)
  ultimately show ?thesis by (simp add: oracle_columnar_parse_int64_def c_strtoll_show_int)
qed

lemma decimal_from_digits_overflow:
  assumes ds: "list_all c_isdigit ds"
    and sup: "oracle_columnar_decimal_metadata_supported p s"
    and val: "rat_of_int v = rat_of_int (apply_sign negative (int (dec_val ds))) * 10 powi (s - sc)"
    and v: "\<not> i128_ok v"
    and len: "length (significant_digits ds sc) \<le> 38" and sc: "sc < s" "0 < s"
  shows "decimal_from_digits negative ds sc p s = Undefined"
proof -
  let ?sig = "significant_digits ds sc"
  let ?u = "apply_sign negative (int (dec_val ?sig))"
  have p: "p \<le> 38" "s \<le> p"
    using sup by (simp_all add: oracle_columnar_decimal_metadata_supported_def)
  note acc = accumulate_significant [OF significant_all_digits [OF ds] len]
  have v': "v = ?u * 10 ^ nat (s - max sc 0)"
  proof -
    have "rat_of_int v = rat_of_int ?u * 10 powi (s - max sc 0)"
      using val by (simp only: significant_scaled [of negative ds s sc])
    then have "rat_of_int v = rat_of_int (?u * 10 ^ nat (s - max sc 0))"
      using powi_int [of "s - max sc 0"] sc by simp
    then show ?thesis by (simp only: of_int_eq_iff)
  qed
  have ne: "?sig \<noteq> []"
  proof
    assume "?sig = []"
    with v' v show False by (cases negative) (simp_all add: apply_sign_def i128_ok_def)
  qed
  have "rescale ?u (max sc 0) s = Undefined"
    using v v' sc p by (simp add: rescale_def pow10_eq i128_chk_def)
  moreover have "of_checked (if negative then i128_chk (- int (dec_val ?sig)) else Some (int (dec_val ?sig))) = Value ?u"
    using acc(2) by (auto simp: apply_sign_def i128_chk_def i128_ok_def)
  ultimately show ?thesis using ne len acc(1)
    by (simp add: decimal_from_digits_alt Let_def not_less del: bind_outcome_Value_iff of_checked_Value_iff)
qed

section \<open>Properties\<close>

text \<open>C23: Soundness of the decimal parser.  Whenever the parser returns a value for a
  supported (precision, scale), the text was a well-formed number, the stored 128-bit value
  is exactly the number scaled by \<open>10 ^ scale\<close>, and it has at most \<open>precision\<close> digits.\<close>

theorem parse_decimal128_sound:
  assumes sup: "oracle_columnar_decimal_metadata_supported p s"
    and res: "oracle_columnar_parse_decimal128 (Some txt) p s = Value d"
  shows "\<exists>nt. number_text_ok nt \<and> txt = number_text_string nt
     \<and> rat_of_int (decimal128_value d) = number_text_value nt * 10 powi s
     \<and> \<bar>decimal128_value d\<bar> < 10 ^ nat p"
proof -
  obtain nt where nt: "number_text_ok nt" "txt = number_text_string nt"
     "decimal_from_digits (sign_neg (nt_sign nt)) (nt_digits nt) (nt_scale nt) p s = Value d"
    using parse_decimal128_accepts [OF res] by blast
  have "list_all c_isdigit (nt_digits nt)" using nt(1) by (simp add: number_text_ok_def nt_digits_def)
  from decimal_from_digits_sound [OF this sup nt(3)] nt show ?thesis
    by (auto simp: number_text_value_alt)
qed

theorem parse_decimal128_sound_witness:
  "\<exists>nt. number_text_ok nt \<and> '' -12.50'' = number_text_string nt
     \<and> rat_of_int (decimal128_value (oracle_columnar_decimal_storage (- 1250))) = number_text_value nt * 10 powi 2
     \<and> \<bar>decimal128_value (oracle_columnar_decimal_storage (- 1250))\<bar> < 10 ^ nat 5"
proof (rule parse_decimal128_sound)
  show "oracle_columnar_decimal_metadata_supported 5 2" by code_simp
  show "oracle_columnar_parse_decimal128 (Some '' -12.50'') 5 2 = Value (oracle_columnar_decimal_storage (- 1250))"
    by code_simp
qed



text \<open>C28: A scaled value outside the 128-bit range is never refused: bringing it to the
  declared scale overflows the \<open>__int128\<close> before the precision test is reached.\<close>

theorem parse_decimal128_overflow:
  assumes sup: "oracle_columnar_decimal_metadata_supported p s"
    and ok: "number_text_ok nt" and e: "\<bar>nt_exponent nt\<bar> \<le> 76"
    and val: "rat_of_int v = number_text_value nt * 10 powi s" and v: "\<not> i128_ok v"
    and len: "length (significant_digits (nt_digits nt) (nt_scale nt)) \<le> 38"
    and sc: "nt_scale nt < s" "0 < s"
  shows "oracle_columnar_parse_decimal128 (Some (number_text_string nt)) p s = Undefined"
proof -
  have "list_all c_isdigit (nt_digits nt)" using ok by (simp add: number_text_ok_def nt_digits_def)
  from decimal_from_digits_overflow [OF this sup _ v len sc] val
  show ?thesis by (simp add: parse_decimal128_text [OF ok e] number_text_value_alt)
qed

theorem parse_decimal128_overflow_witness:
  "oracle_columnar_parse_decimal128 (Some (number_text_string
       \<lparr>nt_pre = [], nt_sign = None, nt_int = ''99999999999999999999999999999999999999'', nt_frac = None,
        nt_exp = None, nt_post = []\<rparr>)) 38 10 = Undefined"
proof (rule parse_decimal128_overflow [where v = "99999999999999999999999999999999999999 * 10 ^ 10"])
  show "oracle_columnar_decimal_metadata_supported 38 10" by code_simp
qed (simp_all add: number_text_ok_def c_isdigit_def chr_code_def sign_ok_def frac_digits_def
       nt_exponent_def dec_val_def digit_val_def number_text_value_def nt_scale_def nt_digits_def sign_neg_def
       significant_digits_def padded_digits_def i128_ok_def)

text \<open>C29: The two readers of integer text.  On the decimal text of an integer both return the
  integer exactly when it fits in 64 bits; otherwise one keeps the text and the other declines.\<close>

theorem number_optimal_integers:
  "getNumberOptimal (show_int i) = (if i64_ok i then NumInt i else NumNumber (show_int i))
   \<and> oracle_columnar_parse_int64 (Some (show_int i)) = (if i64_ok i then Some i else None)"
  by (simp add: getNumberOptimal_show_int parse_int64_show_int)

text \<open>An exponent is not looked for by the optimal-number conversion: a large number
  in scientific notation becomes the integer of its leading digit.\<close>

theorem number_optimal_exponent:
  "getNumberOptimal ''1E+40'' = NumInt 1 \<and> oracle_columnar_parse_int64 (Some ''1E+40'') = None"
  by code_simp

end
