(* ===== verification/Columns.thy ===== *)
theory Columns
  imports Qore_Values Decimal128
begin

text \<open>
  Column buffers (OraColumnValue.cpp) and result sets (OraResultSet.cpp): reading a fetched
  value, releasing a buffer, the piecewise \<open>LONG\<close> reader, and the describe and define steps
  that set a result set up.
\<close>

section \<open>Column values\<close>

text \<open>
  The union \<open>ora_value\<close>.  A handle or descriptor is a number, 0 being the null pointer; the
  text buffers hold the C string in them, or no buffer at all.
\<close>

record q_lng =
  lng_ind :: int
  lng_size :: nat
  lng_str :: "string option"
  lng_buf :: string

datatype ora_buf =
    BufNone
  | BufI8 int
  | BufF8 "64 word"
  | BufDate "nat list"
  | BufHandle nat
  | BufLng q_lng
  | BufText "string option"
  | BufRaw string
  | BufArray nat

datatype nty = NTY_NONE | NTY_OBJECT | NTY_COLLECTION

record ora_column =
  cv_buf :: ora_buf
  cv_dtype :: sqlt
  cv_subdtype :: nty
  cv_ind :: int
  cv_array :: bool
  cv_alt_output :: bool

definition ora_column_init :: "sqlt \<Rightarrow> nty \<Rightarrow> ora_column" where
  "ora_column_init dt sub = \<lparr>cv_buf = BufNone, cv_dtype = dt, cv_subdtype = sub, cv_ind = 0,
     cv_array = False, cv_alt_output = False\<rparr>"

fun buf_handle :: "ora_buf \<Rightarrow> nat" where
  "buf_handle (BufHandle h) = h"
| "buf_handle _ = 0"

fun buf_text :: "ora_buf \<Rightarrow> string" where
  "buf_text (BufText (Some s)) = s"
| "buf_text _ = []"

fun buf_lng :: "ora_buf \<Rightarrow> q_lng" where
  "buf_lng (BufLng l) = l"
| "buf_lng _ = \<lparr>lng_ind = 0, lng_size = 0, lng_str = None, lng_buf = []\<rparr>"

section \<open>The piecewise reader of LONG columns\<close>

text \<open>
  \<open>lng_str\<close> is the text up to its terminator and \<open>lng_buf\<close> what the server has written behind
  it; \<open>terminate(size + n)\<close> takes the first \<open>n\<close> bytes of it over.
\<close>

datatype piece = OCI_ONE_PIECE | OCI_FIRST_PIECE | OCI_NEXT_PIECE | OCI_LAST_PIECE

definition Q_LONG_BLOCK_SIZE :: nat where "Q_LONG_BLOCK_SIZE = 4096"

definition lng_init :: q_lng where
  "lng_init = \<lparr>lng_ind = 0, lng_size = 0, lng_str = None, lng_buf = []\<rparr>"

definition lng_terminate :: "q_lng \<Rightarrow> q_lng" where
  "lng_terminate l = l\<lparr>lng_str := map_option (\<lambda>s. s @ take (lng_size l) (lng_buf l)) (lng_str l), lng_buf := drop (lng_size l) (lng_buf l)\<rparr>"

definition q_long_callback :: "piece \<Rightarrow> q_lng \<Rightarrow> q_lng" where
  "q_long_callback p l =
     (case p of
        OCI_FIRST_PIECE \<Rightarrow> l\<lparr>lng_str := (case lng_str l of None \<Rightarrow> Some [] | Some s \<Rightarrow> Some s), lng_size := Q_LONG_BLOCK_SIZE, lng_buf := []\<rparr>
      | OCI_NEXT_PIECE \<Rightarrow> (lng_terminate l)\<lparr>lng_size := Q_LONG_BLOCK_SIZE, lng_buf := []\<rparr>
      | OCI_LAST_PIECE \<Rightarrow> lng_terminate l
      | OCI_ONE_PIECE \<Rightarrow> l)"

definition takeValue :: "string \<Rightarrow> q_lng \<Rightarrow> qval \<times> q_lng" where
  "takeValue enc l =
     (if lng_ind l \<noteq> 0 then (QNull, l\<lparr>lng_ind := 0, lng_size := 0\<rparr>)
      else (QString (case lng_str (lng_terminate l) of None \<Rightarrow> [] | Some s \<Rightarrow> s) enc,
            \<lparr>lng_ind = 0, lng_size = 0, lng_str = None, lng_buf = []\<rparr>))"

text \<open>
  What the server does between two callbacks: it writes a piece into the buffer it was given
  and stores its length through \<open>alenp\<close>.
\<close>

definition server_piece :: "string \<Rightarrow> q_lng \<Rightarrow> q_lng" where
  "server_piece s l = l\<lparr>lng_buf := s, lng_size := length s\<rparr>"

fun long_fetch :: "string list \<Rightarrow> q_lng \<Rightarrow> q_lng" where
  "long_fetch [] l = l"
| "long_fetch (s # ss) l = long_fetch ss (server_piece s (q_long_callback OCI_NEXT_PIECE l))"

definition long_column_fetch :: "string list \<Rightarrow> q_lng \<Rightarrow> q_lng" where
  "long_column_fetch ss l =
     (let l1 = q_long_callback OCI_FIRST_PIECE l
      in case ss of [] \<Rightarrow> server_piece [] l1 | s # ss' \<Rightarrow> long_fetch ss' (server_piece s l1))"

lemma long_fetch_value:
  assumes "lng_str l = Some t" "lng_size l = length (lng_buf l)"
  shows "\<exists>l'. long_fetch ss l = l' \<and> lng_ind l' = lng_ind l
    \<and> lng_str (lng_terminate l') = Some (t @ lng_buf l @ concat ss)"
  using assms
proof (induction ss arbitrary: l t)
  case Nil
  then show ?case by (simp add: lng_terminate_def)
next
  case (Cons s ss)
  let ?l = "server_piece s (q_long_callback OCI_NEXT_PIECE l)"
  have "lng_str ?l = Some (t @ lng_buf l)" "lng_size ?l = length (lng_buf ?l)" "lng_buf ?l = s"
      "lng_ind ?l = lng_ind l"
    using Cons.prems by (simp_all add: server_piece_def q_long_callback_def lng_terminate_def)
  with Cons.IH [of ?l "t @ lng_buf l"] show ?case by simp
qed

lemma long_column_value:
  assumes "lng_str l = None \<or> lng_str l = Some []" "lng_ind l = 0"
  shows "takeValue enc (long_column_fetch ss l) = (QString (concat ss) enc, lng_init)"
proof -
  let ?l = "q_long_callback OCI_FIRST_PIECE l"
  have s: "lng_str ?l = Some []" "lng_ind ?l = 0"
    using assms by (auto simp: q_long_callback_def)
  show ?thesis
  proof (cases ss)
    case Nil
    with s show ?thesis
      by (simp add: long_column_fetch_def takeValue_def server_piece_def lng_terminate_def lng_init_def)
  next
    case (Cons x xs)
    have "lng_str (server_piece x ?l) = Some []" "lng_size (server_piece x ?l) = length (lng_buf (server_piece x ?l))"
        "lng_buf (server_piece x ?l) = x" "lng_ind (server_piece x ?l) = 0"
      using s by (simp_all add: server_piece_def)
    from long_fetch_value [OF this(1,2), of xs] this(3,4) Cons show ?thesis
      by (auto simp: long_column_fetch_def takeValue_def lng_init_def)
  qed
qed

section \<open>Reading a value\<close>

definition convert_date_time :: "nat list \<Rightarrow> qdate" where
  "convert_date_time b =
     (let year = (if b ! 0 < 100 \<or> b ! 1 < 100 then 9999
                  else (int (b ! 0) - 100) * 100 + (int (b ! 1) - 100))
      in AbsDate LocalZone \<lparr>d_year = year, d_month = int (b ! 2), d_day = int (b ! 3), d_hour = int (b ! 4) - 1,
           d_minute = int (b ! 5) - 1, d_second = int (b ! 6) - 1, d_us = 0\<rparr>)"

datatype number_option = OPT_NUM_OPTIMAL | OPT_NUM_STRING | OPT_NUM_NUMERIC

text \<open>
  What \<open>getValue\<close> calls outside this file: the descriptor readers of the connection, the
  nested result set, and the named-type readers.
\<close>

record value_env =
  ve_encoding :: string
  ve_number :: number_option
  ve_remove_trailing_blanks :: "string \<Rightarrow> string"
  ve_timestamp :: "bool \<Rightarrow> nat \<Rightarrow> qval outcome"
  ve_interval_ym :: "nat \<Rightarrow> qval outcome"
  ve_interval_ds :: "nat \<Rightarrow> qval outcome"
  ve_clob :: "nat \<Rightarrow> qval outcome"
  ve_blob :: "nat \<Rightarrow> qval outcome"
  ve_rowid :: "nat \<Rightarrow> string outcome"
  ve_rows :: "nat \<Rightarrow> qval outcome"
  ve_columns :: "nat \<Rightarrow> qval outcome"
  ve_statement :: "nat \<Rightarrow> qval outcome"
  ve_is_null :: "nty \<Rightarrow> nat \<Rightarrow> bool outcome"
  ve_object :: "nat \<Rightarrow> qval outcome"
  ve_collection :: "nat \<Rightarrow> qval outcome"

fun number_node :: "number_value \<Rightarrow> qval" where
  "number_node (NumInt i) = QInt i"
| "number_node (NumNumber s) = QNumber s"

definition doReturnString :: "value_env \<Rightarrow> bool \<Rightarrow> ora_column \<Rightarrow> qval \<times> ora_column" where
  "doReturnString env destructive c =
     (QString (buf_text (cv_buf c)) (ve_encoding env),
      if destructive then c\<lparr>cv_buf := BufText None\<rparr> else c)"

definition getValue :: "value_env \<Rightarrow> bool \<Rightarrow> bool \<Rightarrow> ora_column \<Rightarrow> qval outcome \<times> ora_column" where
  "getValue env horizontal destructive c =
     (if cv_ind c = - 1 then (Value QNull, c)
      else let h = buf_handle (cv_buf c) in
      case cv_dtype c of
        SQLT_DAT \<Rightarrow> (Value (QDate (convert_date_time (case cv_buf c of BufDate b \<Rightarrow> b | _ \<Rightarrow> []))), c)
      | SQLT_TIMESTAMP \<Rightarrow> (ve_timestamp env False h, c)
      | SQLT_DATE \<Rightarrow> (ve_timestamp env False h, c)
      | SQLT_TIMESTAMP_TZ \<Rightarrow> (ve_timestamp env True h, c)
      | SQLT_TIMESTAMP_LTZ \<Rightarrow> (ve_timestamp env True h, c)
      | SQLT_INTERVAL_YM \<Rightarrow> (ve_interval_ym env h, c)
      | SQLT_INTERVAL_DS \<Rightarrow> (ve_interval_ds env h, c)
      | SQLT_CLOB \<Rightarrow> (ve_clob env h, c)
      | SQLT_BLOB \<Rightarrow> (ve_blob env h, c)
      | SQLT_LNG \<Rightarrow> (let (v, l) = takeValue (ve_encoding env) (buf_lng (cv_buf c))
                    in (Value v, c\<lparr>cv_buf := BufLng l\<rparr>))
      | SQLT_RSET \<Rightarrow>
          (let c' = c\<lparr>cv_buf := BufHandle 0\<rparr>
           in if cv_alt_output c then (ve_statement env h, c')
              else if horizontal then (ve_rows env h, c') else (ve_columns env h, c'))
      | SQLT_NTY \<Rightarrow>
          (bind_outcome (ve_is_null env (cv_subdtype c) h) (\<lambda>isnull.
             if isnull then Value QNull
             else if cv_subdtype c = NTY_OBJECT then ve_object env h else ve_collection env h), c)
      | SQLT_RDD \<Rightarrow> (bind_outcome (ve_rowid env h) (\<lambda>s. Value (QString s (ve_encoding env))), c)
      | t \<Rightarrow>
          if is_int_type t then (Value (case cv_buf c of BufI8 i \<Rightarrow> QInt i | _ \<Rightarrow> QInt 0), c)
          else if is_float_type t then (Value (case cv_buf c of BufF8 f \<Rightarrow> QFloat f | _ \<Rightarrow> QFloat 0), c)
          else if t = SQLT_BIN \<or> t = SQLT_LBI \<or> t = SQLT_LVB then
            (Value (case cv_buf c of BufRaw b \<Rightarrow> QBinary b | _ \<Rightarrow> QBinary []), c)
          else if t = SQLT_VNU \<or> t = SQLT_NUM then
            (case ve_number env of
               OPT_NUM_OPTIMAL \<Rightarrow> (Value (number_node (getNumberOptimal (buf_text (cv_buf c)))), c)
             | OPT_NUM_STRING \<Rightarrow> (let (v, c') = doReturnString env destructive c in (Value v, c'))
             | OPT_NUM_NUMERIC \<Rightarrow> (Value (QNumber (buf_text (cv_buf c))), c))
          else
            let c1 = (if t = SQLT_AVC
                      then c\<lparr>cv_buf := (case cv_buf c of BufText (Some s) \<Rightarrow> BufText (Some (ve_remove_trailing_blanks env s)) | b \<Rightarrow> b)\<rparr>
                      else c);
                (v, c2) = doReturnString env destructive c1
            in (Value v, c2))"

section \<open>Releasing a value\<close>

definition holds_text :: "ora_buf \<Rightarrow> bool" where
  "holds_text b = (case b of BufText (Some s) \<Rightarrow> True | _ \<Rightarrow> False)"

definition holds_long :: "ora_buf \<Rightarrow> bool" where
  "holds_long b = (case b of BufLng l \<Rightarrow> True | _ \<Rightarrow> False)"

lemma holds_iff [simp]: "holds_text b \<longleftrightarrow> (\<exists>s. b = BufText (Some s))" "holds_long b \<longleftrightarrow> (\<exists>l. b = BufLng l)"
  by (auto simp: holds_text_def holds_long_def split: ora_buf.split option.split)

datatype resource = LobDescriptor | RowidDescriptor | StatementHandle | TimestampDescriptor | IntervalYMDescriptor
  | IntervalDSDescriptor | RawBuffer | LongReader | ObjectValue | CollectionValue | MallocBuffer | ArrayBindData
  | DefineHandle

definition free_if :: "bool \<Rightarrow> resource \<Rightarrow> nat \<Rightarrow> (resource \<times> nat) list" where
  "free_if c r h = (if c then [(r, h)] else [])"

definition freeObject :: "ora_column \<Rightarrow> (resource \<times> nat) list \<times> ora_column" where
  "freeObject c =
     (let h = buf_handle (cv_buf c)
      in if h \<noteq> 0 then ([(if cv_subdtype c = NTY_OBJECT then ObjectValue else CollectionValue, h)], c\<lparr>cv_buf := BufHandle 0\<rparr>)
         else ([], c))"

definition column_value_del :: "ora_column \<Rightarrow> (resource \<times> nat) list \<times> ora_column" where
  "column_value_del c =
     (if cv_array c then
        (free_if True ArrayBindData (case cv_buf c of BufArray a \<Rightarrow> a | _ \<Rightarrow> 0), c\<lparr>cv_array := False\<rparr>)
      else let h = buf_handle (cv_buf c) in
      case cv_dtype c of
        SQLT_other k \<Rightarrow>
          if k = 0 then ([], c) else (free_if (holds_text (cv_buf c)) MallocBuffer 0, c)
      | SQLT_DAT \<Rightarrow> ([], c)
      | SQLT_CLOB \<Rightarrow> (free_if (h \<noteq> 0) LobDescriptor h, c)
      | SQLT_BLOB \<Rightarrow> (free_if (h \<noteq> 0) LobDescriptor h, c)
      | SQLT_RDD \<Rightarrow> (free_if (h \<noteq> 0) RowidDescriptor h, c)
      | SQLT_RSET \<Rightarrow> (free_if (h \<noteq> 0) StatementHandle h, c)
      | SQLT_INTERVAL_YM \<Rightarrow> (free_if (h \<noteq> 0) IntervalYMDescriptor h, c)
      | SQLT_INTERVAL_DS \<Rightarrow> (free_if (h \<noteq> 0) IntervalDSDescriptor h, c)
      | SQLT_LNG \<Rightarrow> (free_if (holds_long (cv_buf c)) LongReader 0, c)
      | SQLT_NTY \<Rightarrow> freeObject c
      | t \<Rightarrow>
          if is_int_type t \<or> is_float_type t then ([], c)
          else if is_timestamp_type t then (free_if (h \<noteq> 0) TimestampDescriptor h, c)
          else if t = SQLT_BIN \<or> t = SQLT_LBI \<or> t = SQLT_LVB then ([(RawBuffer, 0)], c)
          else (free_if (holds_text (cv_buf c)) MallocBuffer 0, c))"

section \<open>Result set columns\<close>

record column_buffer =
  cb_value :: ora_column
  cb_name :: string
  cb_maxsize :: int
  cb_defp :: bool
  cb_charlen :: int
  cb_precision :: int
  cb_scale :: int
  cb_subdtypename :: string

definition column_buffer_init ::
    "string \<Rightarrow> int \<Rightarrow> sqlt \<Rightarrow> int \<Rightarrow> int \<Rightarrow> int \<Rightarrow> nty \<Rightarrow> string \<Rightarrow> column_buffer" where
  "column_buffer_init n ms dt charlen prec scale sub subname =
     \<lparr>cb_value = ora_column_init dt sub, cb_name = map c_tolower n, cb_maxsize = ms, cb_defp = False,
      cb_charlen = charlen, cb_precision = prec, cb_scale = scale, cb_subdtypename = subname\<rparr>"

abbreviation cb_dtype :: "column_buffer \<Rightarrow> sqlt" where
  "cb_dtype c \<equiv> cv_dtype (cb_value c)"

definition column_buffer_del :: "column_buffer \<Rightarrow> (resource \<times> nat) list \<times> column_buffer" where
  "column_buffer_del c =
     (if cb_defp c then
        let (fs, v) = column_value_del (cb_value c)
        in (fs @ [(DefineHandle, 0)], c\<lparr>cb_value := v, cb_defp := False\<rparr>)
      else ([], c))"

text \<open>
  The attributes of one output parameter, in the order the constructor of \<open>OraResultSet\<close>
  reads them; each read can fail with an exception of \<open>checkerr\<close>.
\<close>

record param_desc =
  pd_dtype :: "sqlt outcome"
  pd_name :: "string outcome"
  pd_char_len :: "int outcome"
  pd_max_size :: "int outcome"
  pd_scale :: "int outcome"
  pd_precision :: "int outcome"
  pd_schema :: "string outcome"
  pd_type_name :: "string outcome"
  pd_is_collection :: "string \<Rightarrow> bool outcome"

definition describe_param :: "param_desc \<Rightarrow> column_buffer outcome" where
  "describe_param p =
     bind_outcome (pd_dtype p) (\<lambda>dtype.
     bind_outcome (pd_name p) (\<lambda>name.
     bind_outcome (pd_char_len p) (\<lambda>charlen.
     bind_outcome (pd_max_size p) (\<lambda>maxsize.
     bind_outcome (if dtype = SQLT_NUM
                   then bind_outcome (pd_scale p) (\<lambda>sc. bind_outcome (pd_precision p) (\<lambda>pr. Value (pr, sc)))
                   else Value (0, 0)) (\<lambda>(prec, scale).
       if dtype = SQLT_NTY then
         bind_outcome (pd_schema p) (\<lambda>sname.
         bind_outcome (pd_type_name p) (\<lambda>tname.
           let s = sname @ ''.'' @ tname
           in bind_outcome (pd_is_collection p s) (\<lambda>coll.
                Value (column_buffer_init name maxsize dtype charlen prec scale
                         (if coll then NTY_COLLECTION else NTY_OBJECT) s))))
       else Value (column_buffer_init name maxsize dtype charlen prec scale NTY_NONE []))))))"

fun OraResultSet_init :: "param_desc list \<Rightarrow> column_buffer list \<times> sink" where
  "OraResultSet_init [] = ([], [])"
| "OraResultSet_init (p # ps) =
     (case describe_param p of
        Value c \<Rightarrow> (let (cs, xs) = OraResultSet_init ps in (c # cs, xs))
      | Raised e \<Rightarrow> ([], [e])
      | Undefined \<Rightarrow> ([], []))"

section \<open>Defining the output\<close>

datatype define_call =
    DescriptorAlloc resource
  | HandleAllocStmt
  | RawResize int
  | ObjPlaceholder string
  | CollPlaceholder string
  | DefineByPos nat int sqlt
  | DefineByPosDynamic nat int sqlt
  | DefineDynamic
  | DefineObject
  | MallocCall int
  | NewLngCall

text \<open>
  The calls made so far and the exceptions raised; \<open>env n c\<close> is what the \<open>n\<close>-th call
  answers.  A handle that is allocated is the number of its call, counted from 1.
\<close>

type_synonym define_state = "define_call list \<times> sink"
type_synonym define_env = "nat \<Rightarrow> define_call \<Rightarrow> exn option"

definition dcall :: "define_env \<Rightarrow> define_call \<Rightarrow> define_state \<Rightarrow> bool \<times> define_state" where
  "dcall env c st =
     (case env (length (fst st)) c of
        None \<Rightarrow> (True, (fst st @ [c], snd st))
      | Some e \<Rightarrow> (False, (fst st @ [c], snd st @ [e])))"

text \<open>\<open>malloc\<close> and \<open>new\<close> are recorded too, and do not fail.\<close>

definition note_call :: "define_call \<Rightarrow> define_state \<Rightarrow> define_state" where
  "note_call c st = (fst st @ [c], snd st)"

abbreviation new_handle :: "define_state \<Rightarrow> nat" where
  "new_handle st \<equiv> Suc (length (fst st))"

definition get_char_width :: "int \<Rightarrow> int \<Rightarrow> int" where
  "get_char_width max_char_width num = num * max_char_width"

definition ORACLE_NUMBER_STR_LEN :: int where "ORACLE_NUMBER_STR_LEN = 127"
definition ORA_RAW_SIZE :: int where "ORA_RAW_SIZE = 65535"

definition set_buf :: "ora_buf \<Rightarrow> column_buffer \<Rightarrow> column_buffer" where
  "set_buf b c = c\<lparr>cb_value := (cb_value c)\<lparr>cv_buf := b\<rparr>\<rparr>"

text \<open>
  What the loop of \<open>define\<close> does after a column: go on, return at once, or a null pointer was
  dereferenced.
\<close>

datatype define_flow = DefineGo | DefineStop | DefineCrash

text \<open>\<open>defineByPos\<close> makes the define handle; its return code is not looked at.\<close>

definition define_by_pos :: "define_env \<Rightarrow> define_call \<Rightarrow> column_buffer \<Rightarrow> define_state \<Rightarrow> column_buffer \<times> define_state" where
  "define_by_pos env call c st =
     (let (ok, st') = dcall env call st in (if ok then c\<lparr>cb_defp := True\<rparr> else c, st'))"

definition alloc_and_define ::
    "define_env \<Rightarrow> define_call \<Rightarrow> define_call \<Rightarrow> column_buffer \<Rightarrow> define_state \<Rightarrow> column_buffer \<times> define_state \<times> define_flow" where
  "alloc_and_define env alloc def c st =
     (let (ok, st1) = dcall env alloc st
      in if \<not> ok then (set_buf (BufHandle 0) c, st1, DefineStop)
         else let (c', st2) = define_by_pos env def (set_buf (BufHandle (new_handle st)) c) st1 in (c', st2, DefineGo))"

definition define_column ::
    "define_env \<Rightarrow> int \<Rightarrow> nat \<Rightarrow> column_buffer \<Rightarrow> define_state \<Rightarrow> column_buffer \<times> define_state \<times> define_flow" where
  "define_column env max_char_width i w st =
     (case cb_dtype w of
        SQLT_DAT \<Rightarrow>
          (let (c, st') = define_by_pos env (DefineByPos (i + 1) 7 SQLT_DAT) (set_buf (BufDate []) w) st in (c, st', DefineGo))
      | SQLT_INTERVAL_YM \<Rightarrow> alloc_and_define env (DescriptorAlloc IntervalYMDescriptor) (DefineByPos (i + 1) 8 SQLT_INTERVAL_YM) w st
      | SQLT_INTERVAL_DS \<Rightarrow> alloc_and_define env (DescriptorAlloc IntervalDSDescriptor) (DefineByPos (i + 1) 8 SQLT_INTERVAL_DS) w st
      | SQLT_BLOB \<Rightarrow> alloc_and_define env (DescriptorAlloc LobDescriptor) (DefineByPos (i + 1) 0 SQLT_BLOB) w st
      | SQLT_CLOB \<Rightarrow> alloc_and_define env (DescriptorAlloc LobDescriptor) (DefineByPos (i + 1) 0 SQLT_CLOB) w st
      | SQLT_RSET \<Rightarrow> alloc_and_define env HandleAllocStmt (DefineByPos (i + 1) 0 SQLT_RSET) w st
      | SQLT_RDD \<Rightarrow> alloc_and_define env (DescriptorAlloc RowidDescriptor) (DefineByPos (i + 1) 0 SQLT_RDD) w st
      | SQLT_LNG \<Rightarrow>
          (let (ok, st1) = dcall env (DefineByPosDynamic (i + 1) (1024 * 1024 * 10) SQLT_CHR) (note_call NewLngCall st);
               c = set_buf (BufLng lng_init) w
           in if \<not> ok then (c, st1, DefineStop)
              else let (_, st2) = dcall env DefineDynamic st1 in (c\<lparr>cb_defp := True\<rparr>, st2, DefineGo))
      | SQLT_NTY \<Rightarrow>
          (let w0 = w\<lparr>cb_value := (cb_value w)\<lparr>cv_ind := 0\<rparr>\<rparr>
           in case cv_subdtype (cb_value w) of
                NTY_OBJECT \<Rightarrow>
                  (let (ok, st1) = dcall env (ObjPlaceholder (cb_subdtypename w)) st
                   in if \<not> ok then (set_buf (BufHandle 0) w0, st1, DefineStop)
                      else let (c, st2) = define_by_pos env (DefineByPos (i + 1) 0 SQLT_NTY) (set_buf (BufHandle (new_handle st)) w0) st1;
                               (_, st3) = dcall env DefineObject st2
                           in (c, st3, DefineGo))
              | NTY_COLLECTION \<Rightarrow>
                  (let (ok, st1) = dcall env (CollPlaceholder (cb_subdtypename w)) st;
                       (c, st2) = define_by_pos env (DefineByPos (i + 1) 0 SQLT_NTY)
                                    (set_buf (BufHandle (if ok then new_handle st else 0)) w0) st1
                   in if \<not> ok then (c, st2, DefineCrash)
                      else let (_, st3) = dcall env DefineObject st2 in (c, st3, DefineGo))
              | NTY_NONE \<Rightarrow> (w0, (fst st, snd st @ [Exn ''DEFINE-NTY-ERROR'' ''unknown NTY type'']), DefineStop))
      | SQLT_NUM \<Rightarrow>
          (let w' = set_buf (BufText (Some [])) (w\<lparr>cb_maxsize := ORACLE_NUMBER_STR_LEN\<rparr>);
               (c, st') = define_by_pos env (DefineByPos (i + 1) (ORACLE_NUMBER_STR_LEN + 1) SQLT_STR) w'
                            (note_call (MallocCall (ORACLE_NUMBER_STR_LEN + 1)) st)
           in (c, st', DefineGo))
      | t \<Rightarrow>
          if is_int_type t then
            (let (c, st') = define_by_pos env (DefineByPos (i + 1) 8 SQLT_INT) (set_buf (BufI8 0) w) st in (c, st', DefineGo))
          else if is_float_type t then
            (let (c, st') = define_by_pos env (DefineByPos (i + 1) 8 SQLT_FLT) (set_buf (BufF8 0) w) st in (c, st', DefineGo))
          else if is_timestamp_type t then
            alloc_and_define env (DescriptorAlloc TimestampDescriptor) (DefineByPos (i + 1) 8 SQLT_TIMESTAMP_TZ) w st
          else if is_raw_type t then
            (let size = (if cb_maxsize w = 0 then ORA_RAW_SIZE else cb_maxsize w);
                 (ok, st1) = dcall env (RawResize size) st
             in if \<not> ok then (set_buf (BufRaw []) w, st1, DefineStop)
                else let (c, st2) = define_by_pos env (DefineByPos (i + 1) (size + 4) SQLT_LVB) (set_buf (BufRaw []) w) st1
                     in (c, st2, DefineGo))
          else
            (let ms = (if cb_charlen w \<noteq> 0 then get_char_width max_char_width (cb_charlen w) else cb_maxsize w);
                 w' = set_buf (BufText (Some [])) (w\<lparr>cb_maxsize := ms\<rparr>);
                 (c, st') = define_by_pos env (DefineByPos (i + 1) (ms + 1) SQLT_STR) w' (note_call (MallocCall (ms + 1)) st)
             in (c, st', DefineGo)))"

text \<open>The loop stops at the first column that raised; the columns behind it stay undefined.\<close>

fun define_columns ::
    "define_env \<Rightarrow> int \<Rightarrow> nat \<Rightarrow> column_buffer list \<Rightarrow> define_state \<Rightarrow> column_buffer list \<times> define_state \<times> define_flow" where
  "define_columns env mcw i [] st = ([], st, DefineGo)"
| "define_columns env mcw i (w # ws) st =
     (let (c, st', go) = define_column env mcw i w st
      in if go \<noteq> DefineGo then (c # ws, st', go)
         else if snd st' \<noteq> [] then (c # ws, st', DefineStop)
         else let (cs, st'', go') = define_columns env mcw (i + 1) ws st' in (c # cs, st'', go'))"

record result_set =
  rs_defined :: bool
  rs_clist :: "column_buffer list"

definition result_set_define :: "define_env \<Rightarrow> int \<Rightarrow> result_set \<Rightarrow> result_set \<times> define_state \<times> define_flow" where
  "result_set_define env mcw rs =
     (if rs_defined rs then (rs, ([], []), DefineGo)
      else let (cs, st, go) = define_columns env mcw 0 (rs_clist rs) ([], [])
           in (\<lparr>rs_defined = True, rs_clist = cs\<rparr>, st, go))"

definition result_set_del :: "result_set \<Rightarrow> (resource \<times> nat) list \<times> result_set" where
  "result_set_del rs = (concat (map (\<lambda>c. fst (column_buffer_del c)) (rs_clist rs)), \<lparr>rs_defined = False, rs_clist = []\<rparr>)"


section \<open>Every allocation is released once\<close>

text \<open>The resources a sequence of calls acquired, with their handles.\<close>

fun call_resource :: "nat \<Rightarrow> define_call \<Rightarrow> (resource \<times> nat) list" where
  "call_resource n (DescriptorAlloc r) = [(r, Suc n)]"
| "call_resource n HandleAllocStmt = [(StatementHandle, Suc n)]"
| "call_resource n (RawResize _) = [(RawBuffer, 0)]"
| "call_resource n (ObjPlaceholder _) = [(ObjectValue, Suc n)]"
| "call_resource n (CollPlaceholder _) = [(CollectionValue, Suc n)]"
| "call_resource n (DefineByPos _ _ _) = [(DefineHandle, 0)]"
| "call_resource n (DefineByPosDynamic _ _ _) = [(DefineHandle, 0)]"
| "call_resource n DefineDynamic = []"
| "call_resource n DefineObject = []"
| "call_resource n (MallocCall _) = [(MallocBuffer, 0)]"
| "call_resource n NewLngCall = [(LongReader, 0)]"

fun acquired :: "nat \<Rightarrow> define_call list \<Rightarrow> (resource \<times> nat) list" where
  "acquired n [] = []"
| "acquired n (c # cs) = call_resource n c @ acquired (Suc n) cs"

lemma acquired_append: "acquired n (xs @ ys) = acquired n xs @ acquired (n + length xs) ys"
  by (induction xs arbitrary: n) simp_all

text \<open>A column as the constructor of the result set makes it.\<close>

definition fresh_column :: "column_buffer \<Rightarrow> bool" where
  "fresh_column c \<longleftrightarrow> \<not> cv_array (cb_value c) \<and> \<not> cb_defp c
     \<and> cb_dtype c \<noteq> SQLT_LVB \<and> cb_dtype c \<noteq> SQLT_other 0
     \<and> (cb_dtype c = SQLT_NTY \<longrightarrow> cv_subdtype (cb_value c) \<noteq> NTY_NONE)"

lemma set_buf_simps [simp]:
  "cv_buf (cb_value (set_buf b c)) = b" "cb_dtype (set_buf b c) = cb_dtype c"
  "cv_array (cb_value (set_buf b c)) = cv_array (cb_value c)"
  "cv_subdtype (cb_value (set_buf b c)) = cv_subdtype (cb_value c)"
  by (simp_all add: set_buf_def)

lemmas define_ok_simps = dcall_def note_call_def define_by_pos_def alloc_and_define_def

lemma define_column_acquires:
  assumes ok: "env = (\<lambda>_ _. None)" and w: "fresh_column w"
  shows "\<exists>c new. define_column env mcw i w (cs, []) = (c, (cs @ new, []), DefineGo)
     \<and> fst (column_buffer_del c) = acquired (length cs) new"
  using w unfolding fresh_column_def
  by (cases "cb_dtype w"; cases "cv_subdtype (cb_value w)")
     (auto simp: define_column_def define_ok_simps ok column_buffer_del_def column_value_del_def
        type_class_defs free_if_def freeObject_def Let_def)


lemma define_columns_acquires:
  assumes ok: "env = (\<lambda>_ _. None)" and w: "list_all fresh_column ws"
  shows "\<exists>ds new. define_columns env mcw i ws (cs, []) = (ds, (cs @ new, []), DefineGo)
     \<and> concat (map (\<lambda>c. fst (column_buffer_del c)) ds) = acquired (length cs) new"
  using w
proof (induction ws arbitrary: i cs)
  case Nil
  show ?case by (intro exI [of _ "[]"]) simp
next
  case (Cons w ws)
  then have w: "fresh_column w" by simp
  from define_column_acquires [OF ok w, where mcw = mcw and i = i and cs = cs] obtain c new where
    1: "define_column env mcw i w (cs, []) = (c, (cs @ new, []), DefineGo)"
       "fst (column_buffer_del c) = acquired (length cs) new" by blast
  from Cons.IH [of "i + 1" "cs @ new"] Cons.prems obtain ds new' where
    2: "define_columns env mcw (i + 1) ws (cs @ new, []) = (ds, ((cs @ new) @ new', []), DefineGo)"
       "concat (map (\<lambda>c. fst (column_buffer_del c)) ds) = acquired (length (cs @ new)) new'" by auto
  show ?case
    by (intro exI [of _ "c # ds"] exI [of _ "new @ new'"]) (use 1 2 in \<open>simp add: acquired_append\<close>)
qed

lemma describe_param_fresh:
  assumes "describe_param p = Value c" "pd_dtype p \<noteq> Value SQLT_LVB" "pd_dtype p \<noteq> Value (SQLT_other 0)"
  shows "fresh_column c"
  using assms
  by (auto simp: describe_param_def fresh_column_def column_buffer_init_def ora_column_init_def Let_def split: if_splits)

lemma OraResultSet_init_fresh:
  assumes "OraResultSet_init ps = (cs, xs)" "\<And>p. p \<in> set ps \<Longrightarrow> pd_dtype p \<noteq> Value SQLT_LVB \<and> pd_dtype p \<noteq> Value (SQLT_other 0)"
  shows "list_all fresh_column cs"
  using assms
proof (induction ps arbitrary: cs xs)
  case Nil
  then show ?case by simp
next
  case (Cons p ps)
  then show ?case
    by (auto split: outcome.splits prod.splits intro!: describe_param_fresh)
qed

section \<open>Properties\<close>

text \<open>C32: A LONG value fetched piecewise.  For any sequence of pieces the server writes, the
  value taken from the reader is their concatenation, and the reader is ready for the next row.\<close>

theorem long_column_roundtrip:
  "takeValue enc (long_column_fetch ss lng_init) = (QString (concat ss) enc, lng_init)"
  by (rule long_column_value) (simp_all add: lng_init_def)

text \<open>C31: Result set resources.  When the calls of \<open>define\<close> succeed on a result set as the
  constructor builds it, \<open>del\<close> releases exactly what was acquired, each with its own handle and
  the release operation of its kind, in order.\<close>

theorem result_set_del_releases:
  assumes cols: "OraResultSet_init ps = (cs, xs)"
    and types: "\<And>p. p \<in> set ps \<Longrightarrow> pd_dtype p \<noteq> Value SQLT_LVB \<and> pd_dtype p \<noteq> Value (SQLT_other 0)"
    and ok: "env = (\<lambda>_ _. None)"
    and def: "result_set_define env mcw \<lparr>rs_defined = False, rs_clist = cs\<rparr> = (rs, (calls, raised), flow)"
  shows "flow = DefineGo \<and> raised = [] \<and> fst (result_set_del rs) = acquired 0 calls"
proof -
  have "list_all fresh_column cs" using OraResultSet_init_fresh [OF cols] types by blast
  from define_columns_acquires [OF ok this, where i = 0 and cs = "[]" and mcw = mcw] def
  show ?thesis by (auto simp: result_set_define_def result_set_del_def)
qed

theorem result_set_del_releases_witness:
  "let p = (\<lambda>t. \<lparr>pd_dtype = Value t, pd_name = Value ''A'', pd_char_len = Value 0, pd_max_size = Value 22,
               pd_scale = Value 0, pd_precision = Value 0, pd_schema = Value ''S'', pd_type_name = Value ''T'',
               pd_is_collection = (\<lambda>_. Value True)\<rparr>);
       cs = fst (OraResultSet_init [p SQLT_CLOB, p SQLT_NTY]);
       (rs, (calls, raised), flow) = result_set_define (\<lambda>_ _. None) 4 \<lparr>rs_defined = False, rs_clist = cs\<rparr>
   in length cs = 2 \<and> flow = DefineGo \<and> raised = [] \<and> fst (result_set_del rs) = acquired 0 calls
      \<and> acquired 0 calls = [(LobDescriptor, 1), (DefineHandle, 0), (CollectionValue, 3), (DefineHandle, 0)]"
proof -
  define p where "p = (\<lambda>t. \<lparr>pd_dtype = Value t, pd_name = Value ''A'', pd_char_len = Value (0::int), pd_max_size = Value (22::int),
               pd_scale = Value (0::int), pd_precision = Value (0::int), pd_schema = Value ''S'', pd_type_name = Value ''T'',
               pd_is_collection = (\<lambda>_::string. Value True)\<rparr>)"
  obtain rs calls raised flow where d:
    "result_set_define (\<lambda>_ _. None) 4 \<lparr>rs_defined = False, rs_clist = fst (OraResultSet_init [p SQLT_CLOB, p SQLT_NTY])\<rparr>
       = (rs, (calls, raised), flow)" by (metis prod.exhaust)
  have "flow = DefineGo \<and> raised = [] \<and> fst (result_set_del rs) = acquired 0 calls"
    by (rule result_set_del_releases [OF prod.collapse [symmetric] _ refl d]) (auto simp: p_def)
  moreover from d have "acquired 0 calls = [(LobDescriptor, 1), (DefineHandle, 0), (CollectionValue, 3), (DefineHandle, 0)]"
    by (auto simp: result_set_define_def p_def describe_param_def column_buffer_init_def ora_column_init_def
        define_column_def define_ok_simps type_class_defs Let_def)
  moreover have "length (fst (OraResultSet_init [p SQLT_CLOB, p SQLT_NTY])) = 2"
    by (simp add: p_def describe_param_def Let_def)
  ultimately show ?thesis using d unfolding p_def [symmetric] Let_def by simp
qed

text \<open>When a collection type cannot be resolved, \<open>define\<close> goes on to use the missing
  placeholder: the failing lookup leads to a null pointer dereference.\<close>

theorem define_collection_crash:
  assumes "cb_dtype w = SQLT_NTY" "cv_subdtype (cb_value w) = NTY_COLLECTION"
    and "env (length (fst st)) (CollPlaceholder (cb_subdtypename w)) = Some e"
  shows "snd (snd (define_column env mcw i w st)) = DefineCrash"
  using assms by (auto simp: define_column_def dcall_def define_by_pos_def Let_def split: option.splits)

theorem define_collection_crash_witness:
  "snd (snd (define_column (\<lambda>_ _. Some (Exn ''E'' ''no type'')) 4 0
      (column_buffer_init ''C'' 0 SQLT_NTY 0 0 0 NTY_COLLECTION ''S.T'') ([], []))) = DefineCrash"
  by (rule define_collection_crash) (simp_all add: column_buffer_init_def ora_column_init_def)

end
