(* ===== verification/BindNodes.thy ===== *)
theory BindNodes
  imports Columns
begin

text \<open>
  Bind nodes (QorePreparedStatement.cpp, QorePreparedStatement.h): the values and placeholders
  of a statement, how a value is bound by position, how an output buffer is set up, and how a
  node is reset.
\<close>

section \<open>Bind nodes\<close>

datatype bind_kind = OB_PH | OB_BIND
datatype bind_tmp = OBT_NONE | OBT_STR string | OBT_BIN string

record ora_bind =
  ob_type :: bind_kind
  ph_name :: "string option"
  ph_maxsize :: int
  ph_type :: "string option"
  tmp_type :: bind_tmp

text \<open>
  The data of an array bind (\<open>AbstractDynamicArrayBindData\<close>): the indicators, and per class the
  buffers of the elements.  A string buffer is \<open>None\<close> for a null element; a LOB or date is its
  descriptor, 0 when there is none.
\<close>

datatype array_data =
    ArrayString qtype "string option list" "int list"
  | ArrayFloat "64 word list"
  | ArrayDate "nat list"
  | ArrayBool "bool list"
  | ArrayLob bool "nat list" "bool list"
  | SingleNull
  | SingleInt int
  | SingleFloat "64 word"
  | SingleString string
  | SingleDate qdate nat
  | SingleBinary string nat bool

record array_bind =
  ab_list :: "qval list option"
  ab_inds :: "int list"
  ab_data :: array_data

record bind_node =
  bn_array :: "array_bind option"
  bn_col :: ora_column
  bn_value :: qval
  bn_data :: ora_bind
  bn_strlob :: nat
  bn_bound :: bool
  bn_lob_allocated :: bool
  bn_indicator :: int

abbreviation no_dtype :: sqlt where "no_dtype \<equiv> SQLT_other 0"

definition value_node :: "qval \<Rightarrow> bind_node" where
  "value_node v = \<lparr>bn_array = None, bn_col = ora_column_init no_dtype NTY_NONE, bn_value = v,
     bn_data = \<lparr>ob_type = OB_BIND, ph_name = None, ph_maxsize = 0, ph_type = None, tmp_type = OBT_NONE\<rparr>,
     bn_strlob = 0, bn_bound = False, bn_lob_allocated = False, bn_indicator = 0\<rparr>"

definition placeholder_node :: "string \<Rightarrow> int \<Rightarrow> string option \<Rightarrow> qval \<Rightarrow> bind_node" where
  "placeholder_node n sz typ v = \<lparr>bn_array = None, bn_col = ora_column_init no_dtype NTY_NONE, bn_value = v,
     bn_data = \<lparr>ob_type = OB_PH, ph_name = Some n, ph_maxsize = sz, ph_type = typ, tmp_type = OBT_NONE\<rparr>,
     bn_strlob = 0, bn_bound = False, bn_lob_allocated = False, bn_indicator = 0\<rparr>"

definition isValue :: "bind_node \<Rightarrow> bool" where
  "isValue n \<longleftrightarrow> ob_type (bn_data n) = OB_BIND"

definition isType :: "string \<Rightarrow> bind_node \<Rightarrow> bool" where
  "isType t n \<longleftrightarrow> ph_type (bn_data n) = Some t"

abbreviation bn_dtype :: "bind_node \<Rightarrow> sqlt" where
  "bn_dtype n \<equiv> cv_dtype (bn_col n)"

text \<open>The C++ \<open>int\<close> a 64-bit value is narrowed to.\<close>

definition c_int :: "int \<Rightarrow> int" where
  "c_int i = sint (word_of_int i :: 32 word)"

definition set_col :: "(ora_column \<Rightarrow> ora_column) \<Rightarrow> bind_node \<Rightarrow> bind_node" where
  "set_col f n = n\<lparr>bn_col := f (bn_col n)\<rparr>"

definition set_data :: "(ora_bind \<Rightarrow> ora_bind) \<Rightarrow> bind_node \<Rightarrow> bind_node" where
  "set_data f n = n\<lparr>bn_data := f (bn_data n)\<rparr>"

definition bn_set_buf :: "sqlt \<Rightarrow> ora_buf \<Rightarrow> bind_node \<Rightarrow> bind_node" where
  "bn_set_buf t b n = set_col (\<lambda>c. c\<lparr>cv_dtype := t, cv_buf := b\<rparr>) n"

section \<open>Calls and conversions\<close>

text \<open>What is handed to \<open>OCIBindByPos\<close>: no buffer, the content of a buffer, or a handle in one.\<close>

datatype bound_data = BoundNull | BoundText string | BoundInt int | BoundFloat "64 word" | BoundRaw string
  | BoundHandle nat | BoundNamedType | BoundOut ora_buf | BoundDynamic

datatype bind_call =
    BindByPos nat bound_data int sqlt
  | BindDynamic nat
  | BindDynamicOut nat
  | BindAllocDescriptor resource
  | BindAllocStatement
  | CreateTemporaryLob bool
  | WriteLob nat string
  | FreeTemporaryLob nat
  | DateTimeConstruct nat qdate
  | RawAssignBytes string
  | RawResizeTo int
  | BindObjectValue "qval ohash"
  | BindCollectionValue "qval ohash"
  | BindObjectPlaceholder string
  | BindCollectionPlaceholder string
  | BindObject

record bind_env =
  be_encoding :: string
  be_convert :: "string \<Rightarrow> string \<Rightarrow> string \<Rightarrow> string outcome"
  be_to_string :: "qval \<Rightarrow> string \<times> string"
  be_type_name :: "qval \<Rightarrow> string"
  be_to_int :: "qval \<Rightarrow> int"
  be_to_float :: "qval \<Rightarrow> 64 word"
  be_to_date :: "qval \<Rightarrow> qdate"
  be_capacity :: "string \<Rightarrow> int \<Rightarrow> int"
  be_default_str_len :: int
  be_lost :: bool
  be_array_size :: nat
  be_answer :: "nat \<Rightarrow> bind_call \<Rightarrow> exn option"

record bind_world =
  bw_calls :: "bind_call list"
  bw_sink :: sink
  bw_freed :: "(resource \<times> nat) list"

definition bind_world_init :: bind_world where
  "bind_world_init = \<lparr>bw_calls = [], bw_sink = [], bw_freed = []\<rparr>"

definition bcall :: "bind_env \<Rightarrow> bind_call \<Rightarrow> bind_world \<Rightarrow> bool \<times> bind_world" where
  "bcall env c w =
     (case be_answer env (length (bw_calls w)) c of
        None \<Rightarrow> (True, w\<lparr>bw_calls := bw_calls w @ [c]\<rparr>)
      | Some e \<Rightarrow> (False, w\<lparr>bw_calls := bw_calls w @ [c], bw_sink := bw_sink w @ [e]\<rparr>))"

definition braise :: "string \<Rightarrow> string \<Rightarrow> bind_world \<Rightarrow> bind_world" where
  "braise code what w = w\<lparr>bw_sink := bw_sink w @ [Exn code what]\<rparr>"

definition bfree :: "(resource \<times> nat) list \<Rightarrow> bind_world \<Rightarrow> bind_world" where
  "bfree fs w = w\<lparr>bw_freed := bw_freed w @ fs\<rparr>"

definition bhandle :: "bind_world \<Rightarrow> nat" where
  "bhandle w = Suc (length (bw_calls w))"

type_synonym bind_step = "bind_node \<times> bind_world"

definition bind_by_pos :: "bind_env \<Rightarrow> nat \<Rightarrow> bound_data \<Rightarrow> int \<Rightarrow> sqlt \<Rightarrow> bind_node \<Rightarrow> bind_world \<Rightarrow> bind_step" where
  "bind_by_pos env pos d sz t n w =
     (let (ok, w') = bcall env (BindByPos pos d sz t) w in (if ok then n\<lparr>bn_bound := True\<rparr> else n, w'))"

section \<open>Deleting array data\<close>

text \<open>
  What the destructors release: the date class frees its descriptors, the single binary its
  LOB; the LOB array class (whose \<open>clear()\<close> nothing calls) and the single date free nothing.
\<close>

definition array_data_delete :: "bind_env \<Rightarrow> array_data \<Rightarrow> bind_world \<Rightarrow> bind_world" where
  "array_data_delete env d w =
     (case d of
        ArrayDate hs \<Rightarrow> bfree (map (\<lambda>h. (TimestampDescriptor, h)) (filter (\<lambda>h. h \<noteq> 0) hs)) w
      | SingleBinary b loc allocated \<Rightarrow>
          if loc \<noteq> 0 then
            bfree [(LobDescriptor, loc)]
              (if allocated \<and> \<not> be_lost env then w\<lparr>bw_calls := bw_calls w @ [FreeTemporaryLob loc]\<rparr> else w)
          else w
      | _ \<Rightarrow> w)"

definition delete_array :: "bind_env \<Rightarrow> bind_node \<Rightarrow> bind_world \<Rightarrow> bind_step" where
  "delete_array env n w =
     (set_col (\<lambda>c. c\<lparr>cv_array := False\<rparr>) (n\<lparr>bn_array := None\<rparr>),
      (case bn_array n of
         None \<Rightarrow> w
       | Some a \<Rightarrow> bfree [(ArrayBindData, 0)] (array_data_delete env (ab_data a) w)))"

text \<open>\<open>OraColumnValue::del\<close> on a bind node.\<close>

definition node_del :: "bind_env \<Rightarrow> bind_node \<Rightarrow> bind_world \<Rightarrow> bind_step" where
  "node_del env n w =
     (if cv_array (bn_col n) then delete_array env n w
      else let (fs, c) = column_value_del (bn_col n) in (n\<lparr>bn_col := c\<rparr>, bfree fs w))"

section \<open>Resetting\<close>

definition resetTmp :: "ora_bind \<Rightarrow> ora_bind" where
  "resetTmp d = d\<lparr>tmp_type := OBT_NONE\<rparr>"

definition ora_bind_resetPlaceholder :: "bool \<Rightarrow> ora_bind \<Rightarrow> ora_bind" where
  "ora_bind_resetPlaceholder free_name d =
     resetTmp (d\<lparr>ph_name := (if free_name then None else ph_name d), ph_type := None\<rparr>)"

definition clearPlaceholder :: "bind_env \<Rightarrow> bind_node \<Rightarrow> bind_world \<Rightarrow> bind_step" where
  "clearPlaceholder env n w =
     (if bn_dtype n \<noteq> no_dtype then
        let (n', w') = node_del env n w
        in (set_col (\<lambda>c. c\<lparr>cv_alt_output := False, cv_dtype := no_dtype\<rparr>) n', w')
      else (n, w))"

definition resetPlaceholder :: "bind_env \<Rightarrow> bool \<Rightarrow> bind_node \<Rightarrow> bind_world \<Rightarrow> bind_step" where
  "resetPlaceholder env free_name n w = clearPlaceholder env (set_data (ora_bind_resetPlaceholder free_name) n) w"

definition resetValue :: "bind_env \<Rightarrow> bind_node \<Rightarrow> bind_world \<Rightarrow> bind_step" where
  "resetValue env n w =
     (if bn_dtype n = no_dtype then (n, w)
      else let n = set_data resetTmp n
      in if cv_array (bn_col n) then delete_array env n w
         else if bn_strlob n \<noteq> 0 then
           (let w1 = (if bn_lob_allocated n \<and> \<not> be_lost env then snd (bcall env (FreeTemporaryLob (bn_strlob n)) w) else w)
            in (set_col (\<lambda>c. c\<lparr>cv_dtype := no_dtype\<rparr>) (n\<lparr>bn_lob_allocated := False, bn_strlob := 0\<rparr>),
                bfree [(LobDescriptor, bn_strlob n)] w1))
         else if bn_dtype n = SQLT_NTY then
           (let (fs, c) = freeObject (bn_col n) in (n\<lparr>bn_col := c\<lparr>cv_dtype := no_dtype\<rparr>\<rparr>, bfree fs w))
         else if bn_dtype n = SQLT_TIMESTAMP_TZ then
           (let h = buf_handle (cv_buf (bn_col n))
            in if h \<noteq> 0 then (bn_set_buf no_dtype (BufHandle 0) n, bfree [(TimestampDescriptor, h)] w)
               else (set_col (\<lambda>c. c\<lparr>cv_dtype := no_dtype\<rparr>) n, w))
         else (set_col (\<lambda>c. c\<lparr>cv_dtype := no_dtype\<rparr>) n, w))"

definition node_clear :: "bind_env \<Rightarrow> bind_node \<Rightarrow> bind_world \<Rightarrow> bind_step" where
  "node_clear env n w = (if isValue n then resetValue env n w else clearPlaceholder env n w)"

definition node_reset :: "bind_env \<Rightarrow> bool \<Rightarrow> bind_node \<Rightarrow> bind_world \<Rightarrow> bind_step" where
  "node_reset env free_name n w =
     (let n = n\<lparr>bn_value := QNothing\<rparr>
      in if isValue n then resetValue env n w else resetPlaceholder env free_name n w)"

section \<open>Setting a value or a placeholder\<close>

definition setPlaceholderIntern :: "int \<Rightarrow> string \<Rightarrow> bind_node \<Rightarrow> bind_node" where
  "setPlaceholderIntern sz typ n = set_data (\<lambda>d. d\<lparr>ph_maxsize := sz, ph_type := Some typ\<rparr>) n"

definition hash_value :: "qval ohash \<Rightarrow> string \<Rightarrow> qval option" where
  "hash_value h k = (case key_value h k of QNothing \<Rightarrow> None | v \<Rightarrow> Some v)"

definition setPlaceholder :: "bind_env \<Rightarrow> qval \<Rightarrow> bind_node \<Rightarrow> bind_world \<Rightarrow> bool \<times> bind_step" where
  "setPlaceholder env v n0 w0 =
     (let (n, w) = resetPlaceholder env False n0 w0
      in case v of
           QNothing \<Rightarrow> (True, setPlaceholderIntern (- 1) ''string'' n, w)
         | QHash h \<Rightarrow>
             (let n1 = (case hash_value h ''value'' of Some t \<Rightarrow> n\<lparr>bn_value := t\<rparr> | None \<Rightarrow> n);
                  sz = (case hash_value h ''value'' of
                          Some _ \<Rightarrow> - 1
                        | None \<Rightarrow> (case hash_value h ''size'' of None \<Rightarrow> - 1 | Some s \<Rightarrow> c_int (be_to_int env s)))
              in case hash_value h ''type'' of
                   None \<Rightarrow>
                     if bn_value n1 \<noteq> QNothing then (True, setPlaceholderIntern sz (be_type_name env (bn_value n1)) n1, w)
                     else (False, n1, braise ''BIND-ERROR'' ''missing type key in placeholder hash'' w)
                 | Some (QString t e) \<Rightarrow> (True, setPlaceholderIntern sz t n1, w)
                 | Some _ \<Rightarrow> (False, n1, braise ''BIND-ERROR'' ''expecting type name as value of type key'' w))
         | QString t e \<Rightarrow> (True, setPlaceholderIntern (- 1) t n, w)
         | QInt i \<Rightarrow> (True, setPlaceholderIntern (c_int i) ''string'' n, w)
         | _ \<Rightarrow> (False, n, braise ''BIND-ERROR'' ''expecting string or hash for placeholder description'' w))"

definition node_set :: "bind_env \<Rightarrow> qval \<Rightarrow> bind_node \<Rightarrow> bind_world \<Rightarrow> bool \<times> bind_step" where
  "node_set env v n w =
     (if isValue n then
        let (n', w') = resetValue env n w in (bw_sink w' = [], n'\<lparr>bn_value := v\<rparr>, w')
      else setPlaceholder env v n w)"

end
