(* ===== verification/ArrayBind.thy ===== *)
theory ArrayBind
  imports BindNodes
begin

text \<open>
  Array binds (QorePreparedStatement.cpp): the classes that hold the elements of a list bound
  with \<open>OCIBindDynamic\<close>, and the callbacks through which the server takes element by element.
\<close>

section \<open>Setting up\<close>

definition is_null :: "qval \<Rightarrow> bool" where
  "is_null v \<longleftrightarrow> qtype_of v = NT_NOTHING \<or> qtype_of v = NT_NULL"

lemma is_null_simps [simp]:
  "is_null QNothing" "is_null QNull" "\<not> is_null (QInt i)" "\<not> is_null (QString s e)" "\<not> is_null (QFloat f)"
  "\<not> is_null (QDate d)" "\<not> is_null (QBool b)" "\<not> is_null (QBinary x)" "\<not> is_null (QNumber n)"
  "\<not> is_null (QList l)" "\<not> is_null (QHash h)" "\<not> is_null (QObject k)"
  by (simp_all add: is_null_def)

definition array_type_error :: exn where
  "array_type_error = Exn ''ARRAY-BIND-ERROR'' ''all list elements must be of the same type''"

text \<open>\<open>DynamicArrayBindString\<close>: the text of an element in the encoding of the database.\<close>

definition element_text :: "bind_env \<Rightarrow> qval \<Rightarrow> string outcome" where
  "element_text env v =
     (case v of
        QString s e \<Rightarrow> if e = be_encoding env then Value s else be_convert env s e (be_encoding env)
      | QInt i \<Rightarrow> Value (show_int i)
      | QNumber s \<Rightarrow> Value s
      | _ \<Rightarrow> Value (fst (be_to_string env v)))"

fun array_strings :: "bind_env \<Rightarrow> qval list \<Rightarrow> (string option list \<times> int list \<times> int list \<times> int) outcome" where
  "array_strings env [] = Value ([], [], [], 0)"
| "array_strings env (v # vs) =
     (if is_null v then
        bind_outcome (array_strings env vs) (\<lambda>(ss, ls, is, mx). Value (None # ss, 0 # ls, - 1 # is, mx))
      else
        bind_outcome (element_text env v) (\<lambda>s.
        bind_outcome (array_strings env vs) (\<lambda>(ss, ls, is, mx).
          let n = int (length s) + 1 in Value (Some s # ss, n # ls, 0 # is, max n mx))))"

fun array_floats :: "qval list \<Rightarrow> (64 word list \<times> int list) outcome" where
  "array_floats [] = Value ([], [])"
| "array_floats (v # vs) =
     (if is_null v then bind_outcome (array_floats vs) (\<lambda>(xs, is). Value (0 # xs, - 1 # is))
      else case v of
        QFloat f \<Rightarrow> bind_outcome (array_floats vs) (\<lambda>(xs, is). Value (f # xs, 0 # is))
      | _ \<Rightarrow> Raised array_type_error)"

fun array_bools :: "qval list \<Rightarrow> (bool list \<times> int list) outcome" where
  "array_bools [] = Value ([], [])"
| "array_bools (v # vs) =
     (if is_null v then bind_outcome (array_bools vs) (\<lambda>(xs, is). Value (False # xs, - 1 # is))
      else case v of
        QBool b \<Rightarrow> bind_outcome (array_bools vs) (\<lambda>(xs, is). Value (b # xs, 0 # is))
      | _ \<Rightarrow> Raised array_type_error)"

text \<open>
  Dates and LOBs acquire descriptors on the way; the vectors have their full length from the
  start, and what was acquired before an error stays in them.
\<close>

fun array_dates :: "bind_env \<Rightarrow> qval list \<Rightarrow> bind_world \<Rightarrow> bool \<times> nat list \<times> int list \<times> bind_world" where
  "array_dates env [] w = (True, [], [], w)"
| "array_dates env (v # vs) w =
     (if is_null v then
        (let (ok, hs, is, w') = array_dates env vs w in (ok, 0 # hs, - 1 # is, w'))
      else case v of
        QDate d \<Rightarrow>
          (let (ok1, w1) = bcall env (BindAllocDescriptor TimestampDescriptor) w; h = bhandle w
           in if \<not> ok1 then (False, replicate (Suc (length vs)) 0, replicate (Suc (length vs)) 0, w1)
              else let (ok2, w2) = bcall env (DateTimeConstruct h d) w1
                   in if \<not> ok2 then (False, h # replicate (length vs) 0, replicate (Suc (length vs)) 0, w2)
                      else let (ok, hs, is, w') = array_dates env vs w2 in (ok, h # hs, 0 # is, w'))
      | _ \<Rightarrow> (False, replicate (Suc (length vs)) 0, replicate (Suc (length vs)) 0,
              w\<lparr>bw_sink := bw_sink w @ [array_type_error]\<rparr>))"

definition lob_data :: "bind_env \<Rightarrow> bool \<Rightarrow> qval \<Rightarrow> string outcome" where
  "lob_data env blob v =
     (case v of
        QBinary b \<Rightarrow> Value b
      | QString s e \<Rightarrow> if e = be_encoding env then Value s else be_convert env s e (be_encoding env)
      | _ \<Rightarrow> Value [])"

fun array_lobs :: "bind_env \<Rightarrow> bool \<Rightarrow> qval list \<Rightarrow> bind_world \<Rightarrow> bool \<times> nat list \<times> bool list \<times> int list \<times> bind_world" where
  "array_lobs env blob [] w = (True, [], [], [], w)"
| "array_lobs env blob (v # vs) w =
     (let z = replicate (length vs) (0 :: nat); zf = replicate (length vs) False; zi = replicate (length vs) (0 :: int)
      in if is_null v then
        (let (ok, hs, as, is, w') = array_lobs env blob vs w in (ok, 0 # hs, False # as, - 1 # is, w'))
      else if qtype_of v \<noteq> (if blob then NT_BINARY else NT_STRING) then
        (False, 0 # z, False # zf, 0 # zi, w\<lparr>bw_sink := bw_sink w @ [array_type_error]\<rparr>)
      else
        (let (ok1, w1) = bcall env (BindAllocDescriptor LobDescriptor) w; h = bhandle w
         in if \<not> ok1 then (False, 0 # z, False # zf, 0 # zi, w1)
            else let (ok2, w2) = bcall env (CreateTemporaryLob blob) w1
                 in if \<not> ok2 then (False, h # z, False # zf, 0 # zi, w2)
                    else (case lob_data env blob v of
                            Value s \<Rightarrow>
                              (let (ok3, w3) = bcall env (WriteLob h s) w2
                               in if \<not> ok3 then (False, h # z, True # zf, 0 # zi, w3)
                                  else let (ok, hs, as, is, w') = array_lobs env blob vs w3
                                       in (ok, h # hs, True # as, 0 # is, w'))
                          | Raised e \<Rightarrow> (False, h # z, True # zf, 0 # zi, w2\<lparr>bw_sink := bw_sink w2 @ [e]\<rparr>)
                          | Undefined \<Rightarrow> (False, h # z, True # zf, 0 # zi, w2))))"

definition LOB_THRESHOLD :: nat where "LOB_THRESHOLD = 4000"

definition bind_at_exec :: "bind_env \<Rightarrow> nat \<Rightarrow> int \<Rightarrow> sqlt \<Rightarrow> array_bind \<Rightarrow> bind_node \<Rightarrow> bind_world \<Rightarrow> bool \<times> bind_step" where
  "bind_at_exec env pos sz t a n w =
     (let n' = set_col (\<lambda>c. c\<lparr>cv_dtype := t\<rparr>) (n\<lparr>bn_array := Some a\<rparr>)
      in (True, bind_by_pos env pos BoundDynamic sz t n' w))"

definition setup_raise :: "exn \<Rightarrow> array_bind \<Rightarrow> bind_node \<Rightarrow> bind_world \<Rightarrow> bool \<times> bind_step" where
  "setup_raise e a n w = (False, n\<lparr>bn_array := Some a\<rparr>, w\<lparr>bw_sink := bw_sink w @ [e]\<rparr>)"

text \<open>The classes of a single value.\<close>

definition setup_single_null :: "bind_env \<Rightarrow> nat \<Rightarrow> array_bind \<Rightarrow> bind_node \<Rightarrow> bind_world \<Rightarrow> bool \<times> bind_step" where
  "setup_single_null env pos a n w = bind_at_exec env pos 1 SQLT_STR (a\<lparr>ab_inds := [- 1]\<rparr>) n w"

definition setup_single_int :: "bind_env \<Rightarrow> nat \<Rightarrow> array_bind \<Rightarrow> bind_node \<Rightarrow> bind_world \<Rightarrow> bool \<times> bind_step" where
  "setup_single_int env pos a n w = bind_at_exec env pos 8 SQLT_INT a n w"

definition setup_single_float :: "bind_env \<Rightarrow> nat \<Rightarrow> array_bind \<Rightarrow> bind_node \<Rightarrow> bind_world \<Rightarrow> bool \<times> bind_step" where
  "setup_single_float env pos a n w = bind_at_exec env pos 8 SQLT_FLT a n w"

definition setup_single_string :: "bind_env \<Rightarrow> nat \<Rightarrow> string \<Rightarrow> array_bind \<Rightarrow> bind_node \<Rightarrow> bind_world \<Rightarrow> bool \<times> bind_step" where
  "setup_single_string env pos s a n w = bind_at_exec env pos (int (length s) + 1) SQLT_STR a n w"

definition setup_single_date :: "bind_env \<Rightarrow> nat \<Rightarrow> qdate \<Rightarrow> array_bind \<Rightarrow> bind_node \<Rightarrow> bind_world \<Rightarrow> bool \<times> bind_step" where
  "setup_single_date env pos d a n w =
     (let (ok1, w1) = bcall env (BindAllocDescriptor TimestampDescriptor) w; h = bhandle w
      in if \<not> ok1 then (False, n\<lparr>bn_array := Some a\<rparr>, w1)
         else let (ok2, w2) = bcall env (DateTimeConstruct h d) w1; a' = a\<lparr>ab_data := SingleDate d h\<rparr>
              in if \<not> ok2 then (False, n\<lparr>bn_array := Some a'\<rparr>, w2)
                 else bind_at_exec env pos 0 SQLT_TIMESTAMP_TZ a' n w2)"

definition setup_single_binary :: "bind_env \<Rightarrow> nat \<Rightarrow> string \<Rightarrow> array_bind \<Rightarrow> bind_node \<Rightarrow> bind_world \<Rightarrow> bool \<times> bind_step" where
  "setup_single_binary env pos b a n w =
     (if length b > LOB_THRESHOLD then
        (let (ok1, w1) = bcall env (BindAllocDescriptor LobDescriptor) w; h = bhandle w
         in if \<not> ok1 then (False, n\<lparr>bn_array := Some a\<rparr>, w1)
            else let (ok2, w2) = bcall env (CreateTemporaryLob True) w1
                 in if \<not> ok2 then (False, n\<lparr>bn_array := Some (a\<lparr>ab_data := SingleBinary b h False\<rparr>)\<rparr>, w2)
                    else let (ok3, w3) = bcall env (WriteLob h b) w2; a' = a\<lparr>ab_data := SingleBinary b h True\<rparr>
                         in if \<not> ok3 then (False, n\<lparr>bn_array := Some a'\<rparr>, w3)
                            else bind_at_exec env pos 8 SQLT_BLOB a' n w3)
      else bind_at_exec env pos (int (length b)) SQLT_BIN a n w)"

text \<open>
  \<open>setupBind\<close> of each class: \<open>True\<close> when it returned 0.  A failing \<open>bindByPos\<close> raises, but the
  return code of the classes stays 0.
\<close>

definition setupBind :: "bind_env \<Rightarrow> nat \<Rightarrow> array_bind \<Rightarrow> bind_node \<Rightarrow> bind_world \<Rightarrow> bool \<times> bind_step" where
  "setupBind env pos a0 n w =
     (let l = (case ab_list a0 of None \<Rightarrow> [] | Some l \<Rightarrow> l);
          a = a0\<lparr>ab_inds := replicate (case ab_list a0 of None \<Rightarrow> 1 | Some l \<Rightarrow> length l) 0\<rparr>
      in case ab_data a of
        ArrayString et _ _ \<Rightarrow>
          (case array_strings env l of
             Value (ss, ls, is, mx) \<Rightarrow>
               bind_at_exec env pos mx SQLT_STR (a\<lparr>ab_inds := is, ab_data := ArrayString et ss ls\<rparr>) n w
           | Raised e \<Rightarrow> setup_raise e a n w
           | Undefined \<Rightarrow> (False, n\<lparr>bn_array := Some a\<rparr>, w))
      | ArrayFloat _ \<Rightarrow>
          (case array_floats l of
             Value (xs, is) \<Rightarrow> bind_at_exec env pos 8 SQLT_FLT (a\<lparr>ab_inds := is, ab_data := ArrayFloat xs\<rparr>) n w
           | Raised e \<Rightarrow> setup_raise e a n w
           | Undefined \<Rightarrow> (False, n\<lparr>bn_array := Some a\<rparr>, w))
      | ArrayBool _ \<Rightarrow>
          (case array_bools l of
             Value (xs, is) \<Rightarrow> bind_at_exec env pos 1 SQLT_INT (a\<lparr>ab_inds := is, ab_data := ArrayBool xs\<rparr>) n w
           | Raised e \<Rightarrow> setup_raise e a n w
           | Undefined \<Rightarrow> (False, n\<lparr>bn_array := Some a\<rparr>, w))
      | ArrayDate _ \<Rightarrow>
          (let (ok, hs, is, w') = array_dates env l w; a' = a\<lparr>ab_inds := is, ab_data := ArrayDate hs\<rparr>
           in if ok then bind_at_exec env pos 0 SQLT_TIMESTAMP_TZ a' n w' else (False, n\<lparr>bn_array := Some a'\<rparr>, w'))
      | ArrayLob blob _ _ \<Rightarrow>
          (let (ok, hs, as, is, w') = array_lobs env blob l w; a' = a\<lparr>ab_inds := is, ab_data := ArrayLob blob hs as\<rparr>
           in if ok then bind_at_exec env pos 8 (if blob then SQLT_BLOB else SQLT_CLOB) a' n w'
              else (False, n\<lparr>bn_array := Some a'\<rparr>, w'))
      | SingleNull \<Rightarrow> setup_single_null env pos a n w
      | SingleInt i \<Rightarrow> setup_single_int env pos a n w
      | SingleFloat f \<Rightarrow> setup_single_float env pos a n w
      | SingleString s \<Rightarrow> setup_single_string env pos s a n w
      | SingleDate d _ \<Rightarrow> setup_single_date env pos d a n w
      | SingleBinary b _ _ \<Rightarrow> setup_single_binary env pos b a n w)"

lemmas setup_single_defs = setup_single_null_def setup_single_int_def setup_single_float_def setup_single_string_def
  setup_single_date_def setup_single_binary_def

lemmas setupBind_defs = setupBind_def setup_single_defs

section \<open>The callbacks\<close>

text \<open>
  What the server gets for an iteration: the buffer, its length and the indicator.  A single
  value has one indicator for all iterations.
\<close>

record element =
  el_data :: bound_data
  el_len :: int
  el_ind :: int

definition bindCallbackImpl :: "nat \<Rightarrow> array_data \<Rightarrow> bound_data \<times> int" where
  "bindCallbackImpl iter d =
     (case d of
        ArrayString et ss ls \<Rightarrow> (case ss ! iter of None \<Rightarrow> BoundNull | Some s \<Rightarrow> BoundText s, ls ! iter)
      | ArrayFloat xs \<Rightarrow> (BoundFloat (xs ! iter), 8)
      | ArrayDate hs \<Rightarrow> (BoundHandle (hs ! iter), 0)
      | ArrayBool xs \<Rightarrow> (BoundInt (if xs ! iter then 1 else 0), 1)
      | ArrayLob blob hs as \<Rightarrow> (BoundHandle (hs ! iter), 0)
      | SingleNull \<Rightarrow> (BoundNull, 0)
      | SingleInt i \<Rightarrow> (BoundInt i, 8)
      | SingleFloat f \<Rightarrow> (BoundFloat f, 8)
      | SingleString s \<Rightarrow> (BoundText s, int (length s) + 1)
      | SingleDate d h \<Rightarrow> (BoundHandle h, 0)
      | SingleBinary b loc allocated \<Rightarrow> if loc \<noteq> 0 then (BoundHandle loc, 0) else (BoundRaw b, int (length b)))"

definition bindCallback :: "nat \<Rightarrow> array_bind \<Rightarrow> element" where
  "bindCallback iter a =
     (let (d, len) = bindCallbackImpl iter (ab_data a)
      in \<lparr>el_data = d, el_len = len, el_ind = ab_inds a ! (case ab_list a of None \<Rightarrow> 0 | Some _ \<Rightarrow> iter)\<rparr>)"

definition bindNoDataCallback :: "nat \<Rightarrow> array_bind \<Rightarrow> element \<times> array_bind" where
  "bindNoDataCallback iter a =
     (\<lparr>el_data = BoundNull, el_len = 0, el_ind = - 1\<rparr>, a\<lparr>ab_inds := (ab_inds a)[iter := - 1]\<rparr>)"

text \<open>Output buffers: one per iteration, of a length fixed by the type.\<close>

definition setupOutputBind :: "bind_env \<Rightarrow> nat \<Rightarrow> qtype \<Rightarrow> bind_node \<Rightarrow> bind_world \<Rightarrow> bool \<times> bind_step" where
  "setupOutputBind env pos et n w =
     (let k = be_array_size env
      in bind_at_exec env pos (be_default_str_len env + 1) SQLT_STR
           \<lparr>ab_list = None, ab_inds = replicate k 0, ab_data = ArrayString et (replicate k None) (replicate k 0)\<rparr> n w)"

definition ph_len :: "bind_env \<Rightarrow> qtype \<Rightarrow> int" where
  "ph_len env et = (if et = NT_INT then 33 else if et = NT_NUMBER then 100 else be_default_str_len env + 1)"

definition bindPlaceholderCallback :: "bind_env \<Rightarrow> nat \<Rightarrow> array_bind \<Rightarrow> int \<times> array_bind" where
  "bindPlaceholderCallback env iter a =
     (case ab_data a of
        ArrayString et ss ls \<Rightarrow>
          (ph_len env et, a\<lparr>ab_data := ArrayString et (ss[iter := Some []]) (ls[iter := ph_len env et])\<rparr>)
      | _ \<Rightarrow> (0, a))"

definition output_element :: "number_option \<Rightarrow> string \<Rightarrow> qtype \<Rightarrow> string option \<Rightarrow> qval" where
  "output_element nopt enc et s =
     (case et of
        NT_INT \<Rightarrow> QInt (fst (c_strtoll (case s of None \<Rightarrow> [] | Some t \<Rightarrow> t)))
      | NT_NUMBER \<Rightarrow>
          (let t = (case s of None \<Rightarrow> [] | Some t \<Rightarrow> t)
           in case nopt of
                OPT_NUM_OPTIMAL \<Rightarrow> number_node (getNumberOptimal t)
              | OPT_NUM_STRING \<Rightarrow> QString t enc
              | OPT_NUM_NUMERIC \<Rightarrow> QNumber t)
      | _ \<Rightarrow> (case s of None \<Rightarrow> QString [] enc | Some t \<Rightarrow> QString t enc))"

definition getOutputValue :: "number_option \<Rightarrow> string \<Rightarrow> array_bind \<Rightarrow> qval" where
  "getOutputValue nopt enc a =
     (case ab_data a of
        ArrayString et ss ls \<Rightarrow>
          QList (map (\<lambda>(s, i). if i \<noteq> 0 then QNull else output_element nopt enc et s) (zip ss (ab_inds a)))
      | _ \<Rightarrow> QNothing)"

section \<open>What the server is given\<close>

text \<open>
  The content of the descriptors after a sequence of calls, and the value a bound buffer
  stands for.
\<close>

datatype stored = LobOf string | DateOf qdate

definition store_call :: "(nat \<rightharpoonup> stored) \<Rightarrow> bind_call \<Rightarrow> (nat \<rightharpoonup> stored)" where
  "store_call m c =
     (case c of WriteLob h s \<Rightarrow> m(h \<mapsto> LobOf s) | DateTimeConstruct h d \<Rightarrow> m(h \<mapsto> DateOf d) | _ \<Rightarrow> m)"

definition store :: "bind_call list \<Rightarrow> (nat \<rightharpoonup> stored)" where
  "store cs = foldl store_call Map.empty cs"

lemma store_append [simp]: "store (cs @ ds) = foldl store_call (store cs) ds"
  by (simp add: store_def)

lemma store_call_simps [simp]:
  "store_call m (WriteLob h s) = m(h \<mapsto> LobOf s)"
  "store_call m (DateTimeConstruct h d) = m(h \<mapsto> DateOf d)"
  "store_call m (BindByPos pos b sz t) = m"
  "store_call m (BindDynamic pos) = m"
  "store_call m (BindDynamicOut pos) = m"
  "store_call m (BindAllocDescriptor r) = m"
  "store_call m (CreateTemporaryLob b') = m"
  "store_call m BindObject = m"
  "store_call m (BindObjectValue hh) = m"
  "store_call m (BindCollectionValue hh) = m"
  by (simp_all add: store_call_def)

definition bound_value :: "bind_env \<Rightarrow> bind_call list \<Rightarrow> bound_data \<Rightarrow> qval \<Rightarrow> bool" where
  "bound_value env cs d v =
     (case d of
        BoundNull \<Rightarrow> is_null v
      | BoundText t \<Rightarrow> \<not> is_null v \<and> element_text env v = Value t
      | BoundInt i \<Rightarrow> v = QInt i \<or> v = QBool True \<and> i = 1 \<or> v = QBool False \<and> i = 0
      | BoundFloat f \<Rightarrow> v = QFloat f
      | BoundRaw b \<Rightarrow> v = QBinary b
      | BoundHandle h \<Rightarrow>
          (case store cs h of
             Some (LobOf s) \<Rightarrow> v = QBinary s \<or> qtype_of v = NT_STRING \<and> element_text env v = Value s
           | Some (DateOf x) \<Rightarrow> v = QDate x
           | None \<Rightarrow> False)
      | BoundNamedType \<Rightarrow> (case v of QHash h \<Rightarrow> BindObjectValue h \<in> set cs \<or> BindCollectionValue h \<in> set cs | _ \<Rightarrow> False)
      | _ \<Rightarrow> False)"

definition element_denotes :: "bind_env \<Rightarrow> bind_call list \<Rightarrow> element \<Rightarrow> qval \<Rightarrow> bool" where
  "element_denotes env cs e v =
     (if is_null v then el_ind e = - 1
      else el_ind e = 0 \<and> bound_value env cs (el_data e) v
        \<and> (case el_data e of BoundText t \<Rightarrow> el_len e = int (length t) + 1 | _ \<Rightarrow> True))"

section \<open>Calls\<close>

lemma bcall_ok:
  assumes "bcall env c w = (True, w')"
  shows "bw_calls w' = bw_calls w @ [c]" "bw_sink w' = bw_sink w" "bw_freed w' = bw_freed w"
  using assms by (auto simp: bcall_def split: option.splits)

lemma bcall_fail:
  assumes "bcall env c w = (False, w')"
  shows "bw_calls w' = bw_calls w @ [c]" "\<exists>e. bw_sink w' = bw_sink w @ [e]" "bw_freed w' = bw_freed w"
  using assms by (auto simp: bcall_def split: option.splits)

lemma bcall_calls: "bw_calls (snd (bcall env c w)) = bw_calls w @ [c]"
  by (auto simp: bcall_def split: option.splits)

lemma bcall_sink: "bcall env c w = (ok, w') \<Longrightarrow> bw_sink w' = [] \<longleftrightarrow> ok \<and> bw_sink w = []"
  by (auto simp: bcall_def split: option.splits)

lemma bind_by_pos_ok:
  assumes "bind_by_pos env pos d sz t n w = (n', w')" "bw_sink w' = []"
  shows "n' = n\<lparr>bn_bound := True\<rparr>" "bw_calls w' = bw_calls w @ [BindByPos pos d sz t]" "bw_sink w = []"
    "bw_freed w' = bw_freed w"
  using assms by (auto simp: bind_by_pos_def bcall_def split: option.splits)

section \<open>The elements\<close>

definition text_element :: "bind_env \<Rightarrow> qval \<Rightarrow> string option \<Rightarrow> int \<Rightarrow> int \<Rightarrow> bool" where
  "text_element env v s len ind =
     (if is_null v then s = None \<and> len = 0 \<and> ind = - 1
      else \<exists>t. s = Some t \<and> element_text env v = Value t \<and> len = int (length t) + 1 \<and> ind = 0)"

lemma array_strings_elements:
  "array_strings env l = Value (ss, ls, is, mx) \<Longrightarrow>
     length ss = length l \<and> length ls = length l \<and> length is = length l
     \<and> (\<forall>i < length l. text_element env (l ! i) (ss ! i) (ls ! i) (is ! i)) \<and> (\<forall>x \<in> set ls. x \<le> mx)"
proof (induction l arbitrary: ss ls "is" mx)
  case Nil
  then show ?case by simp
next
  case (Cons v vs)
  show ?case
  proof (cases "is_null v")
    case True
    with Cons.prems obtain ss' ls' is' where
      r: "array_strings env vs = Value (ss', ls', is', mx)" "ss = None # ss'" "ls = 0 # ls'" "is = - 1 # is'"
      by (auto split: prod.splits)
    have "0 \<le> mx" using r(1)
      by (induction vs arbitrary: ss' ls' is' mx) (fastforce split: if_splits prod.splits simp: Let_def)+
    with Cons.IH [OF r(1)] True r show ?thesis by (auto simp: All_less_Suc2 text_element_def)
  next
    case False
    with Cons.prems obtain t ss' ls' is' mx' where
      r: "element_text env v = Value t" "array_strings env vs = Value (ss', ls', is', mx')" "ss = Some t # ss'"
         "ls = (int (length t) + 1) # ls'" "is = 0 # is'" "mx = max (int (length t) + 1) mx'"
      by (auto split: prod.splits simp: Let_def)
    with Cons.IH [OF r(2)] False show ?thesis by (auto simp: All_less_Suc2 text_element_def)
  qed
qed

lemma array_floats_elements:
  "array_floats l = Value (xs, is) \<Longrightarrow> length xs = length l \<and> length is = length l
     \<and> (\<forall>i < length l. if is_null (l ! i) then is ! i = - 1 else is ! i = 0 \<and> l ! i = QFloat (xs ! i))"
proof (induction l arbitrary: xs "is")
  case (Cons v vs)
  then show ?case
    by (cases v) (auto simp: All_less_Suc2 split: prod.splits if_splits)
qed simp

lemma array_bools_elements:
  "array_bools l = Value (xs, is) \<Longrightarrow> length xs = length l \<and> length is = length l
     \<and> (\<forall>i < length l. if is_null (l ! i) then is ! i = - 1 else is ! i = 0 \<and> l ! i = QBool (xs ! i))"
proof (induction l arbitrary: xs "is")
  case (Cons v vs)
  then show ?case
    by (cases v) (auto simp: All_less_Suc2 split: prod.splits if_splits)
qed simp

text \<open>
  The descriptors of dates and LOBs are new, and later elements do not write to earlier ones.
\<close>

definition handle_element :: "bind_call list \<Rightarrow> qval \<Rightarrow> (qval \<Rightarrow> stored option) \<Rightarrow> nat \<Rightarrow> int \<Rightarrow> bool" where
  "handle_element cs v f h ind = (if is_null v then ind = - 1 else ind = 0 \<and> f v \<noteq> None \<and> store cs h = f v)"

definition date_content :: "qval \<Rightarrow> stored option" where
  "date_content v = (case v of QDate d \<Rightarrow> Some (DateOf d) | _ \<Rightarrow> None)"

definition lob_content :: "bind_env \<Rightarrow> bool \<Rightarrow> qval \<Rightarrow> stored option" where
  "lob_content env blob v =
     (if qtype_of v = (if blob then NT_BINARY else NT_STRING)
      then (case lob_data env blob v of Value s \<Rightarrow> Some (LobOf s) | _ \<Rightarrow> None) else None)"

definition call_at :: "nat \<Rightarrow> bind_call \<Rightarrow> bool" where
  "call_at pos c =
     (case c of BindByPos p _ _ _ \<Rightarrow> p = pos | BindDynamic p \<Rightarrow> p = pos | BindDynamicOut p \<Rightarrow> p = pos | _ \<Rightarrow> True)"

definition call_writes :: "bind_call \<Rightarrow> nat option" where
  "call_writes c = (case c of WriteLob h _ \<Rightarrow> Some h | DateTimeConstruct h _ \<Rightarrow> Some h | _ \<Rightarrow> None)"

lemma store_call_other: "call_writes c \<noteq> Some h \<Longrightarrow> store_call m c h = m h"
  by (auto simp: store_call_def call_writes_def split: bind_call.split)

definition extends :: "nat \<Rightarrow> bind_world \<Rightarrow> bind_world \<Rightarrow> bool" where
  "extends pos w w' \<longleftrightarrow> (\<exists>cs. bw_calls w' = bw_calls w @ cs \<and> list_all (call_at pos) cs)
     \<and> (\<forall>h. h \<le> length (bw_calls w) \<or> length (bw_calls w') < h \<longrightarrow> store (bw_calls w') h = store (bw_calls w) h)"

lemma extends_refl [simp]: "extends pos w w"
  by (simp add: extends_def)

lemma extends_sink [simp]: "extends pos w (w'\<lparr>bw_sink := x\<rparr>) \<longleftrightarrow> extends pos w w'"
  by (simp add: extends_def)

lemma extends_length: "extends pos w w' \<Longrightarrow> length (bw_calls w) \<le> length (bw_calls w')"
  by (auto simp: extends_def)

lemma extends_old: "extends pos w w' \<Longrightarrow> h \<le> length (bw_calls w) \<Longrightarrow> store (bw_calls w') h = store (bw_calls w) h"
  by (simp add: extends_def)

lemma extends_trans:
  assumes "extends pos w w1" "extends pos w1 w2"
  shows "extends pos w w2"
proof -
  obtain cs1 cs2 where c: "bw_calls w1 = bw_calls w @ cs1" "list_all (call_at pos) cs1"
      "bw_calls w2 = bw_calls w1 @ cs2" "list_all (call_at pos) cs2"
    using assms by (auto simp: extends_def)
  have "store (bw_calls w2) h = store (bw_calls w) h" if "h \<le> length (bw_calls w) \<or> length (bw_calls w2) < h" for h
  proof -
    have "store (bw_calls w2) h = store (bw_calls w1) h" "store (bw_calls w1) h = store (bw_calls w) h"
      using assms that c by (auto simp: extends_def simp del: store_append)
    then show ?thesis by simp
  qed
  with c show ?thesis unfolding extends_def by (metis append.assoc list_all_append)
qed

lemma extends_bcall:
  assumes "bcall env c w = (ok, w')" "call_at pos c"
    "\<And>h. call_writes c = Some h \<Longrightarrow> length (bw_calls w0) < h \<and> h \<le> Suc (length (bw_calls w))"
    "extends pos w0 w"
  shows "extends pos w0 w'"
proof -
  have c: "bw_calls w' = bw_calls w @ [c]" using bcall_calls [of env c w] assms(1) by simp
  have "store_call (store (bw_calls w)) c h = store (bw_calls w0) h"
    if "h \<le> length (bw_calls w0) \<or> Suc (length (bw_calls w)) < h" for h
  proof -
    have "call_writes c \<noteq> Some h" using assms(3) that by auto
    then show ?thesis using store_call_other assms(4) that by (auto simp: extends_def)
  qed
  with c assms(2,4) show ?thesis by (auto simp: extends_def)
qed

lemmas call_simps = call_at_def call_writes_def bhandle_def

lemma extends_call:
  assumes "bcall env c w = (ok, w')" "call_at pos c"
    "call_writes c = None \<or> call_writes c = Some (Suc (length (bw_calls w0)))" "extends pos w0 w"
  shows "extends pos w0 w'"
  using assms extends_length [OF assms(4)] by (auto elim!: extends_bcall)

lemma extends_bind:
  assumes "bind_by_pos env pos d sz t n w = (n', w')" "extends pos w0 w"
  shows "extends pos w0 w'"
  using assms by (auto simp: bind_by_pos_def call_simps split: prod.splits if_splits elim!: extends_bcall)

lemma array_dates_elements:
  "array_dates env l w = (ok, hs, is, w') \<Longrightarrow> extends pos w w' \<and> length is = length l \<and> length hs = length l
     \<and> (bw_sink w' = [] \<longrightarrow> ok \<and> bw_sink w = [])
     \<and> (ok \<longrightarrow> bw_sink w' = bw_sink w
          \<and> (\<forall>i < length l. handle_element (bw_calls w') (l ! i) date_content (hs ! i) (is ! i)))"
proof (induction l arbitrary: w ok hs "is" w')
  case Nil
  then show ?case by simp
next
  case (Cons v vs)
  show ?case
  proof (cases "is_null v")
    case True
    with Cons.prems obtain hs' is' where r: "array_dates env vs w = (ok, hs', is', w')" "hs = 0 # hs'" "is = - 1 # is'"
      by (auto split: prod.splits)
    with Cons.IH [OF r(1)] True show ?thesis by (auto simp: All_less_Suc2 handle_element_def)
  next
    case nn: False
    show ?thesis
    proof (cases "\<exists>d. v = QDate d")
      case False
      with nn Cons.prems show ?thesis by (cases v) auto
    next
      case True
      then obtain d where v: "v = QDate d" by auto
      obtain ok1 w1 where c1: "bcall env (BindAllocDescriptor TimestampDescriptor) w = (ok1, w1)" by fastforce
      obtain ok2 w2 where c2: "bcall env (DateTimeConstruct (bhandle w) d) w1 = (ok2, w2)" by fastforce
      have e1: "extends pos w w1" by (rule extends_bcall [OF c1]) (simp_all add: call_simps)
      have e2: "extends pos w w2" by (rule extends_bcall [OF c2 _ _ e1]) (use extends_length [OF e1] in \<open>auto simp: call_simps\<close>)
      show ?thesis
      proof (cases "ok1 \<and> ok2")
        case False
        with Cons.prems c1 c2 v e1 e2 bcall_sink [OF c1] bcall_sink [OF c2] show ?thesis
          by (auto simp: Let_def split: if_splits)
      next
        case True
        with Cons.prems c1 c2 v obtain hs' is' where
          r: "array_dates env vs w2 = (ok, hs', is', w')" "hs = bhandle w # hs'" "is = 0 # is'"
          by (auto simp: Let_def split: prod.splits)
        have s: "bw_calls w1 = bw_calls w @ [BindAllocDescriptor TimestampDescriptor]" "bw_sink w1 = bw_sink w"
            "bw_calls w2 = bw_calls w1 @ [DateTimeConstruct (bhandle w) d]" "bw_sink w2 = bw_sink w1"
          using bcall_ok c1 c2 True by auto
        note ih = Cons.IH [OF r(1)]
        have "extends pos w w'" using ih e2 extends_trans by blast
        moreover have "store (bw_calls w') (bhandle w) = Some (DateOf d)"
          using ih s extends_old [of pos w2 w' "bhandle w"] by (simp add: bhandle_def)
        ultimately show ?thesis using ih s r v by (auto simp: All_less_Suc2 handle_element_def date_content_def)
      qed
    qed
  qed
qed


lemma array_lobs_elements:
  "array_lobs env blob l w = (ok, hs, as, is, w') \<Longrightarrow> extends pos w w' \<and> length is = length l \<and> length hs = length l
     \<and> (bw_sink w' = [] \<longrightarrow> (ok \<or> (\<exists>v \<in> set l. qtype_of v = (if blob then NT_BINARY else NT_STRING) \<and> lob_data env blob v = Undefined)) \<and> bw_sink w = [])
     \<and> (ok \<longrightarrow> bw_sink w' = bw_sink w
          \<and> (\<forall>i < length l. handle_element (bw_calls w') (l ! i) (lob_content env blob) (hs ! i) (is ! i)))"
proof (induction l arbitrary: w ok hs as "is" w')
  case Nil
  then show ?case by simp
next
  case (Cons v vs)
  show ?case
  proof (cases "is_null v")
    case True
    with Cons.prems obtain hs' as' is' where
      r: "array_lobs env blob vs w = (ok, hs', as', is', w')" "hs = 0 # hs'" "is = - 1 # is'"
      by (auto simp: Let_def split: prod.splits)
    with Cons.IH [OF r(1)] True show ?thesis by (auto simp: All_less_Suc2 handle_element_def)
  next
    case nn: False
    show ?thesis
    proof (cases "qtype_of v = (if blob then NT_BINARY else NT_STRING)")
      case False
      with nn Cons.prems show ?thesis by (auto simp: Let_def)
    next
      case ty: True
      obtain ok1 w1 where c1: "bcall env (BindAllocDescriptor LobDescriptor) w = (ok1, w1)" by fastforce
      obtain ok2 w2 where c2: "bcall env (CreateTemporaryLob blob) w1 = (ok2, w2)" by fastforce
      have e1: "extends pos w w1" by (rule extends_bcall [OF c1]) (simp_all add: call_simps)
      have e2: "extends pos w w2" by (rule extends_bcall [OF c2 _ _ e1]) (simp_all add: call_simps)
      show ?thesis
      proof (cases "ok1 \<and> ok2 \<and> (\<exists>s. lob_data env blob v = Value s)")
        case False
        from False nn ty Cons.prems c1 c2 e1 e2 bcall_sink [OF c1] bcall_sink [OF c2] show ?thesis
          by (cases "lob_data env blob v") (auto simp: Let_def split: if_splits)
      next
        case True
        then obtain s where s: "lob_data env blob v = Value s" by auto
        obtain ok3 w3 where c3: "bcall env (WriteLob (bhandle w) s) w2 = (ok3, w3)" by fastforce
        have e3: "extends pos w w3" by (rule extends_bcall [OF c3 _ _ e2]) (use extends_length [OF e2] in \<open>auto simp: call_simps\<close>)
        show ?thesis
        proof (cases ok3)
          case False
          with True nn ty Cons.prems c1 c2 c3 s e3 bcall_sink [OF c3] show ?thesis
            by (auto simp: Let_def split: if_splits)
        next
          case ok3: True
          with True nn ty Cons.prems c1 c2 c3 s obtain hs' as' is' where
            r: "array_lobs env blob vs w3 = (ok, hs', as', is', w')" "hs = bhandle w # hs'" "is = 0 # is'"
            by (auto simp: Let_def split: prod.splits)
          have t: "bw_calls w1 = bw_calls w @ [BindAllocDescriptor LobDescriptor]" "bw_sink w1 = bw_sink w"
            "bw_calls w2 = bw_calls w1 @ [CreateTemporaryLob blob]" "bw_sink w2 = bw_sink w1"
            "bw_calls w3 = bw_calls w2 @ [WriteLob (bhandle w) s]" "bw_sink w3 = bw_sink w2"
            using bcall_ok c1 c2 c3 True ok3 by auto
          note ih = Cons.IH [OF r(1)]
          have "extends pos w w'" using ih e3 extends_trans by blast
          moreover have "store (bw_calls w') (bhandle w) = Some (LobOf s)"
            using ih t extends_old [of pos w3 w' "bhandle w"] by (simp add: bhandle_def)
          ultimately show ?thesis using ih t r s ty nn by (auto simp: All_less_Suc2 handle_element_def lob_content_def)
        qed
      qed
    qed
  qed
qed

end
