(* ===== verification/BindValue.thy ===== *)
theory BindValue
  imports ArrayBind
begin

text \<open>
  Binding a node (QorePreparedStatement.cpp): values by their type, lists element by element,
  output buffers of placeholders, and the binding of all nodes of a statement.
\<close>

section \<open>List binds\<close>

abbreviation bind_value_error :: "string \<Rightarrow> exn" where
  "bind_value_error what \<equiv> Exn ''ORACLE-BIND-VALUE-ERROR'' what"

definition single_array :: "bind_env \<Rightarrow> qval \<Rightarrow> array_data outcome" where
  "single_array env v =
     (case v of
        QNothing \<Rightarrow> Value SingleNull
      | QNull \<Rightarrow> Value SingleNull
      | QInt i \<Rightarrow> Value (SingleInt i)
      | QBool b \<Rightarrow> Value (SingleInt (if b then 1 else 0))
      | QFloat f \<Rightarrow> Value (SingleFloat f)
      | QNumber s \<Rightarrow> Value (SingleString s)
      | QDate d \<Rightarrow> Value (SingleDate d 0)
      | QString s e \<Rightarrow>
          if e \<noteq> be_encoding env then
            bind_outcome (be_convert env s e (be_encoding env)) (\<lambda>t. Value (SingleString t))
          else Value (SingleString s)
      | QBinary b \<Rightarrow> Value (SingleBinary b 0 False)
      | _ \<Rightarrow> Raised (bind_value_error ''type is not supported for SQL array binding''))"

text \<open>
  The class is chosen by the first element that is not null; the loop of the code leaves at
  that element, so the test for mixed types behind it is never reached.
\<close>

fun is_long_string :: "qval \<Rightarrow> bool" where
  "is_long_string (QString s e) \<longleftrightarrow> length s \<ge> 32768"
| "is_long_string _ \<longleftrightarrow> False"

definition list_array :: "qval list \<Rightarrow> array_data outcome" where
  "list_array l =
     (case dropWhile is_null l of
        [] \<Rightarrow> Value SingleNull
      | v # _ \<Rightarrow>
          (case qtype_of v of
             NT_STRING \<Rightarrow> Value (if list_ex is_long_string l then ArrayLob False [] [] else ArrayString NT_STRING [] [])
           | NT_INT \<Rightarrow> Value (ArrayString NT_NUMBER [] [])
           | NT_NUMBER \<Rightarrow> Value (ArrayString NT_NUMBER [] [])
           | NT_FLOAT \<Rightarrow> Value (ArrayFloat [])
           | NT_DATE \<Rightarrow> Value (ArrayDate [])
           | NT_BOOLEAN \<Rightarrow> Value (ArrayBool [])
           | NT_BINARY \<Rightarrow> Value (ArrayLob True [] [])
           | _ \<Rightarrow> Raised (bind_value_error ''type is not supported for SQL array binding'')))"

text \<open>A single value has no list; so has the bind of a list of nulls.\<close>

definition make_array :: "bind_env \<Rightarrow> qval \<Rightarrow> array_bind outcome" where
  "make_array env v =
     (case v of
        QList l \<Rightarrow> bind_outcome (list_array l)
                    (\<lambda>d. Value \<lparr>ab_list = (if d = SingleNull then None else Some l), ab_inds = [], ab_data = d\<rparr>)
      | _ \<Rightarrow> bind_outcome (single_array env v) (\<lambda>d. Value \<lparr>ab_list = None, ab_inds = [], ab_data = d\<rparr>))"

definition bindListValue :: "bind_env \<Rightarrow> nat \<Rightarrow> qval \<Rightarrow> bind_node \<Rightarrow> bind_world \<Rightarrow> bind_step" where
  "bindListValue env pos v n0 w =
     (let n = set_col (\<lambda>c. c\<lparr>cv_array := True, cv_buf := BufArray 0\<rparr>) (n0\<lparr>bn_array := None\<rparr>)
      in case make_array env v of
           Raised e \<Rightarrow> (n, w\<lparr>bw_sink := bw_sink w @ [e]\<rparr>)
         | Undefined \<Rightarrow> (n, w)
         | Value a \<Rightarrow>
             (let (ok, n1, w1) = setupBind env pos a n w
              in if \<not> ok then (n1, w1)
                 else let (_, w2) = bcall env (BindDynamic pos) w1 in (n1, w2)))"

section \<open>Single values\<close>

definition MAXINT32 :: int where "MAXINT32 = 2147483647"

text \<open>
  An input string of 4000 bytes and more (with its terminator over the threshold) goes through
  a temporary CLOB, any other is bound in place.  An in/out string is bound with a buffer of
  the declared size.
\<close>

definition save_tmp :: "bind_tmp \<Rightarrow> bind_node \<Rightarrow> bind_node" where
  "save_tmp t n = set_data (\<lambda>d. d\<lparr>tmp_type := t\<rparr>) n"

definition bind_lob :: "bind_env \<Rightarrow> nat \<Rightarrow> sqlt \<Rightarrow> string \<Rightarrow> bind_node \<Rightarrow> bind_world \<Rightarrow> bind_step" where
  "bind_lob env pos t s n w =
     (let (ok1, w1) = bcall env (BindAllocDescriptor LobDescriptor) w; h = bhandle w
      in if \<not> ok1 then (n, w1)
         else let n1 = n\<lparr>bn_strlob := h\<rparr>; (ok2, w2) = bcall env (CreateTemporaryLob (t = SQLT_BLOB)) w1
              in if \<not> ok2 then (n1, w2)
                 else let n2 = n1\<lparr>bn_lob_allocated := True\<rparr>; (ok3, w3) = bcall env (WriteLob h s) w2
                      in if \<not> ok3 then (n2, w3)
                         else bind_by_pos env pos (BoundHandle h) 0 t n2 w3)"

definition bindValue_string :: "bind_env \<Rightarrow> nat \<Rightarrow> string \<Rightarrow> string \<Rightarrow> bool \<Rightarrow> bind_node \<Rightarrow> bind_world \<Rightarrow> bind_step" where
  "bindValue_string env pos s0 enc in_only n w =
     (case (if enc = be_encoding env then Value s0 else be_convert env s0 enc (be_encoding env)) of
        Raised e \<Rightarrow> (n, w\<lparr>bw_sink := bw_sink w @ [e]\<rparr>)
      | Undefined \<Rightarrow> (n, w)
      | Value s \<Rightarrow>
          if in_only then
            (let n1 = (if enc \<noteq> be_encoding env then save_tmp (OBT_STR s) n else n);
                 len = int (length s)
             in if len + 1 > int LOB_THRESHOLD then
                  bind_lob env pos SQLT_CLOB s (bn_set_buf SQLT_CLOB (BufText (Some s)) n1) w
                else bind_by_pos env pos (BoundText s) (len + 1) SQLT_STR (bn_set_buf SQLT_STR (BufText (Some s)) n1) w)
          else
            (let mx = (if ph_maxsize (bn_data n) > 0 then ph_maxsize (bn_data n) else be_default_str_len env);
                 len = be_capacity env s mx - 1
             in bind_by_pos env pos (BoundText s) (len + 1) SQLT_STR (bn_set_buf SQLT_STR (BufText (Some s)) n) w))"

definition setupDateDescriptor :: "bind_env \<Rightarrow> bind_node \<Rightarrow> bind_world \<Rightarrow> bool \<times> bind_step" where
  "setupDateDescriptor env n w =
     (let (ok, w1) = bcall env (BindAllocDescriptor TimestampDescriptor) w
      in (ok, bn_set_buf SQLT_TIMESTAMP_TZ (BufHandle (if ok then bhandle w else 0)) n, w1))"

definition bindDate :: "bind_env \<Rightarrow> nat \<Rightarrow> bind_node \<Rightarrow> bind_world \<Rightarrow> bind_step" where
  "bindDate env pos n w = bind_by_pos env pos (BoundHandle (buf_handle (cv_buf (bn_col n)))) 0 SQLT_TIMESTAMP_TZ n w"

definition bindValue_date :: "bind_env \<Rightarrow> nat \<Rightarrow> qdate \<Rightarrow> bind_node \<Rightarrow> bind_world \<Rightarrow> bind_step" where
  "bindValue_date env pos d n w =
     (let (ok1, n1, w1) = setupDateDescriptor env n w
      in if \<not> ok1 then (n1, w1)
         else let (ok2, w2) = bcall env (DateTimeConstruct (buf_handle (cv_buf (bn_col n1))) d) w1
              in if \<not> ok2 then (n1, w2) else bindDate env pos n1 w2)"

definition bindValue_binary :: "bind_env \<Rightarrow> nat \<Rightarrow> string \<Rightarrow> bool \<Rightarrow> bind_node \<Rightarrow> bind_world \<Rightarrow> bind_step" where
  "bindValue_binary env pos b in_only n w =
     (if length b > LOB_THRESHOLD \<and> in_only then
        bind_lob env pos SQLT_BLOB b (bn_set_buf SQLT_BLOB (BufRaw b) n) w
      else bind_by_pos env pos (BoundRaw b) (int (length b)) SQLT_BIN (bn_set_buf SQLT_BIN (BufRaw b) n) w)"

definition bindValue_int :: "bind_env \<Rightarrow> nat \<Rightarrow> int \<Rightarrow> bind_node \<Rightarrow> bind_world \<Rightarrow> bind_step" where
  "bindValue_int env pos i n w =
     (if i \<le> MAXINT32 \<and> i \<ge> - MAXINT32 then
        bind_by_pos env pos (BoundInt (c_int i)) 8 SQLT_INT (bn_set_buf SQLT_INT (BufI8 (c_int i)) n) w
      else let s = show_int i
           in bind_by_pos env pos (BoundText s) (int (length s) + 1) SQLT_STR
                (set_col (\<lambda>c. c\<lparr>cv_dtype := SQLT_STR\<rparr>) (save_tmp (OBT_STR s) n)) w)"

text \<open>A named type: its instance is made, bound, and its indicator bound with \<open>OCIBindObject\<close>.\<close>

definition bind_named :: "bind_env \<Rightarrow> nat \<Rightarrow> nty \<Rightarrow> bind_call \<Rightarrow> bind_node \<Rightarrow> bind_world \<Rightarrow> bind_step" where
  "bind_named env pos sub call n w =
     (let n1 = set_col (\<lambda>c. c\<lparr>cv_subdtype := sub, cv_dtype := SQLT_NTY\<rparr>) n;
          (ok, w1) = bcall env call w;
          n2 = set_col (\<lambda>c. c\<lparr>cv_buf := BufHandle (if ok then bhandle w else 0)\<rparr>) n1
      in if \<not> ok then (n2, w1)
         else let (n3, w3) = bind_by_pos env pos BoundNamedType 0 SQLT_NTY n2 w1;
                  (_, w4) = bcall env BindObject w3
              in (n3, w4))"

definition bindValue_hash :: "bind_env \<Rightarrow> nat \<Rightarrow> qval ohash \<Rightarrow> bind_node \<Rightarrow> bind_world \<Rightarrow> bind_step" where
  "bindValue_hash env pos h n w =
     (let raise = (\<lambda>what. (n, w\<lparr>bw_sink := bw_sink w @ [bind_value_error what]\<rparr>))
      in if hash_get h ''type'' = None \<or> hash_get h ''^oratype^'' = None \<or> hash_get h ''^values^'' = None
         then raise ''plain hash/list cannot be bound''
         else case key_value h ''type'' of
                QString t e \<Rightarrow>
                  if t = ''OracleObject'' then bind_named env pos NTY_OBJECT (BindObjectValue h) n w
                  else if t = ''OracleCollection'' then bind_named env pos NTY_COLLECTION (BindCollectionValue h) n w
                  else raise ''only objects or collections are allowed''
              | _ \<Rightarrow> raise ''the type key must be a string'')"

definition bindValue :: "bind_env \<Rightarrow> nat \<Rightarrow> qval \<Rightarrow> bool \<Rightarrow> bind_node \<Rightarrow> bind_world \<Rightarrow> bind_step" where
  "bindValue env pos v in_only n0 w =
     (let n = set_col (\<lambda>c. c\<lparr>cv_ind := 0\<rparr>) n0
      in if be_array_size env > 0 then bindListValue env pos v n w
         else case v of
           QNothing \<Rightarrow> bind_by_pos env pos BoundNull 0 SQLT_STR n w
         | QNull \<Rightarrow> bind_by_pos env pos BoundNull 0 SQLT_STR n w
         | QString s e \<Rightarrow> bindValue_string env pos s e in_only n w
         | QDate d \<Rightarrow> bindValue_date env pos d n w
         | QBinary b \<Rightarrow> bindValue_binary env pos b in_only n w
         | QBool b \<Rightarrow>
             (let i = (if b then 1 else 0)
              in bind_by_pos env pos (BoundInt i) 8 SQLT_INT (bn_set_buf SQLT_INT (BufI8 i) n) w)
         | QInt i \<Rightarrow> bindValue_int env pos i n w
         | QNumber s \<Rightarrow>
             bind_by_pos env pos (BoundText s) (int (length s) + 1) SQLT_STR
               (set_col (\<lambda>c. c\<lparr>cv_dtype := SQLT_STR\<rparr>) (save_tmp (OBT_STR s) n)) w
         | QFloat f \<Rightarrow> bind_by_pos env pos (BoundFloat f) 8 SQLT_FLT (bn_set_buf SQLT_FLT (BufF8 f) n) w
         | QHash h \<Rightarrow> bindValue_hash env pos h n w
         | _ \<Rightarrow> (n, w\<lparr>bw_sink := bw_sink w @ [bind_value_error ''type is not supported for SQL binding'']\<rparr>))"

section \<open>Placeholders\<close>

text \<open>\<open>data.isType\<close> with the names of the Qore types; the text of a value in the encoding of the database.\<close>

definition value_text :: "bind_env \<Rightarrow> qval \<Rightarrow> string outcome" where
  "value_text env v =
     (let (s, e) = be_to_string env v in if e = be_encoding env then Value s else be_convert env s e (be_encoding env))"

definition array_placeholder_type :: "bind_node \<Rightarrow> qtype option" where
  "array_placeholder_type n =
     (if isType ''string'' n then Some NT_STRING
      else if isType ''integer'' n \<or> isType ''number'' n then Some NT_NUMBER else None)"

definition bindArrayPlaceholder :: "bind_env \<Rightarrow> nat \<Rightarrow> bind_node \<Rightarrow> bind_world \<Rightarrow> bind_step" where
  "bindArrayPlaceholder env pos n0 w =
     (let n = set_col (\<lambda>c. c\<lparr>cv_array := True, cv_buf := BufArray 0\<rparr>) (n0\<lparr>bn_array := None\<rparr>)
      in case array_placeholder_type n of
           None \<Rightarrow> (n, w\<lparr>bw_sink := bw_sink w @ [bind_value_error ''type is not supported for array output buffers'']\<rparr>)
         | Some et \<Rightarrow>
             (let (ok, n1, w1) = setupOutputBind env pos et n w; (_, w2) = bcall env (BindDynamicOut pos) w1 in (n1, w2)))"

definition placeholder_text :: "bind_env \<Rightarrow> nat \<Rightarrow> bind_node \<Rightarrow> bind_world \<Rightarrow> bind_step" where
  "placeholder_text env pos n0 w =
     (let unknown = (ph_maxsize (bn_data n0) < 0);
          n1 = (if unknown then set_data (\<lambda>d. d\<lparr>ph_maxsize := be_default_str_len env\<rparr>) n0 else n0);
          t = (if unknown then SQLT_AVC else SQLT_STR);
          mx = ph_maxsize (bn_data n1)
      in case (if bn_value n1 = QNothing then Value [] else value_text env (bn_value n1)) of
           Value s \<Rightarrow>
             (let c = take (nat mx) s
              in bind_by_pos env pos (BoundOut (BufText (Some c))) (mx + 1) SQLT_STR (bn_set_buf t (BufText (Some c)) n1) w)
         | Raised e \<Rightarrow> (bn_set_buf t (BufText (Some [])) n1, w\<lparr>bw_sink := bw_sink w @ [e]\<rparr>)
         | Undefined \<Rightarrow> (bn_set_buf t (BufText (Some [])) n1, w))"

definition placeholder_date :: "bind_env \<Rightarrow> nat \<Rightarrow> bind_node \<Rightarrow> bind_world \<Rightarrow> bind_step" where
  "placeholder_date env pos n w =
     (let (ok1, n1, w1) = setupDateDescriptor env n w
      in if \<not> ok1 then (n1, w1)
         else if bn_value n1 = QNothing then bindDate env pos n1 w1
         else let (ok2, w2) = bcall env (DateTimeConstruct (buf_handle (cv_buf (bn_col n1))) (be_to_date env (bn_value n1))) w1
              in if \<not> ok2 then (n1, w2) else bindDate env pos n1 w2)"

text \<open>
  A long binary: the buffer is as large as the value, or 65535 bytes, but it is bound with
  65535 bytes in every case.
\<close>

definition placeholder_binary :: "bind_env \<Rightarrow> nat \<Rightarrow> bind_node \<Rightarrow> bind_world \<Rightarrow> bind_step" where
  "placeholder_binary env pos n0 w =
     (let n = bn_set_buf SQLT_LVB (BufRaw []) n0;
          bind = (\<lambda>b n w. bind_by_pos env pos (BoundOut (BufRaw b)) ORA_RAW_SIZE SQLT_LVB (bn_set_buf SQLT_LVB (BufRaw b) n) w);
          assign = (\<lambda>b.
            if int (length b) > 0x7fffffff then (n, braise ''BIND-ERROR'' ''too big to bind as a long binary value'' w)
            else let sz = max ORA_RAW_SIZE (int (length b) + 4);
                     n1 = set_data (\<lambda>d. d\<lparr>ph_maxsize := sz\<rparr>) n;
                     (ok, w1) = bcall env (RawAssignBytes b) w
                 in if \<not> ok then (n1, w1) else bind b n1 w1)
      in case bn_value n0 of
           QNothing \<Rightarrow>
             (let n1 = set_data (\<lambda>d. d\<lparr>ph_maxsize := ORA_RAW_SIZE\<rparr>) n; (ok, w1) = bcall env (RawResizeTo ORA_RAW_SIZE) w
              in if \<not> ok then (n1, w1) else bind [] n1 w1)
         | QBinary b \<Rightarrow> assign b
         | v \<Rightarrow> (case value_text env v of
                   Value s \<Rightarrow> assign s
                 | Raised e \<Rightarrow> (n, w\<lparr>bw_sink := bw_sink w @ [e]\<rparr>)
                 | Undefined \<Rightarrow> (n, w)))"

definition placeholder_handle :: "bind_env \<Rightarrow> nat \<Rightarrow> bind_call \<Rightarrow> sqlt \<Rightarrow> bind_node \<Rightarrow> bind_world \<Rightarrow> bool \<times> bind_step" where
  "placeholder_handle env pos alloc t n w =
     (let (ok, w1) = bcall env alloc w
      in if \<not> ok then (False, bn_set_buf t (BufHandle 0) n, w1)
         else let h = bhandle w
              in (True, bind_by_pos env pos (BoundOut (BufHandle h)) 0 t (bn_set_buf t (BufHandle h) n) w1))"

definition placeholder_number :: "bind_env \<Rightarrow> nat \<Rightarrow> bind_node \<Rightarrow> bind_world \<Rightarrow> bind_step" where
  "placeholder_number env pos n w =
     (case (if bn_value n = QNothing then Value [] else value_text env (bn_value n)) of
        Value s \<Rightarrow>
          bind_by_pos env pos (BoundOut (BufText (Some s))) (max 100 (int (length s))) SQLT_STR
            (bn_set_buf SQLT_NUM (BufText (Some s)) n) w
      | Raised e \<Rightarrow> (bn_set_buf SQLT_NUM (BufText None) n, w\<lparr>bw_sink := bw_sink w @ [e]\<rparr>)
      | Undefined \<Rightarrow> (bn_set_buf SQLT_NUM (BufText None) n, w))"

definition placeholder_named :: "bind_env \<Rightarrow> nat \<Rightarrow> nty \<Rightarrow> bind_node \<Rightarrow> bind_world \<Rightarrow> bind_step" where
  "placeholder_named env pos sub n w =
     (let n0 = set_col (\<lambda>c. c\<lparr>cv_subdtype := sub, cv_dtype := SQLT_NTY\<rparr>) n
      in case bn_value n of
           QString s e \<Rightarrow>
             bind_named env pos sub (if sub = NTY_OBJECT then BindObjectPlaceholder s else BindCollectionPlaceholder s) n w
         | QHash h \<Rightarrow>
             if hash_get h ''^values^'' \<noteq> None
             then bind_named env pos sub (if sub = NTY_OBJECT then BindObjectValue h else BindCollectionValue h) n w
             else (n0, braise ''BIND-ERROR'' ''unable to bind hash without key ^values^'' w)
         | _ \<Rightarrow> (n0, braise ''BIND-ERROR'' ''unable to bind from type'' w))"

definition bindPlaceholder :: "bind_env \<Rightarrow> nat \<Rightarrow> bind_node \<Rightarrow> bind_world \<Rightarrow> bind_step" where
  "bindPlaceholder env pos n w =
     (if be_array_size env > 0 then bindArrayPlaceholder env pos n w
      else if isType ''string'' n then placeholder_text env pos n w
      else if isType ''date'' n then placeholder_date env pos n w
      else if isType ''binary'' n then placeholder_binary env pos n w
      else if isType ''clob'' n then snd (placeholder_handle env pos (BindAllocDescriptor LobDescriptor) SQLT_CLOB n w)
      else if isType ''blob'' n then snd (placeholder_handle env pos (BindAllocDescriptor LobDescriptor) SQLT_BLOB n w)
      else if isType ''integer'' n then
        (let i = be_to_int env (bn_value n)
         in bind_by_pos env pos (BoundOut (BufI8 i)) 8 SQLT_INT (bn_set_buf SQLT_INT (BufI8 i) n) w)
      else if isType ''float'' n then
        (let f = be_to_float env (bn_value n)
         in bind_by_pos env pos (BoundOut (BufF8 f)) 8 SQLT_FLT (bn_set_buf SQLT_FLT (BufF8 f) n) w)
      else if isType ''number'' n then placeholder_number env pos n w
      else if isType ''hash'' n then snd (placeholder_handle env pos BindAllocStatement SQLT_RSET n w)
      else if isType ''resultset'' n then
        (let (ok, n1, w1) = placeholder_handle env pos BindAllocStatement SQLT_RSET n w
         in (if ok then set_col (\<lambda>c. c\<lparr>cv_alt_output := True\<rparr>) n1 else n1, w1))
      else if isType ''OracleObject'' n then placeholder_named env pos NTY_OBJECT n w
      else if isType ''OracleCollection'' n then placeholder_named env pos NTY_COLLECTION n w
      else (n, braise ''BIND-ERROR'' ''type is not supported for SQL binding'' w))"

section \<open>One node, all nodes\<close>

definition node_bind :: "bind_env \<Rightarrow> nat \<Rightarrow> bind_node \<Rightarrow> bind_world \<Rightarrow> bind_step" where
  "node_bind env pos n w =
     (if isValue n then bindValue env pos (bn_value n) True n w
      else if isType ''OracleObject'' n \<or> isType ''OracleCollection'' n then bindPlaceholder env pos n w
      else if \<not> is_null_or_nothing (bn_value n) then
        if be_array_size env > 0 then (n, braise ''BIND-ERROR'' ''cannot bind in/out values with array binds'' w)
        else if isType ''string'' n \<or> isType ''clob'' n then
          (let (s, e) = be_to_string env (bn_value n) in bindValue env pos (QString s e) False n w)
        else if isType ''date'' n then bindValue env pos (QDate (be_to_date env (bn_value n))) False n w
        else if isType ''binary'' n \<or> isType ''blob'' n then
          (case bn_value n of
             QBinary b \<Rightarrow> bindValue env pos (QBinary b) False n w
           | v \<Rightarrow> (let (s, e) = be_to_string env v
                    in if s \<noteq> [] then bindValue env pos (QBinary s) False n w else bindPlaceholder env pos n w))
        else if isType ''integer'' n then bindValue env pos (QInt (be_to_int env (bn_value n))) False n w
        else if isType ''float'' n then bindValue env pos (QFloat (be_to_float env (bn_value n))) False n w
        else (n, braise ''BIND-ERROR'' ''type is not supported for SQL binding by value and placeholder'' w)
      else bindPlaceholder env pos n w)"

section \<open>A list bind hands every element to the server\<close>

text \<open>A conversion of the Qore library returns a text or raises.\<close>

definition conversions_return :: "bind_env \<Rightarrow> bool" where
  "conversions_return env \<longleftrightarrow> (\<forall>s e. be_convert env s e (be_encoding env) \<noteq> Undefined)"

lemma element_text_defined: "conversions_return env \<Longrightarrow> element_text env v \<noteq> Undefined"
  by (simp add: element_text_def conversions_return_def split: qval.split)

lemma lob_data_defined: "conversions_return env \<Longrightarrow> lob_data env blob v \<noteq> Undefined"
  by (simp add: lob_data_def conversions_return_def split: qval.split)

lemma array_strings_defined: "conversions_return env \<Longrightarrow> array_strings env l \<noteq> Undefined"
  by (induction l) (auto simp: bind_outcome_Undefined_iff element_text_defined Let_def)

lemma array_floats_defined: "array_floats l \<noteq> Undefined"
  by (induction l) (auto simp: bind_outcome_Undefined_iff split: qval.split)

lemma array_bools_defined: "array_bools l \<noteq> Undefined"
  by (induction l) (auto simp: bind_outcome_Undefined_iff split: qval.split)

definition array_element :: "qval \<Rightarrow> nat \<Rightarrow> qval" where
  "array_element v i = (case v of QList l \<Rightarrow> l ! i | _ \<Rightarrow> v)"

definition array_data_denotes :: "bind_env \<Rightarrow> nat \<Rightarrow> qval \<Rightarrow> bind_node \<Rightarrow> bind_world \<Rightarrow> bool" where
  "array_data_denotes env k v n w \<longleftrightarrow>
     (\<exists>a. bn_array n = Some a \<and> bn_bound n
       \<and> (\<forall>i < k. element_denotes env (bw_calls w) (bindCallback i a) (array_element v i)))"

lemma bind_at_exec_ok:
  assumes "bind_at_exec env pos sz t a n w = (ok, n', w')" "bw_sink w' = []"
  shows "ok \<and> bn_array n' = Some a \<and> bn_bound n' \<and> bw_calls w' = bw_calls w @ [BindByPos pos BoundDynamic sz t]
    \<and> bw_sink w = []"
  using assms bind_by_pos_ok [of env pos BoundDynamic sz t] by (fastforce simp: bind_at_exec_def set_col_def)

lemma handle_denotes_date:
  assumes "handle_element cs v date_content h ind" "store cs' h = store cs h"
  shows "element_denotes env cs' \<lparr>el_data = BoundHandle h, el_len = len, el_ind = ind\<rparr> v"
  using assms
  by (auto simp: element_denotes_def handle_element_def bound_value_def date_content_def split: if_splits qval.splits)

lemma handle_denotes_lob:
  assumes "handle_element cs v (lob_content env blob) h ind" "store cs' h = store cs h"
  shows "element_denotes env cs' \<lparr>el_data = BoundHandle h, el_len = len, el_ind = ind\<rparr> v"
  using assms
  by (cases v) (auto simp: element_denotes_def handle_element_def bound_value_def lob_content_def lob_data_def
      element_text_def split: if_splits outcome.splits)

lemma list_array_list:
  "ab_list a = Some l \<Longrightarrow> ab_list (a\<lparr>ab_inds := x\<rparr>) = Some l"
  by simp

lemma setupBind_list:
  assumes "setupBind env pos a n w = (ok, n', w')" "bw_sink w' = []" "ab_list a = Some l"
    "conversions_return env" "list_array l = Value (ab_data a)" "ab_data a \<noteq> SingleNull"
  shows "ok \<and> array_data_denotes env (length l) (QList l) n' w'"
proof (cases "ab_data a")
  case (ArrayString et x y)
  obtain ss ls "is" mx where r: "array_strings env l = Value (ss, ls, is, mx)"
    using assms(1,2,3) array_strings_defined [OF assms(4), of l] ArrayString
    by (cases "array_strings env l") (auto simp: setupBind_defs Let_def setup_raise_def)
  note e = array_strings_elements [OF r]
  from assms(1,3) r ArrayString
  have b: "bind_at_exec env pos mx SQLT_STR
      (a\<lparr>ab_inds := is, ab_data := ArrayString et ss ls\<rparr>) n w = (ok, n', w')"
    by (simp add: setupBind_defs Let_def)
  from bind_at_exec_ok [OF b assms(2)] e assms(3) show ?thesis
    by (force simp: array_data_denotes_def array_element_def bindCallback_def bindCallbackImpl_def element_denotes_def
        text_element_def bound_value_def split: if_splits)
next
  case (ArrayFloat x)
  obtain xs "is" where r: "array_floats l = Value (xs, is)"
    using assms(1,2,3) array_floats_defined [of l] ArrayFloat
    by (cases "array_floats l") (auto simp: setupBind_defs Let_def setup_raise_def)
  note e = array_floats_elements [OF r]
  from assms(1,3) r ArrayFloat
  have b: "bind_at_exec env pos 8 SQLT_FLT (a\<lparr>ab_inds := is, ab_data := ArrayFloat xs\<rparr>) n w = (ok, n', w')"
    by (simp add: setupBind_defs Let_def)
  from bind_at_exec_ok [OF b assms(2)] e assms(3) show ?thesis
    by (auto simp: array_data_denotes_def array_element_def bindCallback_def bindCallbackImpl_def element_denotes_def
        bound_value_def)
next
  case (ArrayBool x)
  obtain xs "is" where r: "array_bools l = Value (xs, is)"
    using assms(1,2,3) array_bools_defined [of l] ArrayBool
    by (cases "array_bools l") (auto simp: setupBind_defs Let_def setup_raise_def)
  note e = array_bools_elements [OF r]
  from assms(1,3) r ArrayBool
  have b: "bind_at_exec env pos 1 SQLT_INT (a\<lparr>ab_inds := is, ab_data := ArrayBool xs\<rparr>) n w = (ok, n', w')"
    by (simp add: setupBind_defs Let_def)
  from bind_at_exec_ok [OF b assms(2)] e assms(3) show ?thesis
    by (auto simp: array_data_denotes_def array_element_def bindCallback_def bindCallbackImpl_def element_denotes_def
        bound_value_def)
next
  case (ArrayDate x)
  obtain ok1 hs "is" w1 where r: "array_dates env l w = (ok1, hs, is, w1)"
    by (metis prod_cases4)
  note e = array_dates_elements [OF r]
  have "ok1"
    using assms(1,2,3) r ArrayDate e by (auto simp: setupBind_defs Let_def split: if_splits)
  with assms(1,3) r ArrayDate
  have b: "bind_at_exec env pos 0 SQLT_TIMESTAMP_TZ (a\<lparr>ab_inds := is, ab_data := ArrayDate hs\<rparr>) n w1 = (ok, n', w')"
    by (simp add: setupBind_defs Let_def)
  from bind_at_exec_ok [OF b assms(2)] e \<open>ok1\<close> assms(3) show ?thesis
    by (auto simp: array_data_denotes_def array_element_def bindCallback_def bindCallbackImpl_def
        intro!: handle_denotes_date [of "bw_calls w1"])
next
  case (ArrayLob blob x y)
  obtain ok1 hs as "is" w1 where r: "array_lobs env blob l w = (ok1, hs, as, is, w1)"
    by (metis prod_cases5)
  note e = array_lobs_elements [OF r]
  have "ok1"
    using assms(1,2,3) r ArrayLob e lob_data_defined [OF assms(4)]
    by (auto simp: setupBind_defs Let_def split: if_splits)
  with assms(1,3) r ArrayLob
  have b: "bind_at_exec env pos 8 (if blob then SQLT_BLOB else SQLT_CLOB)
      (a\<lparr>ab_inds := is, ab_data := ArrayLob blob hs as\<rparr>) n w1 = (ok, n', w')"
    by (simp add: setupBind_defs Let_def)
  from bind_at_exec_ok [OF b assms(2)] e \<open>ok1\<close> assms(3) show ?thesis
    by (auto simp: array_data_denotes_def array_element_def bindCallback_def bindCallbackImpl_def
        intro!: handle_denotes_lob [of "bw_calls w1"])
qed (use assms(5,6) in \<open>auto simp: list_array_def split: list.splits qtype.splits if_splits\<close>)


lemma single_bind_denotes:
  assumes "bind_at_exec env pos sz t a n w0 = (ok, n', w')" "bw_sink w' = []"
    "\<And>i. element_denotes env (bw_calls w') (bindCallback i a) (array_element v i)"
  shows "ok \<and> array_data_denotes env k v n' w'"
  using bind_at_exec_ok [OF assms(1,2)] assms(3) by (simp add: array_data_denotes_def)

lemma setupBind_null:
  assumes "setupBind env pos a n w = (ok, n', w')" "bw_sink w' = []" "ab_list a = None"
    "ab_data a = SingleNull" "\<And>i. i < k \<Longrightarrow> is_null (array_element v i)"
  shows "ok \<and> array_data_denotes env k v n' w'"
proof -
  from assms have b: "bind_at_exec env pos 1 SQLT_STR (a\<lparr>ab_inds := [- 1]\<rparr>) n w = (ok, n', w')"
    by (simp add: setupBind_defs Let_def)
  from bind_at_exec_ok [OF b assms(2)] assms show ?thesis
    by (auto simp: array_data_denotes_def bindCallback_def bindCallbackImpl_def element_denotes_def)
qed

lemmas single_simps = setupBind_defs Let_def bindCallback_def bindCallbackImpl_def element_denotes_def bound_value_def
  array_element_def

lemma setupBind_single_date:
  assumes "setupBind env pos a n w = (ok, n', w')" "bw_sink w' = []" "ab_list a = None" "ab_data a = SingleDate d h0"
  shows "ok \<and> array_data_denotes env k (QDate d) n' w'"
proof -
  obtain ok1 w1 where c1: "bcall env (BindAllocDescriptor TimestampDescriptor) w = (ok1, w1)" by fastforce
  obtain ok2 w2 where c2: "bcall env (DateTimeConstruct (bhandle w) d) w1 = (ok2, w2)" by fastforce
  from assms c1 c2 have o: "ok1" "ok2"
    by (auto simp: setupBind_defs Let_def dest: bcall_sink split: if_splits)
  with assms c1 c2 have b: "bind_at_exec env pos 0 SQLT_TIMESTAMP_TZ
      (a\<lparr>ab_inds := [0], ab_data := SingleDate d (bhandle w)\<rparr>) n w2 = (ok, n', w')"
    by (simp add: setupBind_defs Let_def)
  have "bw_calls w2 = bw_calls w1 @ [DateTimeConstruct (bhandle w) d]"
    using bcall_ok c2 o by auto
  with bind_at_exec_ok [OF b assms(2)] assms(3) show ?thesis
    by (intro single_bind_denotes [OF b assms(2)]) (simp add: single_simps)
qed

lemma setupBind_single_binary:
  assumes "setupBind env pos a n w = (ok, n', w')" "bw_sink w' = []" "ab_list a = None" "ab_data a = SingleBinary s 0 False"
  shows "ok \<and> array_data_denotes env k (QBinary s) n' w'"
proof (cases "length s > LOB_THRESHOLD")
  case True
  obtain ok1 w1 where c1: "bcall env (BindAllocDescriptor LobDescriptor) w = (ok1, w1)" by fastforce
  obtain ok2 w2 where c2: "bcall env (CreateTemporaryLob True) w1 = (ok2, w2)" by fastforce
  obtain ok3 w3 where c3: "bcall env (WriteLob (bhandle w) s) w2 = (ok3, w3)" by fastforce
  from True assms c1 c2 c3 have o: "ok1" "ok2" "ok3"
    by (auto simp: setupBind_defs Let_def dest: bcall_sink split: if_splits)
  with True assms c1 c2 c3 have b: "bind_at_exec env pos 8 SQLT_BLOB
      (a\<lparr>ab_inds := [0], ab_data := SingleBinary s (bhandle w) True\<rparr>) n w3 = (ok, n', w')"
    by (simp add: setupBind_defs Let_def)
  have "bw_calls w3 = bw_calls w2 @ [WriteLob (bhandle w) s]"
    using bcall_ok c3 o by auto
  with bind_at_exec_ok [OF b assms(2)] assms(3) show ?thesis
    by (intro single_bind_denotes [OF b assms(2)]) (simp add: single_simps bhandle_def)
next
  case False
  with assms have b: "bind_at_exec env pos (int (length s)) SQLT_BIN (a\<lparr>ab_inds := [0]\<rparr>) n w = (ok, n', w')"
    by (simp add: setupBind_defs Let_def)
  show ?thesis
    using assms(3,4) by (intro single_bind_denotes [OF b assms(2)]) (simp add: single_simps)
qed

lemma setupBind_single:
  assumes "setupBind env pos a n w = (ok, n', w')" "bw_sink w' = []" "ab_list a = None"
    "single_array env v = Value (ab_data a)"
  shows "ok \<and> array_data_denotes env k v n' w'"
proof (cases "ab_data a")
  case SingleNull
  with assms(4) have "is_null v" "\<And>l. v \<noteq> QList l" by (auto simp: single_array_def split: qval.splits if_splits)
  then have "is_null (array_element v i)" for i by (auto simp: array_element_def split: qval.split)
  then show ?thesis by (rule setupBind_null [OF assms(1,2,3) SingleNull])
next
  case (SingleInt i)
  with assms have b: "bind_at_exec env pos 8 SQLT_INT (a\<lparr>ab_inds := [0]\<rparr>) n w = (ok, n', w')"
    by (simp add: setupBind_defs Let_def)
  from SingleInt assms(3,4) show ?thesis
    by (intro single_bind_denotes [OF b assms(2)]) (auto simp: single_simps single_array_def split: qval.splits if_splits)
next
  case (SingleFloat f)
  with assms have b: "bind_at_exec env pos 8 SQLT_FLT (a\<lparr>ab_inds := [0]\<rparr>) n w = (ok, n', w')"
    by (simp add: setupBind_defs Let_def)
  from SingleFloat assms(3,4) show ?thesis
    by (intro single_bind_denotes [OF b assms(2)]) (auto simp: single_simps single_array_def split: qval.splits if_splits)
next
  case (SingleString s)
  with assms have b: "bind_at_exec env pos (int (length s) + 1) SQLT_STR (a\<lparr>ab_inds := [0]\<rparr>) n w = (ok, n', w')"
    by (simp add: setupBind_defs Let_def)
  from SingleString assms(3,4) show ?thesis
    by (intro single_bind_denotes [OF b assms(2)])
      (auto simp: single_simps single_array_def element_text_def split: qval.splits if_splits)
next
  case (SingleDate d h)
  with assms(4) have "v = QDate d" by (auto simp: single_array_def split: qval.splits if_splits)
  with setupBind_single_date [OF assms(1,2,3) SingleDate] show ?thesis by simp
next
  case (SingleBinary s loc al)
  with assms(4) have "v = QBinary s" "loc = 0" "\<not> al" by (auto simp: single_array_def split: qval.splits if_splits)
  with setupBind_single_binary [of env pos a n w ok n' w' s] assms SingleBinary show ?thesis by simp
qed (use assms(4) in \<open>auto simp: single_array_def split: qval.splits if_splits\<close>)

lemma list_array_nulls: "list_array l = Value SingleNull \<Longrightarrow> list_all is_null l"
proof -
  assume a: "list_array l = Value SingleNull"
  have "dropWhile is_null l = []"
  proof (cases "dropWhile is_null l")
    case (Cons v vs)
    then show ?thesis using a by (cases "qtype_of v") (simp_all add: list_array_def split: if_splits)
  qed
  then show "list_all is_null l" by (simp add: list_all_iff)
qed

lemma make_array_denotes:
  assumes "make_array env v = Value a" "setupBind env pos a n w = (ok, n', w')" "bw_sink w' = []"
    "conversions_return env" "\<And>l. v = QList l \<Longrightarrow> length l = k"
  shows "ok \<and> array_data_denotes env k v n' w'"
proof (cases "\<exists>l. v = QList l")
  case True
  then obtain l where v: "v = QList l" by auto
  with assms(1) obtain d where d: "list_array l = Value d"
      "a = \<lparr>ab_list = (if d = SingleNull then None else Some l), ab_inds = [], ab_data = d\<rparr>"
    by (auto simp: make_array_def)
  show ?thesis
  proof (cases "d = SingleNull")
    case True
    with d list_array_nulls have nn: "\<And>i. i < k \<Longrightarrow> is_null (array_element v i)"
      using assms(5) v by (auto simp: array_element_def list_all_length)
    show ?thesis using d True by (intro setupBind_null [OF assms(2,3) _ _ nn]) auto
  next
    case False
    with setupBind_list [OF assms(2,3) _ assms(4)] d v assms(5) show ?thesis by simp
  qed
next
  case False
  with assms(1) obtain d where "single_array env v = Value d" "a = \<lparr>ab_list = None, ab_inds = [], ab_data = d\<rparr>"
    by (auto simp: make_array_def split: qval.splits)
  with setupBind_single [OF assms(2,3)] show ?thesis by simp
qed

lemma list_value_bound:
  assumes "be_array_size env > 0" "bindValue env pos v in_only n w = (n', w')" "bw_sink w' = []"
    "conversions_return env" "\<And>l. v = QList l \<Longrightarrow> length l = be_array_size env"
  shows "array_data_denotes env (be_array_size env) v n' w'"
proof -
  let ?n = "set_col (\<lambda>c. c\<lparr>cv_ind := 0\<rparr>) n"
  from assms(1,2) have b: "bindListValue env pos v ?n w = (n', w')" by (simp add: bindValue_def)
  let ?m = "set_col (\<lambda>c. c\<lparr>cv_array := True, cv_buf := BufArray 0\<rparr>) (?n\<lparr>bn_array := None\<rparr>)"
  have "single_array env v \<noteq> Undefined" "list_array l \<noteq> Undefined" for l
    using assms(4) by (auto simp: single_array_def list_array_def bind_outcome_Undefined_iff conversions_return_def
        split: qval.splits list.splits qtype.splits if_splits)
  then have "make_array env v \<noteq> Undefined"
    by (auto simp: make_array_def bind_outcome_Undefined_iff split: qval.splits)
  with b assms(3) obtain a where a: "make_array env v = Value a"
    by (cases "make_array env v") (auto simp: bindListValue_def Let_def)
  obtain ok n1 w1 where s: "setupBind env pos a ?m w = (ok, n1, w1)" by (metis prod_cases3)
  obtain ok2 w2 where d: "bcall env (BindDynamic pos) w1 = (ok2, w2)" by fastforce
  have n: "n' = n1" and w: "w' = (if ok then w2 else w1)" using b a s d by (simp_all add: bindListValue_def split: if_splits)
  have s1: "bw_sink w1 = []" using w assms(3) bcall_sink [OF d] by (auto split: if_splits)
  from make_array_denotes [OF a s s1 assms(4,5)] have r: "ok" "array_data_denotes env (be_array_size env) v n1 w1"
    by auto
  have "ok2" using w r(1) assms(3) bcall_sink [OF d] by auto
  with d have "bw_calls w2 = bw_calls w1 @ [BindDynamic pos]" using bcall_ok by auto
  moreover have "bound_value env (cs @ [BindDynamic pos]) x y = bound_value env cs x y" for cs x y
    by (auto simp: bound_value_def split: bound_data.split qval.split)
  ultimately show ?thesis using r n w by (auto simp: array_data_denotes_def element_denotes_def)
qed


section \<open>One node adds to the calls of its position\<close>

lemmas extends_elims = extends_call extends_bind

lemma bind_at_exec_extends:
  "bind_at_exec env pos sz t a n w = (ok, n', w') \<Longrightarrow> extends pos w0 w \<Longrightarrow> extends pos w0 w'"
  by (auto simp: bind_at_exec_def elim!: extends_bind)

lemmas step_simps = Let_def call_simps braise_def

lemma setupBind_extends:
  assumes "setupBind env pos a n w = (ok, n', w')"
  shows "extends pos w w'"
proof (cases "ab_data a")
  case (ArrayDate x)
  with assms show ?thesis
    by (auto simp: setupBind_defs Let_def split: prod.splits if_splits
        dest!: array_dates_elements [where pos = pos] elim!: bind_at_exec_extends)
next
  case (ArrayLob blob x y)
  with assms show ?thesis
    by (auto simp: setupBind_defs Let_def split: prod.splits if_splits
        dest!: array_lobs_elements [where pos = pos] elim!: bind_at_exec_extends)
next
  case (SingleDate d h)
  with assms show ?thesis
    by (auto simp: setupBind_defs step_simps split: prod.splits if_splits elim!: bind_at_exec_extends extends_call)
next
  case (SingleBinary s loc al)
  with assms show ?thesis
    by (auto simp: setupBind_defs step_simps split: prod.splits if_splits elim!: bind_at_exec_extends extends_call)
qed (use assms in \<open>auto simp: setupBind_defs Let_def setup_raise_def elim!: bind_at_exec_extends
      split: outcome.splits option.splits\<close>)

lemma bindListValue_extends: "bindListValue env pos v n w = (n', w') \<Longrightarrow> extends pos w w'"
  by (auto simp: bindListValue_def step_simps split: prod.splits if_splits outcome.splits
      dest!: setupBind_extends elim!: extends_call)

lemma bind_lob_extends: "bind_lob env pos t s n w = (n', w') \<Longrightarrow> extends pos w w'"
  by (auto simp: bind_lob_def step_simps split: prod.splits if_splits elim!: extends_elims)

lemma setupDate_handle:
  "setupDateDescriptor env n w = (True, n', w') \<Longrightarrow>
     n' = bn_set_buf SQLT_TIMESTAMP_TZ (BufHandle (Suc (length (bw_calls w)))) n
     \<and> bcall env (BindAllocDescriptor TimestampDescriptor) w = (True, w')"
  by (auto simp: setupDateDescriptor_def bhandle_def split: prod.splits)

lemma setupDate_extends: "setupDateDescriptor env n w = (ok, n', w') \<Longrightarrow> extends pos w w'"
  by (auto simp: setupDateDescriptor_def step_simps split: prod.splits elim!: extends_call)

lemma set_buf_handle [simp]: "buf_handle (cv_buf (bn_col (bn_set_buf t (BufHandle h) n))) = h"
  "bn_value (bn_set_buf t b n) = bn_value n" "bn_data (bn_set_buf t b n) = bn_data n"
  by (simp_all add: bn_set_buf_def set_col_def)

lemma bindValue_date_extends: "bindValue_date env pos d n w = (n', w') \<Longrightarrow> extends pos w w'"
  by (cases "fst (setupDateDescriptor env n w)")
    (auto simp: bindValue_date_def bindDate_def step_simps split: prod.splits if_splits
      dest: setupDate_extends dest!: setupDate_handle elim!: extends_elims)

lemma bind_named_extends:
  "bind_named env pos sub c n w = (n', w') \<Longrightarrow> call_at pos c \<Longrightarrow> call_writes c = None \<Longrightarrow> extends pos w w'"
  by (auto simp: bind_named_def step_simps split: prod.splits if_splits elim!: extends_elims)

lemma bindValue_hash_extends: "bindValue_hash env pos h n w = (n', w') \<Longrightarrow> extends pos w w'"
  by (auto simp: bindValue_hash_def step_simps split: if_splits qval.splits dest!: bind_named_extends)

lemma bindValue_extends:
  assumes "bindValue env pos v in_only n w = (n', w')"
  shows "extends pos w w'"
proof (cases "be_array_size env > 0")
  case True
  with assms show ?thesis by (auto simp: bindValue_def intro: bindListValue_extends)
next
  case False
  with assms show ?thesis
    by (cases v)
      (auto simp: bindValue_def bindValue_string_def bindValue_binary_def bindValue_int_def step_simps
        split: if_splits outcome.splits
        intro: bind_lob_extends bindValue_date_extends bindValue_hash_extends elim!: extends_bind)
qed

lemma placeholder_extends:
  "bindArrayPlaceholder env pos n w = (n', w') \<Longrightarrow> extends pos w w'"
  "placeholder_text env pos n w = (n', w') \<Longrightarrow> extends pos w w'"
  "placeholder_binary env pos n w = (n', w') \<Longrightarrow> extends pos w w'"
  "call_at pos c \<Longrightarrow> call_writes c = None \<Longrightarrow> placeholder_handle env pos c t n w = (ok, n', w') \<Longrightarrow> extends pos w w'"
  "placeholder_number env pos n w = (n', w') \<Longrightarrow> extends pos w w'"
  "placeholder_named env pos sub n w = (n', w') \<Longrightarrow> extends pos w w'"
  subgoal
    by (auto simp: bindArrayPlaceholder_def setupOutputBind_def bind_at_exec_def step_simps
        split: prod.splits option.splits elim!: extends_elims)
  subgoal
    by (auto simp: placeholder_text_def step_simps split: outcome.splits if_splits elim!: extends_elims)
  subgoal
    by (auto simp: placeholder_binary_def step_simps split: outcome.splits if_splits qval.splits prod.splits elim!: extends_elims)
  subgoal
    by (auto simp: placeholder_handle_def step_simps split: if_splits prod.splits elim!: extends_elims)
  subgoal
    by (auto simp: placeholder_number_def step_simps split: outcome.splits if_splits elim!: extends_elims)
  subgoal
    by (auto simp: placeholder_named_def step_simps split: if_splits qval.splits dest!: bind_named_extends)
  done

lemma placeholder_date_extends: "placeholder_date env pos n w = (n', w') \<Longrightarrow> extends pos w w'"
  by (cases "fst (setupDateDescriptor env n w)")
    (auto simp: placeholder_date_def bindDate_def step_simps split: prod.splits if_splits
      dest: setupDate_extends dest!: setupDate_handle elim!: extends_elims)

lemma placeholder_handle_extends:
  "snd (placeholder_handle env pos c t n w) = (n', w') \<Longrightarrow> call_at pos c \<Longrightarrow> call_writes c = None \<Longrightarrow> extends pos w w'"
  by (cases "placeholder_handle env pos c t n w") (auto intro: placeholder_extends(4))

lemma bindPlaceholder_extends: "bindPlaceholder env pos n w = (n', w') \<Longrightarrow> extends pos w w'"
  by (auto simp: bindPlaceholder_def Let_def call_at_def call_writes_def split: if_splits prod.splits
      intro: placeholder_extends(1-3,5,6) placeholder_date_extends
      dest: placeholder_extends(4) [rotated 2] dest!: placeholder_handle_extends elim!: extends_bind simp: braise_def)

lemma node_bind_extends: "node_bind env pos n w = (n', w') \<Longrightarrow> extends pos w w'"
  by (auto simp: node_bind_def Let_def braise_def split: if_splits prod.splits qval.splits
      intro: bindPlaceholder_extends bindValue_extends)

end
