(* ===== verification/Columnar.thy ===== *)
theory Columnar
  imports Columns
begin

text \<open>
  The columnar result path of QoreOracleStatement.cpp: validity bitmaps, the typed column
  builder with its fallback to a plain list, and the naming of duplicate columns.
\<close>

unbundle bit_operations_syntax

section \<open>Validity bitmaps\<close>

type_synonym bitmap = "8 word list"

definition oracle_columnar_bitmap_size :: "nat \<Rightarrow> nat" where
  "oracle_columnar_bitmap_size sz = (sz + 7) div 8"

text \<open>\<open>std::vector::resize(n, fill)\<close>.\<close>

definition vec_resize :: "nat \<Rightarrow> 'a \<Rightarrow> 'a list \<Rightarrow> 'a list" where
  "vec_resize n fill xs = take n xs @ replicate (n - length xs) fill"

definition bit_mask :: "nat \<Rightarrow> 8 word" where
  "bit_mask index = push_bit (index mod 8) 1"

definition oracle_columnar_set_validity_bit :: "bitmap \<Rightarrow> nat \<Rightarrow> bool \<Rightarrow> bitmap" where
  "oracle_columnar_set_validity_bit validity index valid =
     (let byte = index div 8;
          v = (if byte \<ge> length validity then vec_resize (byte + 1) 0 validity else validity)
      in v[byte := (if valid then v ! byte OR bit_mask index else v ! byte AND NOT (bit_mask index))])"

definition oracle_columnar_is_valid :: "bitmap \<Rightarrow> nat \<Rightarrow> bool" where
  "oracle_columnar_is_valid validity index \<longleftrightarrow>
     validity = [] \<or> (index div 8 < length validity \<and> validity ! (index div 8) AND bit_mask index \<noteq> 0)"

lemma bit_mask_bit: "bit (bit_mask i) k \<longleftrightarrow> k = i mod 8"
proof -
  have "i mod 8 < 8" by simp
  then show ?thesis by (auto simp: bit_mask_def bit_exp_iff)
qed

lemma and_bit_mask: "w AND bit_mask i \<noteq> 0 \<longleftrightarrow> bit w (i mod 8)" for w :: "8 word"
  using bit_mask_bit by (simp add: bit_eq_iff [of _ 0] bit_and_iff)

lemma div_mod_8_eq: "i div 8 = j div 8 \<Longrightarrow> i mod 8 = j mod 8 \<longleftrightarrow> i = (j::nat)"
  by (metis mult_div_mod_eq)

text \<open>
  The interface of a bitmap: bits addressed by index, writing one changes only that one.
\<close>

locale bit_vector =
  fixes get :: "'b \<Rightarrow> nat \<Rightarrow> bool"
    and set_bit_at :: "'b \<Rightarrow> nat \<Rightarrow> bool \<Rightarrow> 'b"
    and len :: "'b \<Rightarrow> nat"
  assumes get_set: "i < len b \<Longrightarrow> j < len b \<Longrightarrow> get (set_bit_at b i v) j = (if j = i then v else get b j)"
    and len_set: "i < len b \<Longrightarrow> len (set_bit_at b i v) = len b"
begin

fun write_all :: "'b \<Rightarrow> nat \<Rightarrow> bool list \<Rightarrow> 'b" where
  "write_all b i [] = b"
| "write_all b i (v # vs) = write_all (set_bit_at b i v) (Suc i) vs"

lemma write_all_get:
  "i + length vs \<le> len b \<Longrightarrow> j < len b \<Longrightarrow>
     get (write_all b i vs) j = (if i \<le> j \<and> j < i + length vs then vs ! (j - i) else get b j)"
proof (induction vs arbitrary: b i)
  case Nil
  then show ?case by auto
next
  case (Cons v vs)
  then have "i < len b" by simp
  with Cons have "get (write_all (set_bit_at b i v) (Suc i) vs) j
      = (if Suc i \<le> j \<and> j < Suc i + length vs then vs ! (j - Suc i) else get (set_bit_at b i v) j)"
    by (intro Cons.IH) (auto simp: len_set)
  also have "\<dots> = (if i \<le> j \<and> j < i + length (v # vs) then (v # vs) ! (j - i) else get b j)"
    using Cons.prems \<open>i < len b\<close> by (auto simp: get_set nth_Cons' Suc_diff_Suc)
  finally show ?case by simp
qed

end

lemma is_valid_set:
  assumes "v \<noteq> [] \<or> i < 8" "j div 8 < length v \<or> j = i"
  shows "oracle_columnar_is_valid (oracle_columnar_set_validity_bit v i b) j =
           (if j = i then b else j div 8 < length v \<and> bit (v ! (j div 8)) (j mod 8))"
proof -
  let ?v = "if i div 8 \<ge> length v then vec_resize (i div 8 + 1) 0 v else v"
  have len: "i div 8 < length ?v" by (simp add: vec_resize_def)
  have nth: "?v ! (j div 8) = (if j div 8 < length v then v ! (j div 8) else 0)" if "j div 8 < length ?v"
    using that by (auto simp: vec_resize_def nth_append)
  have jl: "j div 8 < length ?v" using assms(2) len by auto
  show ?thesis
  proof (cases "j div 8 = i div 8")
    case True
    note d = div_mod_8_eq [OF True]
    have ij: "j = i \<longleftrightarrow> j mod 8 = i mod 8" using d by simp
    show ?thesis using jl True nth len
      unfolding oracle_columnar_is_valid_def oracle_columnar_set_validity_bit_def Let_def
      by (auto simp: and_bit_mask bit_or_iff bit_and_iff bit_not_iff bit_mask_bit ij)
  next
    case False
    then have "j \<noteq> i" by auto
    with jl False nth assms show ?thesis
      unfolding oracle_columnar_is_valid_def oracle_columnar_set_validity_bit_def Let_def
      by (auto simp: and_bit_mask)
  qed
qed


section \<open>The column builder\<close>

datatype columnar_kind = Kind_Int64 | Kind_Float64 | Kind_Decimal128 | Kind_NumberOptimal | Kind_List

record columnar_storage =
  int_values :: "int list"
  float_values :: "64 word list"
  decimal_values :: "decimal128 list"
  validity :: bitmap

definition columnar_storage_init :: columnar_storage where
  "columnar_storage_init = \<lparr>int_values = [], float_values = [], decimal_values = [], validity = []\<rparr>"

record columnar_builder =
  ob_name :: string
  ob_precision :: int
  ob_scale :: int
  ob_kind :: columnar_kind
  ob_storage :: columnar_storage
  ob_list :: "qval list"
  ob_row_count :: nat
  ob_null_count :: nat

definition columnar_kind_of :: "number_option \<Rightarrow> sqlt \<Rightarrow> int \<Rightarrow> int \<Rightarrow> columnar_kind" where
  "columnar_kind_of number_option dt precision scale =
     (if is_int_type dt then Kind_Int64
      else if is_float_type dt then Kind_Float64
      else if dt = SQLT_NUM then
        (if number_option \<noteq> OPT_NUM_STRING
            \<and> oracle_columnar_decimal_metadata_supported precision scale
            \<and> \<not> (number_option = OPT_NUM_OPTIMAL \<and> scale = 0 \<and> precision \<le> 18) then Kind_Decimal128
         else if number_option = OPT_NUM_OPTIMAL then Kind_NumberOptimal
         else Kind_List)
      else Kind_List)"

definition OracleColumnarBuilder :: "number_option \<Rightarrow> column_buffer \<Rightarrow> string \<Rightarrow> columnar_builder" where
  "OracleColumnarBuilder number_option c n =
     \<lparr>ob_name = n, ob_precision = cb_precision c, ob_scale = cb_scale c,
      ob_kind = columnar_kind_of number_option (cb_dtype c) (cb_precision c) (cb_scale c),
      ob_storage = columnar_storage_init, ob_list = [], ob_row_count = 0, ob_null_count = 0\<rparr>"

definition ensureValidity :: "nat \<Rightarrow> columnar_storage \<Rightarrow> columnar_storage" where
  "ensureValidity row_count st =
     (if validity st \<noteq> []
      then st\<lparr>validity := vec_resize (oracle_columnar_bitmap_size (row_count + 1)) 0 (validity st)\<rparr>
      else st\<lparr>validity := vec_resize (oracle_columnar_bitmap_size (row_count + 1)) 0xff []\<rparr>)"

definition appendNull :: "columnar_builder \<Rightarrow> columnar_builder" where
  "appendNull b =
     (let st = ensureValidity (ob_row_count b) (ob_storage b);
          st = st\<lparr>validity := oracle_columnar_set_validity_bit (validity st) (ob_row_count b) False\<rparr>;
          st = (case ob_kind b of
                  Kind_Float64 \<Rightarrow> st\<lparr>float_values := float_values st @ [0]\<rparr>
                | Kind_Decimal128 \<Rightarrow> st\<lparr>decimal_values := decimal_values st @ [\<lparr>d128_lo = 0, d128_hi = 0\<rparr>]\<rparr>
                | _ \<Rightarrow> st\<lparr>int_values := int_values st @ [0]\<rparr>)
      in b\<lparr>ob_storage := st, ob_null_count := ob_null_count b + 1, ob_row_count := ob_row_count b + 1\<rparr>)"

definition appendValid :: "columnar_builder \<Rightarrow> columnar_builder" where
  "appendValid b =
     (let st = ob_storage b;
          st = (if validity st \<noteq> []
                then st\<lparr>validity := oracle_columnar_set_validity_bit (validity st) (ob_row_count b) True\<rparr> else st)
      in b\<lparr>ob_storage := st, ob_row_count := ob_row_count b + 1\<rparr>)"

text \<open>
  \<open>qore_check_cancel\<close>: the answers it gives, in the order of the polls; an exhausted list
  answers "not cancelled".
\<close>

type_synonym polls = "exn option list"

definition check_cancel :: "polls \<Rightarrow> exn option \<times> polls" where
  "check_cancel p = (case p of [] \<Rightarrow> (None, []) | x # xs \<Rightarrow> (x, xs))"

text \<open>The loop of \<open>fallbackToList\<close>, from row \<open>i\<close> over \<open>n\<close> rows.\<close>

fun fallback_loop :: "columnar_storage \<Rightarrow> nat \<Rightarrow> nat \<Rightarrow> polls \<Rightarrow> qval list \<Rightarrow> qval list outcome \<times> polls" where
  "fallback_loop st i 0 p l = (Value l, p)"
| "fallback_loop st i (Suc n) p l =
     (let (c, p') = (if i \<noteq> 0 \<and> i mod 100 = 0 then check_cancel p else (None, p))
      in case c of
           Some e \<Rightarrow> (Raised e, p')
         | None \<Rightarrow> fallback_loop st (Suc i) n p'
                     (l @ [if oracle_columnar_is_valid (validity st) i then QInt (int_values st ! i) else QNull]))"

definition fallbackToList :: "polls \<Rightarrow> columnar_builder \<Rightarrow> columnar_builder outcome \<times> polls" where
  "fallbackToList p b =
     (case fallback_loop (ob_storage b) 0 (ob_row_count b) p [] of
        (Value l, p') \<Rightarrow>
          (Value (b\<lparr>ob_list := l, ob_kind := Kind_List, ob_storage := columnar_storage_init, ob_null_count := 0\<rparr>), p')
      | (Raised e, p') \<Rightarrow> (Raised e, p')
      | (Undefined, p') \<Rightarrow> (Undefined, p'))"

definition appendList :: "value_env \<Rightarrow> ora_column \<Rightarrow> columnar_builder \<Rightarrow> columnar_builder outcome" where
  "appendList env c b =
     bind_outcome (fst (getValue env False False c))
       (\<lambda>v. Value (b\<lparr>ob_list := ob_list b @ [v], ob_row_count := ob_row_count b + 1\<rparr>))"

definition builder_append :: "value_env \<Rightarrow> polls \<Rightarrow> ora_column \<Rightarrow> columnar_builder \<Rightarrow> columnar_builder outcome \<times> polls" where
  "builder_append env p c b =
     (if ob_kind b = Kind_List then (appendList env c b, p)
      else if cv_ind c = - 1 then (Value (appendNull b), p)
      else let st = ob_storage b in
      case ob_kind b of
        Kind_Int64 \<Rightarrow>
          (Value (appendValid (b\<lparr>ob_storage := st\<lparr>int_values := int_values st @ [case cv_buf c of BufI8 i \<Rightarrow> i | _ \<Rightarrow> 0]\<rparr>\<rparr>)), p)
      | Kind_Float64 \<Rightarrow>
          (Value (appendValid (b\<lparr>ob_storage := st\<lparr>float_values := float_values st @ [case cv_buf c of BufF8 f \<Rightarrow> f | _ \<Rightarrow> 0]\<rparr>\<rparr>)), p)
      | Kind_Decimal128 \<Rightarrow>
          (bind_outcome (oracle_columnar_parse_decimal128 (Some (buf_text (cv_buf c))) (ob_precision b) (ob_scale b))
             (\<lambda>d. Value (appendValid (b\<lparr>ob_storage := st\<lparr>decimal_values := decimal_values st @ [d]\<rparr>\<rparr>))), p)
      | Kind_NumberOptimal \<Rightarrow>
          (case oracle_columnar_parse_int64 (Some (buf_text (cv_buf c))) of
             Some i \<Rightarrow> (Value (appendValid (b\<lparr>ob_storage := st\<lparr>int_values := int_values st @ [i]\<rparr>\<rparr>)), p)
           | None \<Rightarrow> (case fallbackToList p b of
                 (Value b', p') \<Rightarrow> (appendList env c b', p')
               | r \<Rightarrow> r))
      | Kind_List \<Rightarrow> (appendList env c b, p))"

text \<open>The buffer \<open>finish\<close> hands to the Qore library, or the plain list.\<close>

datatype column_items = IntItems "int list" | FloatItems "64 word list" | DecimalItems "decimal128 list"

datatype column_data =
    ListData "qval list"
  | BufferData column_items bool nat "bitmap option" nat "(int \<times> int) option"

definition builder_finish :: "columnar_builder \<Rightarrow> column_data" where
  "builder_finish b =
     (let st = ob_storage b;
          nullable = (ob_null_count b > 0);
          v = (if nullable \<and> validity st \<noteq> [] then Some (validity st) else None)
      in case ob_kind b of
           Kind_List \<Rightarrow> ListData (ob_list b)
         | Kind_Float64 \<Rightarrow> BufferData (FloatItems (float_values st)) nullable (ob_row_count b) v (ob_null_count b) None
         | Kind_Decimal128 \<Rightarrow> BufferData (DecimalItems (decimal_values st)) nullable (ob_row_count b) v
                                 (ob_null_count b) (Some (ob_precision b, ob_scale b))
         | _ \<Rightarrow> BufferData (IntItems (int_values st)) nullable (ob_row_count b) v (ob_null_count b) None)"

section \<open>What a column stands for\<close>

datatype item = ItemNull | ItemInt int | ItemFloat "64 word" | ItemDecimal decimal128 | ItemValue qval

fun value_item :: "qval \<Rightarrow> item" where
  "value_item QNull = ItemNull"
| "value_item (QInt i) = ItemInt i"
| "value_item v = ItemValue v"

fun data_items :: "column_items \<Rightarrow> item list" where
  "data_items (IntItems xs) = map ItemInt xs"
| "data_items (FloatItems xs) = map ItemFloat xs"
| "data_items (DecimalItems xs) = map ItemDecimal xs"

fun column_data_items :: "column_data \<Rightarrow> item list" where
  "column_data_items (ListData vs) = map value_item vs"
| "column_data_items (BufferData items nullable n v nulls meta) =
     map (\<lambda>i. if (case v of None \<Rightarrow> True | Some m \<Rightarrow> oracle_columnar_is_valid m i) then data_items items ! i else ItemNull) [0..<n]"

text \<open>
  The abstract value of a builder: its rows, and the invariant that ties the arrays, the
  bitmap and the counters together.
\<close>

definition storage_items :: "columnar_builder \<Rightarrow> item list" where
  "storage_items b =
     (case ob_kind b of
        Kind_Float64 \<Rightarrow> map ItemFloat (float_values (ob_storage b))
      | Kind_Decimal128 \<Rightarrow> map ItemDecimal (decimal_values (ob_storage b))
      | _ \<Rightarrow> map ItemInt (int_values (ob_storage b)))"

definition bitmap_holds :: "bitmap \<Rightarrow> bool list \<Rightarrow> bool" where
  "bitmap_holds m vs \<longleftrightarrow>
     (m \<noteq> [] \<longrightarrow> length m = oracle_columnar_bitmap_size (length vs))
     \<and> (\<forall>i < length vs. oracle_columnar_is_valid m i \<longleftrightarrow> vs ! i)"

lemma set_validity_length:
  "length (oracle_columnar_set_validity_bit m i v) = max (length m) (i div 8 + 1)"
  by (simp add: oracle_columnar_set_validity_bit_def vec_resize_def Let_def)

interpretation bitmap: bit_vector oracle_columnar_is_valid oracle_columnar_set_validity_bit "\<lambda>m. 8 * length m"
proof (unfold_locales, goal_cases)
  case (1 i m j v)
  then have "m \<noteq> []" "j div 8 < length m" by auto
  with is_valid_set [of m i j v] show ?case
    by (simp add: oracle_columnar_is_valid_def and_bit_mask)
next
  case (2 i m v)
  then have "i div 8 < length m" by simp
  then show ?case by (simp add: set_validity_length)
qed

lemma is_valid_bit: "m \<noteq> [] \<Longrightarrow> oracle_columnar_is_valid m j \<longleftrightarrow> j div 8 < length m \<and> bit (m ! (j div 8)) (j mod 8)"
  by (simp add: oracle_columnar_is_valid_def and_bit_mask)

lemma bitmap_size_div: "i < n \<Longrightarrow> i div 8 < oracle_columnar_bitmap_size n"
  unfolding oracle_columnar_bitmap_size_def by linarith

lemma bitmap_size_Suc: "oracle_columnar_bitmap_size (Suc n) = n div 8 + 1"
  unfolding oracle_columnar_bitmap_size_def by linarith

lemma bitmap_size_le: "oracle_columnar_bitmap_size n \<le> n div 8 + 1" "n div 8 \<le> oracle_columnar_bitmap_size n"
  unfolding oracle_columnar_bitmap_size_def by linarith+

lemma bitmap_holds_set:
  assumes "bitmap_holds m vs" "m \<noteq> []"
  shows "bitmap_holds (oracle_columnar_set_validity_bit m (length vs) v) (vs @ [v])"
proof -
  let ?n = "length vs"
  have len: "length m = oracle_columnar_bitmap_size ?n" using assms by (simp add: bitmap_holds_def)
  have "oracle_columnar_is_valid (oracle_columnar_set_validity_bit m ?n v) i \<longleftrightarrow> (vs @ [v]) ! i" if "i < Suc ?n" for i
  proof (cases "i = ?n")
    case True
    then show ?thesis using is_valid_set [of m ?n i v] assms(2) by simp
  next
    case False
    with that have i: "i < ?n" by simp
    then have d: "i div 8 < length m" using bitmap_size_div len by simp
    from assms i have "oracle_columnar_is_valid m i \<longleftrightarrow> vs ! i" by (simp add: bitmap_holds_def)
    with d is_valid_set [of m ?n i v] assms(2) i show ?thesis
      by (simp add: is_valid_bit nth_append)
  qed
  moreover have "length (oracle_columnar_set_validity_bit m ?n v) = oracle_columnar_bitmap_size (Suc ?n)"
    using bitmap_size_le [of ?n] by (simp add: set_validity_length bitmap_size_Suc len)
  ultimately show ?thesis by (simp add: bitmap_holds_def)
qed

lemma bitmap_holds_first_null:
  assumes "bitmap_holds [] vs"
  shows "bitmap_holds (oracle_columnar_set_validity_bit
           (vec_resize (oracle_columnar_bitmap_size (Suc (length vs))) 0xff []) (length vs) False) (vs @ [False])"
proof -
  let ?n = "length vs" and ?m = "replicate (oracle_columnar_bitmap_size (Suc (length vs))) (0xff :: 8 word)"
  have ff: "bit (0xff :: 8 word) k" if "k < 8" for k
    using that bit_mask_iff [of 8 k, where ?'a = "8 word"] by (simp add: mask_eq_exp_minus_1)
  have all: "list_all id vs" using assms
    by (simp add: bitmap_holds_def oracle_columnar_is_valid_def list_all_length)
  have "oracle_columnar_is_valid (oracle_columnar_set_validity_bit ?m ?n False) i \<longleftrightarrow> (vs @ [False]) ! i" if i: "i < Suc ?n" for i
  proof -
    have l: "i div 8 < length ?m" using bitmap_size_div [OF i] by simp
    have "i mod 8 < 8" by simp
    then have "i div 8 < length ?m \<and> bit (?m ! (i div 8)) (i mod 8)" using ff l by simp
    moreover have "?m \<noteq> []" using l by (cases ?m) auto
    ultimately show ?thesis using is_valid_set [of ?m ?n i False] i all
      by (auto simp: nth_append list_all_length)
  qed
  moreover have "length (oracle_columnar_set_validity_bit ?m ?n False) = oracle_columnar_bitmap_size (Suc ?n)"
    by (simp add: set_validity_length bitmap_size_Suc)
  ultimately show ?thesis by (simp add: bitmap_holds_def vec_resize_def)
qed

lemma bitmap_grow:
  assumes "bitmap_holds m vs" "m \<noteq> []"
  shows "oracle_columnar_set_validity_bit (vec_resize (oracle_columnar_bitmap_size (Suc (length vs))) 0 m) (length vs) v
           = oracle_columnar_set_validity_bit m (length vs) v"
proof -
  have "length m = oracle_columnar_bitmap_size (length vs)" using assms by (simp add: bitmap_holds_def)
  with bitmap_size_le [of "length vs"] show ?thesis
    by (auto simp: oracle_columnar_set_validity_bit_def vec_resize_def bitmap_size_Suc Let_def)
qed

lemma bitmap_holds_valid:
  "bitmap_holds [] vs \<Longrightarrow> bitmap_holds [] (vs @ [True])"
  by (auto simp: bitmap_holds_def oracle_columnar_is_valid_def nth_append)

section \<open>The builder refines the list of its rows\<close>

definition builder_rep :: "columnar_builder \<Rightarrow> item list \<Rightarrow> bool" where
  "builder_rep b items \<longleftrightarrow>
     ob_row_count b = length items
     \<and> (if ob_kind b = Kind_List then map value_item (ob_list b) = items
        else length (storage_items b) = length items
             \<and> bitmap_holds (validity (ob_storage b)) (map (\<lambda>x. x \<noteq> ItemNull) items)
             \<and> ob_null_count b = length (filter (\<lambda>x. x = ItemNull) items)
             \<and> (validity (ob_storage b) = [] \<longleftrightarrow> ob_null_count b = 0)
             \<and> (\<forall>i < length items. items ! i \<noteq> ItemNull \<longrightarrow> storage_items b ! i = items ! i))"

lemma builder_rep_init: "builder_rep (OracleColumnarBuilder o1 c n) []"
  by (simp add: builder_rep_def OracleColumnarBuilder_def storage_items_def columnar_storage_init_def
      bitmap_holds_def split: columnar_kind.split)

lemma set_validity_ne [simp]: "oracle_columnar_set_validity_bit m i v \<noteq> []"
  using set_validity_length [of m i v] by auto

lemma appendNull_simps [simp]:
  "validity (ob_storage (appendNull b)) =
     oracle_columnar_set_validity_bit (validity (ensureValidity (ob_row_count b) (ob_storage b))) (ob_row_count b) False"
  "ob_kind (appendNull b) = ob_kind b" "ob_row_count (appendNull b) = Suc (ob_row_count b)"
  "ob_null_count (appendNull b) = Suc (ob_null_count b)"
  by (auto simp: appendNull_def Let_def split: columnar_kind.split)

lemma storage_items_appendNull:
  "ob_kind b \<noteq> Kind_List \<Longrightarrow> \<exists>x. storage_items (appendNull b) = storage_items b @ [x]"
  by (auto simp: storage_items_def appendNull_def ensureValidity_def Let_def split: columnar_kind.split)

lemma appendValid_simps [simp]:
  "validity (ob_storage (appendValid b)) =
     (if validity (ob_storage b) = [] then []
      else oracle_columnar_set_validity_bit (validity (ob_storage b)) (ob_row_count b) True)"
  "ob_kind (appendValid b) = ob_kind b" "ob_row_count (appendValid b) = Suc (ob_row_count b)"
  "ob_null_count (appendValid b) = ob_null_count b" "storage_items (appendValid b) = storage_items b"
  by (auto simp: appendValid_def storage_items_def Let_def split: columnar_kind.split)

lemma builder_rep_null:
  assumes "builder_rep b items" "ob_kind b \<noteq> Kind_List"
  shows "builder_rep (appendNull b) (items @ [ItemNull])"
proof -
  let ?vs = "map (\<lambda>x. x \<noteq> ItemNull) items" and ?m = "validity (ob_storage b)"
  have h: "bitmap_holds ?m ?vs" and rc: "ob_row_count b = length ?vs" using assms by (simp_all add: builder_rep_def)
  have m: "bitmap_holds (validity (ob_storage (appendNull b))) (?vs @ [False])"
  proof (cases "?m = []")
    case True
    with bitmap_holds_first_null [of ?vs] h rc show ?thesis by (simp add: ensureValidity_def)
  next
    case False
    with bitmap_holds_set [OF h False, of False] bitmap_grow [OF h False, of False] rc show ?thesis
      by (simp add: ensureValidity_def)
  qed
  obtain x where "storage_items (appendNull b) = storage_items b @ [x]"
    using storage_items_appendNull [OF assms(2)] by blast
  with m assms show ?thesis by (simp add: builder_rep_def nth_append less_Suc_eq)
qed

lemma builder_rep_valid:
  assumes rep: "builder_rep b items" and k: "ob_kind b \<noteq> Kind_List"
    and b': "ob_kind b' = ob_kind b" "ob_row_count b' = ob_row_count b" "ob_null_count b' = ob_null_count b"
      "validity (ob_storage b') = validity (ob_storage b)" "storage_items b' = storage_items b @ [x]"
    and x: "x \<noteq> ItemNull"
  shows "builder_rep (appendValid b') (items @ [x])"
proof -
  let ?vs = "map (\<lambda>x. x \<noteq> ItemNull) items" and ?m = "validity (ob_storage b)"
  have h: "bitmap_holds ?m ?vs" and rc: "ob_row_count b = length ?vs" using rep k by (simp_all add: builder_rep_def)
  have m: "bitmap_holds (validity (ob_storage (appendValid b'))) (?vs @ [True])"
  proof (cases "?m = []")
    case True
    with bitmap_holds_valid [of ?vs] h b' show ?thesis by simp
  next
    case False
    with bitmap_holds_set [OF h False, of True] b' rc show ?thesis by simp
  qed
  with rep k b' x show ?thesis by (auto simp: builder_rep_def nth_append less_Suc_eq)
qed

text \<open>The rows a finished builder stands for.\<close>

lemma data_items_storage:
  "ob_kind b \<noteq> Kind_List \<Longrightarrow> \<exists>it meta. builder_finish b =
     BufferData it (ob_null_count b > 0) (ob_row_count b)
       (if ob_null_count b > 0 \<and> validity (ob_storage b) \<noteq> [] then Some (validity (ob_storage b)) else None)
       (ob_null_count b) meta \<and> data_items it = storage_items b"
  by (cases "ob_kind b") (auto simp: builder_finish_def storage_items_def Let_def)

lemma builder_finish_items:
  assumes rep: "builder_rep b items"
  shows "column_data_items (builder_finish b) = items"
proof (cases "ob_kind b = Kind_List")
  case True
  with rep show ?thesis by (simp add: builder_rep_def builder_finish_def)
next
  case False
  let ?m = "validity (ob_storage b)"
  obtain it meta where f: "builder_finish b = BufferData it (ob_null_count b > 0) (ob_row_count b)
       (if ob_null_count b > 0 \<and> ?m \<noteq> [] then Some ?m else None) (ob_null_count b) meta"
     "data_items it = storage_items b"
    using data_items_storage [OF False] by blast
  have valid: "(case (if ob_null_count b > 0 \<and> ?m \<noteq> [] then Some ?m else None) of None \<Rightarrow> True
                 | Some m \<Rightarrow> oracle_columnar_is_valid m i) \<longleftrightarrow> items ! i \<noteq> ItemNull" if "i < length items" for i
    using rep False that
    by (auto simp: builder_rep_def bitmap_holds_def filter_empty_conv)
  have "column_data_items (builder_finish b) ! i = items ! i" if "i < length items" for i
    using rep False that valid [OF that] f by (auto simp: builder_rep_def)
  moreover have "length (column_data_items (builder_finish b)) = length items"
    using rep False f by (simp add: builder_rep_def)
  ultimately show ?thesis by (intro nth_equalityI) auto
qed

text \<open>The value one fetched cell stands for in a column of a given kind.\<close>

definition cell_item :: "value_env \<Rightarrow> columnar_kind \<Rightarrow> int \<Rightarrow> int \<Rightarrow> ora_column \<Rightarrow> item outcome" where
  "cell_item env k prec scale c =
     (if k \<noteq> Kind_List \<and> cv_ind c = - 1 then Value ItemNull
      else case k of
        Kind_Int64 \<Rightarrow> Value (ItemInt (case cv_buf c of BufI8 i \<Rightarrow> i | _ \<Rightarrow> 0))
      | Kind_Float64 \<Rightarrow> Value (ItemFloat (case cv_buf c of BufF8 f \<Rightarrow> f | _ \<Rightarrow> 0))
      | Kind_Decimal128 \<Rightarrow> bind_outcome (oracle_columnar_parse_decimal128 (Some (buf_text (cv_buf c))) prec scale)
                             (\<lambda>d. Value (ItemDecimal d))
      | _ \<Rightarrow> bind_outcome (fst (getValue env False False c)) (\<lambda>v. Value (value_item v)))"

text \<open>
  What the server's number texts look like to the builder: a text is either the decimal text
  of an integer, or no integer at all.
\<close>

definition canonical_number :: "value_env \<Rightarrow> ora_column \<Rightarrow> bool" where
  "canonical_number env c \<longleftrightarrow> cv_dtype c = SQLT_NUM \<and> ve_number env = OPT_NUM_OPTIMAL
     \<and> ((\<exists>i. buf_text (cv_buf c) = show_int i) \<or> oracle_columnar_parse_int64 (Some (buf_text (cv_buf c))) = None)"

lemma canonical_value:
  assumes "canonical_number env c" "cv_ind c \<noteq> - 1"
    and "oracle_columnar_parse_int64 (Some (buf_text (cv_buf c))) = Some i"
  shows "fst (getValue env False False c) = Value (QInt i)"
proof -
  from assms obtain j where j: "buf_text (cv_buf c) = show_int j" by (auto simp: canonical_number_def)
  with assms(3) have "i64_ok j" "i = j" by (simp_all add: parse_int64_show_int split: if_splits)
  with j have "getNumberOptimal (buf_text (cv_buf c)) = NumInt i" by (simp add: getNumberOptimal_show_int)
  with assms show ?thesis
    by (simp add: getValue_def canonical_number_def is_int_type_def is_float_type_def Let_def)
qed

lemma fallback_loop_items:
  "fallback_loop st i n p l = (Value l', p') \<Longrightarrow>
     l' = l @ map (\<lambda>j. if oracle_columnar_is_valid (validity st) j then QInt (int_values st ! j) else QNull) [i..<i + n]"
proof (induction n arbitrary: i p l)
  case 0
  then show ?case by simp
next
  case (Suc n)
  let ?v = "\<lambda>j. if oracle_columnar_is_valid (validity st) j then QInt (int_values st ! j) else QNull"
  from Suc.prems obtain p2 where "fallback_loop st (Suc i) n p2 (l @ [?v i]) = (Value l', p')"
    by (auto simp: Let_def split: prod.splits option.splits)
  from Suc.IH [OF this] show ?case by (simp add: upt_rec [of i] del: upt_Suc)
qed

lemma fallback_rep:
  assumes rep: "builder_rep b items" and k: "ob_kind b = Kind_NumberOptimal"
    and f: "fallbackToList p b = (Value b', p')"
  shows "builder_rep b' items \<and> ob_kind b' = Kind_List"
proof -
  obtain l where l: "fallback_loop (ob_storage b) 0 (ob_row_count b) p [] = (Value l, p')"
    and b': "b' = b\<lparr>ob_list := l, ob_kind := Kind_List, ob_storage := columnar_storage_init, ob_null_count := 0\<rparr>"
    using f by (auto simp: fallbackToList_def split: prod.splits outcome.splits)
  have st: "storage_items b = map ItemInt (int_values (ob_storage b))" using k by (simp add: storage_items_def)
  have "map value_item l = items"
  proof (rule nth_equalityI)
    show "length (map value_item l) = length items"
      using fallback_loop_items [OF l] rep by (simp add: builder_rep_def)
    fix i assume "i < length (map value_item l)"
    with \<open>length (map value_item l) = length items\<close> have i: "i < length items" by simp
    have v: "oracle_columnar_is_valid (validity (ob_storage b)) i \<longleftrightarrow> items ! i \<noteq> ItemNull"
      using rep k i by (simp add: builder_rep_def bitmap_holds_def)
    have "items ! i \<noteq> ItemNull \<Longrightarrow> ItemInt (int_values (ob_storage b) ! i) = items ! i"
      using rep k i st by (auto simp: builder_rep_def)
    then show "map value_item l ! i = items ! i"
      using fallback_loop_items [OF l] rep i v by (auto simp: builder_rep_def)
  qed
  with rep b' show ?thesis by (simp add: builder_rep_def)
qed

lemma appendList_rep:
  assumes "builder_rep b items" "ob_kind b = Kind_List" "appendList env c b = Value b'"
  shows "\<exists>v. fst (getValue env False False c) = Value v \<and> builder_rep b' (items @ [value_item v]) \<and> ob_kind b' = Kind_List"
  using assms by (auto simp: appendList_def builder_rep_def)

definition kind_follows :: "columnar_kind \<Rightarrow> columnar_builder \<Rightarrow> bool" where
  "kind_follows k b \<longleftrightarrow> ob_kind b = k \<or> (k = Kind_NumberOptimal \<and> ob_kind b = Kind_List)"

lemma append_rep:
  assumes rep: "builder_rep b items" and k: "kind_follows k b"
    and c: "k = Kind_NumberOptimal \<Longrightarrow> canonical_number env c"
    and app: "builder_append env p c b = (Value b', p')"
  shows "\<exists>x. cell_item env k (ob_precision b) (ob_scale b) c = Value x \<and> builder_rep b' (items @ [x]) \<and> kind_follows k b'"
proof (cases "ob_kind b = Kind_List")
  case True
  with app have "appendList env c b = Value b'" by (simp add: builder_append_def)
  from appendList_rep [OF rep True this] obtain v where
    v: "fst (getValue env False False c) = Value v" "builder_rep b' (items @ [value_item v])" "ob_kind b' = Kind_List"
    by blast
  have "cv_ind c = - 1 \<Longrightarrow> v = QNull" using v(1) by (simp add: getValue_def)
  with v k True show ?thesis by (auto simp: kind_follows_def cell_item_def)
next
  case False
  then have kb: "ob_kind b = k" using k by (simp add: kind_follows_def)
  show ?thesis
  proof (cases "cv_ind c = - 1")
    case True
    with app False have "b' = appendNull b" by (simp add: builder_append_def)
    with builder_rep_null [OF rep False] True False kb show ?thesis
      by (auto simp: cell_item_def kind_follows_def)
  next
    case nn: False
    show ?thesis
    proof (cases "k = Kind_NumberOptimal \<and> oracle_columnar_parse_int64 (Some (buf_text (cv_buf c))) = None")
      case True
      with app nn kb obtain b1 p1 where f: "fallbackToList p b = (Value b1, p1)" and a: "appendList env c b1 = Value b'"
        by (auto simp: builder_append_def split: prod.splits outcome.splits)
      from fallback_rep [OF rep _ f] True kb have "builder_rep b1 items" "ob_kind b1 = Kind_List" by auto
      from appendList_rep [OF this a] True nn show ?thesis by (auto simp: cell_item_def kind_follows_def)
    next
      case False
      note valid = builder_rep_valid [OF rep \<open>ob_kind b \<noteq> Kind_List\<close>]
      show ?thesis
      proof (cases k)
        case Kind_NumberOptimal
        with False obtain i where i: "oracle_columnar_parse_int64 (Some (buf_text (cv_buf c))) = Some i" by auto
        with app nn kb Kind_NumberOptimal have
          "b' = appendValid (b\<lparr>ob_storage := (ob_storage b)\<lparr>int_values := int_values (ob_storage b) @ [i]\<rparr>\<rparr>)"
          by (simp add: builder_append_def Let_def)
        moreover from canonical_value [OF c nn i] Kind_NumberOptimal nn
        have "cell_item env k (ob_precision b) (ob_scale b) c = Value (ItemInt i)" by (simp add: cell_item_def)
        ultimately show ?thesis using kb Kind_NumberOptimal
          by (auto intro!: valid simp: storage_items_def kind_follows_def)
      qed (use app nn kb \<open>ob_kind b \<noteq> Kind_List\<close> in \<open>auto simp: Let_def builder_append_def cell_item_def storage_items_def kind_follows_def intro!: valid\<close>)
    qed
  qed
qed

text \<open>A column over a whole fetch.\<close>

fun builder_run :: "value_env \<Rightarrow> polls \<Rightarrow> ora_column list \<Rightarrow> columnar_builder \<Rightarrow> columnar_builder outcome" where
  "builder_run env p [] b = Value b"
| "builder_run env p (c # cs) b =
     (case builder_append env p c b of
        (Value b', p') \<Rightarrow> builder_run env p' cs b'
      | (r, _) \<Rightarrow> r)"

lemma append_meta: "builder_append env p c b = (Value b', p') \<Longrightarrow> ob_precision b' = ob_precision b \<and> ob_scale b' = ob_scale b"
  by (auto simp: builder_append_def appendNull_def appendValid_def appendList_def fallbackToList_def Let_def
      split: if_splits columnar_kind.splits prod.splits outcome.splits option.splits)

lemma run_rep:
  assumes "builder_rep b items" "kind_follows k b"
    and "\<And>c. c \<in> set cs \<Longrightarrow> k = Kind_NumberOptimal \<Longrightarrow> canonical_number env c"
    and "builder_run env p cs b = Value b'"
  shows "\<exists>xs. map (cell_item env k (ob_precision b) (ob_scale b)) cs = map Value xs \<and> builder_rep b' (items @ xs)"
  using assms
proof (induction cs arbitrary: b items p)
  case Nil
  then show ?case by auto
next
  case (Cons c cs)
  from Cons.prems(4) obtain b1 p1 where a: "builder_append env p c b = (Value b1, p1)"
    and r: "builder_run env p1 cs b1 = Value b'" by (auto split: prod.splits outcome.splits)
  from append_rep [OF Cons.prems(1,2) _ a] Cons.prems(3) obtain x where
    x: "cell_item env k (ob_precision b) (ob_scale b) c = Value x" "builder_rep b1 (items @ [x])" "kind_follows k b1"
    by auto
  from Cons.IH [OF x(2,3) _ r] Cons.prems(3) append_meta [OF a] obtain xs where
    "map (cell_item env k (ob_precision b) (ob_scale b)) cs = map Value xs" "builder_rep b' ((items @ [x]) @ xs)" by auto
  with x show ?case by (intro exI [of _ "x # xs"]) simp
qed

section \<open>Names\<close>

definition oracle_columnar_unique_name :: "string \<Rightarrow> (string \<Rightarrow> nat) \<Rightarrow> string \<times> (string \<Rightarrow> nat)" where
  "oracle_columnar_unique_name key seen =
     (let index = seen key; seen' = seen(key := index + 1)
      in if index = 0 then (key, seen') else (key @ ''_'' @ show_nat index, seen'))"

fun columnar_names :: "string list \<Rightarrow> (string \<Rightarrow> nat) \<Rightarrow> string list" where
  "columnar_names [] seen = []"
| "columnar_names (n # ns) seen =
     (let (u, seen') = oracle_columnar_unique_name n seen in u # columnar_names ns seen')"

section \<open>Properties\<close>

text \<open>C15: The columnar builder refines the list of its rows.  When every cell of a column was
  appended, the finished column (a typed buffer with its validity bitmap, or the list it fell
  back to) stands for exactly the values of the cells, in order, nulls included.\<close>

theorem columnar_column_values:
  assumes run: "builder_run env p cs (OracleColumnarBuilder opt col n) = Value b"
    and canon: "\<And>c. c \<in> set cs \<Longrightarrow> columnar_kind_of opt (cb_dtype col) (cb_precision col) (cb_scale col) = Kind_NumberOptimal
                  \<Longrightarrow> canonical_number env c"
  shows "map Value (column_data_items (builder_finish b)) =
           map (cell_item env (columnar_kind_of opt (cb_dtype col) (cb_precision col) (cb_scale col))
                  (cb_precision col) (cb_scale col)) cs"
proof -
  let ?k = "columnar_kind_of opt (cb_dtype col) (cb_precision col) (cb_scale col)"
  have "kind_follows ?k (OracleColumnarBuilder opt col n)"
    by (simp add: kind_follows_def OracleColumnarBuilder_def)
  from run_rep [OF builder_rep_init this canon run] obtain xs where
    "map (cell_item env ?k (cb_precision col) (cb_scale col)) cs = map Value xs" "builder_rep b xs"
    by (auto simp: OracleColumnarBuilder_def)
  with builder_finish_items show ?thesis by metis
qed

text \<open>An environment without descriptors, for concrete runs.\<close>

definition value_env0 :: value_env where
  "value_env0 = \<lparr>ve_encoding = ''UTF-8'', ve_number = OPT_NUM_OPTIMAL,
     ve_remove_trailing_blanks = (\<lambda>s. rev (dropWhile ((=) CHR '' '') (rev s))),
     ve_timestamp = (\<lambda>_ _. Undefined), ve_interval_ym = (\<lambda>_. Undefined), ve_interval_ds = (\<lambda>_. Undefined),
     ve_clob = (\<lambda>_. Undefined), ve_blob = (\<lambda>_. Undefined), ve_rowid = (\<lambda>_. Undefined), ve_rows = (\<lambda>_. Undefined),
     ve_columns = (\<lambda>_. Undefined), ve_statement = (\<lambda>_. Undefined), ve_is_null = (\<lambda>_ _. Undefined),
     ve_object = (\<lambda>_. Undefined), ve_collection = (\<lambda>_. Undefined)\<rparr>"

definition number_cell :: "int \<Rightarrow> string \<Rightarrow> ora_column" where
  "number_cell ind s = \<lparr>cv_buf = BufText (Some s), cv_dtype = SQLT_NUM, cv_subdtype = NTY_NONE, cv_ind = ind,
     cv_array = False, cv_alt_output = False\<rparr>"

definition number_column :: "int \<Rightarrow> int \<Rightarrow> column_buffer" where
  "number_column prec scale = column_buffer_init ''N'' 22 SQLT_NUM 0 prec scale NTY_NONE []"

theorem columnar_column_values_witness:
  "\<exists>b. builder_run value_env0 [] [number_cell 0 ''5'', number_cell (- 1) [], number_cell 0 ''1.5'', number_cell 0 ''-7'']
       (OracleColumnarBuilder OPT_NUM_OPTIMAL (number_column 10 0) ''n'') = Value b
     \<and> map Value (column_data_items (builder_finish b)) =
        [Value (ItemInt 5), Value ItemNull, Value (ItemValue (QNumber ''1.5'')), Value (ItemInt (- 7))]"
proof -
  let ?cells = "[number_cell 0 ''5'', number_cell (- 1) [], number_cell 0 ''1.5'', number_cell 0 ''-7'']"
  have k: "columnar_kind_of OPT_NUM_OPTIMAL (cb_dtype (number_column 10 0)) (cb_precision (number_column 10 0))
      (cb_scale (number_column 10 0)) = Kind_NumberOptimal" by code_simp
  have t: "show_int 5 = ''5''" "show_int (- 7) = ''-7''" "oracle_columnar_parse_int64 (Some ''1.5'') = None"
      "oracle_columnar_parse_int64 (Some []) = None"
    by (simp_all add: show_int_def show_nat_small digit_char_def char_of_def bit_simps oracle_columnar_parse_int64_def)
  have v: "map (cell_item value_env0 Kind_NumberOptimal 10 0) ?cells =
      [Value (ItemInt 5), Value ItemNull, Value (ItemValue (QNumber ''1.5'')), Value (ItemInt (- 7))]" by code_simp
  obtain b where b: "builder_run value_env0 [] ?cells (OracleColumnarBuilder OPT_NUM_OPTIMAL (number_column 10 0) ''n'') = Value b"
  proof -
    have "\<not> (case builder_run value_env0 [] ?cells (OracleColumnarBuilder OPT_NUM_OPTIMAL (number_column 10 0) ''n'')
           of Value b \<Rightarrow> False | _ \<Rightarrow> True)" by code_simp
    with that show ?thesis by (auto split: outcome.splits)
  qed
  have e: "cv_dtype (number_cell i s) = SQLT_NUM" "buf_text (cv_buf (number_cell i s)) = s" "ve_number value_env0 = OPT_NUM_OPTIMAL" for i s
    by (simp_all add: number_cell_def value_env0_def)
  have "canonical_number value_env0 (number_cell 0 ''5'')" unfolding canonical_number_def e by (simp flip: t(1)) blast
  moreover have "canonical_number value_env0 (number_cell 0 ''-7'')" unfolding canonical_number_def e by (simp flip: t(2)) blast
  moreover have "canonical_number value_env0 (number_cell (- 1) [])" "canonical_number value_env0 (number_cell 0 ''1.5'')"
    unfolding canonical_number_def e by (simp_all add: t(3,4))
  ultimately have "canonical_number value_env0 c" if "c \<in> set ?cells" for c using that by auto
  note canon = this
  have meta: "cb_precision (number_column 10 0) = 10" "cb_scale (number_column 10 0) = 0" by code_simp+
  have "map Value (column_data_items (builder_finish b)) =
      map (cell_item value_env0 (columnar_kind_of OPT_NUM_OPTIMAL (cb_dtype (number_column 10 0))
             (cb_precision (number_column 10 0)) (cb_scale (number_column 10 0)))
           (cb_precision (number_column 10 0)) (cb_scale (number_column 10 0))) ?cells"
    by (rule columnar_column_values [OF b]) (rule canon)
  also have "\<dots> = [Value (ItemInt 5), Value ItemNull, Value (ItemValue (QNumber ''1.5'')), Value (ItemInt (- 7))]"
    unfolding k unfolding meta by (rule v)
  finally have "map Value (column_data_items (builder_finish b)) =
      [Value (ItemInt 5), Value ItemNull, Value (ItemValue (QNumber ''1.5'')), Value (ItemInt (- 7))]" .
  with b show ?thesis by (intro exI [of _ b] conjI)
qed

text \<open>Bits of a validity bitmap.  Writing a run of bits into a bitmap that covers them
  changes exactly these positions and reads back what was written.\<close>

theorem bitmap_write_read:
  assumes "i + length vs \<le> 8 * length m" and "j < 8 * length m"
  shows "oracle_columnar_is_valid (bitmap.write_all m i vs) j
           = (if i \<le> j \<and> j < i + length vs then vs ! (j - i) else oracle_columnar_is_valid m j)"
  by (rule bitmap.write_all_get [OF assms])

theorem bitmap_write_read_witness:
  "oracle_columnar_is_valid (bitmap.write_all [0xff, 0xff] 6 [False, True, False, True]) 8 = False"
  using bitmap_write_read [of 6 "[False, True, False, True]" "[0xff, 0xff]" 8] by simp

text \<open>The names of columnar columns need not be distinct: a third column can have the name
  the second one was given, and the two collide in the result.\<close>

theorem columnar_names_collide:
  "columnar_names [''a'', ''a'', ''a_1''] (\<lambda>_. 0) = [''a'', ''a_1'', ''a_1'']"
  by (simp add: oracle_columnar_unique_name_def show_nat_small digit_char_def char_of_def bit_simps)

end
