(* ===== verification/BindContracts.thy ===== *)
theory BindContracts
  imports BindValue Columnar
begin

text \<open>
  What binding a single value promises: the buffer at the position stands for the value, the
  resources acquired on the way are released when the node is reset, and how a bound node is
  read back.
\<close>

section \<open>A single value is what the server is given\<close>

text \<open>What is bound at the positions after a sequence of calls.\<close>

definition bind_call_pos :: "(nat \<rightharpoonup> bound_data \<times> int \<times> sqlt) \<Rightarrow> bind_call \<Rightarrow> (nat \<rightharpoonup> bound_data \<times> int \<times> sqlt)" where
  "bind_call_pos m c = (case c of BindByPos p d sz t \<Rightarrow> m(p \<mapsto> (d, sz, t)) | _ \<Rightarrow> m)"

definition server_binds :: "bind_call list \<Rightarrow> (nat \<rightharpoonup> bound_data \<times> int \<times> sqlt)" where
  "server_binds cs = foldl bind_call_pos Map.empty cs"

lemma server_binds_append [simp]: "server_binds (cs @ ds) = foldl bind_call_pos (server_binds cs) ds"
  by (simp add: server_binds_def)

lemma bind_call_pos_simps [simp]:
  "bind_call_pos m (BindByPos p d sz t) = m(p \<mapsto> (d, sz, t))"
  "bind_call_pos m (WriteLob h s) = m" "bind_call_pos m (DateTimeConstruct h x) = m"
  "bind_call_pos m (BindDynamic p) = m" "bind_call_pos m (BindDynamicOut p) = m"
  "bind_call_pos m (BindAllocDescriptor r) = m" "bind_call_pos m (CreateTemporaryLob b) = m"
  "bind_call_pos m BindObject = m" "bind_call_pos m (BindObjectValue hh) = m" "bind_call_pos m (BindCollectionValue hh) = m"
  by (simp_all add: bind_call_pos_def)

definition value_bound :: "bind_env \<Rightarrow> nat \<Rightarrow> qval \<Rightarrow> bool \<Rightarrow> bind_node \<Rightarrow> bind_world \<Rightarrow> bool" where
  "value_bound env pos v in_only n w \<longleftrightarrow> bn_bound n
     \<and> (\<exists>d sz t. server_binds (bw_calls w) pos = Some (d, sz, t) \<and> bound_value env (bw_calls w) d v
          \<and> (case d of BoundText s \<Rightarrow> in_only \<longrightarrow> sz = int (length s) + 1 | _ \<Rightarrow> True))"

lemma value_boundI:
  assumes "bind_by_pos env pos d sz t n w = (n', w')" "bw_sink w' = []"
    "bound_value env (bw_calls w @ [BindByPos pos d sz t]) d v"
    "\<And>s. d = BoundText s \<Longrightarrow> in_only \<Longrightarrow> sz = int (length s) + 1"
  shows "value_bound env pos v in_only n' w'"
  using bind_by_pos_ok [OF assms(1,2)] assms(3,4) by (auto simp: value_bound_def split: bound_data.split)

lemma bind_lob_denotes:
  assumes "bind_lob env pos t s n w = (n', w')" "bw_sink w' = []"
    "v = QBinary s \<or> qtype_of v = NT_STRING \<and> element_text env v = Value s"
  shows "value_bound env pos v in_only n' w'"
proof -
  obtain ok1 w1 where c1: "bcall env (BindAllocDescriptor LobDescriptor) w = (ok1, w1)" by fastforce
  obtain ok2 w2 where c2: "bcall env (CreateTemporaryLob (t = SQLT_BLOB)) w1 = (ok2, w2)" by fastforce
  obtain ok3 w3 where c3: "bcall env (WriteLob (bhandle w) s) w2 = (ok3, w3)" by fastforce
  have o: "ok1" "ok2" "ok3" using assms c1 c2 c3
    by (auto simp: bind_lob_def Let_def dest: bcall_sink split: if_splits)
  with assms c1 c2 c3 have b: "bind_by_pos env pos (BoundHandle (bhandle w)) 0 t
      (n\<lparr>bn_strlob := bhandle w, bn_lob_allocated := True\<rparr>) w3 = (n', w')"
    by (simp add: bind_lob_def Let_def)
  have "bw_calls w3 = bw_calls w2 @ [WriteLob (bhandle w) s]" using bcall_ok c3 o by auto
  with assms(3) show ?thesis by (intro value_boundI [OF b assms(2)]) (auto simp: bound_value_def)
qed

lemma bindValue_string_denotes:
  assumes "bindValue_string env pos s e in_only n w = (n', w')" "bw_sink w' = []" "conversions_return env"
  shows "value_bound env pos (QString s e) in_only n' w'"
proof -
  have et: "element_text env (QString s e) = (if e = be_encoding env then Value s else be_convert env s e (be_encoding env))"
    by (simp add: element_text_def)
  show ?thesis
    using assms element_text_defined [OF assms(3), of "QString s e"]
    by (auto simp: bindValue_string_def Let_def et split: outcome.splits if_splits
        simp: element_text_def intro!: bind_lob_denotes elim!: value_boundI) (auto simp: bound_value_def element_text_def)
qed

lemma bindValue_date_denotes:
  assumes "bindValue_date env pos d n w = (n', w')" "bw_sink w' = []"
  shows "value_bound env pos (QDate d) in_only n' w'"
proof -
  obtain ok1 n1 w1 where c1: "setupDateDescriptor env n w = (ok1, n1, w1)" by (metis prod_cases3)
  have "ok1" using assms c1
    by (auto simp: bindValue_date_def setupDateDescriptor_def Let_def dest: bcall_sink split: prod.splits if_splits)
  then have s: "n1 = bn_set_buf SQLT_TIMESTAMP_TZ (BufHandle (Suc (length (bw_calls w)))) n"
    using setupDate_handle c1 by auto
  let ?h = "Suc (length (bw_calls w))"
  obtain ok2 w2 where c2: "bcall env (DateTimeConstruct ?h d) w1 = (ok2, w2)" by fastforce
  have "ok2" using assms c1 c2 s \<open>ok1\<close> by (auto simp: bindValue_date_def dest: bcall_sink split: if_splits)
  with assms c1 c2 s \<open>ok1\<close> have b: "bind_by_pos env pos (BoundHandle ?h) 0 SQLT_TIMESTAMP_TZ n1 w2 = (n', w')"
    by (simp add: bindValue_date_def bindDate_def)
  have "bw_calls w2 = bw_calls w1 @ [DateTimeConstruct ?h d]" using bcall_ok c2 \<open>ok2\<close> by auto
  then show ?thesis by (intro value_boundI [OF b assms(2)]) (auto simp: bound_value_def)
qed

lemma bind_named_denotes:
  assumes "bind_named env pos sub c n w = (n', w')" "bw_sink w' = []" "c = BindObjectValue h \<or> c = BindCollectionValue h"
  shows "value_bound env pos (QHash h) in_only n' w'"
proof -
  obtain ok1 w1 where c: "bcall env c w = (ok1, w1)" by fastforce
  let ?n1 = "set_col (\<lambda>c. c\<lparr>cv_subdtype := sub, cv_dtype := SQLT_NTY, cv_buf := BufHandle (if ok1 then bhandle w else 0)\<rparr>) n"
  obtain n3 w3 where b: "bind_by_pos env pos BoundNamedType 0 SQLT_NTY ?n1 w1 = (n3, w3)" by fastforce
  obtain ok4 w4 where d: "bcall env BindObject w3 = (ok4, w4)" by fastforce
  have o: "ok1" using assms(1,2) c by (auto simp: bind_named_def dest: bcall_sink split: prod.splits if_splits)
  with assms(1) c b d have r: "n' = n3" "w' = w4" by (simp_all add: bind_named_def set_col_def)
  have k: "ok4" "bw_sink w3 = []" using bcall_sink [OF d] r assms(2) by simp_all
  have d': "bcall env BindObject w3 = (True, w4)" and c': "bcall env c w = (True, w1)" using d k(1) c o by simp_all
  have "bw_calls w' = bw_calls w3 @ [BindObject]" using bcall_ok(1) [OF d'] r(2) by simp
  moreover have "bw_calls w3 = bw_calls w @ [c, BindByPos pos BoundNamedType 0 SQLT_NTY]" "bn_bound n3"
    using bind_by_pos_ok(1,2) [OF b k(2)] bcall_ok(1) [OF c'] by simp_all
  ultimately show ?thesis using assms(3) r(1) by (auto simp: value_bound_def bound_value_def)
qed

lemma bindValue_hash_denotes:
  assumes "bindValue_hash env pos h n w = (n', w')" "bw_sink w' = []"
  shows "value_bound env pos (QHash h) in_only n' w'"
  using assms
  by (auto simp: bindValue_hash_def Let_def split: if_splits qval.splits intro: bind_named_denotes)

lemma single_value_bound:
  assumes "be_array_size env = 0" "bindValue env pos v in_only n w = (n', w')" "bw_sink w' = []"
    "conversions_return env"
  shows "value_bound env pos v in_only n' w'"
proof (cases v)
  case (QInt i)
  have "c_int i = i" if "i \<le> MAXINT32" "i \<ge> - MAXINT32"
    using that by (simp add: c_int_def MAXINT32_def int_word_sint)
  with assms QInt show ?thesis
    by (auto simp: bindValue_def bindValue_int_def Let_def split: if_splits elim!: value_boundI)
      (auto simp: bound_value_def element_text_def)
next
  case (QString s e)
  with assms show ?thesis by (simp add: bindValue_def bindValue_string_denotes)
next
  case (QDate d)
  with assms show ?thesis by (simp add: bindValue_def bindValue_date_denotes)
next
  case (QHash h)
  with assms show ?thesis by (simp add: bindValue_def bindValue_hash_denotes)
next
  case (QBinary b)
  with assms show ?thesis
    by (auto simp: bindValue_def bindValue_binary_def Let_def split: if_splits intro!: bind_lob_denotes elim!: value_boundI)
      (auto simp: bound_value_def)
qed (use assms in \<open>auto simp: bindValue_def Let_def bound_value_def element_text_def split: if_splits elim!: value_boundI\<close>)


section \<open>What a bind acquires\<close>

text \<open>
  The handles obtained by the calls that succeeded, and the temporary LOBs made with them: the
  handle of the call number \<open>k\<close> is \<open>Suc k\<close>, and a temporary LOB is made on the handle before.
\<close>

definition call_acquires :: "nat \<Rightarrow> bind_call \<Rightarrow> (resource \<times> nat) list" where
  "call_acquires k c =
     (case c of
        BindAllocDescriptor r \<Rightarrow> [(r, Suc k)]
      | BindAllocStatement \<Rightarrow> [(StatementHandle, Suc k)]
      | BindObjectValue h \<Rightarrow> [(ObjectValue, Suc k)]
      | BindCollectionValue h \<Rightarrow> [(CollectionValue, Suc k)]
      | BindObjectPlaceholder s \<Rightarrow> [(ObjectValue, Suc k)]
      | BindCollectionPlaceholder s \<Rightarrow> [(CollectionValue, Suc k)]
      | _ \<Rightarrow> [])"

definition call_temporary :: "nat \<Rightarrow> bind_call \<Rightarrow> nat list" where
  "call_temporary k c = (case c of CreateTemporaryLob b \<Rightarrow> [k] | _ \<Rightarrow> [])"

definition acquired :: "bind_env \<Rightarrow> bind_call list \<Rightarrow> (resource \<times> nat) list" where
  "acquired env cs = concat (map (\<lambda>(k, c). if be_answer env k c = None then call_acquires k c else []) (enumerate 0 cs))"

definition temporary_lobs :: "bind_env \<Rightarrow> bind_call list \<Rightarrow> nat list" where
  "temporary_lobs env cs = concat (map (\<lambda>(k, c). if be_answer env k c = None then call_temporary k c else []) (enumerate 0 cs))"

lemma bind_acquired_append [simp]:
  "acquired env (cs @ [c]) = acquired env cs @ (if be_answer env (length cs) c = None then call_acquires (length cs) c else [])"
  by (simp add: acquired_def enumerate_append_eq)

lemma temporary_append [simp]:
  "temporary_lobs env (cs @ [c]) =
     temporary_lobs env cs @ (if be_answer env (length cs) c = None then call_temporary (length cs) c else [])"
  by (simp add: temporary_lobs_def enumerate_append_eq)

lemma bcall_effects:
  assumes "bcall env c w = (ok, w')"
  shows "acquired env (bw_calls w') = acquired env (bw_calls w) @ (if ok then call_acquires (length (bw_calls w)) c else [])"
    "temporary_lobs env (bw_calls w') =
       temporary_lobs env (bw_calls w) @ (if ok then call_temporary (length (bw_calls w)) c else [])"
    "length (bw_calls w') = Suc (length (bw_calls w))" "bw_freed w' = bw_freed w"
    "set (bw_calls w') = insert c (set (bw_calls w))"
  using assms by (auto simp: bcall_def split: option.splits)

text \<open>Everything acquired since a state of the world has been released.\<close>

definition released_since :: "bind_env \<Rightarrow> bind_world \<Rightarrow> bind_world \<Rightarrow> bool" where
  "released_since env w0 w \<longleftrightarrow>
     set (acquired env (bw_calls w)) \<subseteq> set (acquired env (bw_calls w0)) \<union> set (bw_freed w)
     \<and> (\<not> be_lost env \<longrightarrow> (\<forall>h \<in> set (temporary_lobs env (bw_calls w)) - set (temporary_lobs env (bw_calls w0)).
          FreeTemporaryLob h \<in> set (bw_calls w)))"

text \<open>A node that holds nothing: no array data, no LOB, no handle in its buffer.\<close>

definition holds_nothing :: "bind_node \<Rightarrow> bool" where
  "holds_nothing n \<longleftrightarrow> \<not> cv_array (bn_col n) \<and> bn_strlob n = 0 \<and> \<not> bn_lob_allocated n \<and> bn_dtype n = no_dtype
     \<and> buf_handle (cv_buf (bn_col n)) = 0"

lemma bind_by_pos_effects:
  assumes "bind_by_pos env pos d sz t n w = (n', w')"
  shows "acquired env (bw_calls w') = acquired env (bw_calls w)"
    "temporary_lobs env (bw_calls w') = temporary_lobs env (bw_calls w)"
    "bw_freed w' = bw_freed w" "bn_col n' = bn_col n" "bn_strlob n' = bn_strlob n"
    "bn_lob_allocated n' = bn_lob_allocated n" "set (bw_calls w) \<subseteq> set (bw_calls w')"
  using assms
  by (auto simp: bind_by_pos_def call_acquires_def call_temporary_def bcall_def split: option.splits)

definition node_handles :: "bind_node \<Rightarrow> (resource \<times> nat) list" where
  "node_handles n =
     (let h = buf_handle (cv_buf (bn_col n))
      in if bn_strlob n \<noteq> 0 then [(LobDescriptor, bn_strlob n)]
         else if h = 0 then []
         else if bn_dtype n = SQLT_TIMESTAMP_TZ then [(TimestampDescriptor, h)]
         else if bn_dtype n = SQLT_NTY
         then [(if cv_subdtype (bn_col n) = NTY_OBJECT then ObjectValue else CollectionValue, h)]
         else [])"

definition node_temps :: "bind_node \<Rightarrow> nat list" where
  "node_temps n = (if bn_strlob n \<noteq> 0 \<and> bn_lob_allocated n then [bn_strlob n] else [])"

definition node_holds :: "bind_env \<Rightarrow> bind_world \<Rightarrow> bind_node \<Rightarrow> bind_world \<Rightarrow> bool" where
  "node_holds env w0 n w \<longleftrightarrow> \<not> cv_array (bn_col n) \<and> (bn_strlob n \<noteq> 0 \<longrightarrow> bn_dtype n \<noteq> no_dtype)
     \<and> acquired env (bw_calls w) = acquired env (bw_calls w0) @ node_handles n
     \<and> temporary_lobs env (bw_calls w) = temporary_lobs env (bw_calls w0) @ node_temps n"

lemma resetValue_releases:
  assumes "node_holds env w0 n w" "resetValue env n w = (n', w')"
  shows "released_since env w0 w'"
  using assms
  by (auto simp: resetValue_def node_holds_def released_since_def Let_def bfree_def set_data_def set_col_def
      freeObject_def bcall_def call_acquires_def call_temporary_def node_handles_def node_temps_def
      split: if_splits option.splits)

lemmas acquire_simps = call_acquires_def call_temporary_def bn_set_buf_def set_col_def save_tmp_def set_data_def
  bhandle_def node_handles_def node_temps_def Let_def

lemma bind_by_pos_holds:
  assumes "bind_by_pos env pos d sz t n w = (n', w')" "node_holds env w0 n w"
  shows "node_holds env w0 n' w'"
  using assms(2)
  by (simp add: node_holds_def node_handles_def node_temps_def bind_by_pos_effects [OF assms(1)] cong: if_cong)

lemma bind_lob_holds:
  assumes "bind_lob env pos t s n w = (n', w')" "bn_strlob n = 0" "\<not> bn_lob_allocated n" "bn_dtype n = t"
    "t \<in> {SQLT_CLOB, SQLT_BLOB}" "\<not> cv_array (bn_col n)"
  shows "node_holds env w n' w'"
proof -
  obtain ok1 w1 where c1: "bcall env (BindAllocDescriptor LobDescriptor) w = (ok1, w1)" by fastforce
  obtain ok2 w2 where c2: "bcall env (CreateTemporaryLob (t = SQLT_BLOB)) w1 = (ok2, w2)" by fastforce
  obtain ok3 w3 where c3: "bcall env (WriteLob (bhandle w) s) w2 = (ok3, w3)" by fastforce
  have t: "t \<noteq> no_dtype" "t \<noteq> SQLT_TIMESTAMP_TZ" "t \<noteq> SQLT_NTY" using assms(5) by auto
  note e = bcall_effects [OF c1] bcall_effects [OF c2] bcall_effects [OF c3]
  let ?n2 = "n\<lparr>bn_strlob := bhandle w, bn_lob_allocated := True\<rparr>"
  have "node_holds env w ?n2 w3" if "ok1" "ok2"
    using e that assms(2-4,6) t by (simp add: node_holds_def acquire_simps)
  moreover have "node_holds env w (n\<lparr>bn_strlob := bhandle w\<rparr>) w2" if "ok1" "\<not> ok2"
    using e that assms(2-4,6) t by (simp add: node_holds_def acquire_simps)
  moreover have "node_holds env w n w1" if "\<not> ok1"
    using e that assms(2-4,6) t by (simp add: node_holds_def acquire_simps)
  ultimately show ?thesis
    using assms(1) c1 c2 c3 bind_by_pos_holds
    by (cases ok1; cases ok2; cases ok3) (auto simp: bind_lob_def Let_def split: if_splits)
qed

lemma bind_plain_holds:
  assumes "bind_by_pos env pos d sz t n w = (n', w')" "\<not> cv_array (bn_col n)" "bn_strlob n = 0" "node_handles n = []"
  shows "node_holds env w n' w'"
  by (rule bind_by_pos_holds [OF assms(1)]) (use assms(2-) in \<open>simp add: node_holds_def node_temps_def\<close>)

lemma bindValue_date_holds:
  assumes "bindValue_date env pos d n w = (n', w')" "holds_nothing n"
  shows "node_holds env w n' w'"
proof -
  obtain ok1 w1 where c1: "bcall env (BindAllocDescriptor TimestampDescriptor) w = (ok1, w1)" by fastforce
  let ?n = "\<lambda>h. bn_set_buf SQLT_TIMESTAMP_TZ (BufHandle h) n"
  obtain ok2 w2 where c2: "bcall env (DateTimeConstruct (bhandle w) d) w1 = (ok2, w2)" by fastforce
  note e = bcall_effects [OF c1] bcall_effects [OF c2]
  have "node_holds env w (?n 0) w1" if "\<not> ok1"
    using e that assms(2) by (simp add: node_holds_def holds_nothing_def acquire_simps)
  moreover have "node_holds env w (?n (bhandle w)) w2" if "ok1"
    using e that assms(2) by (simp add: node_holds_def holds_nothing_def acquire_simps)
  ultimately show ?thesis
    using assms(1) c1 c2 bind_by_pos_holds
    by (cases ok1; cases ok2)
      (auto simp: bindValue_date_def setupDateDescriptor_def bindDate_def split: if_splits)
qed

lemma bind_named_holds:
  assumes "bcall env c w = (ok1, w1)" "call_acquires k c = [(if sub = NTY_OBJECT then ObjectValue else CollectionValue, Suc k)]"
    "call_temporary k c = []" "k = length (bw_calls w)"
    "n1 = set_col (\<lambda>c. c\<lparr>cv_subdtype := sub, cv_dtype := SQLT_NTY, cv_buf := BufHandle (if ok1 then bhandle w else 0)\<rparr>) n"
    "holds_nothing n"
  shows "node_holds env w n1 w1"
  using bcall_effects [OF assms(1)] assms(2-)
  by (simp add: node_holds_def holds_nothing_def node_handles_def node_temps_def set_col_def bhandle_def)

lemma node_holds_call:
  assumes "bcall env BindObject w = (ok, w')" "node_holds env w0 n w"
  shows "node_holds env w0 n w'"
  using bcall_effects [OF assms(1)] assms(2) by (simp add: node_holds_def call_acquires_def call_temporary_def)

lemma bind_named_holds':
  assumes "bind_named env pos sub c n w = (n', w')" "holds_nothing n"
    "(c = BindObjectValue h \<and> sub = NTY_OBJECT) \<or> (c = BindCollectionValue h \<and> sub = NTY_COLLECTION)"
  shows "node_holds env w n' w'"
proof -
  obtain ok1 w1 where c: "bcall env c w = (ok1, w1)" by fastforce
  let ?n1 = "set_col (\<lambda>c. c\<lparr>cv_subdtype := sub, cv_dtype := SQLT_NTY, cv_buf := BufHandle (if ok1 then bhandle w else 0)\<rparr>) n"
  have h: "node_holds env w ?n1 w1"
    using assms(3) by (intro bind_named_holds [OF c _ _ refl refl assms(2)]) (auto simp: call_acquires_def call_temporary_def)
  show ?thesis
  proof (cases ok1)
    case False
    with assms(1) c h show ?thesis by (simp add: bind_named_def set_col_def)
  next
    case True
    obtain n3 w3 where b: "bind_by_pos env pos BoundNamedType 0 SQLT_NTY ?n1 w1 = (n3, w3)" by fastforce
    obtain ok4 w4 where d: "bcall env BindObject w3 = (ok4, w4)" by fastforce
    from assms(1) c b d True have "n' = n3" "w' = w4" by (simp_all add: bind_named_def set_col_def)
    with node_holds_call [OF d bind_by_pos_holds [OF b h]] show ?thesis by simp
  qed
qed

lemma bindValue_hash_holds:
  assumes "bindValue_hash env pos h n w = (n', w')" "holds_nothing n"
  shows "node_holds env w n' w'"
proof -
  have "node_holds env w n (w\<lparr>bw_sink := x\<rparr>)" for x
    using assms(2) by (simp add: node_holds_def holds_nothing_def node_handles_def node_temps_def)
  with assms show ?thesis
    by (auto simp: bindValue_hash_def Let_def split: if_splits qval.splits intro: bind_named_holds')
qed

lemma holds_nothing_ind: "holds_nothing (set_col (\<lambda>c. c\<lparr>cv_ind := i\<rparr>) n) = holds_nothing n"
  by (simp add: holds_nothing_def set_col_def)

lemma bind_value_holds:
  assumes "be_array_size env = 0" "bindValue env pos v in_only n w = (n', w')" "holds_nothing n"
  shows "node_holds env w n' w'"
proof -
  let ?n = "set_col (\<lambda>c. c\<lparr>cv_ind := 0\<rparr>) n"
  have n: "holds_nothing ?n" using assms(3) by (simp add: holds_nothing_ind)
  then have r: "node_holds env w ?n (w\<lparr>bw_sink := x\<rparr>)" "node_holds env w ?n w" for x
    by (simp_all add: node_holds_def holds_nothing_def node_handles_def node_temps_def)
  show ?thesis
    using assms(1,2) n r
    apply (cases v)
    apply (auto simp: bindValue_def bindValue_string_def bindValue_binary_def bindValue_int_def Let_def
        split: if_splits outcome.splits
        elim!: bind_plain_holds bind_lob_holds bindValue_date_holds bindValue_hash_holds)
    apply (auto simp: holds_nothing_def acquire_simps)
    done
qed

text \<open>C33: What binding a single value acquires - a descriptor, a temporary LOB with its
  descriptor, an instance of a named type - is released when the node's value is reset,
  whichever of the calls on the way failed.
\<close>

theorem bind_value_released:
  assumes "be_array_size env = 0" "holds_nothing n" "bindValue env pos v in_only n w = (n', w')"
    "resetValue env n' w' = (n'', w'')"
  shows "released_since env w w''"
  by (rule resetValue_releases [OF bind_value_holds [OF assms(1,3,2)] assms(4)])

lemma acquired_mono: "extends pos w w' \<Longrightarrow> set (acquired env (bw_calls w)) \<subseteq> set (acquired env (bw_calls w'))"
  by (auto simp: extends_def acquired_def enumerate_append_eq)

lemma array_lobs_acquire:
  "array_lobs env blob l w = (True, hs, as, is, w') \<Longrightarrow> bw_freed w' = bw_freed w
     \<and> (list_ex (\<lambda>v. \<not> is_null v) l \<longrightarrow> (\<exists>h. (LobDescriptor, h) \<in> set (acquired env (bw_calls w'))))"
proof (induction l arbitrary: w hs as "is")
  case Nil
  then show ?case by simp
next
  case (Cons v vs)
  show ?case
  proof (cases "is_null v")
    case True
    with Cons show ?thesis by (auto simp: Let_def split: prod.splits)
  next
    case False
    with Cons.prems obtain w1 w2 w3 s where
      c: "bcall env (BindAllocDescriptor LobDescriptor) w = (True, w1)" "bcall env (CreateTemporaryLob blob) w1 = (True, w2)"
         "bcall env (WriteLob (bhandle w) s) w2 = (True, w3)"
      and r: "\<exists>hs' as' is'. array_lobs env blob vs w3 = (True, hs', as', is', w')"
      by (auto simp: Let_def split: prod.splits if_splits outcome.splits)
    from r obtain hs' as' is' where r': "array_lobs env blob vs w3 = (True, hs', as', is', w')" by auto
    have "(LobDescriptor, Suc (length (bw_calls w))) \<in> set (acquired env (bw_calls w3))"
      using bcall_effects(1) [OF c(1)] bcall_effects(1) [OF c(2)] bcall_effects(1) [OF c(3)]
      by (simp add: call_acquires_def)
    moreover have "extends 0 w3 w'" using array_lobs_elements [OF r'] by blast
    ultimately have "\<exists>h. (LobDescriptor, h) \<in> set (acquired env (bw_calls w'))"
      using acquired_mono by blast
    with Cons.IH [OF r'] bcall_ok(3) c show ?thesis by auto
  qed
qed

text \<open>C34: The LOBs of an array bind are never released: after a list whose first element is a
  binary is bound to a fresh node without an error, resetting the value frees the array data
  object only, so LOB descriptors acquired for the elements stay allocated.
\<close>

theorem array_lobs_not_released:
  assumes "be_array_size env > 0" "l = QBinary b # vs" "bindValue env pos (QList l) in_only n bind_world_init = (n', w')"
    "bw_sink w' = []" "resetValue env n' w' = (n'', w'')"
  shows "bw_freed w'' = [(ArrayBindData, 0)] \<and> \<not> released_since env bind_world_init w''"
proof -
  let ?m = "set_col (\<lambda>c. c\<lparr>cv_array := True, cv_buf := BufArray 0\<rparr>)
    (set_col (\<lambda>c. c\<lparr>cv_ind := 0\<rparr>) n\<lparr>bn_array := None\<rparr>)"
  let ?a = "\<lparr>ab_list = Some l, ab_inds = [], ab_data = ArrayLob True [] []\<rparr>"
  have a: "make_array env (QList l) = Value ?a" using assms(2) by (simp add: make_array_def list_array_def)
  obtain ok n1 w1 where s: "setupBind env pos ?a ?m bind_world_init = (ok, n1, w1)" by (metis prod_cases3)
  obtain ok0 hs as "is" w0 where r: "array_lobs env True l bind_world_init = (ok0, hs, as, is, w0)" by (metis prod_cases5)
  obtain ok2 w2 where d: "bcall env (BindDynamic pos) w1 = (ok2, w2)" by fastforce
  have e: "n' = n1" "w' = (if ok then w2 else w1)"
    using assms(1,3) a s d by (simp_all add: bindValue_def bindListValue_def split: if_splits)
  have s1: "bw_sink w1 = []" using e assms(4) bcall_sink [OF d] by (auto split: if_splits)
  have un: "qtype_of v = NT_BINARY \<Longrightarrow> lob_data env True v \<noteq> Undefined" for v
    by (cases v) (simp_all add: lob_data_def)
  have o: "ok0"
  proof (rule ccontr)
    assume n: "\<not> ok0"
    with s r have "w1 = w0" by (simp add: setupBind_defs)
    with s1 n array_lobs_elements [OF r] un show False by auto
  qed
  let ?a1 = "\<lparr>ab_list = Some l, ab_inds = is, ab_data = ArrayLob True hs as\<rparr>"
  from s r o have b: "bind_at_exec env pos 8 SQLT_BLOB ?a1 ?m w0 = (ok, n1, w1)" by (simp add: setupBind_defs)
  from bind_at_exec_ok [OF this s1] have k: "ok" "bw_calls w1 = bw_calls w0 @ [BindByPos pos BoundDynamic 8 SQLT_BLOB]"
    by auto
  have "bw_freed w1 = bw_freed w0" "cv_array (bn_col n1)" "bn_dtype n1 = SQLT_BLOB" "bn_array n1 = Some ?a1"
    using b s1 by (auto simp: bind_at_exec_def bind_by_pos_def bcall_def set_col_def split: option.splits)
  moreover have "bw_freed w2 = bw_freed w1" "acquired env (bw_calls w2) = acquired env (bw_calls w1)"
    using bcall_effects [OF d] by (simp_all add: call_acquires_def)
  moreover have "acquired env (bw_calls w1) = acquired env (bw_calls w0)"
    using k(2) by (simp add: call_acquires_def)
  moreover have "bw_freed w0 = []" "\<exists>h. (LobDescriptor, h) \<in> set (acquired env (bw_calls w0))"
    using array_lobs_acquire [OF r [unfolded eqTrueI [OF o]]] by (simp_all add: assms(2) bind_world_init_def)
  ultimately have r1: "cv_array (bn_col n')" "bn_dtype n' \<noteq> no_dtype" "bn_array n' = Some ?a1" "bw_freed w' = []"
      "\<exists>h. (LobDescriptor, h) \<in> set (acquired env (bw_calls w'))"
    using e k(1) by auto
  from r1(1-4) assms(5) have "bw_freed w'' = [(ArrayBindData, 0)]" "bw_calls w'' = bw_calls w'"
    by (auto simp: resetValue_def delete_array_def array_data_delete_def set_data_def set_col_def bfree_def)
  moreover have "acquired env (bw_calls bind_world_init) = []" by (simp add: bind_world_init_def acquired_def)
  ultimately show ?thesis using r1(5) by (auto simp: released_since_def)
qed

definition bind_inout_int :: "bind_env \<Rightarrow> nat \<Rightarrow> string \<Rightarrow> int \<Rightarrow> bind_step" where
  "bind_inout_int env pos name i =
     node_bind env pos (placeholder_node name (- 1) (Some ''integer'') (QInt i)) bind_world_init"

definition node_getValue :: "value_env \<Rightarrow> bool \<Rightarrow> bind_node \<Rightarrow> qval outcome \<times> bind_node" where
  "node_getValue env horizontal n =
     (if cv_array (bn_col n) then
        (Value (case bn_array n of None \<Rightarrow> QNothing | Some a \<Rightarrow> getOutputValue (ve_number env) (ve_encoding env) a), n)
      else if bn_indicator n \<noteq> 0 then (Value QNull, n)
      else let (v, c) = getValue env horizontal True (bn_col n) in (v, n\<lparr>bn_col := c\<rparr>))"

lemma isType_placeholder [simp]: "isType t (placeholder_node n sz (Some t') v) \<longleftrightarrow> t = t'"
  by (auto simp: isType_def placeholder_node_def)

text \<open>C35: An integer bound to an in/out parameter comes back as that integer when it fits 32 bits;
  one that does not is bound from a private text, and the buffer the value is later read from
  keeps what it held before.
\<close>

theorem inout_integers:
  assumes "be_array_size env = 0" "be_to_int env (QInt i) = i" "bind_inout_int env pos name i = (n', w')" "bw_sink w' = []"
  shows "if \<bar>i\<bar> \<le> MAXINT32
    then fst (node_getValue venv horizontal n') = Value (QInt i) \<and> server_binds (bw_calls w') pos = Some (BoundInt i, 8, SQLT_INT)
    else cv_dtype (bn_col n') = SQLT_STR \<and> cv_buf (bn_col n') = BufNone
      \<and> server_binds (bw_calls w') pos = Some (BoundText (show_int i), int (length (show_int i)) + 1, SQLT_STR)"
proof -
  let ?n = "placeholder_node name (- 1) (Some ''integer'') (QInt i)"
  have v: "\<not> isValue ?n" "bn_value ?n = QInt i" by (simp_all add: placeholder_node_def isValue_def)
  have b: "bindValue_int env pos i (set_col (\<lambda>c. c\<lparr>cv_ind := 0\<rparr>) ?n) bind_world_init = (n', w')"
    using assms v by (simp add: bind_inout_int_def node_bind_def bindValue_def Let_def)
  have i: "c_int i = i" if "\<bar>i\<bar> \<le> MAXINT32"
    using that by (simp add: c_int_def MAXINT32_def int_word_sint)
  show ?thesis
  proof (cases "\<bar>i\<bar> \<le> MAXINT32")
    case True
    with b i have "bind_by_pos env pos (BoundInt i) 8 SQLT_INT
        (bn_set_buf SQLT_INT (BufI8 i) (set_col (\<lambda>c. c\<lparr>cv_ind := 0\<rparr>) ?n)) bind_world_init = (n', w')"
      by (auto simp: bindValue_int_def Let_def split: if_splits)
    from bind_by_pos_ok [OF this assms(4)] True show ?thesis
      by (simp add: node_getValue_def getValue_def bn_set_buf_def set_col_def placeholder_node_def ora_column_init_def
          is_int_type_def)
  next
    case False
    with b have "bind_by_pos env pos (BoundText (show_int i)) (int (length (show_int i)) + 1) SQLT_STR
        (set_col (\<lambda>c. c\<lparr>cv_dtype := SQLT_STR\<rparr>)
           (save_tmp (OBT_STR (show_int i)) (set_col (\<lambda>c. c\<lparr>cv_ind := 0\<rparr>) ?n))) bind_world_init = (n', w')"
      by (auto simp: bindValue_int_def Let_def split: if_splits)
    from bind_by_pos_ok [OF this assms(4)] False show ?thesis
      by (simp add: save_tmp_def set_data_def set_col_def placeholder_node_def ora_column_init_def)
  qed
qed

section \<open>Samples\<close>

definition bind_env0 :: "nat \<Rightarrow> bind_env" where
  "bind_env0 k = \<lparr>be_encoding = ''UTF-8'', be_convert = (\<lambda>s e t. Value s), be_to_string = (\<lambda>v. ([], ''UTF-8'')),
     be_type_name = (\<lambda>v. ''string''), be_to_int = (\<lambda>v. case v of QInt i \<Rightarrow> i | _ \<Rightarrow> 0), be_to_float = (\<lambda>v. 0),
     be_to_date = (\<lambda>v. AbsDate LocalZone \<lparr>d_year = 1970, d_month = 1, d_day = 1, d_hour = 0, d_minute = 0, d_second = 0, d_us = 0\<rparr>),
     be_capacity = (\<lambda>s n. n), be_default_str_len = 512, be_lost = False, be_array_size = k,
     be_answer = (\<lambda>k c. None)\<rparr>"

lemma bind_env0_returns: "conversions_return (bind_env0 k)"
  by (simp add: conversions_return_def bind_env0_def)

lemma sample_array_bind:
  "bw_sink (snd (bindValue (bind_env0 2) 1 (QList [QString ''ab'' ''UTF-8'', QNull]) True (value_node QNothing) bind_world_init)) = []"
  by code_simp


lemma sample_bind_value:
  "bw_sink (snd (bindValue (bind_env0 0) 1 (QString ''ab'' ''UTF-8'') True (value_node QNothing) bind_world_init)) = []"
  by code_simp


definition sample_date :: qdate where
  "sample_date = AbsDate LocalZone \<lparr>d_year = 2024, d_month = 2, d_day = 29, d_hour = 0, d_minute = 0, d_second = 0, d_us = 0\<rparr>"

lemma bind_value_released_witness:
  "let (n', w') = bindValue (bind_env0 0) 1 (QDate sample_date) True (value_node QNothing) bind_world_init
   in released_since (bind_env0 0) bind_world_init (snd (resetValue (bind_env0 0) n' w'))"
proof -
  have "holds_nothing (value_node QNothing)"
    by (simp add: holds_nothing_def value_node_def ora_column_init_def)
  then show ?thesis
    using bind_value_released [of "bind_env0 0" "value_node QNothing" 1 "QDate sample_date" True bind_world_init,
        OF _ _ prod.collapse [symmetric] prod.collapse [symmetric]]
    by (simp add: bind_env0_def split_beta)
qed

lemma sample_lob_bind:
  "bw_sink (snd (bindValue (bind_env0 1) 1 (QList [QBinary ''x'']) True (value_node QNothing) bind_world_init)) = []"
  by code_simp

lemma array_lobs_not_released_witness:
  "let (n', w') = bindValue (bind_env0 1) 1 (QList [QBinary ''x'']) True (value_node QNothing) bind_world_init
   in bw_freed (snd (resetValue (bind_env0 1) n' w')) = [(ArrayBindData, 0)]
     \<and> \<not> released_since (bind_env0 1) bind_world_init (snd (resetValue (bind_env0 1) n' w'))"
  using array_lobs_not_released [of "bind_env0 1" "[QBinary ''x'']" "''x''" "[]" 1 True "value_node QNothing",
      OF _ refl prod.collapse [symmetric] sample_lob_bind prod.collapse [symmetric]]
  by (simp add: bind_env0_def split_beta)

lemma sample_inout:
  "bw_sink (snd (bind_inout_int (bind_env0 0) 1 ''x'' (- 7))) = []"
  by code_simp

lemma inout_integers_witness:
  "fst (node_getValue value_env0 True (fst (bind_inout_int (bind_env0 0) 1 ''x'' (- 7)))) = Value (QInt (- 7))"
  using inout_integers [of "bind_env0 0" "- 7" 1 "''x''", OF _ _ prod.collapse [symmetric] sample_inout]
  by (simp add: bind_env0_def MAXINT32_def)

end
