(* ===== verification/ParseQuery.thy ===== *)
theory ParseQuery
  imports BindNodes
begin

text \<open>
  The query parser (\<open>QorePreparedStatement::parseQuery\<close>): one pass over the text that replaces
  the value markers, records the placeholders and leaves quoted text and comments alone.
\<close>

section \<open>The parser\<close>

text \<open>
  The text is split at the reading position: \<open>pq_pre\<close> is what lies before it, with the
  replacements made so far, \<open>pq_rest\<close> what lies at and behind it, up to the terminator.
\<close>

datatype comment = NoComment | QODC_LINE | QODC_BLOCK

record pq =
  pq_pre :: string
  pq_rest :: string
  pq_quote :: "char option"
  pq_comment :: comment
  pq_index :: nat
  pq_nodes :: "bind_node list"
  pq_has_output :: bool
  pq_world :: bind_world

text \<open>
  A step goes on, stops with the exceptions raised so far in the world, or passes the
  terminator of the text.
\<close>

datatype pq_result = Go pq | Stop pq | BehindTerminator

record parse_env =
  pe_bind :: bind_env
  pe_concat_numeric :: "qval \<Rightarrow> string"
  pe_concat_string :: "qval \<Rightarrow> exn + string"

definition retrieve_entry :: "qval list option \<Rightarrow> nat \<Rightarrow> qval" where
  "retrieve_entry args i = (case args of Some l \<Rightarrow> if i < length l then l ! i else QNothing | None \<Rightarrow> QNothing)"

definition pq_advance :: "nat \<Rightarrow> pq \<Rightarrow> pq" where
  "pq_advance n s = s\<lparr>pq_pre := pq_pre s @ take n (pq_rest s), pq_rest := drop n (pq_rest s)\<rparr>"

definition pq_raise :: "string \<Rightarrow> string \<Rightarrow> pq \<Rightarrow> pq_result" where
  "pq_raise code what s = Stop (s\<lparr>pq_world := braise code what (pq_world s)\<rparr>)"

text \<open>The two characters of a marker are replaced, and reading goes on behind the replacement.\<close>

definition pq_replace :: "string \<Rightarrow> pq \<Rightarrow> pq" where
  "pq_replace t s = s\<lparr>pq_pre := pq_pre s @ t, pq_rest := drop 2 (pq_rest s)\<rparr>"

definition marker_name :: "nat \<Rightarrow> string" where
  "marker_name n = '':qdodvrs___'' @ show_nat n"

definition marker_error :: string where
  "marker_error = ''invalid value specification''"

definition pq_marker :: "parse_env \<Rightarrow> qval list option \<Rightarrow> pq \<Rightarrow> pq_result" where
  "pq_marker env args s0 =
     (let v = (case args of None \<Rightarrow> QNothing | Some _ \<Rightarrow> retrieve_entry args (pq_index s0));
          s = (case args of None \<Rightarrow> s0 | Some _ \<Rightarrow> s0\<lparr>pq_index := Suc (pq_index s0)\<rparr>)
      in case tl (pq_rest s) of
           CHR ''d'' # _ \<Rightarrow> Go (pq_replace (pe_concat_numeric env v) s)
         | CHR ''s'' # _ \<Rightarrow>
             (case pe_concat_string env v of
                Inr t \<Rightarrow> Go (pq_replace t s)
              | Inl e \<Rightarrow> Stop (s\<lparr>pq_world := (pq_world s)\<lparr>bw_sink := bw_sink (pq_world s) @ [e]\<rparr>\<rparr>))
         | CHR ''v'' # r \<Rightarrow>
             if r \<noteq> [] \<and> c_isalpha (hd r) then pq_raise ''DBI-EXEC-PARSE-EXCEPTION'' marker_error s
             else Go ((pq_replace (marker_name (length (pq_nodes s))) s)\<lparr>pq_nodes := pq_nodes s @ [value_node v]\<rparr>)
         | _ \<Rightarrow> pq_raise ''DBI-EXEC-PARSE-EXCEPTION'' marker_error s)"

definition name_char :: "char \<Rightarrow> bool" where
  "name_char c \<longleftrightarrow> c_isalnum c \<or> c = CHR ''_''"

definition pq_placeholder :: "parse_env \<Rightarrow> qval list option \<Rightarrow> pq \<Rightarrow> pq_result" where
  "pq_placeholder env args s0 =
     (let s = pq_advance 1 s0
      in if pq_rest s = [] \<or> \<not> c_isalpha (hd (pq_rest s)) then Go s
         else let name = takeWhile name_char (pq_rest s);
                  s1 = pq_advance (length name) s;
                  v = (case args of None \<Rightarrow> QNothing | Some _ \<Rightarrow> retrieve_entry args (pq_index s));
                  (ok, n, w) = node_set (pe_bind env) v (placeholder_node name (- 1) None QNothing) (pq_world s);
                  s2 = s1\<lparr>pq_index := (case args of None \<Rightarrow> pq_index s | Some _ \<Rightarrow> Suc (pq_index s)),
                          pq_nodes := pq_nodes s @ [n], pq_has_output := True, pq_world := w\<rparr>
              in if ok then Go s2 else Stop s2)"

definition pq_comment_step :: "pq \<Rightarrow> pq" where
  "pq_comment_step s =
     (let c = hd (pq_rest s)
      in if pq_comment s = QODC_LINE then
           pq_advance 1 (if c = char_of (10 :: nat) \<or> c = char_of (13 :: nat) then s\<lparr>pq_comment := NoComment\<rparr> else s)
         else if c = CHR ''*'' \<and> take 1 (drop 1 (pq_rest s)) = ''/'' then pq_advance 2 (s\<lparr>pq_comment := NoComment\<rparr>)
         else pq_advance 1 s)"

text \<open>The test for a quotation mark at the end of the loop body; the character is passed in any case.\<close>

definition pq_char :: "pq \<Rightarrow> pq" where
  "pq_char s =
     (let c = hd (pq_rest s)
      in if c = CHR 0x27 \<or> c = CHR 0x22 then
           pq_advance 1 (s\<lparr>pq_quote := (case pq_quote s of None \<Rightarrow> Some c | Some q \<Rightarrow> if q = c then None else Some q)\<rparr>)
         else pq_advance 1 s)"

text \<open>
  A backslash before a colon or a per cent sign is removed; reading then goes two characters
  on, over the escaped character and the one behind it, and falls through to the test for a
  quotation mark.  The position may be the terminator, or lie behind it.
\<close>

definition pq_escape :: "pq \<Rightarrow> pq_result" where
  "pq_escape s =
     (let s1 = s\<lparr>pq_rest := tl (pq_rest s)\<rparr>
      in if length (pq_rest s1) < 2 then BehindTerminator
         else let s2 = pq_advance 2 s1
              in if pq_rest s2 = [] then BehindTerminator else Go (pq_char s2))"

definition pq_step :: "parse_env \<Rightarrow> qval list option \<Rightarrow> pq \<Rightarrow> pq_result" where
  "pq_step env args s =
     (let c = hd (pq_rest s); d = take 1 (drop 1 (pq_rest s))
      in if pq_quote s \<noteq> None then Go (pq_char s)
         else if pq_comment s \<noteq> NoComment then Go (pq_comment_step s)
         else if c = CHR ''-'' \<and> d = ''-'' then Go (pq_advance 2 (s\<lparr>pq_comment := QODC_LINE\<rparr>))
         else if c = CHR ''/'' \<and> d = ''*'' then Go (pq_advance 2 (s\<lparr>pq_comment := QODC_BLOCK\<rparr>))
         else if c = CHR ''%'' \<and> (pq_pre s = [] \<or> \<not> c_isalnum (last (pq_pre s))) then pq_marker env args s
         else if c = CHR '':'' then pq_placeholder env args s
         else if c = CHR 0x5C \<and> (d = '':'' \<or> d = ''%'') then pq_escape s
         else Go (pq_char s))"


lemma pq_advance_rest [simp]: "pq_rest (pq_advance n s) = drop n (pq_rest s)"
  by (simp add: pq_advance_def)

lemma pq_step_shorter:
  assumes "pq_rest s \<noteq> []" "pq_step env args s = Go s'"
  shows "length (pq_rest s') < length (pq_rest s)"
proof -
  obtain c r where r: "pq_rest s = c # r" using assms(1) by (cases "pq_rest s") auto
  have char: "length (pq_rest (pq_char t)) \<le> length (pq_rest t) - 1" for t
    by (simp add: pq_char_def Let_def)
  have "length (pq_rest s') < length (pq_rest s)" if "pq_marker env args s = Go s'"
    using that r by (auto simp: pq_marker_def pq_replace_def pq_raise_def Let_def
        split: list.splits char.splits bool.splits if_splits option.splits sum.splits)
  moreover have "length (pq_rest s') < length (pq_rest s)" if "pq_placeholder env args s = Go s'"
    using that r by (auto simp: pq_placeholder_def Let_def split: prod.splits if_splits option.splits)
  moreover have "length (pq_rest s') < length (pq_rest s)" if "pq_escape s = Go s'"
    using that r char [of "pq_advance 2 (s\<lparr>pq_rest := r\<rparr>)"]
    by (auto simp: pq_escape_def Let_def split: if_splits)
  ultimately show ?thesis
    using assms(2) r char [of s]
    by (auto simp: pq_step_def pq_comment_step_def Let_def split: if_splits)
qed

function pq_loop :: "parse_env \<Rightarrow> qval list option \<Rightarrow> pq \<Rightarrow> pq_result" where
  "pq_loop env args s =
     (if pq_rest s = [] then Stop s
      else case pq_step env args s of Go s' \<Rightarrow> pq_loop env args s' | res \<Rightarrow> res)"
  by pat_completeness auto
termination
  by (relation "measure (\<lambda>(env, args, s). length (pq_rest s))") (auto intro: pq_step_shorter)

declare pq_loop.simps [simp del]

definition pq_init :: "string \<Rightarrow> bind_node list \<Rightarrow> bool \<Rightarrow> pq" where
  "pq_init str nodes out = \<lparr>pq_pre = [], pq_rest = str, pq_quote = None, pq_comment = NoComment, pq_index = 0,
     pq_nodes = nodes, pq_has_output = out, pq_world = bind_world_init\<rparr>"

definition parseQuery :: "parse_env \<Rightarrow> string \<Rightarrow> qval list option \<Rightarrow> pq_result" where
  "parseQuery env str args = pq_loop env args (pq_init str [] False)"

section \<open>The words of a query\<close>

text \<open>
  A query text as a sequence of words: characters that stand for themselves, quoted text,
  comments, the three markers, named placeholders, and a colon that names nothing.
\<close>

datatype word_tok = Chr char | Quoted char string | LineComment string char | BlockComment string
  | ValueMark | NumMark | StrMark | Name string | Colon

fun tok_render :: "word_tok \<Rightarrow> string" where
  "tok_render (Chr c) = [c]"
| "tok_render (Quoted q s) = q # s @ [q]"
| "tok_render (LineComment s c) = ''--'' @ s @ [c]"
| "tok_render (BlockComment s) = ''/*'' @ s @ ''*/''"
| "tok_render ValueMark = ''%v''"
| "tok_render NumMark = ''%d''"
| "tok_render StrMark = ''%s''"
| "tok_render (Name s) = CHR '':'' # s"
| "tok_render Colon = '':''"

definition render :: "word_tok list \<Rightarrow> string" where
  "render ts = concat (map tok_render ts)"

lemma render_simps [simp]: "render [] = []" "render (t # ts) = tok_render t @ render ts"
  by (simp_all add: render_def)

fun tok_args :: "word_tok \<Rightarrow> nat" where
  "tok_args ValueMark = 1" | "tok_args NumMark = 1" | "tok_args StrMark = 1" | "tok_args (Name s) = 1" | "tok_args t = 0"

definition named_node :: "parse_env \<Rightarrow> qval \<Rightarrow> string \<Rightarrow> bool \<times> bind_node" where
  "named_node env v name =
     (let (ok, n, _) = node_set (pe_bind env) v (placeholder_node name (- 1) None QNothing) bind_world_init in (ok, n))"

text \<open>The text and the nodes a word turns into, with the arguments taken from position \<open>k\<close> on.\<close>

fun tok_text :: "parse_env \<Rightarrow> qval \<Rightarrow> nat \<Rightarrow> word_tok \<Rightarrow> string" where
  "tok_text env v n ValueMark = marker_name n"
| "tok_text env v n NumMark = pe_concat_numeric env v"
| "tok_text env v n StrMark = (case pe_concat_string env v of Inr t \<Rightarrow> t | Inl e \<Rightarrow> [])"
| "tok_text env v n t = tok_render t"

fun tok_nodes :: "parse_env \<Rightarrow> qval \<Rightarrow> word_tok \<Rightarrow> bind_node list" where
  "tok_nodes env v ValueMark = [value_node v]"
| "tok_nodes env v (Name s) = [snd (named_node env v s)]"
| "tok_nodes env v t = []"

fun parsed_text :: "parse_env \<Rightarrow> qval list \<Rightarrow> nat \<Rightarrow> nat \<Rightarrow> word_tok list \<Rightarrow> string" where
  "parsed_text env l k n [] = []"
| "parsed_text env l k n (t # ts) =
     (let v = retrieve_entry (Some l) k
      in tok_text env v n t @ parsed_text env l (k + tok_args t) (n + length (tok_nodes env v t)) ts)"

fun parsed_nodes :: "parse_env \<Rightarrow> qval list \<Rightarrow> nat \<Rightarrow> word_tok list \<Rightarrow> bind_node list" where
  "parsed_nodes env l k [] = []"
| "parsed_nodes env l k (t # ts) = tok_nodes env (retrieve_entry (Some l) k) t @ parsed_nodes env l (k + tok_args t) ts"

fun no_close :: "string \<Rightarrow> bool" where
  "no_close [] \<longleftrightarrow> True"
| "no_close (c # r) \<longleftrightarrow> \<not> (c = CHR ''*'' \<and> take 1 (r @ ''*/'') = ''/'') \<and> no_close r"

definition is_quote :: "char \<Rightarrow> bool" where
  "is_quote c \<longleftrightarrow> c = CHR 0x27 \<or> c = CHR 0x22"

definition is_newline :: "char \<Rightarrow> bool" where
  "is_newline c \<longleftrightarrow> c = char_of (10 :: nat) \<or> c = char_of (13 :: nat)"

definition marker_place :: "string \<Rightarrow> bool" where
  "marker_place pre \<longleftrightarrow> pre = [] \<or> \<not> c_isalnum (last pre)"

fun tok_ok :: "parse_env \<Rightarrow> qval \<Rightarrow> string \<Rightarrow> word_tok \<Rightarrow> string \<Rightarrow> bool" where
  "tok_ok env v pre (Chr c) rest \<longleftrightarrow> \<not> is_quote c \<and> c \<noteq> CHR '':'' \<and> (c = CHR ''-'' \<longrightarrow> take 1 rest \<noteq> ''-'')
     \<and> (c = CHR ''/'' \<longrightarrow> take 1 rest \<noteq> ''*'') \<and> (c = CHR ''%'' \<longrightarrow> \<not> marker_place pre)
     \<and> (c = CHR 0x5C \<longrightarrow> take 1 rest \<noteq> '':'' \<and> take 1 rest \<noteq> ''%'')"
| "tok_ok env v pre (Quoted q s) rest \<longleftrightarrow> is_quote q \<and> q \<notin> set s"
| "tok_ok env v pre (LineComment s c) rest \<longleftrightarrow> is_newline c \<and> list_all (\<lambda>x. \<not> is_newline x) s"
| "tok_ok env v pre (BlockComment s) rest \<longleftrightarrow> no_close s"
| "tok_ok env v pre ValueMark rest \<longleftrightarrow> marker_place pre \<and> (rest = [] \<or> \<not> c_isalpha (hd rest))"
| "tok_ok env v pre NumMark rest \<longleftrightarrow> marker_place pre"
| "tok_ok env v pre StrMark rest \<longleftrightarrow> marker_place pre \<and> (case pe_concat_string env v of Inr t \<Rightarrow> True | Inl e \<Rightarrow> False)"
| "tok_ok env v pre (Name s) rest \<longleftrightarrow> s \<noteq> [] \<and> c_isalpha (hd s) \<and> list_all name_char s
     \<and> (rest = [] \<or> \<not> name_char (hd rest)) \<and> fst (named_node env v s)"
| "tok_ok env v pre Colon rest \<longleftrightarrow> rest = [] \<or> \<not> c_isalpha (hd rest)"

text \<open>Every word can be told from its neighbours: what stands before it and what follows, up to \<open>r\<close>.\<close>

fun words_ok :: "parse_env \<Rightarrow> qval list \<Rightarrow> nat \<Rightarrow> nat \<Rightarrow> string \<Rightarrow> word_tok list \<Rightarrow> string \<Rightarrow> bool" where
  "words_ok env l k n pre [] r \<longleftrightarrow> True"
| "words_ok env l k n pre (t # ts) r \<longleftrightarrow>
     (let v = retrieve_entry (Some l) k
      in tok_ok env v pre t (render ts @ r)
         \<and> words_ok env l (k + tok_args t) (n + length (tok_nodes env v t)) (pre @ tok_text env v n t) ts r)"

lemma pq_loop_go:
  assumes "pq_rest s \<noteq> []" "pq_step env args s = Go s'"
  shows "pq_loop env args s = pq_loop env args s'"
  using assms by (subst pq_loop.simps) simp

lemma pq_loop_quoted:
  assumes "pq_rest s = t @ q # r" "pq_quote s = Some q" "q \<notin> set t" "is_quote q"
  shows "pq_loop env args s = pq_loop env args (s\<lparr>pq_pre := pq_pre s @ t @ [q], pq_rest := r, pq_quote := None\<rparr>)"
  using assms
proof (induction t arbitrary: s)
  case Nil
  then have "pq_step env args s = Go (s\<lparr>pq_pre := pq_pre s @ [q], pq_rest := r, pq_quote := None\<rparr>)"
    by (auto simp: pq_step_def pq_char_def pq_advance_def is_quote_def)
  with Nil show ?case by (subst pq_loop_go) auto
next
  case (Cons c t)
  let ?s = "s\<lparr>pq_pre := pq_pre s @ [c], pq_rest := t @ q # r\<rparr>"
  have "pq_step env args s = Go ?s"
    using Cons.prems by (auto simp: pq_step_def pq_char_def pq_advance_def Let_def)
  then have "pq_loop env args s = pq_loop env args ?s" by (rule pq_loop_go [rotated]) (use Cons.prems in simp)
  with Cons.prems Cons.IH [of ?s] show ?case by simp
qed

lemma pq_loop_line:
  assumes "pq_rest s = t @ c # r" "pq_quote s = None" "pq_comment s = QODC_LINE" "is_newline c"
    "list_all (\<lambda>x. \<not> is_newline x) t"
  shows "pq_loop env args s = pq_loop env args (s\<lparr>pq_pre := pq_pre s @ t @ [c], pq_rest := r, pq_comment := NoComment\<rparr>)"
  using assms
proof (induction t arbitrary: s)
  case Nil
  then have "pq_step env args s = Go (s\<lparr>pq_pre := pq_pre s @ [c], pq_rest := r, pq_comment := NoComment\<rparr>)"
    by (auto simp: pq_step_def pq_comment_step_def pq_advance_def is_newline_def)
  with Nil show ?case by (subst pq_loop_go) auto
next
  case (Cons d t)
  let ?s = "s\<lparr>pq_pre := pq_pre s @ [d], pq_rest := t @ c # r\<rparr>"
  have "pq_step env args s = Go ?s"
    using Cons.prems by (auto simp: pq_step_def pq_comment_step_def pq_advance_def is_newline_def Let_def)
  then have "pq_loop env args s = pq_loop env args ?s" by (rule pq_loop_go [rotated]) (use Cons.prems in simp)
  with Cons.prems Cons.IH [of ?s] show ?case by simp
qed

lemma pq_loop_block:
  assumes "pq_rest s = t @ ''*/'' @ r" "pq_quote s = None" "pq_comment s = QODC_BLOCK" "no_close t"
  shows "pq_loop env args s = pq_loop env args (s\<lparr>pq_pre := pq_pre s @ t @ ''*/'', pq_rest := r, pq_comment := NoComment\<rparr>)"
  using assms
proof (induction t arbitrary: s)
  case Nil
  then have "pq_step env args s = Go (s\<lparr>pq_pre := pq_pre s @ ''*/'', pq_rest := r, pq_comment := NoComment\<rparr>)"
    by (auto simp: pq_step_def pq_comment_step_def pq_advance_def)
  with Nil show ?case by (subst pq_loop_go) auto
next
  case (Cons d t)
  let ?s = "s\<lparr>pq_pre := pq_pre s @ [d], pq_rest := t @ ''*/'' @ r\<rparr>"
  have "\<not> (d = CHR ''*'' \<and> take 1 (t @ ''*/'' @ r) = ''/'')"
    using Cons.prems(4) by (cases t) auto
  then have "pq_step env args s = Go ?s"
    using Cons.prems by (auto simp: pq_step_def pq_comment_step_def pq_advance_def Let_def)
  then have "pq_loop env args s = pq_loop env args ?s" by (rule pq_loop_go [rotated]) (use Cons.prems in simp)
  with Cons.prems Cons.IH [of ?s] show ?case by simp
qed

definition raised_by :: "exn option \<Rightarrow> bind_world \<Rightarrow> bind_world" where
  "raised_by e w = (case e of None \<Rightarrow> w | Some x \<Rightarrow> w\<lparr>bw_sink := bw_sink w @ [x]\<rparr>)"

lemma placeholder_hash_outcome:
  "\<exists>n' e. \<forall>w. (case hash_value h ''type'' of
       None \<Rightarrow>
         if bn_value n1 \<noteq> QNothing then (True, a, w)
         else (False, n1, braise c1 t1 w)
     | Some (QString t e) \<Rightarrow> (True, b t, w)
     | Some _ \<Rightarrow> (False, n1, braise c2 t2 w)) = (e = None, n', raised_by e w)"
proof (cases "hash_value h ''type''")
  case None
  show ?thesis
  proof (cases "bn_value n1 \<noteq> QNothing")
    case True
    with None show ?thesis by (intro exI [of _ a] exI [of _ None]) (simp add: raised_by_def)
  next
    case False
    with None show ?thesis by (intro exI [of _ n1] exI [of _ "Some (Exn c1 t1)"]) (simp add: raised_by_def braise_def)
  qed
next
  case (Some v)
  show ?thesis
  proof (cases "\<exists>t e. v = QString t e")
    case True
    then obtain t e where "v = QString t e" by auto
    with Some show ?thesis by (intro exI [of _ "b t"] exI [of _ None]) (simp add: raised_by_def)
  next
    case False
    with Some show ?thesis
      by (intro exI [of _ n1] exI [of _ "Some (Exn c2 t2)"]) (cases v; simp add: raised_by_def braise_def)
  qed
qed

lemma set_placeholder_outcome:
  "\<exists>n' e. \<forall>w. node_set benv v (placeholder_node name sz typ QNothing) w = (e = None, n', raised_by e w)"
proof -
  let ?p = "placeholder_node name sz typ QNothing"
  let ?q = "set_data (ora_bind_resetPlaceholder False) ?p"
  have "\<not> isValue ?p" by (simp add: isValue_def placeholder_node_def)
  moreover have r: "resetPlaceholder benv False ?p w = (?q, w)" for w
    by (simp add: resetPlaceholder_def clearPlaceholder_def set_data_def placeholder_node_def ora_column_init_def)
  ultimately have s: "node_set benv v ?p w = setPlaceholder benv v ?p w" for w
    by (simp add: node_set_def)
  show ?thesis
  proof (cases "\<exists>h. v = QHash h")
    case True
    then obtain h where v: "v = QHash h" by auto
    show ?thesis
      unfolding s setPlaceholder_def r Let_def prod.case unfolding v qval.case by (rule placeholder_hash_outcome)
  next
    case False
    consider "v = QNothing" | t e where "v = QString t e" | i where "v = QInt i"
      | "\<forall>w. setPlaceholder benv v ?p w
           = (False, ?q, braise ''BIND-ERROR'' ''expecting string or hash for placeholder description'' w)"
      using False by (cases v) (simp_all add: setPlaceholder_def r)
    then show ?thesis
    proof cases
      case 1
      then show ?thesis by (intro exI [of _ "setPlaceholderIntern (- 1) ''string'' ?q"] exI [of _ None])
          (simp add: s [unfolded 1] setPlaceholder_def r raised_by_def)
    next
      case 2
      then show ?thesis by (intro exI [of _ "setPlaceholderIntern (- 1) t ?q"] exI [of _ None])
          (simp add: s [unfolded 2] setPlaceholder_def r raised_by_def)
    next
      case 3
      then show ?thesis by (intro exI [of _ "setPlaceholderIntern (c_int i) ''string'' ?q"] exI [of _ None])
          (simp add: s [unfolded 3] setPlaceholder_def r raised_by_def)
    next
      case 4
      then show ?thesis by (intro exI [of _ ?q] exI [of _ "Some (Exn ''BIND-ERROR'' ''expecting string or hash for placeholder description'')"])
          (simp add: s raised_by_def braise_def)
    qed
  qed
qed

lemma named_node_set:
  assumes "fst (named_node env v name)"
  shows "node_set (pe_bind env) v (placeholder_node name (- 1) None QNothing) w = (True, snd (named_node env v name), w)"
proof -
  obtain n' e where o: "\<forall>w. node_set (pe_bind env) v (placeholder_node name (- 1) None QNothing) w = (e = None, n', raised_by e w)"
    using set_placeholder_outcome by blast
  then have "named_node env v name = (e = None, n')" by (simp add: named_node_def)
  with o assms show ?thesis by (simp add: raised_by_def)
qed

lemma pq_keep [simp]:
  "pq_quote s = None \<Longrightarrow> s\<lparr>pq_quote := None\<rparr> = s"
  "pq_comment s = NoComment \<Longrightarrow> s\<lparr>pq_comment := NoComment\<rparr> = s"
  by (cases s; simp)+

lemma parse_word:
  assumes "tok_ok env v (pq_pre s) t rest" "pq_rest s = tok_render t @ rest" "pq_quote s = None" "pq_comment s = NoComment"
    "v = retrieve_entry (Some l) (pq_index s)"
  shows "\<exists>b. pq_loop env (Some l) s = pq_loop env (Some l)
    (s\<lparr>pq_pre := pq_pre s @ tok_text env v (length (pq_nodes s)) t, pq_rest := rest, pq_index := pq_index s + tok_args t,
       pq_nodes := pq_nodes s @ tok_nodes env v t, pq_has_output := b\<rparr>)"
  using assms(1)
proof (cases t)
  case (Chr c)
  let ?s = "s\<lparr>pq_pre := pq_pre s @ [c], pq_rest := rest\<rparr>"
  from Chr assms have "pq_step env (Some l) s = Go ?s"
    by (auto simp: pq_step_def pq_char_def pq_advance_def is_quote_def marker_place_def)
  then have "pq_loop env (Some l) s = pq_loop env (Some l) ?s" by (rule pq_loop_go [rotated]) (use Chr assms in simp)
  with Chr show ?thesis by (intro exI [of _ "pq_has_output s"]) simp
next
  case (Quoted q x)
  let ?s = "s\<lparr>pq_pre := pq_pre s @ [q], pq_rest := x @ q # rest, pq_quote := Some q\<rparr>"
  from Quoted assms have "pq_step env (Some l) s = Go ?s"
    by (auto simp: pq_step_def pq_char_def pq_advance_def is_quote_def Let_def)
  then have "pq_loop env (Some l) s = pq_loop env (Some l) ?s"
    by (rule pq_loop_go [rotated]) (use Quoted assms in simp)
  with Quoted assms pq_loop_quoted [of ?s x q rest env "Some l"] show ?thesis
    by (intro exI [of _ "pq_has_output s"]) simp
next
  case (LineComment x c)
  let ?s = "s\<lparr>pq_pre := pq_pre s @ ''--'', pq_rest := x @ c # rest, pq_comment := QODC_LINE\<rparr>"
  from LineComment assms have "pq_step env (Some l) s = Go ?s"
    by (auto simp: pq_step_def pq_advance_def Let_def)
  then have "pq_loop env (Some l) s = pq_loop env (Some l) ?s"
    by (rule pq_loop_go [rotated]) (use LineComment assms in simp)
  with LineComment assms pq_loop_line [of ?s x c rest env "Some l"] show ?thesis
    by (intro exI [of _ "pq_has_output s"]) simp
next
  case (BlockComment x)
  let ?s = "s\<lparr>pq_pre := pq_pre s @ ''/*'', pq_rest := x @ ''*/'' @ rest, pq_comment := QODC_BLOCK\<rparr>"
  from BlockComment assms have "pq_step env (Some l) s = Go ?s"
    by (auto simp: pq_step_def pq_advance_def Let_def)
  then have "pq_loop env (Some l) s = pq_loop env (Some l) ?s"
    by (rule pq_loop_go [rotated]) (use BlockComment assms in simp)
  with BlockComment assms pq_loop_block [of ?s x rest env "Some l"] show ?thesis
    by (intro exI [of _ "pq_has_output s"]) simp
next
  case ValueMark
  from ValueMark assms have "pq_step env (Some l) s = Go (s\<lparr>pq_pre := pq_pre s @ marker_name (length (pq_nodes s)), pq_rest := rest,
      pq_index := Suc (pq_index s), pq_nodes := pq_nodes s @ [value_node v]\<rparr>)"
    by (auto simp: pq_step_def pq_marker_def pq_replace_def marker_place_def Let_def)
  then show ?thesis
    by (intro exI [of _ "pq_has_output s"]) (subst pq_loop_go, use ValueMark assms in simp_all)
next
  case NumMark
  from NumMark assms have "pq_step env (Some l) s = Go (s\<lparr>pq_pre := pq_pre s @ pe_concat_numeric env v, pq_rest := rest,
      pq_index := Suc (pq_index s)\<rparr>)"
    by (auto simp: pq_step_def pq_marker_def pq_replace_def marker_place_def Let_def)
  then show ?thesis
    by (intro exI [of _ "pq_has_output s"]) (subst pq_loop_go, use NumMark assms in simp_all)
next
  case StrMark
  from StrMark assms obtain x where x: "pe_concat_string env v = Inr x" by (auto split: sum.splits)
  with StrMark assms have "pq_step env (Some l) s = Go (s\<lparr>pq_pre := pq_pre s @ x, pq_rest := rest,
      pq_index := Suc (pq_index s)\<rparr>)"
    by (auto simp: pq_step_def pq_marker_def pq_replace_def marker_place_def Let_def)
  then show ?thesis
    by (intro exI [of _ "pq_has_output s"]) (subst pq_loop_go, use StrMark assms x in simp_all)
next
  case (Name x)
  have tw: "takeWhile name_char (x @ rest) = x"
    using Name assms(1) by (cases rest) (auto simp: list_all_iff takeWhile_append)
  from Name assms have "pq_step env (Some l) s = pq_placeholder env (Some l) s"
    by (auto simp: pq_step_def)
  also have "\<dots> = Go (s\<lparr>pq_pre := pq_pre s @ CHR '':'' # x, pq_rest := rest, pq_index := Suc (pq_index s),
      pq_nodes := pq_nodes s @ [snd (named_node env v x)], pq_has_output := True\<rparr>)"
    using Name assms tw named_node_set [of env v x] by (auto simp: pq_placeholder_def pq_advance_def Let_def)
  finally show ?thesis
    by (intro exI [of _ True]) (subst pq_loop_go, use Name assms in simp_all)
next
  case Colon
  let ?s = "s\<lparr>pq_pre := pq_pre s @ '':'', pq_rest := rest\<rparr>"
  from Colon assms have "pq_step env (Some l) s = Go ?s"
    by (auto simp: pq_step_def pq_placeholder_def pq_advance_def Let_def)
  then show ?thesis
    by (intro exI [of _ "pq_has_output s"]) (subst pq_loop_go, use Colon assms in simp_all)
qed

lemma parse_words:
  assumes "words_ok env l (pq_index s) (length (pq_nodes s)) (pq_pre s) ts r" "pq_rest s = render ts @ r"
    "pq_quote s = None" "pq_comment s = NoComment"
  shows "\<exists>k b. pq_loop env (Some l) s = pq_loop env (Some l)
    (s\<lparr>pq_pre := pq_pre s @ parsed_text env l (pq_index s) (length (pq_nodes s)) ts,
       pq_rest := r, pq_index := k, pq_nodes := pq_nodes s @ parsed_nodes env l (pq_index s) ts, pq_has_output := b\<rparr>)"
  using assms
proof (induction ts arbitrary: s)
  case Nil
  then show ?case by (intro exI [of _ "pq_index s"] exI [of _ "pq_has_output s"]) (cases s; simp)
next
  case (Cons t ts)
  let ?v = "retrieve_entry (Some l) (pq_index s)"
  from Cons.prems(1) have ok: "tok_ok env ?v (pq_pre s) t (render ts @ r)" by (simp add: Let_def)
  obtain b where b: "pq_loop env (Some l) s = pq_loop env (Some l)
    (s\<lparr>pq_pre := pq_pre s @ tok_text env ?v (length (pq_nodes s)) t, pq_rest := render ts @ r, pq_index := pq_index s + tok_args t,
       pq_nodes := pq_nodes s @ tok_nodes env ?v t, pq_has_output := b\<rparr>)" (is "_ = pq_loop env (Some l) ?s")
    using parse_word [OF ok _ Cons.prems(3,4) refl] Cons.prems(2) by auto
  have "words_ok env l (pq_index ?s) (length (pq_nodes ?s)) (pq_pre ?s) ts r"
    using Cons.prems(1) by (simp add: Let_def)
  from Cons.IH [OF this] Cons.prems b show ?case by (simp add: Let_def)
qed

lemma parseQuery_words:
  assumes "words_ok env l 0 0 [] ts r"
  shows "\<exists>k b. parseQuery env (render ts @ r) (Some l) = pq_loop env (Some l)
    (pq_init r [] False\<lparr>pq_pre := parsed_text env l 0 0 ts, pq_index := k, pq_nodes := parsed_nodes env l 0 ts, pq_has_output := b\<rparr>)"
  using parse_words [of env l "pq_init (render ts @ r) [] False" ts r] assms by (simp add: parseQuery_def pq_init_def)

text \<open>C13: A query made of words - characters, quoted text, comments, the markers \<open>%v\<close>, \<open>%d\<close> and \<open>%s\<close>,
  named placeholders and lone colons, each told from its neighbours - is parsed into the
  text in which exactly the markers are replaced, with the arguments in order, and into one
  node per \<open>%v\<close> and per placeholder, in order; quoted text and comments are unchanged and take
  no argument.
\<close>

theorem parse_query_words:
  assumes "words_ok env l 0 0 [] ts []"
  shows "case parseQuery env (render ts) (Some l) of
      Stop s \<Rightarrow> pq_pre s = parsed_text env l 0 0 ts \<and> pq_nodes s = parsed_nodes env l 0 ts
        \<and> bw_sink (pq_world s) = []
    | _ \<Rightarrow> False"
proof -
  obtain k b where "parseQuery env (render ts @ []) (Some l) = pq_loop env (Some l)
    (pq_init [] [] False\<lparr>pq_pre := parsed_text env l 0 0 ts, pq_index := k, pq_nodes := parsed_nodes env l 0 ts, pq_has_output := b\<rparr>)"
    using parseQuery_words [OF assms] by blast
  then show ?thesis by (simp add: pq_loop.simps pq_init_def bind_world_init_def)
qed

text \<open>An escaped colon or per cent sign hides what follows: after it one character is passed
  unexamined and the next is only tested for a quotation mark, so a value marker there stays
  in the text and gets no node; and an escape at the end of the query makes the parser pass
  the terminator.
\<close>

theorem escape_hides_marker:
  assumes "words_ok env l 0 0 [] ts (CHR 0x5C # c # x # ''%v'')" "words_ok env l 0 0 [] us [CHR 0x5C, c]"
    "c = CHR '':'' \<or> c = CHR ''%''"
  shows "(case parseQuery env (render ts @ CHR 0x5C # c # x # ''%v'') (Some l) of
      Stop s \<Rightarrow> pq_pre s = parsed_text env l 0 0 ts @ c # x # ''%v'' \<and> pq_nodes s = parsed_nodes env l 0 ts
    | _ \<Rightarrow> False) \<and> parseQuery env (render us @ [CHR 0x5C, c]) (Some l) = BehindTerminator"
proof -
  obtain k b where 1: "parseQuery env (render ts @ CHR 0x5C # c # x # ''%v'') (Some l) = pq_loop env (Some l)
    (pq_init (CHR 0x5C # c # x # ''%v'') [] False\<lparr>pq_pre := parsed_text env l 0 0 ts, pq_index := k,
       pq_nodes := parsed_nodes env l 0 ts, pq_has_output := b\<rparr>)" (is "_ = pq_loop _ _ ?s")
    using parseQuery_words [OF assms(1)] by blast
  obtain k' b' where 2: "parseQuery env (render us @ [CHR 0x5C, c]) (Some l) = pq_loop env (Some l)
    (pq_init [CHR 0x5C, c] [] False\<lparr>pq_pre := parsed_text env l 0 0 us, pq_index := k',
       pq_nodes := parsed_nodes env l 0 us, pq_has_output := b'\<rparr>)" (is "_ = pq_loop _ _ ?u")
    using parseQuery_words [OF assms(2)] by blast
  let ?s1 = "?s\<lparr>pq_pre := parsed_text env l 0 0 ts @ c # x # ''%'', pq_rest := ''v''\<rparr>"
  let ?s2 = "?s\<lparr>pq_pre := parsed_text env l 0 0 ts @ c # x # ''%v'', pq_rest := []\<rparr>"
  have "pq_step env (Some l) ?s = Go ?s1"
    using assms(3) by (auto simp: pq_step_def pq_escape_def pq_char_def pq_advance_def pq_init_def Let_def)
  then have "pq_loop env (Some l) ?s = pq_loop env (Some l) ?s1" by (rule pq_loop_go [rotated]) (simp add: pq_init_def)
  moreover have "pq_step env (Some l) ?s1 = Go ?s2"
    by (auto simp: pq_step_def pq_char_def pq_advance_def pq_init_def Let_def)
  then have "pq_loop env (Some l) ?s1 = pq_loop env (Some l) ?s2" by (rule pq_loop_go [rotated]) (simp add: pq_init_def)
  moreover have "pq_loop env (Some l) ?s2 = Stop ?s2" by (subst pq_loop.simps) simp
  moreover have "pq_step env (Some l) ?u = BehindTerminator"
    using assms(3) by (auto simp: pq_step_def pq_escape_def pq_init_def Let_def)
  then have "pq_loop env (Some l) ?u = BehindTerminator" by (subst pq_loop.simps) (simp add: pq_init_def)
  ultimately show ?thesis using 1 2 by simp
qed


definition parse_env0 :: parse_env where
  "parse_env0 = \<lparr>pe_bind = \<lparr>be_encoding = ''UTF-8'', be_convert = (\<lambda>s e t. Value s), be_to_string = (\<lambda>v. ([], ''UTF-8'')),
       be_type_name = (\<lambda>v. ''string''), be_to_int = (\<lambda>v. 0), be_to_float = (\<lambda>v. 0),
       be_to_date = (\<lambda>v. AbsDate LocalZone \<lparr>d_year = 1970, d_month = 1, d_day = 1, d_hour = 0, d_minute = 0, d_second = 0, d_us = 0\<rparr>),
       be_capacity = (\<lambda>s n. n), be_default_str_len = 512, be_lost = False, be_array_size = 0, be_answer = (\<lambda>k c. None)\<rparr>,
     pe_concat_numeric = (\<lambda>v. case v of QInt i \<Rightarrow> show_int i | _ \<Rightarrow> ''null''),
     pe_concat_string = (\<lambda>v. case v of QString s e \<Rightarrow> Inr s | _ \<Rightarrow> Inl (Exn ''DBI-STRING-ERROR'' []))\<rparr>"

text \<open>\<open>a='%v'+%s %v\<close>\<close>

definition sample_words :: "word_tok list" where
  "sample_words = [Chr CHR ''a'', Chr CHR ''='', Quoted CHR 0x27 ''%v'', Chr CHR ''+'', StrMark, Chr CHR '' '', ValueMark]"

lemma sample_words_ok: "words_ok parse_env0 [QString ''t'' ''UTF-8'', QInt 7] 0 0 [] sample_words []"
  by (simp add: sample_words_def is_quote_def marker_place_def retrieve_entry_def parse_env0_def c_class_defs Let_def)

lemma parse_query_words_witness:
  "case parseQuery parse_env0 (render sample_words) (Some [QString ''t'' ''UTF-8'', QInt 7]) of
     Stop s \<Rightarrow> pq_pre s = CHR ''a'' # CHR ''='' # CHR 0x27 # ''%v'' @ CHR 0x27 # ''+t '' @ marker_name 0
       \<and> pq_nodes s = [value_node (QInt 7)]
   | _ \<Rightarrow> False"
proof -
  have "parsed_text parse_env0 [QString ''t'' ''UTF-8'', QInt 7] 0 0 sample_words
      = CHR ''a'' # CHR ''='' # CHR 0x27 # ''%v'' @ CHR 0x27 # ''+t '' @ marker_name 0"
    "parsed_nodes parse_env0 [QString ''t'' ''UTF-8'', QInt 7] 0 sample_words = [value_node (QInt 7)]"
    by (simp_all add: sample_words_def retrieve_entry_def parse_env0_def Let_def)
  then show ?thesis
    using parse_query_words [OF sample_words_ok] by (auto split: pq_result.splits)
qed

lemma escape_hides_marker_witness:
  "parseQuery parse_env0 (''a'' @ [CHR 0x5C, CHR '':'']) (Some []) = BehindTerminator"
  using escape_hides_marker [of parse_env0 "[]" "[]" "CHR '':''" "CHR ''b''" "[Chr CHR ''a'']"]
  by (simp add: is_quote_def)

end
