(* ===== verification/Fetch.thy ===== *)
theory Fetch
  imports Columnar
begin

text \<open>
  The statement handle and its fetch operations (QoreOracleStatement.h, QoreOracleStatement.cpp):
  single rows, blocks of rows, columns, columnar results and the description of a result set.
\<close>

section \<open>The statement\<close>

text \<open>
  \<open>st_cursor\<close> is what the server answers to the coming \<open>OCIStmtFetch2\<close> calls (an exhausted list
  answers "no data"), \<open>st_polls\<close> what \<open>qore_check_cancel\<close> answers, \<open>st_attrs\<close> what the calls
  that set the prefetch count answer; \<open>st_row\<close> is the content of the column buffers.
\<close>

datatype fetch_event = FetchRow "ora_column list" | FetchNoData | FetchError exn

record ora_statement =
  st_array_size :: nat
  st_prefetch_rows :: int
  st_is_select :: bool
  st_fetch_done :: bool
  st_fetch_complete :: bool
  st_fetch_warned :: bool
  st_cursor :: "fetch_event list"
  st_row :: "ora_column list"
  st_polls :: polls
  st_attrs :: polls

definition statement_init :: "fetch_event list \<Rightarrow> polls \<Rightarrow> polls \<Rightarrow> ora_statement" where
  "statement_init cursor p attrs =
     \<lparr>st_array_size = 0, st_prefetch_rows = 1, st_is_select = False, st_fetch_done = False,
      st_fetch_complete = False, st_fetch_warned = False, st_cursor = cursor, st_row = [],
      st_polls = p, st_attrs = attrs\<rparr>"

definition PREFETCH_DEFAULT :: int where "PREFETCH_DEFAULT = 1"
definition PREFETCH_BULK :: int where "PREFETCH_BULK = 1000"
definition PREFETCH_MAX :: int where "PREFETCH_MAX = 32767"

definition statement_reset :: "ora_statement \<Rightarrow> ora_statement" where
  "statement_reset st = st\<lparr>st_is_select := False, st_fetch_done := False\<rparr>"

definition setPrefetch :: "int \<Rightarrow> ora_statement \<Rightarrow> exn option \<times> ora_statement" where
  "setPrefetch rows st =
     (let prefetch = (if rows < 0 then PREFETCH_BULK else if rows \<noteq> 0 then rows else PREFETCH_DEFAULT);
          prefetch = (if prefetch > PREFETCH_MAX then PREFETCH_MAX else prefetch)
      in if prefetch = st_prefetch_rows st then (None, st)
         else case check_cancel (st_attrs st) of
                (None, a) \<Rightarrow> (None, st\<lparr>st_attrs := a, st_prefetch_rows := prefetch\<rparr>)
              | (Some e, a) \<Rightarrow> (Some e, st\<lparr>st_attrs := a\<rparr>))"

definition setArraySize :: "nat \<Rightarrow> ora_statement \<Rightarrow> exn option \<times> ora_statement" where
  "setArraySize n st =
     (if st_array_size st > 0 then
        if st_array_size st \<noteq> n then (Some (Exn ''BIND-ERROR'' ''lists must be of exactly the same size''), st)
        else (None, st)
      else (None, st\<lparr>st_array_size := n\<rparr>))"

datatype fetched = GotRow | NoMoreData | FetchFailed exn

definition stmt_fetch :: "ora_statement \<Rightarrow> fetched \<times> ora_statement" where
  "stmt_fetch st =
     (case st_cursor st of
        [] \<Rightarrow> (NoMoreData, st)
      | FetchNoData # r \<Rightarrow> (NoMoreData, st\<lparr>st_cursor := r\<rparr>)
      | FetchError e # r \<Rightarrow> (FetchFailed e, st\<lparr>st_cursor := r\<rparr>)
      | FetchRow cells # r \<Rightarrow> (GotRow, st\<lparr>st_cursor := r, st_row := cells, st_fetch_done := True\<rparr>))"

lemma stmt_fetch_shorter: "stmt_fetch st = (GotRow, st') \<Longrightarrow> length (st_cursor st') < length (st_cursor st)"
  by (auto simp: stmt_fetch_def split: list.splits fetch_event.splits)

definition stmt_poll :: "ora_statement \<Rightarrow> exn option \<times> ora_statement" where
  "stmt_poll st = (let (c, p) = check_cancel (st_polls st) in (c, st\<lparr>st_polls := p\<rparr>))"

lemma stmt_poll_cursor [simp]: "stmt_poll st = (c, st') \<Longrightarrow> st_cursor st' = st_cursor st"
  by (auto simp: stmt_poll_def split: prod.splits)

section \<open>Rows\<close>

text \<open>
  The key of a duplicate column: \<open>name_1\<close>, \<open>name_2\<close>, ... up to the first one free.  The loop has
  no bound of its own; a hash of \<open>n\<close> keys is searched in at most \<open>n + 1\<close> steps.
\<close>

fun unique_key_loop :: "nat \<Rightarrow> string \<Rightarrow> nat \<Rightarrow> (string \<Rightarrow> bool) \<Rightarrow> string" where
  "unique_key_loop 0 name num used = name @ ''_'' @ show_nat num"
| "unique_key_loop (Suc fuel) name num used =
     (let k = name @ ''_'' @ show_nat num
      in if used k then unique_key_loop fuel name (num + 1) used else k)"

definition unique_key :: "string \<Rightarrow> (string \<Rightarrow> bool) \<Rightarrow> nat \<Rightarrow> string" where
  "unique_key name used n = (if used name then unique_key_loop n name 1 used else name)"

fun assign_columns :: "value_env \<Rightarrow> (column_buffer \<times> ora_column) list \<Rightarrow> qval ohash \<Rightarrow> qval ohash outcome" where
  "assign_columns env [] h = Value h"
| "assign_columns env ((w, c) # cs) h =
     bind_outcome (fst (getValue env True False c)) (\<lambda>v.
       let k = unique_key (cb_name w) (\<lambda>k. key_value h k \<noteq> QNothing) (length h + 1)
       in assign_columns env cs (hash_set k v h))"

definition stmt_fetchRow :: "value_env \<Rightarrow> column_buffer list \<Rightarrow> ora_statement \<Rightarrow> qval ohash outcome" where
  "stmt_fetchRow env clist st =
     (if \<not> st_fetch_done st then Raised (Exn ''ORACLE-FETCH-ROW-ERROR'' ''call next() before fetchRow()'')
      else assign_columns env (zip clist (st_row st)) [])"

function fetch_rows_loop ::
    "value_env \<Rightarrow> column_buffer list \<Rightarrow> int \<Rightarrow> nat \<Rightarrow> qval ohash list \<Rightarrow> ora_statement
       \<Rightarrow> qval ohash list outcome \<times> ora_statement" where
  "fetch_rows_loop env clist rows row_count l st =
     (case stmt_fetch st of
        (NoMoreData, st1) \<Rightarrow> (Value l, st1)
      | (FetchFailed e, st1) \<Rightarrow> (Raised e, st1)
      | (GotRow, st1) \<Rightarrow>
          (case (if row_count mod 100 = 0 then stmt_poll st1 else (None, st1)) of
             (Some e, st2) \<Rightarrow> (Raised e, st2)
           | (None, st2) \<Rightarrow>
               (case stmt_fetchRow env clist st2 of
                  Value h \<Rightarrow>
                    if rows > 0 \<and> int (length (l @ [h])) = rows then (Value (l @ [h]), st2)
                    else fetch_rows_loop env clist rows (row_count + 1) (l @ [h]) st2
                | Raised e \<Rightarrow> (Raised e, st2)
                | Undefined \<Rightarrow> (Undefined, st2))))"
  by pat_completeness auto
termination
proof (relation "measure (\<lambda>(env, clist, rows, row_count, l, st). length (st_cursor st))", goal_cases)
  case 1
  show ?case by simp
next
  case (2 env clist rows row_count l st x st1 x' st2 h)
  then show ?case
    by (auto dest!: stmt_fetch_shorter [OF sym] stmt_poll_cursor [OF sym] split: if_splits)
qed

declare fetch_rows_loop.simps [simp del]

text \<open>
  The result set's define step comes before the loop; its answers are those of \<open>denv\<close>, and its
  first exception ends the call.
\<close>

definition stmt_define :: "define_env \<Rightarrow> int \<Rightarrow> result_set \<Rightarrow> result_set \<times> exn option" where
  "stmt_define denv mcw rs =
     (let (rs', (calls, raised), flow) = result_set_define denv mcw rs
      in (rs', case raised of [] \<Rightarrow> None | e # es \<Rightarrow> Some e))"

definition fetch_end :: "int \<Rightarrow> nat \<Rightarrow> ora_statement \<Rightarrow> ora_statement" where
  "fetch_end rows n st =
     (let st1 = st\<lparr>st_fetch_done := True\<rparr>
      in if int n < rows then st1\<lparr>st_fetch_complete := True\<rparr> else st1)"

definition stmt_fetchRows ::
    "value_env \<Rightarrow> define_env \<Rightarrow> int \<Rightarrow> result_set \<Rightarrow> int \<Rightarrow> ora_statement
       \<Rightarrow> qval ohash list outcome \<times> result_set \<times> ora_statement" where
  "stmt_fetchRows env denv mcw rs rows st =
     (if st_fetch_warned st then (Raised (Exn ''ORACLE-SELECT-ROWS-ERROR'' ''called after the end of data''), rs, st)
      else if st_fetch_complete st then (Value [], rs, st\<lparr>st_fetch_warned := True\<rparr>)
      else case setPrefetch rows st of
        (Some e, st1) \<Rightarrow> (Raised e, rs, st1)
      | (None, st1) \<Rightarrow>
          (case stmt_define denv mcw rs of
             (rs', Some e) \<Rightarrow> (Raised e, rs', st1)
           | (rs', None) \<Rightarrow>
               (case fetch_rows_loop env (rs_clist rs') rows 0 [] st1 of
                  (Value l, st2) \<Rightarrow> (Value l, rs', fetch_end rows (length l) st2)
                | (r, st2) \<Rightarrow> (r, rs', st2))))"

text \<open>
  \<open>selectRow\<close>: exactly one row; \<open>QNothing\<close> when there is none.  A value returned with an exception
  pending counts as the exception, here and below.
\<close>

definition stmt_fetchSingleRow ::
    "value_env \<Rightarrow> define_env \<Rightarrow> int \<Rightarrow> result_set \<Rightarrow> ora_statement \<Rightarrow> qval outcome \<times> ora_statement" where
  "stmt_fetchSingleRow env denv mcw rs st =
     (case setPrefetch PREFETCH_DEFAULT st of
        (Some e, st1) \<Rightarrow> (Raised e, st1)
      | (None, st1) \<Rightarrow>
          (case stmt_define denv mcw rs of
             (rs', Some e) \<Rightarrow> (Raised e, st1)
           | (rs', None) \<Rightarrow>
               (case stmt_fetch st1 of
                  (NoMoreData, st2) \<Rightarrow> (Value QNothing, st2)
                | (FetchFailed e, st2) \<Rightarrow> (Raised e, st2)
                | (GotRow, st2) \<Rightarrow>
                    (case stmt_fetchRow env (rs_clist rs') st2 of
                       Value h \<Rightarrow>
                         (case stmt_fetch st2 of
                            (GotRow, st3) \<Rightarrow> (Raised (Exn ''DBI-SELECT-ROW-ERROR'' ''returned more than 1 row''), st3)
                          | (FetchFailed e, st3) \<Rightarrow> (Raised e, st3)
                          | (NoMoreData, st3) \<Rightarrow> (Value (QHash h), st3))
                     | Raised e \<Rightarrow> (Raised e, st2)
                     | Undefined \<Rightarrow> (Undefined, st2)))))"


section \<open>Columns\<close>

text \<open>The result of \<open>fetchColumns\<close>: a hash of lists.\<close>

type_synonym column_hash = "qval list ohash"

fun doColumns :: "column_buffer list \<Rightarrow> column_hash \<Rightarrow> column_hash" where
  "doColumns [] h = h"
| "doColumns (w # ws) h = doColumns ws (hash_set (cb_name w) [] h)"

text \<open>
  The list a column is appended to: its own, or, if that has its value of this row already, the
  first \<open>name_<n>\<close> that has not.
\<close>

definition column_key :: "string \<Rightarrow> nat \<Rightarrow> column_hash \<Rightarrow> string" where
  "column_key n csize h =
     unique_key n (\<lambda>k. case hash_get h k of None \<Rightarrow> False
                    | Some l \<Rightarrow> if k = n then length l > csize else length l \<noteq> csize) (length h + 1)"

text \<open>One row: \<open>None\<close> for \<open>csize\<close> before the first column; a raised exception ends the row.\<close>

fun fetch_column_row ::
    "value_env \<Rightarrow> (column_buffer \<times> ora_column) list \<Rightarrow> nat option \<Rightarrow> column_hash \<Rightarrow> sink \<Rightarrow> column_hash \<times> sink" where
  "fetch_column_row env [] csize h xs = (h, xs)"
| "fetch_column_row env ((w, c) # cs) csize h xs =
     (case hash_get h (cb_name w) of
        None \<Rightarrow> (h, xs)
      | Some l \<Rightarrow>
          let cz = (case csize of None \<Rightarrow> length l | Some n \<Rightarrow> n);
              k = (case csize of None \<Rightarrow> cb_name w | Some n \<Rightarrow> column_key (cb_name w) n h);
              h1 = (case hash_get h k of None \<Rightarrow> hash_set k [] h | Some _ \<Rightarrow> h)
          in case fst (getValue env False False c) of
               Value v \<Rightarrow>
                 if xs \<noteq> [] then (h1, xs)
                 else fetch_column_row env cs (Some cz) (hash_set k ((case hash_get h1 k of None \<Rightarrow> [] | Some l' \<Rightarrow> l') @ [v]) h1) xs
             | Raised e \<Rightarrow> (h1, xs @ [e])
             | Undefined \<Rightarrow> (h1, xs))"

text \<open>
  The loop goes on after an exception of a column: only the row is left.  There is no
  cancellation check.
\<close>

function fetch_columns_loop ::
    "value_env \<Rightarrow> column_buffer list \<Rightarrow> int \<Rightarrow> nat \<Rightarrow> column_hash \<Rightarrow> sink \<Rightarrow> ora_statement
       \<Rightarrow> column_hash \<times> nat \<times> sink \<times> ora_statement" where
  "fetch_columns_loop env clist rows num_rows h xs st =
     (case stmt_fetch st of
        (NoMoreData, st1) \<Rightarrow> (h, num_rows, xs, st1)
      | (FetchFailed e, st1) \<Rightarrow> (h, num_rows, xs @ [e], st1)
      | (GotRow, st1) \<Rightarrow>
          (let h0 = (if h = [] then doColumns clist h else h);
               (h1, xs1) = fetch_column_row env (zip clist (st_row st1)) None h0 xs
           in if rows > 0 \<and> int (num_rows + 1) = rows then (h1, num_rows + 1, xs1, st1)
              else fetch_columns_loop env clist rows (num_rows + 1) h1 xs1 st1))"
  by pat_completeness auto
termination
  by (relation "measure (\<lambda>(env, clist, rows, num_rows, h, xs, st). length (st_cursor st))")
     (auto dest!: stmt_fetch_shorter [OF sym])

declare fetch_columns_loop.simps [simp del]

definition stmt_fetchColumns ::
    "value_env \<Rightarrow> define_env \<Rightarrow> int \<Rightarrow> result_set \<Rightarrow> int \<Rightarrow> bool \<Rightarrow> ora_statement
       \<Rightarrow> column_hash outcome \<times> result_set \<times> ora_statement" where
  "stmt_fetchColumns env denv mcw rs rows cols st =
     (if st_fetch_warned st then (Raised (Exn ''ORACLE-SELECT-COLUMNS-ERROR'' ''called after the end of data''), rs, st)
      else if st_fetch_complete st then (Value [], rs, st\<lparr>st_fetch_warned := True\<rparr>)
      else case setPrefetch rows st of
        (Some e, st1) \<Rightarrow> (Raised e, rs, st1)
      | (None, st1) \<Rightarrow>
          (case stmt_define denv mcw rs of
             (rs', Some e) \<Rightarrow> (Raised e, rs', st1)
           | (rs', None) \<Rightarrow>
               (let h0 = (if cols then doColumns (rs_clist rs') [] else []);
                    (h, n, xs, st2) = fetch_columns_loop env (rs_clist rs') rows 0 h0 [] st1
                in case xs of
                     [] \<Rightarrow> (Value h, rs', fetch_end rows n st2)
                   | e # es \<Rightarrow> (Raised e, rs', st2))))"

section \<open>The description of a result set\<close>

record column_desc =
  cd_name :: string
  cd_internal_id :: int
  cd_type :: "qtype option"
  cd_native_type :: string
  cd_maxsize :: int
  cd_precision :: "int option"
  cd_scale :: "int option"

definition number_native_type :: "int \<Rightarrow> int \<Rightarrow> string" where
  "number_native_type precision scale = ''NUMBER('' @ show_int precision @ '','' @ show_int scale @ '')''"

definition describe_column :: "bool \<Rightarrow> column_buffer \<Rightarrow> column_desc" where
  "describe_column utf8 w =
     (let charSize = (if utf8 then 4 else 1 :: int);
          d = (\<lambda>t native ms. \<lparr>cd_name = cb_name w, cd_internal_id = sqlt_code (cb_dtype w), cd_type = t,
                 cd_native_type = native, cd_maxsize = ms, cd_precision = None, cd_scale = None\<rparr>);
          ms = cb_maxsize w
      in case cb_dtype w of
           SQLT_CHR \<Rightarrow> d (Some NT_STRING) ''VARCHAR2'' (ms div charSize)
         | SQLT_NUM \<Rightarrow>
             if oracle_columnar_decimal_metadata_supported (cb_precision w) (cb_scale w)
             then (d (Some NT_NUMBER) (number_native_type (cb_precision w) (cb_scale w)) ms)
                    \<lparr>cd_precision := Some (cb_precision w), cd_scale := Some (cb_scale w)\<rparr>
             else d (Some NT_NUMBER) ''NUMBER'' ms
         | SQLT_INT \<Rightarrow> d (Some NT_INT) ''INTEGER'' ms
         | SQLT_UIN \<Rightarrow> d (Some NT_INT) ''INTEGER'' ms
         | SQLT_FLT \<Rightarrow> d (Some NT_FLOAT) ''FLOAT'' ms
         | SQLT_BFLOAT \<Rightarrow> d (Some NT_FLOAT) ''FLOAT'' ms
         | SQLT_BDOUBLE \<Rightarrow> d (Some NT_FLOAT) ''FLOAT'' ms
         | SQLT_IBFLOAT \<Rightarrow> d (Some NT_FLOAT) ''FLOAT'' ms
         | SQLT_IBDOUBLE \<Rightarrow> d (Some NT_FLOAT) ''FLOAT'' ms
         | SQLT_AFC \<Rightarrow> d (Some NT_STRING) ''CHAR'' (ms div charSize)
         | SQLT_AVC \<Rightarrow> d (Some NT_STRING) ''CHAR'' (ms div charSize)
         | SQLT_CLOB \<Rightarrow> d (Some NT_STRING) ''CLOB'' (ms div charSize)
         | SQLT_BLOB \<Rightarrow> d (Some NT_BINARY) ''BLOB'' (ms div charSize)
         | SQLT_NTY \<Rightarrow> d (Some NT_HASH) ''NAMED DATATYPE'' ms
         | SQLT_DATE \<Rightarrow> d (Some NT_DATE) ''DATE'' ms
         | SQLT_DAT \<Rightarrow> d (Some NT_DATE) ''DATE'' ms
         | SQLT_TIMESTAMP \<Rightarrow> d (Some NT_DATE) ''TIMESTAMP'' ms
         | SQLT_TIMESTAMP_TZ \<Rightarrow> d (Some NT_DATE) ''TIMESTAMP WITH ZONE'' ms
         | SQLT_TIMESTAMP_LTZ \<Rightarrow> d (Some NT_DATE) ''TIMESTAMP WITH LOCAL TIME ZONE'' ms
         | SQLT_INTERVAL_YM \<Rightarrow> d (Some NT_DATE) ''INTERVAL YEAR TO MONTH'' ms
         | SQLT_INTERVAL_DS \<Rightarrow> d (Some NT_DATE) ''INTERVAL DAY TO SECOND'' ms
         | SQLT_RDD \<Rightarrow> d (Some NT_STRING) ''ROWID'' ms
         | _ \<Rightarrow> d None ''n/a'' ms)"

definition stmt_describe :: "bool \<Rightarrow> column_buffer list \<Rightarrow> column_desc ohash" where
  "stmt_describe utf8 clist = foldl (\<lambda>h w. hash_set (cb_name w) (describe_column utf8 w) h) [] clist"

section \<open>Columnar results\<close>

text \<open>One poll every 100 columns, except before the first.\<close>

definition column_poll :: "nat \<Rightarrow> polls \<Rightarrow> exn option \<times> polls" where
  "column_poll i p = (if i \<noteq> 0 \<and> i mod 100 = 0 then check_cancel p else (None, p))"

fun make_builders ::
    "number_option \<Rightarrow> nat \<Rightarrow> column_buffer list \<Rightarrow> (string \<Rightarrow> nat) \<Rightarrow> polls \<Rightarrow> columnar_builder list outcome \<times> polls" where
  "make_builders opt i [] seen p = (Value [], p)"
| "make_builders opt i (w # ws) seen p =
     (case column_poll i p of
        (Some e, p1) \<Rightarrow> (Raised e, p1)
      | (None, p1) \<Rightarrow>
          (let (n, seen') = oracle_columnar_unique_name (cb_name w) seen;
               (r, p2) = make_builders opt (i + 1) ws seen' p1
           in (bind_outcome r (\<lambda>bs. Value (OracleColumnarBuilder opt w n # bs)), p2)))"

fun append_row ::
    "value_env \<Rightarrow> nat \<Rightarrow> (columnar_builder \<times> ora_column) list \<Rightarrow> polls \<Rightarrow> columnar_builder list outcome \<times> polls" where
  "append_row env i [] p = (Value [], p)"
| "append_row env i ((b, c) # bs) p =
     (case column_poll i p of
        (Some e, p1) \<Rightarrow> (Raised e, p1)
      | (None, p1) \<Rightarrow>
          (case builder_append env p1 c b of
             (Value b', p2) \<Rightarrow>
               (let (r, p3) = append_row env (i + 1) bs p2 in (bind_outcome r (\<lambda>bs'. Value (b' # bs')), p3))
           | (Raised e, p2) \<Rightarrow> (Raised e, p2)
           | (Undefined, p2) \<Rightarrow> (Undefined, p2)))"

function fetch_columnar_loop ::
    "value_env \<Rightarrow> int \<Rightarrow> nat \<Rightarrow> columnar_builder list \<Rightarrow> ora_statement
       \<Rightarrow> (columnar_builder list \<times> nat) outcome \<times> ora_statement" where
  "fetch_columnar_loop env rows num_rows bs st =
     (case stmt_fetch st of
        (NoMoreData, st1) \<Rightarrow> (Value (bs, num_rows), st1)
      | (FetchFailed e, st1) \<Rightarrow> (Raised e, st1)
      | (GotRow, st1) \<Rightarrow>
          (case (if num_rows mod 100 = 0 then stmt_poll st1 else (None, st1)) of
             (Some e, st2) \<Rightarrow> (Raised e, st2)
           | (None, st2) \<Rightarrow>
               (case append_row env 0 (zip bs (st_row st2)) (st_polls st2) of
                  (Value bs', p) \<Rightarrow>
                    if rows > 0 \<and> int (num_rows + 1) = rows then (Value (bs', num_rows + 1), st2\<lparr>st_polls := p\<rparr>)
                    else fetch_columnar_loop env rows (num_rows + 1) bs' (st2\<lparr>st_polls := p\<rparr>)
                | (Raised e, p) \<Rightarrow> (Raised e, st2\<lparr>st_polls := p\<rparr>)
                | (Undefined, p) \<Rightarrow> (Undefined, st2\<lparr>st_polls := p\<rparr>))))"
  by pat_completeness auto
termination
  by (relation "measure (\<lambda>(env, rows, num_rows, bs, st). length (st_cursor st))")
     (auto dest!: stmt_fetch_shorter [OF sym] stmt_poll_cursor [OF sym] split: if_splits)

declare fetch_columnar_loop.simps [simp del]

fun finish_columns :: "nat \<Rightarrow> columnar_builder list \<Rightarrow> column_data ohash \<Rightarrow> polls \<Rightarrow> column_data ohash outcome \<times> polls" where
  "finish_columns i [] h p = (Value h, p)"
| "finish_columns i (b # bs) h p =
     (case column_poll i p of
        (Some e, p1) \<Rightarrow> (Raised e, p1)
      | (None, p1) \<Rightarrow> finish_columns (i + 1) bs (hash_set (ob_name b) (builder_finish b) h) p1)"

datatype columnar_result = EmptyColumnar | Columnar "column_data ohash" "column_desc ohash"

definition stmt_fetchColumnar ::
    "value_env \<Rightarrow> define_env \<Rightarrow> int \<Rightarrow> bool \<Rightarrow> result_set \<Rightarrow> int \<Rightarrow> ora_statement
       \<Rightarrow> columnar_result outcome \<times> result_set \<times> ora_statement" where
  "stmt_fetchColumnar env denv mcw utf8 rs rows st =
     (if st_fetch_warned st then (Raised (Exn ''ORACLE-SELECT-COLUMNAR-ERROR'' ''called after the end of data''), rs, st)
      else if st_fetch_complete st then (Value EmptyColumnar, rs, st\<lparr>st_fetch_warned := True\<rparr>)
      else case setPrefetch rows st of
        (Some e, st1) \<Rightarrow> (Raised e, rs, st1)
      | (None, st1) \<Rightarrow>
          (case stmt_define denv mcw rs of
             (rs', Some e) \<Rightarrow> (Raised e, rs', st1)
           | (rs', None) \<Rightarrow>
               (case make_builders (ve_number env) 0 (rs_clist rs') (\<lambda>_. 0) (st_polls st1) of
                  (Value bs, p) \<Rightarrow>
                    (case fetch_columnar_loop env rows 0 bs (st1\<lparr>st_polls := p\<rparr>) of
                       (Value (bs', n), st2) \<Rightarrow>
                         (let st3 = fetch_end rows n st2;
                              (r, p3) = finish_columns 0 bs' [] (st_polls st3)
                          in (bind_outcome r (\<lambda>h. Value (Columnar h (stmt_describe utf8 (rs_clist rs')))), rs', st3\<lparr>st_polls := p3\<rparr>))
                     | (Raised e, st2) \<Rightarrow> (Raised e, rs', st2)
                     | (Undefined, st2) \<Rightarrow> (Undefined, rs', st2))
                | (Raised e, p) \<Rightarrow> (Raised e, rs', st1\<lparr>st_polls := p\<rparr>)
                | (Undefined, p) \<Rightarrow> (Undefined, rs', st1\<lparr>st_polls := p\<rparr>))))"

section \<open>Keys of duplicate columns\<close>

lemma unique_key_loop_Suc: "unique_key_loop (Suc f) n num used =
     (if used (n @ ''_'' @ show_nat num) then unique_key_loop f n (Suc num) used else n @ ''_'' @ show_nat num)"
  by (simp add: Let_def)

lemma unique_key_loop_found:
  "m \<le> f \<Longrightarrow> \<not> used (n @ ''_'' @ show_nat (num + m)) \<Longrightarrow> (\<And>j. j < m \<Longrightarrow> used (n @ ''_'' @ show_nat (num + j))) \<Longrightarrow>
     unique_key_loop f n num used = n @ ''_'' @ show_nat (num + m)"
proof (induction f arbitrary: num m)
  case 0
  then show ?case by simp
next
  case (Suc f)
  show ?case
  proof (cases m)
    case 0
    with Suc.prems show ?thesis by (simp add: Let_def)
  next
    case (Suc m')
    have "used (n @ ''_'' @ show_nat (num + 0))" by (rule Suc.prems(3)) (simp add: Suc)
    moreover have "unique_key_loop f n (Suc num) used = n @ ''_'' @ show_nat (Suc num + m')"
    proof (rule Suc.IH)
      show "\<not> used (n @ ''_'' @ show_nat (Suc num + m'))" using Suc.prems(2) Suc by simp
      show "used (n @ ''_'' @ show_nat (Suc num + j))" if "j < m'" for j
        using Suc.prems(3) [of "Suc j"] that Suc by simp
    qed (use Suc Suc.prems in simp)
    ultimately show ?thesis using Suc by (simp add: Let_def)
  qed
qed

text \<open>Among \<open>length u + 1\<close> candidates one is free of the keys \<open>u\<close>.\<close>

lemma free_candidate:
  fixes u :: "string list"
  shows "\<exists>m \<le> length u. n @ ''_'' @ show_nat (num + m) \<notin> set u"
proof (rule ccontr)
  assume "\<not> ?thesis"
  then have "(\<lambda>m. n @ ''_'' @ show_nat (num + m)) ` {0..length u} \<subseteq> set u" by auto
  moreover have "inj_on (\<lambda>m. n @ ''_'' @ show_nat (num + m)) {0..length u}" by (rule inj_onI) simp
  ultimately have "card {0..length u} \<le> card (set u)" by (metis card_image card_mono List.finite_set)
  then show False using card_length [of u] by simp
qed

lemma unique_key_eq:
  assumes f: "length u \<le> f" and used: "\<And>k. used k \<longleftrightarrow> k \<in> set u"
  shows "unique_key n used f = unique_key n (\<lambda>k. k \<in> set u) (length u)"
    and "unique_key n used f \<notin> set u"
proof -
  have free: "\<exists>m. n @ ''_'' @ show_nat (1 + m) \<notin> set u" using free_candidate by blast
  define m where "m = (LEAST m. n @ ''_'' @ show_nat (1 + m) \<notin> set u)"
  have m: "n @ ''_'' @ show_nat (1 + m) \<notin> set u" unfolding m_def by (rule LeastI_ex [OF free])
  have below: "n @ ''_'' @ show_nat (1 + j) \<in> set u" if "j < m" for j
    using not_less_Least that unfolding m_def by blast
  obtain m' where "m' \<le> length u" "n @ ''_'' @ show_nat (1 + m') \<notin> set u" using free_candidate by blast
  then have le: "m \<le> length u" unfolding m_def by (meson Least_le le_trans)
  have "unique_key_loop f n 1 used = n @ ''_'' @ show_nat (1 + m)"
    using le f m below by (intro unique_key_loop_found) (auto simp: used)
  moreover have "unique_key_loop (length u) n 1 (\<lambda>k. k \<in> set u) = n @ ''_'' @ show_nat (1 + m)"
    using le m below by (intro unique_key_loop_found) auto
  ultimately show "unique_key n used f = unique_key n (\<lambda>k. k \<in> set u) (length u)" "unique_key n used f \<notin> set u"
    using m used by (simp_all add: unique_key_def)
qed

text \<open>The keys of a row depend on the column names only.\<close>

fun row_keys :: "string list \<Rightarrow> string list \<Rightarrow> string list" where
  "row_keys [] u = []"
| "row_keys (n # ns) u = (let k = unique_key n (\<lambda>k. k \<in> set u) (length u) in k # row_keys ns (u @ [k]))"

lemma row_keys_length [simp]: "length (row_keys ns u) = length ns"
  by (induction ns arbitrary: u) (simp_all add: Let_def)

lemma row_keys_fresh: "distinct (row_keys ns u) \<and> set (row_keys ns u) \<inter> set u = {}"
proof (induction ns arbitrary: u)
  case (Cons n ns)
  let ?k = "unique_key n (\<lambda>k. k \<in> set u) (length u)"
  have "?k \<notin> set u" by (rule unique_key_eq(2)) simp_all
  with Cons.IH [of "u @ [?k]"] show ?case by (auto simp: Let_def)
qed simp

lemma row_keys_cover: "set ns \<subseteq> set (row_keys ns u) \<union> set u"
proof (induction ns arbitrary: u)
  case (Cons n ns)
  let ?k = "unique_key n (\<lambda>k. k \<in> set u) (length u)"
  have "n \<in> set u \<or> ?k = n" by (simp add: unique_key_def)
  with Cons.IH [of "u @ [?k]"] show ?case by (auto simp: Let_def)
qed simp

section \<open>A row\<close>

text \<open>
  A cell reads as \<open>v\<close> in both directions; only a nested result set would not.
\<close>

definition cell_reads :: "value_env \<Rightarrow> ora_column \<Rightarrow> qval \<Rightarrow> bool" where
  "cell_reads env c v \<longleftrightarrow> fst (getValue env True False c) = Value v
     \<and> fst (getValue env False False c) = Value v \<and> v \<noteq> QNothing"

lemma assign_columns_keys:
  assumes "list_all2 (cell_reads env) (map snd wcs) vs"
    and "list_all (\<lambda>(k, v). v \<noteq> QNothing) h" "distinct (map fst h)"
  shows "assign_columns env wcs h = Value (h @ zip (row_keys (map (\<lambda>wc. cb_name (fst wc)) wcs) (map fst h)) vs)"
  using assms
proof (induction wcs arbitrary: h vs)
  case Nil
  then show ?case by simp
next
  case (Cons wc wcs)
  obtain w c where wc: "wc = (w, c)" by force
  from Cons.prems(1) wc obtain v vs' where vs: "vs = v # vs'" "cell_reads env c v"
    and r: "list_all2 (cell_reads env) (map snd wcs) vs'" by (auto simp: list_all2_Cons1)
  have used: "key_value h k \<noteq> QNothing \<longleftrightarrow> k \<in> set (map fst h)" for k
    using Cons.prems(2) by (auto simp: key_value_def list_all_iff dest: map_of_SomeD weak_map_of_SomeI split: option.splits)
       (metis map_of_eq_None_iff option.distinct(1) fst_conv image_eqI)
  let ?k = "unique_key (cb_name w) (\<lambda>k. k \<in> set (map fst h)) (length (map fst h))"
  have k: "unique_key (cb_name w) (\<lambda>k. key_value h k \<noteq> QNothing) (length h + 1) = ?k"
    by (rule unique_key_eq(1)) (simp_all add: used)
  have kn: "?k \<notin> set (map fst h)" by (rule unique_key_eq(2)) simp_all
  then have set: "hash_set ?k v h = h @ [(?k, v)]" by (intro hash_set_fresh) (simp add: map_of_eq_None_iff)
  have "assign_columns env wcs (h @ [(?k, v)])
      = Value ((h @ [(?k, v)]) @ zip (row_keys (map (\<lambda>wc. cb_name (fst wc)) wcs) (map fst (h @ [(?k, v)]))) vs')"
    using Cons.prems kn vs(2) by (intro Cons.IH [OF r]) (auto simp: cell_reads_def)
  with wc vs show ?case by (simp add: k [simplified] set [simplified] cell_reads_def Let_def)
qed

text \<open>One row of \<open>fetchColumns\<close> appends each value to the list of its key.\<close>

definition columns_at :: "nat \<Rightarrow> string list \<Rightarrow> string list \<Rightarrow> column_hash \<Rightarrow> bool" where
  "columns_at n u ks h \<longleftrightarrow>
     set u \<subseteq> dom (hash_get h)
     \<and> (\<forall>k l. hash_get h k = Some l \<longrightarrow> length l = (if k \<in> set u then Suc n else n))
     \<and> (n = 0 \<or> set ks \<subseteq> dom (hash_get h))"

lemma column_key_eq:
  assumes "columns_at n u ks h"
  shows "column_key name n h = unique_key name (\<lambda>k. k \<in> set u) (length u)"
proof -
  have used: "(case hash_get h k of None \<Rightarrow> False | Some l \<Rightarrow> if k = name then length l > n else length l \<noteq> n) \<longleftrightarrow> k \<in> set (remdups u)" for k
    using assms by (auto simp: columns_at_def split: option.splits)
  have "set u \<subseteq> fst ` set h" using assms by (simp add: columns_at_def dom_map_of_conv_image_fst)
  then have "card (set u) \<le> card (fst ` set h)" by (intro card_mono) auto
  also have "\<dots> \<le> length h" by (metis card_length length_map list.set_map)
  finally have "length (remdups u) \<le> length h + 1" by (simp add: length_remdups_card_conv)
  from unique_key_eq(1) [OF this used] have
    "column_key name n h = unique_key name (\<lambda>k. k \<in> set (remdups u)) (length (remdups u))"
    by (simp add: column_key_def)
  also have "\<dots> = unique_key name (\<lambda>k. k \<in> set u) (length u)"
    using unique_key_eq(1) [of "remdups u" "length u" "\<lambda>k. k \<in> set u" name] length_remdups_leq by simp
  finally show ?thesis .
qed

lemma columns_at_first: "columns_at n [] ks h \<Longrightarrow> hash_get h k = Some l \<Longrightarrow> length l = n"
  by (simp add: columns_at_def)

text \<open>The list under a key before a row.\<close>

definition list_at :: "column_hash \<Rightarrow> string \<Rightarrow> qval list" where
  "list_at h k = (case hash_get h k of None \<Rightarrow> [] | Some l \<Rightarrow> l)"

lemma fetch_column_row_appends:
  assumes "list_all2 (cell_reads env) (map snd wcs) vs"
    and "columns_at n u (u @ row_keys (map (\<lambda>wc. cb_name (fst wc)) wcs) u) h"
    and "set (map (\<lambda>wc. cb_name (fst wc)) wcs) \<subseteq> dom (hash_get h)"
    and "csize = Some n \<or> (csize = None \<and> u = [])"
  shows "\<exists>h'. fetch_column_row env wcs csize h [] = (h', [])
     \<and> dom (hash_get h') = dom (hash_get h) \<union> set (row_keys (map (\<lambda>wc. cb_name (fst wc)) wcs) u)
     \<and> (\<forall>k. list_at h' k = list_at h k @ (case map_of (zip (row_keys (map (\<lambda>wc. cb_name (fst wc)) wcs) u) vs) k of None \<Rightarrow> [] | Some v \<Rightarrow> [v]))"
  using assms
proof (induction wcs arbitrary: vs u h csize)
  case Nil
  then show ?case by simp
next
  case (Cons wc wcs)
  obtain w c where wc: "wc = (w, c)" by force
  from Cons.prems(1) wc obtain v vs' where vs: "vs = v # vs'" "cell_reads env c v"
    and r: "list_all2 (cell_reads env) (map snd wcs) vs'" by (auto simp: list_all2_Cons1)
  let ?k = "unique_key (cb_name w) (\<lambda>k. k \<in> set u) (length u)"
  let ?ns = "map (\<lambda>wc. cb_name (fst wc)) wcs"
  have kn: "?k \<notin> set u" by (rule unique_key_eq(2)) simp_all
  from Cons.prems(3) wc obtain l where l: "hash_get h (cb_name w) = Some l" by auto
  have cz: "(case csize of None \<Rightarrow> length l | Some m \<Rightarrow> m) = n"
    using Cons.prems(2,4) l by (auto simp: columns_at_def)
  have key: "(case csize of None \<Rightarrow> cb_name w | Some m \<Rightarrow> column_key (cb_name w) m h) = ?k"
    using Cons.prems(4) column_key_eq [OF Cons.prems(2), of "cb_name w"] by (auto simp: unique_key_def)
  let ?h1 = "case hash_get h ?k of None \<Rightarrow> hash_set ?k [] h | Some _ \<Rightarrow> h"
  let ?h2 = "hash_set ?k (list_at h ?k @ [v]) ?h1"
  have g: "hash_get ?h2 = (hash_get h)(?k \<mapsto> list_at h ?k @ [v])"
    by (auto simp: update_conv' split: option.split)
  have l1: "(case hash_get ?h1 ?k of None \<Rightarrow> [] | Some l' \<Rightarrow> l') = list_at h ?k"
    by (auto simp: list_at_def split: option.split)
  have "fetch_column_row env (wc # wcs) csize h [] = fetch_column_row env wcs (Some n) ?h2 []"
    using vs(2) l key cz l1 by (simp add: wc cell_reads_def Let_def)
  moreover have "length (list_at h ?k) = n"
    using Cons.prems(2) kn by (auto simp: wc list_at_def columns_at_def Let_def split: option.split)
  then have at: "columns_at n (u @ [?k]) ((u @ [?k]) @ row_keys ?ns (u @ [?k])) ?h2"
    using Cons.prems(2) kn wc unfolding columns_at_def g by (auto simp: Let_def)
  have "set ?ns \<subseteq> dom (hash_get ?h2)" using Cons.prems(3) unfolding g by auto
  from Cons.IH [OF r at this] obtain h' where
    h': "fetch_column_row env wcs (Some n) ?h2 [] = (h', [])"
      "dom (hash_get h') = dom (hash_get ?h2) \<union> set (row_keys ?ns (u @ [?k]))"
      "\<And>k. list_at h' k = list_at ?h2 k @ (case map_of (zip (row_keys ?ns (u @ [?k])) vs') k of None \<Rightarrow> [] | Some v \<Rightarrow> [v])"
    by auto
  have nk: "?k \<notin> set (row_keys ?ns (u @ [?k]))" using row_keys_fresh [of ?ns "u @ [?k]"] by auto
  have la: "list_at ?h2 k = list_at h k @ (if k = ?k then [v] else [])" for k
    by (auto simp: list_at_def update_conv' split: option.split)
  have "list_at h' k = list_at h k @ (case map_of (zip (row_keys (map (\<lambda>wc. cb_name (fst wc)) (wc # wcs)) u) vs) k of None \<Rightarrow> [] | Some v \<Rightarrow> [v])" for k
    using nk by (auto simp: h'(3) la wc vs(1) Let_def map_of_eq_None_iff set_zip split: option.splits dest!: map_of_SomeD in_set_zipE)
       
  moreover have "dom (hash_get h') = dom (hash_get h) \<union> set (row_keys (map (\<lambda>wc. cb_name (fst wc)) (wc # wcs)) u)"
    unfolding h'(2) g by (auto simp: wc Let_def)
  ultimately show ?case using h'(1) by auto
qed

section \<open>Whole fetches\<close>

text \<open>A cursor of readable rows, no cancellation, and a result set that is defined.\<close>

definition rows_read :: "value_env \<Rightarrow> column_buffer list \<Rightarrow> ora_column list list \<Rightarrow> qval list list \<Rightarrow> bool" where
  "rows_read env clist rs vss \<longleftrightarrow>
     list_all2 (\<lambda>cells vs. length cells = length clist \<and> list_all2 (cell_reads env) cells vs) rs vss"

definition ready_statement :: "ora_column list list \<Rightarrow> ora_statement \<Rightarrow> bool" where
  "ready_statement rs st \<longleftrightarrow> st_cursor st = map FetchRow rs \<and> st_polls st = [] \<and> st_attrs st = []
     \<and> \<not> st_fetch_complete st \<and> \<not> st_fetch_warned st"

abbreviation clist_keys :: "column_buffer list \<Rightarrow> string list" where
  "clist_keys clist \<equiv> row_keys (map cb_name clist) []"

lemma fetchRow_reads:
  assumes "length cells = length clist" "list_all2 (cell_reads env) cells vs" "st_row st = cells" "st_fetch_done st"
  shows "stmt_fetchRow env clist st = Value (zip (clist_keys clist) vs)"
proof -
  have "map snd (zip clist cells) = cells" "map (\<lambda>wc. cb_name (fst wc)) (zip clist cells) = map cb_name clist"
    using assms(1) by (simp_all add: map_snd_zip flip: map_map [of cb_name fst, unfolded comp_def])
  then show ?thesis
    using assms assign_columns_keys [of env "zip clist cells" vs "[]"] by (simp add: stmt_fetchRow_def)
qed

lemma stmt_poll_none [simp]: "st_polls st = [] \<Longrightarrow> stmt_poll st = (None, st)"
  by (simp add: stmt_poll_def check_cancel_def)

definition batch_size :: "int \<Rightarrow> nat \<Rightarrow> nat" where
  "batch_size rows n = (if rows > 0 then min (nat rows) n else n)"

lemma fetch_rows_loop_reads:
  assumes "rows_read env clist rs vss" "st_cursor st = map FetchRow rs" "st_polls st = []"
    and "rows > 0 \<longrightarrow> int (length l) < rows"
  shows "\<exists>row. fetch_rows_loop env clist rows n l st =
     (let k = batch_size (rows - (if rows > 0 then int (length l) else 0)) (length rs)
      in (Value (l @ map (zip (clist_keys clist)) (take k vss)),
          st\<lparr>st_cursor := map FetchRow (drop k rs), st_row := row, st_fetch_done := st_fetch_done st \<or> k > 0\<rparr>))"
  using assms
proof (induction rs arbitrary: vss n l st)
  case Nil
  then show ?case
    by (intro exI [of _ "st_row st"])
       (auto simp: fetch_rows_loop.simps [of _ _ _ _ _ st] stmt_fetch_def rows_read_def batch_size_def)
next
  case (Cons r rs)
  from Cons.prems(1) obtain vs vss' where vss: "vss = vs # vss'" "length r = length clist" "list_all2 (cell_reads env) r vs"
    and rd: "rows_read env clist rs vss'" by (auto simp: rows_read_def list_all2_Cons1)
  let ?st1 = "st\<lparr>st_cursor := map FetchRow rs, st_row := r, st_fetch_done := True\<rparr>"
  let ?h = "zip (clist_keys clist) vs"
  have h: "stmt_fetchRow env clist ?st1 = Value ?h" using vss by (intro fetchRow_reads) simp_all
  have step: "fetch_rows_loop env clist rows n l st =
      (if rows > 0 \<and> int (length (l @ [?h])) = rows then (Value (l @ [?h]), ?st1)
       else fetch_rows_loop env clist rows (n + 1) (l @ [?h]) ?st1)"
    using Cons.prems h by (simp add: fetch_rows_loop.simps [of _ _ _ _ _ st] stmt_fetch_def)
  show ?case
  proof (cases "rows > 0 \<and> int (length (l @ [?h])) = rows")
    case True
    then have "rows - int (length l) = 1" by simp
    with True show ?thesis unfolding step
      by (intro exI [of _ r]) (simp add: batch_size_def vss)
  next
    case False
    then have lt: "rows > 0 \<longrightarrow> int (length (l @ [?h])) < rows" using Cons.prems(4) by auto
    from Cons.IH [OF rd _ _ this, of ?st1 "n + 1"] Cons.prems obtain row where
      e: "fetch_rows_loop env clist rows (n + 1) (l @ [?h]) ?st1 =
       (let k = batch_size (rows - (if rows > 0 then int (length (l @ [?h])) else 0)) (length rs)
        in (Value ((l @ [?h]) @ map (zip (clist_keys clist)) (take k vss')),
          ?st1\<lparr>st_cursor := map FetchRow (drop k rs), st_row := row, st_fetch_done := st_fetch_done ?st1 \<or> k > 0\<rparr>))" by auto
    have k: "batch_size (rows - (if rows > 0 then int (length l) else 0)) (length (r # rs))
        = Suc (batch_size (rows - (if rows > 0 then int (length (l @ [?h])) else 0)) (length rs))"
      using lt by (auto simp: batch_size_def nat_diff_distrib split: if_splits)
    have "fetch_rows_loop env clist rows n l st = fetch_rows_loop env clist rows (n + 1) (l @ [?h]) ?st1"
      unfolding step using False by (simp only: if_False)
    then show ?thesis unfolding k e Let_def
      by (intro exI [of _ row]) (simp add: vss)
  qed
qed

text \<open>One call of \<open>fetchRows\<close> takes a block off the cursor.\<close>

lemma stmt_define_defined [simp]: "rs_defined rset \<Longrightarrow> stmt_define denv mcw rset = (rset, None)"
  by (simp add: stmt_define_def result_set_define_def)

lemma setPrefetch_ready:
  "ready_statement rs st \<Longrightarrow> \<exists>st'. setPrefetch rows st = (None, st') \<and> ready_statement rs st'"
  by (auto simp: setPrefetch_def ready_statement_def check_cancel_def Let_def)

lemma fetch_end_simps [simp]:
  "st_cursor (fetch_end rows n st) = st_cursor st" "st_polls (fetch_end rows n st) = st_polls st"
  "st_attrs (fetch_end rows n st) = st_attrs st" "st_fetch_warned (fetch_end rows n st) = st_fetch_warned st"
  "st_fetch_complete (fetch_end rows n st) \<longleftrightarrow> st_fetch_complete st \<or> int n < rows"
  by (simp_all add: fetch_end_def Let_def)

lemma fetchRows_block:
  assumes rd: "rows_read env (rs_clist rset) rs vss" and st: "ready_statement rs st" and d: "rs_defined rset"
  shows "\<exists>st'. stmt_fetchRows env denv mcw rset rows st =
      (Value (map (zip (clist_keys (rs_clist rset))) (take (batch_size rows (length rs)) vss)), rset, st')
    \<and> st_cursor st' = map FetchRow (drop (batch_size rows (length rs)) rs) \<and> st_polls st' = [] \<and> st_attrs st' = []
    \<and> \<not> st_fetch_warned st' \<and> (st_fetch_complete st' \<longleftrightarrow> int (length rs) < rows)"
proof -
  let ?k = "batch_size rows (length rs)" and ?keys = "clist_keys (rs_clist rset)"
  obtain st1 where p: "setPrefetch rows st = (None, st1)" "ready_statement rs st1" using setPrefetch_ready [OF st] by blast
  have len: "length vss = length rs" using rd by (simp add: rows_read_def list_all2_lengthD)
  have "st_cursor st1 = map FetchRow rs" "st_polls st1 = []" using p(2) by (simp_all add: ready_statement_def)
  from fetch_rows_loop_reads [OF rd this, of rows "[]" 0] obtain row where
    "fetch_rows_loop env (rs_clist rset) rows 0 [] st1 =
     (Value (map (zip ?keys) (take ?k vss)),
          st1\<lparr>st_cursor := map FetchRow (drop ?k rs), st_row := row, st_fetch_done := st_fetch_done st1 \<or> ?k > 0\<rparr>)"
    by (auto simp: Let_def)
  then obtain st2 where e: "fetch_rows_loop env (rs_clist rset) rows 0 [] st1 = (Value (map (zip ?keys) (take ?k vss)), st2)"
    and st2: "st_cursor st2 = map FetchRow (drop ?k rs)" "st_polls st2 = []" "st_attrs st2 = []"
      "\<not> st_fetch_warned st2" "\<not> st_fetch_complete st2"
    using p(2) by (auto simp: ready_statement_def)
  have k: "int (min (length rs) ?k) < rows \<longleftrightarrow> int (length rs) < rows" by (auto simp: batch_size_def min_def)
  have "stmt_fetchRows env denv mcw rset rows st =
      (Value (map (zip ?keys) (take ?k vss)), rset, fetch_end rows (min (length rs) ?k) st2)"
    using st d p(1) e by (simp add: stmt_fetchRows_def ready_statement_def len)
  then show ?thesis using st2 k by simp
qed

text \<open>Calling \<open>fetchRows\<close> until it raises.\<close>

fun fetch_batches ::
    "nat \<Rightarrow> value_env \<Rightarrow> define_env \<Rightarrow> int \<Rightarrow> result_set \<Rightarrow> int \<Rightarrow> ora_statement \<Rightarrow> qval ohash list list \<times> exn option" where
  "fetch_batches 0 env denv mcw rset rows st = ([], None)"
| "fetch_batches (Suc fuel) env denv mcw rset rows st =
     (case stmt_fetchRows env denv mcw rset rows st of
        (Value l, rset', st') \<Rightarrow>
          (let (ls, e) = fetch_batches fuel env denv mcw rset' rows st' in (l # ls, e))
      | (Raised e, rset', st') \<Rightarrow> ([], Some e)
      | (Undefined, rset', st') \<Rightarrow> ([], None))"

abbreviation fetch_rows_end_error :: exn where
  "fetch_rows_end_error \<equiv> Exn ''ORACLE-SELECT-ROWS-ERROR'' ''called after the end of data''"

lemma fetch_batches_complete:
  assumes "st_fetch_complete st" "\<not> st_fetch_warned st"
  shows "fetch_batches (Suc (Suc fuel)) env denv mcw rset rows st = ([[]], Some fetch_rows_end_error)"
  using assms by (simp add: stmt_fetchRows_def)

lemma fetch_batches_reads:
  assumes "rows_read env (rs_clist rset) rs vss" "ready_statement rs st" "rs_defined rset" "rows > 0" "length rs < fuel"
  shows "\<exists>ls. fetch_batches (fuel + 2) env denv mcw rset rows st = (ls, Some fetch_rows_end_error)
     \<and> concat ls = map (zip (clist_keys (rs_clist rset))) vss
     \<and> length ls = length rs div nat rows + 2 \<and> list_all (\<lambda>l. int (length l) \<le> rows) ls"
  using assms
proof (induction fuel arbitrary: rs vss st)
  case 0
  then show ?case by simp
next
  case (Suc fuel)
  let ?k = "batch_size rows (length rs)"
  have len: "length vss = length rs" using Suc.prems(1) by (simp add: rows_read_def list_all2_lengthD)
  from fetchRows_block [OF Suc.prems(1-3), of denv mcw rows] obtain st' where
    e: "stmt_fetchRows env denv mcw rset rows st =
      (Value (map (zip (clist_keys (rs_clist rset))) (take ?k vss)), rset, st')" and
    st': "st_cursor st' = map FetchRow (drop ?k rs)" "st_polls st' = []" "st_attrs st' = []"
      "\<not> st_fetch_warned st'" "st_fetch_complete st' \<longleftrightarrow> int (length rs) < rows" by blast
  show ?case
  proof (cases "int (length rs) < rows")
    case True
    then have k: "?k = length rs" "length rs div nat rows = 0" by (auto simp: batch_size_def)
    have "fetch_batches (Suc (Suc fuel)) env denv mcw rset rows st' = ([[]], Some fetch_rows_end_error)"
      using True st' by (intro fetch_batches_complete) simp_all
    then have "fetch_batches (Suc fuel + 2) env denv mcw rset rows st
        = ([map (zip (clist_keys (rs_clist rset))) vss, []], Some fetch_rows_end_error)"
      unfolding add_2_eq_Suc' fetch_batches.simps(2) [of "Suc (Suc fuel)"] e k using len by simp
    with True k len show ?thesis by simp
  next
    case False
    then have k: "?k = nat rows" "0 < ?k" "nat rows \<le> length rs" using Suc.prems(4) by (auto simp: batch_size_def)
    have "rows_read env (rs_clist rset) (drop ?k rs) (drop ?k vss)" "ready_statement (drop ?k rs) st'"
      using Suc.prems st' False by (simp_all add: rows_read_def ready_statement_def list_all2_dropI)
    moreover have "length (drop ?k rs) < fuel" using k Suc.prems(5) unfolding length_drop by linarith
    ultimately obtain ls where
      ls: "fetch_batches (fuel + 2) env denv mcw rset rows st' = (ls, Some fetch_rows_end_error)"
        "concat ls = map (zip (clist_keys (rs_clist rset))) (drop ?k vss)"
        "length ls = length (drop ?k rs) div nat rows + 2" "list_all (\<lambda>l. int (length l) \<le> rows) ls"
      using Suc.IH [OF _ _ Suc.prems(3,4)] by blast
    have "length rs div nat rows = Suc (length (drop ?k rs) div nat rows)"
      using k by (simp add: le_div_geq)
    moreover have "fetch_batches (Suc fuel + 2) env denv mcw rset rows st
        = (map (zip (clist_keys (rs_clist rset))) (take ?k vss) # ls, Some fetch_rows_end_error)"
      unfolding add_Suc fetch_batches.simps(2) [of "fuel + 2"] e using ls(1) by simp
    moreover have "map (zip (clist_keys (rs_clist rset))) (take ?k vss) @ map (zip (clist_keys (rs_clist rset))) (drop ?k vss)
        = map (zip (clist_keys (rs_clist rset))) vss" by (simp flip: map_append)
    moreover have "int (length (take ?k vss)) \<le> rows" using k(1) Suc.prems(4) by simp
    ultimately show ?thesis using ls(2-4) k by (simp del: length_take)
  qed
qed

section \<open>Columns are rows transposed\<close>

text \<open>The list of a key over the rows \<open>vss\<close>.\<close>

definition column_of :: "string list \<Rightarrow> qval list list \<Rightarrow> string \<Rightarrow> qval list" where
  "column_of keys vss k = map (\<lambda>vs. key_value (zip keys vs) k) vss"

definition columns_hold :: "string list \<Rightarrow> qval list list \<Rightarrow> column_hash \<Rightarrow> bool" where
  "columns_hold keys vss h \<longleftrightarrow> dom (hash_get h) = set keys \<and> (\<forall>k \<in> set keys. list_at h k = column_of keys vss k)"

lemma doColumns_dom: "dom (hash_get (doColumns ws h)) = dom (hash_get h) \<union> set (map cb_name ws)"
  by (induction ws arbitrary: h) (auto simp: update_conv')

lemma doColumns_empty: "(\<And>k l. hash_get h k = Some l \<Longrightarrow> l = []) \<Longrightarrow> hash_get (doColumns ws h) k = Some l \<Longrightarrow> l = []"
proof (induction ws arbitrary: h)
  case (Cons w ws)
  from Cons.prems(2) have "hash_get (doColumns ws (hash_set (cb_name w) [] h)) k = Some l" by simp
  then show ?case by (rule Cons.IH [rotated]) (use Cons.prems(1) in \<open>auto simp: update_conv' split: if_splits\<close>)
qed simp

text \<open>The hash a row is added to: fresh lists for the first row, or the columns so far.\<close>

definition row_ready :: "column_buffer list \<Rightarrow> qval list list \<Rightarrow> column_hash \<Rightarrow> bool" where
  "row_ready clist acc h \<longleftrightarrow>
     (if acc = [] then dom (hash_get h) = set (map cb_name clist) \<and> (\<forall>k l. hash_get h k = Some l \<longrightarrow> l = [])
      else columns_hold (clist_keys clist) acc h)"

lemma fetch_column_row_hold:
  assumes rdy: "row_ready clist acc h" and len: "length cells = length clist" and rd: "list_all2 (cell_reads env) cells vs"
  shows "\<exists>h'. fetch_column_row env (zip clist cells) None h [] = (h', []) \<and> columns_hold (clist_keys clist) (acc @ [vs]) h'"
proof -
  let ?keys = "clist_keys clist"
  have z: "map snd (zip clist cells) = cells" "map (\<lambda>wc. cb_name (fst wc)) (zip clist cells) = map cb_name clist"
    using len by (simp_all add: map_snd_zip flip: map_map [of cb_name fst, unfolded comp_def])
  have lv: "length vs = length clist" using rd len by (simp add: list_all2_lengthD)
  have cover: "set (map cb_name clist) \<subseteq> set ?keys" using row_keys_cover [of "map cb_name clist" "[]"] by simp
  have dom: "dom (hash_get h) = (if acc = [] then set (map cb_name clist) else set ?keys)"
    using rdy by (simp add: row_ready_def columns_hold_def split: if_splits)
  have la: "list_at h k = column_of ?keys acc k" if "k \<in> set ?keys" for k
  proof (cases "acc = []")
    case True
    with rdy show ?thesis by (auto simp: row_ready_def list_at_def column_of_def split: option.split)
  next
    case False
    with rdy that show ?thesis by (simp add: row_ready_def columns_hold_def)
  qed
  have "length l = length acc" if "hash_get h k = Some l" for k l
  proof -
    have "k \<in> dom (hash_get h)" using that by (rule domI)
    then have "k \<in> set ?keys" unfolding dom using cover by (cases "acc = []") auto
    from la [OF this] that have "l = column_of ?keys acc k" by (simp add: list_at_def)
    then show ?thesis by (simp add: column_of_def)
  qed
  then have "columns_at (length acc) [] ([] @ row_keys (map cb_name clist) []) h"
    using dom by (auto simp: columns_at_def)
  from fetch_column_row_appends [of env "zip clist cells" vs "length acc" "[]" h None, unfolded z, OF rd this]
  obtain h' where h': "fetch_column_row env (zip clist cells) None h [] = (h', [])"
     "dom (hash_get h') = dom (hash_get h) \<union> set ?keys"
     "\<And>k. list_at h' k = list_at h k @ (case map_of (zip ?keys vs) k of None \<Rightarrow> [] | Some v \<Rightarrow> [v])"
    using cover unfolding dom by (cases "acc = []") auto
  have "list_at h' k = column_of ?keys (acc @ [vs]) k" if "k \<in> set ?keys" for k
  proof -
    have "map_of (zip ?keys vs) k \<noteq> None" using that lv by (simp add: map_of_zip_is_None)
    then show ?thesis by (auto simp: h'(3) la [OF that] column_of_def key_value_def)
  qed
  moreover have "dom (hash_get h') = set ?keys" using h'(2) dom cover by auto
  ultimately show ?thesis using h'(1) by (auto simp: columns_hold_def)
qed

lemma hold_nonempty: "columns_hold keys vss h \<Longrightarrow> keys \<noteq> [] \<Longrightarrow> h \<noteq> []"
  by (auto simp: columns_hold_def)

lemma fetch_columns_loop_reads:
  assumes "rows_read env clist rs vss" "st_cursor st = map FetchRow rs" "clist \<noteq> []"
    and "if acc = [] then h = [] \<or> row_ready clist [] h else columns_hold (clist_keys clist) acc h"
    and "rows > 0 \<longrightarrow> int (length acc) < rows"
  shows "\<exists>h' st'. fetch_columns_loop env clist rows (length acc) h [] st = (h', length acc + length (take (batch_size (rows - (if rows > 0 then int (length acc) else 0)) (length rs)) vss), [], st')
     \<and> (acc @ take (batch_size (rows - (if rows > 0 then int (length acc) else 0)) (length rs)) vss \<noteq> [] \<longrightarrow>
          columns_hold (clist_keys clist) (acc @ take (batch_size (rows - (if rows > 0 then int (length acc) else 0)) (length rs)) vss) h')"
  using assms
proof (induction rs arbitrary: vss acc h st)
  case Nil
  then show ?case
    by (auto simp: fetch_columns_loop.simps [of _ _ _ _ _ _ st] stmt_fetch_def rows_read_def)
next
  case (Cons r rs)
  from Cons.prems(1) obtain vs vss' where vss: "vss = vs # vss'" "length r = length clist" "list_all2 (cell_reads env) r vs"
    and rd: "rows_read env clist rs vss'" by (auto simp: rows_read_def list_all2_Cons1)
  let ?st1 = "st\<lparr>st_cursor := map FetchRow rs, st_row := r, st_fetch_done := True\<rparr>"
  let ?h0 = "if h = [] then doColumns clist h else h"
  have keys: "clist_keys clist \<noteq> []" using Cons.prems(3) by (metis length_0_conv length_map row_keys_length)
  have fresh: "row_ready clist [] (doColumns clist [])"
    using doColumns_dom [of clist "[]"] doColumns_empty [of "[]" clist] by (auto simp: row_ready_def)
  have "row_ready clist acc ?h0"
  proof (cases "acc = []")
    case True
    with fresh Cons.prems(4) show ?thesis by auto
  next
    case False
    with Cons.prems(4) have "columns_hold (clist_keys clist) acc h" by simp
    with hold_nonempty [OF this keys] False show ?thesis by (simp add: row_ready_def)
  qed
  from fetch_column_row_hold [OF this vss(2,3)] obtain h1 where
    h1: "fetch_column_row env (zip clist r) None ?h0 [] = (h1, [])" "columns_hold (clist_keys clist) (acc @ [vs]) h1" by blast
  have step: "fetch_columns_loop env clist rows (length acc) h [] st =
      (if rows > 0 \<and> int (length acc + 1) = rows then (h1, length acc + 1, [], ?st1)
       else fetch_columns_loop env clist rows (length (acc @ [vs])) h1 [] ?st1)"
    using Cons.prems(2) h1(1) by (simp add: fetch_columns_loop.simps [of _ _ _ _ _ _ st] stmt_fetch_def)
  show ?case
  proof (cases "rows > 0 \<and> int (length acc + 1) = rows")
    case True
    then have "rows - int (length acc) = 1" by simp
    with True h1(2) show ?thesis unfolding step by (simp add: batch_size_def vss)
  next
    case False
    then have lt: "rows > 0 \<longrightarrow> int (length (acc @ [vs])) < rows" using Cons.prems(5) by auto
    let ?k = "batch_size (rows - (if rows > 0 then int (length (acc @ [vs])) else 0)) (length rs)"
    have k: "batch_size (rows - (if rows > 0 then int (length acc) else 0)) (length (r # rs)) = Suc ?k"
      using lt by (auto simp: batch_size_def nat_diff_distrib split: if_splits)
    have "\<exists>h' st'. fetch_columns_loop env clist rows (length (acc @ [vs])) h1 [] ?st1 = (h', length (acc @ [vs]) + length (take ?k vss'), [], st')
       \<and> (((acc @ [vs]) @ take ?k vss') \<noteq> [] \<longrightarrow> columns_hold (clist_keys clist) ((acc @ [vs]) @ take ?k vss') h')"
      using h1(2) by (intro Cons.IH [OF rd _ Cons.prems(3) _ lt]) simp_all
    moreover have "fetch_columns_loop env clist rows (length acc) h [] st = fetch_columns_loop env clist rows (length (acc @ [vs])) h1 [] ?st1"
      unfolding step using False by (simp only: if_False)
    ultimately show ?thesis unfolding k by (auto simp: vss)
  qed
qed

lemma fetchColumns_block:
  assumes rd: "rows_read env (rs_clist rset) rs vss" and st: "ready_statement rs st" and d: "rs_defined rset"
    and ne: "rs_clist rset \<noteq> []"
  shows "\<exists>h st'. stmt_fetchColumns env denv mcw rset rows cols st = (Value h, rset, st')
    \<and> (take (batch_size rows (length rs)) vss \<noteq> [] \<longrightarrow>
         columns_hold (clist_keys (rs_clist rset)) (take (batch_size rows (length rs)) vss) h)"
proof -
  obtain st1 where p: "setPrefetch rows st = (None, st1)" "ready_statement rs st1" using setPrefetch_ready [OF st] by blast
  let ?h0 = "if cols then doColumns (rs_clist rset) [] else []"
  have "?h0 = [] \<or> row_ready (rs_clist rset) [] ?h0"
    using doColumns_dom [of "rs_clist rset" "[]"] doColumns_empty [of "[]" "rs_clist rset"] by (auto simp: row_ready_def)
  then have h0: "if [] = ([] :: qval list list) then ?h0 = [] \<or> row_ready (rs_clist rset) [] ?h0
       else columns_hold (clist_keys (rs_clist rset)) [] ?h0" by simp
  have cur: "st_cursor st1 = map FetchRow rs" and pos: "rows > 0 \<longrightarrow> int (length ([] :: qval list list)) < rows"
    using p(2) by (simp_all add: ready_statement_def)
  from fetch_columns_loop_reads [OF rd cur ne h0 pos] obtain h' st2 where
    "fetch_columns_loop env (rs_clist rset) rows 0 ?h0 [] st1 = (h', length (take (batch_size rows (length rs)) vss), [], st2)"
    "take (batch_size rows (length rs)) vss \<noteq> [] \<longrightarrow> columns_hold (clist_keys (rs_clist rset)) (take (batch_size rows (length rs)) vss) h'"
    unfolding list.size append_Nil int_ops(1) if_cancel diff_zero add_0 by blast
  then show ?thesis using st d p(1) by (simp add: stmt_fetchColumns_def ready_statement_def)
qed

section \<open>The fetch state\<close>

text \<open>
  The state machine of a statement: the fetch calls with any arguments and any answers of the
  environment, and \<open>reset\<close>.
\<close>

inductive fetch_step :: "ora_statement \<Rightarrow> ora_statement \<Rightarrow> bool" where
  step_rows: "stmt_fetchRows env denv mcw rset rows st = (r, rset', st') \<Longrightarrow> fetch_step st st'"
| step_columns: "stmt_fetchColumns env denv mcw rset rows cols st = (r, rset', st') \<Longrightarrow> fetch_step st st'"
| step_columnar: "stmt_fetchColumnar env denv mcw utf8 rset rows st = (r, rset', st') \<Longrightarrow> fetch_step st st'"
| step_next: "stmt_fetch st = (f, st') \<Longrightarrow> fetch_step st st'"
| step_single: "stmt_fetchSingleRow env denv mcw rset st = (r, st') \<Longrightarrow> fetch_step st st'"
| step_array: "setArraySize n st = (e, st') \<Longrightarrow> fetch_step st st'"
| step_reset: "fetch_step st (statement_reset st)"

inductive_cases fetch_stepE: "fetch_step st st'"

definition fetch_init :: "ora_statement \<Rightarrow> bool" where
  "fetch_init st \<longleftrightarrow> (\<exists>c p a. st = statement_init c p a)"

definition fetch_inv :: "ora_statement \<Rightarrow> bool" where
  "fetch_inv st \<longleftrightarrow> 1 \<le> st_prefetch_rows st \<and> st_prefetch_rows st \<le> PREFETCH_MAX
     \<and> (st_fetch_warned st \<longrightarrow> st_fetch_complete st)"

definition fetch_flags :: "ora_statement \<Rightarrow> int \<times> bool \<times> bool" where
  "fetch_flags st = (st_prefetch_rows st, st_fetch_complete st, st_fetch_warned st)"

lemma fetch_inv_flags: "fetch_flags st = fetch_flags st' \<Longrightarrow> fetch_inv st \<longleftrightarrow> fetch_inv st'"
  by (simp add: fetch_flags_def fetch_inv_def)

lemma stmt_fetch_flags: "stmt_fetch st = (f, st') \<Longrightarrow> fetch_flags st' = fetch_flags st"
  by (auto simp: stmt_fetch_def fetch_flags_def split: list.splits fetch_event.splits)

lemma stmt_poll_flags: "stmt_poll st = (f, st') \<Longrightarrow> fetch_flags st' = fetch_flags st"
  by (auto simp: stmt_poll_def fetch_flags_def split: prod.splits)

lemma polls_flags [simp]: "fetch_flags (st\<lparr>st_polls := p\<rparr>) = fetch_flags st"
  by (simp add: fetch_flags_def)

lemma fetch_got:
  "stmt_fetch st = (f, st1) \<Longrightarrow>
     fetch_flags st1 = fetch_flags st \<and> (f = GotRow \<longrightarrow> length (st_cursor st1) < length (st_cursor st))"
  by (auto simp: stmt_fetch_shorter stmt_fetch_flags)

lemma poll_got: "stmt_poll st1 = (e, st2) \<Longrightarrow> st_cursor st2 = st_cursor st1 \<and> fetch_flags st2 = fetch_flags st1"
  by (simp add: stmt_poll_flags)

lemmas loop_splits = prod.splits fetched.splits option.splits outcome.splits if_splits

lemma fetch_rows_loop_flags:
  "fetch_rows_loop env clist rows n l st = (r, st') \<Longrightarrow> fetch_flags st' = fetch_flags st"
proof (induction "length (st_cursor st)" arbitrary: n l st rule: less_induct)
  case less
  note ih = less.hyps [rotated]
  show ?case
    using less.prems unfolding fetch_rows_loop.simps [of _ _ _ _ _ st]
    by (auto split: loop_splits dest!: ih fetch_got poll_got)
qed

lemma fetch_columns_loop_flags:
  "fetch_columns_loop env clist rows n h xs st = (h', m, xs', st') \<Longrightarrow> fetch_flags st' = fetch_flags st"
proof (induction "length (st_cursor st)" arbitrary: n h xs st rule: less_induct)
  case less
  note ih = less.hyps [rotated]
  show ?case
    using less.prems unfolding fetch_columns_loop.simps [of _ _ _ _ _ _ st] Let_def
    by (auto split: loop_splits dest!: ih fetch_got)
qed

lemma fetch_columnar_loop_flags:
  "fetch_columnar_loop env rows n bs st = (r, st') \<Longrightarrow> fetch_flags st' = fetch_flags st"
proof (induction "length (st_cursor st)" arbitrary: n bs st rule: less_induct)
  case less
  note ih = less.hyps [rotated]
  have ih': "fetch_columnar_loop env rows n bs (st1\<lparr>st_polls := p\<rparr>) = (r, st') \<Longrightarrow>
      length (st_cursor st1) < length (st_cursor st) \<Longrightarrow> fetch_flags st1 = fetch_flags st \<Longrightarrow> fetch_flags st' = fetch_flags st" for n bs st1 p
    using ih [of _ _ "st1\<lparr>st_polls := p\<rparr>"] by simp
  show ?case
    using less.prems unfolding fetch_columnar_loop.simps [of _ _ _ _ st]
    by (auto split: loop_splits dest!: ih' fetch_got poll_got)
qed

lemma setPrefetch_inv [inv_intros]: "fetch_inv st \<Longrightarrow> setPrefetch rows st = (e, st') \<Longrightarrow> fetch_inv st'"
  by (auto simp: setPrefetch_def fetch_inv_def PREFETCH_BULK_def PREFETCH_MAX_def PREFETCH_DEFAULT_def Let_def
      split: if_splits prod.splits option.splits)

lemma fetch_end_inv [inv_intros]: "fetch_inv st \<Longrightarrow> fetch_inv (fetch_end rows n st)"
  by (simp add: fetch_inv_def) (simp add: fetch_end_def Let_def)

lemma stmt_fetch_inv [inv_intros]: "fetch_inv st \<Longrightarrow> stmt_fetch st = (f, st') \<Longrightarrow> fetch_inv st'"
  using fetch_got [of st f st'] fetch_inv_flags [of st' st] by simp

lemma polls_inv [simp]: "fetch_inv (st\<lparr>st_polls := p\<rparr>) \<longleftrightarrow> fetch_inv st"
  by (rule fetch_inv_flags) simp

lemma warned_inv [simp]: "st_fetch_complete st \<Longrightarrow> fetch_inv (st\<lparr>st_fetch_warned := True\<rparr>) \<longleftrightarrow> fetch_inv st"
  by (simp add: fetch_inv_def)

lemma fetchRows_inv [inv_intros]:
  assumes "fetch_inv st" "stmt_fetchRows env denv mcw rset rows st = (r, rset', st')"
  shows "fetch_inv st'"
proof -
  have loop: "fetch_inv st1 \<Longrightarrow> fetch_rows_loop env c rows n l st1 = (r', st2) \<Longrightarrow> fetch_inv st2" for st1 st2 c n l r'
    using fetch_rows_loop_flags fetch_inv_flags by metis
  show ?thesis using assms unfolding stmt_fetchRows_def
    by (auto split: loop_splits dest: setPrefetch_inv loop intro: fetch_end_inv)
qed

lemma fetchColumns_inv [inv_intros]:
  assumes "fetch_inv st" "stmt_fetchColumns env denv mcw rset rows cols st = (r, rset', st')"
  shows "fetch_inv st'"
proof -
  have loop: "fetch_inv st1 \<Longrightarrow> fetch_columns_loop env c rows n h xs st1 = (h', m, xs', st2) \<Longrightarrow> fetch_inv st2" for st1 st2 c n h h' m xs xs'
    using fetch_columns_loop_flags fetch_inv_flags by metis
  show ?thesis using assms unfolding stmt_fetchColumns_def Let_def
    by (auto split: loop_splits list.splits dest: setPrefetch_inv loop intro: fetch_end_inv)
qed

lemma fetchColumnar_inv [inv_intros]:
  assumes "fetch_inv st" "stmt_fetchColumnar env denv mcw utf8 rset rows st = (r, rset', st')"
  shows "fetch_inv st'"
proof -
  have loop: "fetch_inv st1 \<Longrightarrow> fetch_columnar_loop env rows n bs (st1\<lparr>st_polls := p\<rparr>) = (r', st2) \<Longrightarrow> fetch_inv st2" for st1 st2 n bs r' p
    using fetch_columnar_loop_flags fetch_inv_flags polls_flags by metis
  show ?thesis using assms unfolding stmt_fetchColumnar_def Let_def
    by (auto split: loop_splits) (blast intro: fetch_end_inv loop setPrefetch_inv)+
qed

lemma fetchSingle_inv [inv_intros]:
  "fetch_inv st \<Longrightarrow> stmt_fetchSingleRow env denv mcw rset st = (r, st') \<Longrightarrow> fetch_inv st'"
  unfolding stmt_fetchSingleRow_def
  by (auto split: loop_splits) (blast intro: setPrefetch_inv stmt_fetch_inv)+

lemma setArraySize_inv [inv_intros]: "fetch_inv st \<Longrightarrow> setArraySize n st = (e, st') \<Longrightarrow> fetch_inv st'"
  by (auto simp: setArraySize_def fetch_inv_def split: if_splits)

lemma reset_inv [inv_intros]: "fetch_inv st \<Longrightarrow> fetch_inv (statement_reset st)"
  by (simp add: statement_reset_def fetch_inv_def)

interpretation fetch: transition_invariant fetch_init fetch_step fetch_inv
proof
  show "fetch_init st \<Longrightarrow> fetch_inv st" for st
    by (auto simp: fetch_init_def statement_init_def fetch_inv_def PREFETCH_MAX_def)
  show "fetch_inv st \<Longrightarrow> fetch_step st st' \<Longrightarrow> fetch_inv st'" for st st'
    by (erule fetch_stepE) (auto intro: inv_intros)
qed

text \<open>The description of a column against the values it yields.\<close>

definition reader_ok :: "(nat \<Rightarrow> qval outcome) \<Rightarrow> qtype \<Rightarrow> bool" where
  "reader_ok f t \<longleftrightarrow> (\<forall>h v. f h = Value v \<longrightarrow> v = QNull \<or> qtype_of v = t)"

definition readers_ok :: "value_env \<Rightarrow> bool" where
  "readers_ok env \<longleftrightarrow> reader_ok (ve_timestamp env True) NT_DATE \<and> reader_ok (ve_timestamp env False) NT_DATE
     \<and> reader_ok (ve_interval_ym env) NT_DATE \<and> reader_ok (ve_interval_ds env) NT_DATE
     \<and> reader_ok (ve_clob env) NT_STRING \<and> reader_ok (ve_blob env) NT_BINARY \<and> reader_ok (ve_object env) NT_HASH"

lemma number_node_types: "qtype_of (number_node v) \<in> {NT_INT, NT_NUMBER}"
  by (cases v) simp_all

lemma describe_type:
  "cd_type (describe_column utf8 w) = t \<Longrightarrow>
     t = (if is_int_type (cb_dtype w) then Some NT_INT else if is_float_type (cb_dtype w) then Some NT_FLOAT
          else if is_timestamp_type (cb_dtype w) \<or> cb_dtype w \<in> {SQLT_DAT, SQLT_INTERVAL_YM, SQLT_INTERVAL_DS} then Some NT_DATE
          else if cb_dtype w \<in> {SQLT_CHR, SQLT_AFC, SQLT_AVC, SQLT_CLOB, SQLT_RDD} then Some NT_STRING
          else if cb_dtype w = SQLT_BLOB then Some NT_BINARY else if cb_dtype w = SQLT_NUM then Some NT_NUMBER
          else if cb_dtype w = SQLT_NTY then Some NT_HASH else None)"
  by (cases "cb_dtype w") (auto simp: describe_column_def type_class_defs Let_def)

section \<open>Properties\<close>

text \<open>C17: Fetching in blocks.  Calling \<open>fetchRows(n)\<close> over and over on a cursor of readable rows
  returns every row exactly once and in order, in blocks of at most \<open>n\<close> rows, then empty lists,
  and then the error that the end of the data was already received; it takes
  \<open>rows div n + 2\<close> calls that return.  The keys of every row are the column names with duplicates
  renamed, the same for every row.\<close>

theorem fetch_rows_in_blocks:
  assumes "rows_read env (rs_clist rset) rs vss" "ready_statement rs st" "rs_defined rset" "rows > 0"
  shows "\<exists>ls. fetch_batches (length rs + 3) env denv mcw rset rows st = (ls, Some fetch_rows_end_error)
     \<and> concat ls = map (zip (clist_keys (rs_clist rset))) vss
     \<and> length ls = length rs div nat rows + 2 \<and> list_all (\<lambda>l. int (length l) \<le> rows) ls
     \<and> distinct (clist_keys (rs_clist rset))"
  using fetch_batches_reads [OF assms, of "Suc (length rs)" denv mcw] row_keys_fresh [of "map cb_name (rs_clist rset)" "[]"]
  by (simp add: numeral_3_eq_3 del: fetch_batches.simps)

text \<open>C16: Columns are rows transposed.  On the same cursor, \<open>fetchColumns\<close> and \<open>fetchRows\<close> agree: the
  hash of lists has exactly the keys of the rows, and under each key the values of that key in
  the rows, in order.\<close>

theorem fetch_columns_transpose:
  assumes "rows_read env (rs_clist rset) rs vss" "ready_statement rs st" "rs_defined rset" "rs_clist rset \<noteq> []"
    and "fst (stmt_fetchRows env denv mcw rset rows st) = Value l" "l \<noteq> []"
    and "fst (stmt_fetchColumns env denv mcw rset rows cols st) = Value h"
  shows "hash_get h k = (if k \<in> set (clist_keys (rs_clist rset)) then Some (map (\<lambda>r. key_value r k) l) else None)"
proof -
  let ?keys = "clist_keys (rs_clist rset)" and ?vss = "take (batch_size rows (length rs)) vss"
  from fetchRows_block [OF assms(1-3), of denv mcw rows] assms(5) have l: "l = map (zip ?keys) ?vss" by auto
  with assms(6) have "?vss \<noteq> []" by auto
  with fetchColumns_block [OF assms(1-4), of denv mcw rows cols] assms(7) have c: "columns_hold ?keys ?vss h" by auto
  then have d: "dom (hash_get h) = set ?keys" by (simp add: columns_hold_def)
  show ?thesis
  proof (cases "k \<in> set ?keys")
    case True
    with d obtain x where x: "hash_get h k = Some x" by auto
    moreover have "list_at h k = column_of ?keys ?vss k" using c True by (simp add: columns_hold_def)
    ultimately show ?thesis using True l by (simp add: list_at_def column_of_def)
  next
    case False
    with d show ?thesis by auto
  qed
qed

text \<open>Invariant of the fetch state.  Whatever the sequence of fetch calls, resets and array binds
  and whatever the server answers, the prefetch count stays between 1 and the maximum and the
  "end of data" warning is only armed after the data is complete.\<close>

theorem fetch_state_invariant:
  assumes "reach fetch_init fetch_step st"
  shows "1 \<le> st_prefetch_rows st \<and> st_prefetch_rows st \<le> 32767 \<and> (st_fetch_warned st \<longrightarrow> st_fetch_complete st)"
  using fetch.reachable_inv [OF assms] by (simp add: fetch_inv_def PREFETCH_MAX_def)


text \<open>A result set of two integer columns with the same name, for concrete runs.\<close>

definition int_cell :: "int \<Rightarrow> ora_column" where
  "int_cell i = \<lparr>cv_buf = BufI8 i, cv_dtype = SQLT_INT, cv_subdtype = NTY_NONE, cv_ind = 0,
     cv_array = False, cv_alt_output = False\<rparr>"

definition two_columns :: result_set where
  "two_columns = \<lparr>rs_defined = True,
     rs_clist = [column_buffer_init ''A'' 8 SQLT_INT 0 0 0 NTY_NONE [], column_buffer_init ''A'' 8 SQLT_INT 0 0 0 NTY_NONE []]\<rparr>"

definition three_rows :: "ora_column list list" where
  "three_rows = map (map int_cell) [[1, 10], [2, 20], [3, 30]]"

definition three_rows_values :: "qval list list" where
  "three_rows_values = map (map QInt) [[1, 10], [2, 20], [3, 30]]"

lemma int_cell_reads: "cell_reads env (int_cell i) (QInt i)"
  by (simp add: cell_reads_def getValue_def int_cell_def is_int_type_def)

lemma two_columns_read: "rows_read value_env0 (rs_clist two_columns) three_rows three_rows_values"
  by (simp add: rows_read_def three_rows_def three_rows_values_def two_columns_def int_cell_reads)

lemma two_columns_keys: "clist_keys (rs_clist two_columns) = [''a'', ''a_1'']"
  by code_simp

lemma three_rows_ready: "ready_statement three_rows (statement_init (map FetchRow three_rows) [] [])"
  by (simp add: ready_statement_def statement_init_def)

lemma two_columns_defined: "rs_defined two_columns" "rs_clist two_columns \<noteq> []"
  by (simp_all add: two_columns_def)

theorem fetch_rows_in_blocks_witness:
  "\<exists>ls. fetch_batches (length three_rows + 3) value_env0 (\<lambda>_ _. None) 4 two_columns 2
          (statement_init (map FetchRow three_rows) [] []) = (ls, Some fetch_rows_end_error)
     \<and> concat ls = [[(''a'', QInt 1), (''a_1'', QInt 10)], [(''a'', QInt 2), (''a_1'', QInt 20)], [(''a'', QInt 3), (''a_1'', QInt 30)]]
     \<and> length ls = 3"
  using fetch_rows_in_blocks [OF two_columns_read three_rows_ready two_columns_defined(1), of 2 "\<lambda>_ _. None" 4]
  by (auto simp: two_columns_keys three_rows_values_def three_rows_def)

theorem fetch_columns_transpose_witness:
  "\<exists>l h. fst (stmt_fetchRows value_env0 (\<lambda>_ _. None) 4 two_columns (- 1) (statement_init (map FetchRow three_rows) [] [])) = Value l
     \<and> fst (stmt_fetchColumns value_env0 (\<lambda>_ _. None) 4 two_columns (- 1) False (statement_init (map FetchRow three_rows) [] [])) = Value h
     \<and> length l = 3 \<and> hash_get h ''a_1'' = Some (map (\<lambda>r. key_value r ''a_1'') l)"
proof -
  let ?st = "statement_init (map FetchRow three_rows) [] []"
  obtain l where l: "fst (stmt_fetchRows value_env0 (\<lambda>_ _. None) 4 two_columns (- 1) ?st) = Value l" "length l = 3"
    using fetchRows_block [OF two_columns_read three_rows_ready two_columns_defined(1), of "\<lambda>_ _. None" 4 "- 1"]
    by (auto simp: batch_size_def three_rows_def three_rows_values_def)
  obtain h where h: "fst (stmt_fetchColumns value_env0 (\<lambda>_ _. None) 4 two_columns (- 1) False ?st) = Value h"
    using fetchColumns_block [OF two_columns_read three_rows_ready two_columns_defined, of "\<lambda>_ _. None" 4 "- 1" False] by auto
  have "l \<noteq> []" using l(2) by auto
  from fetch_columns_transpose [OF two_columns_read three_rows_ready two_columns_defined l(1) this h, of "''a_1''"]
  have "hash_get h ''a_1'' = Some (map (\<lambda>r. key_value r ''a_1'') l)" by (simp add: two_columns_keys)
  with l h show ?thesis by blast
qed

definition fetch_one :: "ora_statement \<Rightarrow> ora_statement" where
  "fetch_one st = snd (snd (stmt_fetchRows value_env0 (\<lambda>_ _. None) 4 two_columns 1 st))"

theorem fetch_state_invariant_witness:
  "\<exists>st. reach fetch_init fetch_step st \<and> st_fetch_warned st \<and> st_fetch_complete st"
proof -
  let ?st = "fetch_one (fetch_one (statement_init [FetchNoData] [] []))"
  have step: "reach fetch_init fetch_step st \<Longrightarrow> reach fetch_init fetch_step (fetch_one st)" for st
    unfolding fetch_one_def by (metis reach_step step_rows prod.collapse)
  have "reach fetch_init fetch_step (statement_init [FetchNoData] [] [])"
    by (rule reach_init) (auto simp: fetch_init_def)
  then have r: "reach fetch_init fetch_step ?st" by (intro step)
  moreover have w: "st_fetch_warned ?st" by code_simp
  ultimately show ?thesis using fetch_state_invariant [OF r] by blast
qed


end
