(* ===== verification/Prepared.thy ===== *)
theory Prepared
  imports BindContracts ParseQuery Fetch
begin

text \<open>
  The prepared statement (QorePreparedStatement.h, QorePreparedStatement.cpp): its nodes, how
  arguments are given to them, how all of them are bound, how the output is read, and how a
  statement is cleared and reset.
\<close>

section \<open>The statement\<close>

text \<open>
  \<open>pp_handle\<close> says that the statement handle is allocated; \<open>pp_columns\<close> is the result set made by
  \<open>define\<close>.
\<close>

record prepared =
  pp_stmt :: ora_statement
  pp_handle :: bool
  pp_nodes :: "bind_node list"
  pp_str :: "string option"
  pp_columns :: "result_set option"
  pp_args :: "qval list option"
  pp_hasOutput :: bool
  pp_defined :: bool

definition prepared_init :: "ora_statement \<Rightarrow> prepared" where
  "prepared_init st = \<lparr>pp_stmt = st, pp_handle = False, pp_nodes = [], pp_str = None, pp_columns = None,
     pp_args = None, pp_hasOutput = False, pp_defined = False\<rparr>"

type_synonym prepared_step = "bool \<times> prepared \<times> bind_world"

definition stmt_env :: "bind_env \<Rightarrow> ora_statement \<Rightarrow> bind_env" where
  "stmt_env env st = env\<lparr>be_array_size := st_array_size st\<rparr>"

section \<open>Binding all nodes\<close>

text \<open>The first list fixes the number of rows; a list in a query is refused.\<close>

fun scan_arrays :: "bind_node list \<Rightarrow> ora_statement \<Rightarrow> exn option \<times> ora_statement" where
  "scan_arrays [] st = (None, st)"
| "scan_arrays (n # ns) st =
     (case (if isValue n then bn_value n else QNothing) of
        QList l \<Rightarrow>
          if st_is_select st then (Some (Exn ''BIND-ERROR'' ''cannot perform an array bind with a select statement''), st)
          else (case setArraySize (length l) st of
                  (Some e, st') \<Rightarrow> (Some e, st')
                | (None, st') \<Rightarrow> scan_arrays ns st')
      | _ \<Rightarrow> scan_arrays ns st)"

fun bind_nodes :: "bind_env \<Rightarrow> nat \<Rightarrow> bind_node list \<Rightarrow> bind_world \<Rightarrow> bool \<times> bind_node list \<times> bind_world" where
  "bind_nodes env pos [] w = (False, [], w)"
| "bind_nodes env pos (n # ns) w =
     (let (n', w') = node_bind env pos n w
      in if bw_sink w' \<noteq> [] then (True, n' # ns, w')
         else let (r, ns', w'') = bind_nodes env (Suc pos) ns w' in (r, n' # ns', w''))"

definition bindOracle :: "bind_env \<Rightarrow> prepared \<Rightarrow> bind_world \<Rightarrow> prepared_step" where
  "bindOracle env p w =
     (case scan_arrays (pp_nodes p) ((pp_stmt p)\<lparr>st_array_size := 0\<rparr>) of
        (Some e, st) \<Rightarrow> (True, p\<lparr>pp_stmt := st\<rparr>, braise (exn_code e) (exn_what e) w)
      | (None, st) \<Rightarrow>
          (let (r, ns, w') = bind_nodes (stmt_env env st) 1 (pp_nodes p) w
           in (r, p\<lparr>pp_stmt := st, pp_nodes := ns\<rparr>, w')))"

section \<open>Giving arguments to the nodes\<close>

text \<open>
  The nodes that are set are those of \<open>chosen\<close>; a missing argument is no value.
\<close>

fun set_nodes ::
    "bind_env \<Rightarrow> (bind_node \<Rightarrow> bool) \<Rightarrow> nat \<Rightarrow> qval list option \<Rightarrow> bind_node list \<Rightarrow> bind_world
       \<Rightarrow> bool \<times> bind_node list \<times> bind_world" where
  "set_nodes env chosen offset args [] w = (False, [], w)"
| "set_nodes env chosen offset args (n # ns) w =
     (if \<not> chosen n then
        (let (r, ns', w') = set_nodes env chosen offset args ns w in (r, n # ns', w'))
      else
        (let (ok, n', w') = node_set env (retrieve_entry args offset) n w
         in if \<not> ok then (True, n' # ns, w')
            else let (r, ns', w'') = set_nodes env chosen (Suc offset) args ns w' in (r, n' # ns', w'')))"

definition set_and_bind :: "bind_env \<Rightarrow> (bind_node \<Rightarrow> bool) \<Rightarrow> qval list option \<Rightarrow> prepared \<Rightarrow> bind_world \<Rightarrow> prepared_step" where
  "set_and_bind env chosen args p w =
     (let (r, ns, w') = set_nodes (stmt_env env (pp_stmt p)) chosen 0 args (pp_nodes p) w;
          p' = p\<lparr>pp_nodes := ns\<rparr>
      in if r then (True, p', w') else bindOracle env p' w')"

definition prepared_bind :: "bind_env \<Rightarrow> qval list option \<Rightarrow> prepared \<Rightarrow> bind_world \<Rightarrow> prepared_step" where
  "prepared_bind env = set_and_bind env (\<lambda>_. True)"

definition bindPlaceholders :: "bind_env \<Rightarrow> qval list option \<Rightarrow> prepared \<Rightarrow> bind_world \<Rightarrow> prepared_step" where
  "bindPlaceholders env = set_and_bind env (\<lambda>n. \<not> isValue n)"

definition bindValues :: "bind_env \<Rightarrow> qval list option \<Rightarrow> prepared \<Rightarrow> bind_world \<Rightarrow> prepared_step" where
  "bindValues env = set_and_bind env isValue"

section \<open>Clearing and resetting\<close>

fun each_node :: "(bind_node \<Rightarrow> bind_world \<Rightarrow> bind_step) \<Rightarrow> bind_node list \<Rightarrow> bind_world \<Rightarrow> bind_node list \<times> bind_world" where
  "each_node f [] w = ([], w)"
| "each_node f (n # ns) w = (let (n', w') = f n w; (ns', w'') = each_node f ns w' in (n' # ns', w''))"

definition drop_columns :: "prepared \<Rightarrow> bind_world \<Rightarrow> prepared \<times> bind_world" where
  "drop_columns p w =
     (case pp_columns p of
        None \<Rightarrow> (p, w)
      | Some rs \<Rightarrow> (p\<lparr>pp_columns := None, pp_stmt := (pp_stmt p)\<lparr>st_array_size := 0\<rparr>\<rparr>, bfree (fst (result_set_del rs)) w))"

text \<open>\<open>QoreOracleStatement::reset\<close>: the handle is freed.\<close>

definition free_handle :: "prepared \<Rightarrow> bind_world \<Rightarrow> prepared \<times> bind_world" where
  "free_handle p w =
     (p\<lparr>pp_handle := False, pp_stmt := statement_reset (pp_stmt p)\<rparr>,
      if pp_handle p then bfree [(StatementHandle, 0)] w else w)"

definition prepared_clear :: "bind_env \<Rightarrow> prepared \<Rightarrow> bind_world \<Rightarrow> prepared \<times> bind_world" where
  "prepared_clear env p w =
     (let (p1, w1) = free_handle p w;
          (ns, w2) = each_node (node_clear env) (pp_nodes p1) w1;
          (p2, w3) = drop_columns (p1\<lparr>pp_nodes := ns\<rparr>) w2
      in (p2\<lparr>pp_defined := False\<rparr>, w3))"

text \<open>The caller removes the statement from the set of the connection.\<close>

definition prepared_reset :: "bind_env \<Rightarrow> prepared \<Rightarrow> bind_world \<Rightarrow> prepared \<times> bind_world" where
  "prepared_reset env p w =
     (let (p1, w1) = free_handle p w;
          (ns, w2) = each_node (node_reset env True) (pp_nodes p1) w1;
          (p2, w3) = drop_columns (p1\<lparr>pp_nodes := []\<rparr>) w2
      in (p2\<lparr>pp_defined := False, pp_hasOutput := False, pp_str := None, pp_args := None\<rparr>, w3))"

section \<open>The result set of a statement\<close>

text \<open>
  \<open>define\<close>: \<open>None\<close> for the result when -1 is returned; the flag says that the statement has been
  registered with the connection.
\<close>

definition prepared_define ::
    "define_env \<Rightarrow> int \<Rightarrow> param_desc list \<Rightarrow> prepared \<Rightarrow> sink \<times> bool \<times> prepared" where
  "prepared_define denv mcw params p =
     (if pp_defined p then ([Exn ''DBI:ORACLE-DEFINE-ERROR'' ''define() called twice for the same query''], False, p)
      else
        let (rs, xs) = (case pp_columns p of
                          None \<Rightarrow> (let (cs, xs) = OraResultSet_init params in (\<lparr>rs_defined = False, rs_clist = cs\<rparr>, xs))
                        | Some rs \<Rightarrow> (rs, []))
        in if xs \<noteq> [] then (xs, False, p\<lparr>pp_columns := Some rs\<rparr>)
           else let (rs', st, flow) = result_set_define denv mcw rs
                in (snd st, True, p\<lparr>pp_columns := Some rs', pp_defined := True\<rparr>))"

definition on_columns :: "(result_set \<Rightarrow> ora_statement \<Rightarrow> 'a outcome \<times> result_set \<times> ora_statement) \<Rightarrow> prepared \<Rightarrow> 'a outcome \<times> prepared" where
  "on_columns f p =
     (case pp_columns p of
        None \<Rightarrow> (Undefined, p)
      | Some rs \<Rightarrow> (let (r, rs', st) = f rs (pp_stmt p) in (r, p\<lparr>pp_columns := Some rs', pp_stmt := st\<rparr>)))"

definition prepared_fetchRow :: "value_env \<Rightarrow> prepared \<Rightarrow> qval ohash outcome \<times> prepared" where
  "prepared_fetchRow venv = on_columns (\<lambda>rs st. (stmt_fetchRow venv (rs_clist rs) st, rs, st))"

definition prepared_fetchRows :: "value_env \<Rightarrow> define_env \<Rightarrow> int \<Rightarrow> int \<Rightarrow> prepared \<Rightarrow> qval ohash list outcome \<times> prepared" where
  "prepared_fetchRows venv denv mcw rows = on_columns (\<lambda>rs st. stmt_fetchRows venv denv mcw rs rows st)"

definition prepared_fetchColumns :: "value_env \<Rightarrow> define_env \<Rightarrow> int \<Rightarrow> int \<Rightarrow> prepared \<Rightarrow> column_hash outcome \<times> prepared" where
  "prepared_fetchColumns venv denv mcw rows = on_columns (\<lambda>rs st. stmt_fetchColumns venv denv mcw rs rows False st)"

definition prepared_fetchColumnar :: "value_env \<Rightarrow> define_env \<Rightarrow> int \<Rightarrow> bool \<Rightarrow> int \<Rightarrow> prepared \<Rightarrow> columnar_result outcome \<times> prepared" where
  "prepared_fetchColumnar venv denv mcw utf8 rows = on_columns (\<lambda>rs st. stmt_fetchColumnar venv denv mcw utf8 rs rows st)"

definition prepared_describe :: "bool \<Rightarrow> prepared \<Rightarrow> column_desc ohash outcome \<times> prepared" where
  "prepared_describe utf8 = on_columns (\<lambda>rs st. (Value (stmt_describe utf8 (rs_clist rs)), rs, st))"

section \<open>The output variables\<close>

text \<open>
  The loop goes on after an exception; nothing is returned then.  The flag of the result says that
  reading a value was undefined.
\<close>

fun output_hash ::
    "value_env \<Rightarrow> bool \<Rightarrow> bind_node list \<Rightarrow> qval ohash \<Rightarrow> sink \<Rightarrow> bool \<times> qval ohash \<times> sink \<times> bind_node list" where
  "output_hash venv rows [] h xs = (False, h, xs, [])"
| "output_hash venv rows (n # ns) h xs =
     (if isValue n then
        (let (u, h', xs', ns') = output_hash venv rows ns h xs in (u, h', xs', n # ns'))
      else
        (let (v, n') = node_getValue venv rows n;
             name = (case ph_name (bn_data n) of None \<Rightarrow> [] | Some s \<Rightarrow> s)
         in case v of
              Undefined \<Rightarrow> (True, h, xs, n' # ns)
            | Value x \<Rightarrow>
                (let (u, h', xs', ns') = output_hash venv rows ns (hash_set name x h) xs in (u, h', xs', n' # ns'))
            | Raised e \<Rightarrow>
                (let (u, h', xs', ns') = output_hash venv rows ns (hash_set name QNothing h) (xs @ [e]) in (u, h', xs', n' # ns'))))"

definition getOutputHash :: "value_env \<Rightarrow> bool \<Rightarrow> prepared \<Rightarrow> qval ohash outcome \<times> prepared" where
  "getOutputHash venv rows p =
     (let (u, h, xs, ns) = output_hash venv rows (pp_nodes p) [] []
      in (if u then Undefined else case xs of [] \<Rightarrow> Value h | e # es \<Rightarrow> Raised e, p\<lparr>pp_nodes := ns\<rparr>))"

section \<open>Binding leaves the values in place\<close>

text \<open>What a node is for: its value, its kind, its name and its type.\<close>

definition node_param :: "bind_node \<Rightarrow> qval \<times> bind_kind \<times> string option \<times> string option" where
  "node_param n = (bn_value n, ob_type (bn_data n), ph_name (bn_data n), ph_type (bn_data n))"

lemma node_param_simps [simp]:
  "node_param (set_col f n) = node_param n" "node_param (n\<lparr>bn_array := a\<rparr>) = node_param n"
  "node_param (n\<lparr>bn_col := c\<rparr>) = node_param n" "node_param (n\<lparr>bn_strlob := h\<rparr>) = node_param n"
  "node_param (n\<lparr>bn_bound := b\<rparr>) = node_param n" "node_param (n\<lparr>bn_lob_allocated := b\<rparr>) = node_param n"
  "node_param (n\<lparr>bn_indicator := i\<rparr>) = node_param n" "node_param (bn_set_buf t x n) = node_param n"
  "node_param (save_tmp m n) = node_param n" "node_param (set_data resetTmp n) = node_param n"
  "node_param (set_data (\<lambda>d. d\<lparr>ph_maxsize := z\<rparr>) n) = node_param n"
  by (simp_all add: node_param_def set_col_def set_data_def bn_set_buf_def save_tmp_def resetTmp_def)

lemma bind_by_pos_param [simp]: "node_param (fst (bind_by_pos env pos d sz t n w)) = node_param n"
  by (simp add: bind_by_pos_def Let_def split_beta)

lemma bind_at_exec_param [simp]: "node_param (fst (snd (bind_at_exec env pos sz t a n w))) = node_param n"
  by (simp add: bind_at_exec_def)

lemma setupBind_param [simp]: "node_param (fst (snd (setupBind env pos a n w))) = node_param n"
  by (cases "ab_data a")
    (simp_all add: setupBind_defs setup_raise_def Let_def split_beta split: outcome.split)

lemmas param_simps = Let_def split_beta outcome.split

lemma bindListValue_param [simp]: "node_param (fst (bindListValue env pos v n w)) = node_param n"
  by (simp add: bindListValue_def Let_def split_beta split: outcome.split)

lemma bind_lob_param [simp]: "node_param (fst (bind_lob env pos t s n w)) = node_param n"
  by (simp add: bind_lob_def Let_def split_beta)

lemma setupDate_param [simp]: "node_param (fst (snd (setupDateDescriptor env n w))) = node_param n"
  by (simp add: setupDateDescriptor_def split_beta)

lemma bindValue_date_param [simp]: "node_param (fst (bindValue_date env pos d n w)) = node_param n"
  by (simp add: bindValue_date_def bindDate_def split_beta)

lemma bind_named_param [simp]: "node_param (fst (bind_named env pos sub c n w)) = node_param n"
  by (simp add: bind_named_def Let_def split_beta)

lemma bindValue_hash_param [simp]: "node_param (fst (bindValue_hash env pos h n w)) = node_param n"
  by (simp add: bindValue_hash_def Let_def split: qval.split)

lemma bindValue_param [simp]: "node_param (fst (bindValue env pos v io n w)) = node_param n"
  by (cases v)
    (simp_all add: bindValue_def bindValue_string_def bindValue_binary_def bindValue_int_def Let_def split_beta
      split: outcome.split)

lemma placeholder_param [simp]:
  "node_param (fst (bindArrayPlaceholder env pos n w)) = node_param n"
  "node_param (fst (placeholder_text env pos n w)) = node_param n"
  "node_param (fst (placeholder_date env pos n w)) = node_param n"
  "node_param (fst (placeholder_binary env pos n w)) = node_param n"
  "node_param (fst (snd (placeholder_handle env pos c t n w))) = node_param n"
  "node_param (fst (placeholder_number env pos n w)) = node_param n"
  "node_param (fst (placeholder_named env pos sub n w)) = node_param n"
  by (simp_all add: bindArrayPlaceholder_def setupOutputBind_def placeholder_text_def placeholder_date_def bindDate_def
      placeholder_binary_def placeholder_handle_def placeholder_number_def placeholder_named_def Let_def split_beta
      split: outcome.split option.split qval.split)

lemma bindPlaceholder_param [simp]: "node_param (fst (bindPlaceholder env pos n w)) = node_param n"
  by (simp add: bindPlaceholder_def Let_def split_beta)

lemma node_bind_param [simp]: "node_param (fst (node_bind env pos n w)) = node_param n"
  by (simp add: node_bind_def Let_def split_beta split: qval.split)

lemma node_del_param [simp]: "node_param (fst (node_del env n w)) = node_param n"
  by (simp add: node_del_def delete_array_def Let_def split_beta)

lemma resetValue_param [simp]: "node_param (fst (resetValue env n w)) = node_param n"
  by (simp add: resetValue_def delete_array_def Let_def split_beta)

lemma node_clear_param [simp]: "node_param (fst (node_clear env n w)) = node_param n"
  by (simp add: node_clear_def clearPlaceholder_def Let_def split_beta)

lemma isValue_param: "node_param n' = node_param n \<Longrightarrow> isValue n' = isValue n \<and> bn_value n' = bn_value n"
  by (simp add: node_param_def isValue_def)

lemma bind_nodes_param:
  "bind_nodes env pos ns w = (r, ns', w') \<Longrightarrow> map node_param ns' = map node_param ns"
proof (induction ns arbitrary: pos w r ns' w')
  case (Cons n ns)
  obtain n1 w1 where b: "node_bind env pos n w = (n1, w1)" by fastforce
  obtain r1 ns1 w2 where c: "bind_nodes env (Suc pos) ns w1 = (r1, ns1, w2)" by (metis prod_cases3)
  from node_bind_param [of env pos n w] Cons.IH [of "Suc pos" w1 r1 ns1 w2] Cons.prems b c show ?case
    by (auto split: if_splits)
qed simp

lemma each_node_param:
  "(\<And>n w. node_param (fst (f n w)) = node_param n) \<Longrightarrow> map node_param (fst (each_node f ns w)) = map node_param ns"
  by (induction ns arbitrary: w) (simp_all add: Let_def split_beta)

section \<open>Every node at its position\<close>

text \<open>A call of one position leaves what is bound at the others.\<close>

definition handles_old :: "bind_world \<Rightarrow> bool" where
  "handles_old w \<longleftrightarrow> (\<forall>h. length (bw_calls w) < h \<longrightarrow> store (bw_calls w) h = None)"

lemma handles_old_extends: "extends pos w w' \<Longrightarrow> handles_old w \<Longrightarrow> handles_old w'"
  using extends_length by (fastforce simp: extends_def handles_old_def)

lemma bound_value_extends:
  assumes "extends pos w w'" "handles_old w" "bound_value env (bw_calls w) d v"
  shows "bound_value env (bw_calls w') d v"
proof (cases d)
  case (BoundHandle h)
  with assms(3) have "store (bw_calls w) h \<noteq> None" by (auto simp: bound_value_def split: option.splits)
  then have "h \<le> length (bw_calls w)" using assms(2) by (meson handles_old_def not_le)
  then have "store (bw_calls w') h = store (bw_calls w) h" using extends_old [OF assms(1)] by blast
  with assms(3) BoundHandle show ?thesis by (simp add: bound_value_def)
next
  case BoundNamedType
  with assms(1,3) show ?thesis by (auto simp: bound_value_def extends_def split: qval.splits)
qed (use assms(3) in \<open>simp_all add: bound_value_def\<close>)

lemma foldl_other_pos: "list_all (call_at q) cs \<Longrightarrow> p \<noteq> q \<Longrightarrow> foldl bind_call_pos m cs p = m p"
  by (induction cs arbitrary: m) (auto simp: bind_call_pos_def call_at_def split: bind_call.splits)

lemma server_binds_extends: "extends q w w' \<Longrightarrow> p \<noteq> q \<Longrightarrow> server_binds (bw_calls w') p = server_binds (bw_calls w) p"
  by (auto simp: extends_def foldl_other_pos)

lemma value_bound_extends:
  assumes "extends q w w'" "p \<noteq> q" "handles_old w" "value_bound env p v io n w"
  shows "value_bound env p v io n w'"
  using assms(4) bound_value_extends [OF assms(1,3)] server_binds_extends [OF assms(1,2)]
  by (auto simp: value_bound_def)

lemma array_data_extends:
  assumes "extends q w w'" "handles_old w" "array_data_denotes env k v n w"
  shows "array_data_denotes env k v n w'"
  using assms(3) bound_value_extends [OF assms(1,2)]
  by (auto simp: array_data_denotes_def element_denotes_def)

text \<open>A value node is bound: alone, or with one element per row.\<close>

definition node_bound :: "bind_env \<Rightarrow> nat \<Rightarrow> qval \<Rightarrow> bind_node \<Rightarrow> bind_world \<Rightarrow> bool" where
  "node_bound env pos v n w \<longleftrightarrow>
     (if be_array_size env = 0 then value_bound env pos v True n w
      else array_data_denotes env (be_array_size env) v n w)"

definition fits_array :: "bind_env \<Rightarrow> qval \<Rightarrow> bool" where
  "fits_array env v \<longleftrightarrow> (\<forall>l. v = QList l \<longrightarrow> length l = be_array_size env)"

lemma node_bind_bound:
  assumes "node_bind env pos n w = (n', w')" "bw_sink w' = []" "conversions_return env" "isValue n"
    "fits_array env (bn_value n)"
  shows "node_bound env pos (bn_value n) n' w'"
proof -
  from assms(1,4) have b: "bindValue env pos (bn_value n) True n w = (n', w')" by (simp add: node_bind_def)
  show ?thesis
  proof (cases "be_array_size env = 0")
    case True
    with single_value_bound [OF _ b assms(2,3)] show ?thesis by (simp add: node_bound_def)
  next
    case False
    with list_value_bound [OF _ b assms(2,3)] assms(5) show ?thesis by (simp add: node_bound_def fits_array_def)
  qed
qed

lemma bind_nodes_bound:
  assumes "bind_nodes env pos ns w = (False, ns', w')" "bw_sink w = []" "conversions_return env" "handles_old w"
  shows "bw_sink w' = [] \<and> length ns' = length ns
    \<and> (\<forall>i < length ns. isValue (ns ! i) \<and> fits_array env (bn_value (ns ! i)) \<longrightarrow>
         node_bound env (pos + i) (bn_value (ns ! i)) (ns' ! i) w')
    \<and> (\<forall>p < pos. server_binds (bw_calls w') p = server_binds (bw_calls w) p)
    \<and> (\<forall>d v. bound_value env (bw_calls w) d v \<longrightarrow> bound_value env (bw_calls w') d v)"
  using assms(1,2,4)
proof (induction ns arbitrary: pos w ns')
  case (Cons n ns)
  obtain n1 w1 where b: "node_bind env pos n w = (n1, w1)" by fastforce
  have s: "bw_sink w1 = []" using Cons.prems(1) b by (auto split: if_splits)
  then obtain ns1 where r: "bind_nodes env (Suc pos) ns w1 = (False, ns1, w')" "ns' = n1 # ns1"
    using Cons.prems(1) b by (auto simp: Let_def split: prod.splits)
  note e = node_bind_extends [OF b]
  have h: "handles_old w1" using handles_old_extends [OF e] Cons.prems(3) by blast
  note ih = Cons.IH [OF r(1) s h]
  have keep: "node_bound env pos v n1 w1 \<Longrightarrow> node_bound env pos v n1 w'" for v
    using ih by (auto simp: node_bound_def value_bound_def array_data_denotes_def element_denotes_def)
  have first: "isValue n \<and> fits_array env (bn_value n) \<longrightarrow> node_bound env pos (bn_value n) n1 w'"
    using node_bind_bound [OF b s assms(3)] keep by blast
  have "\<forall>i < length (n # ns). isValue ((n # ns) ! i) \<and> fits_array env (bn_value ((n # ns) ! i)) \<longrightarrow>
      node_bound env (pos + i) (bn_value ((n # ns) ! i)) (ns' ! i) w'"
    using ih first r(2) by (auto simp: All_less_Suc2)
  moreover have "server_binds (bw_calls w') p = server_binds (bw_calls w) p" if "p < pos" for p
    using that ih server_binds_extends [OF e, of p] by auto
  moreover have "bound_value env (bw_calls w) d v \<longrightarrow> bound_value env (bw_calls w') d v" for d v
    using ih bound_value_extends [OF e Cons.prems(3)] by blast
  ultimately show ?case using ih r(2) by auto
qed simp

lemma scan_arrays_ok:
  assumes "scan_arrays ns st = (None, st')"
  shows "(\<exists>k. st' = st\<lparr>st_array_size := k\<rparr> \<and> (st_array_size st > 0 \<longrightarrow> k = st_array_size st))
    \<and> (\<forall>n \<in> set ns. \<forall>l. isValue n \<and> bn_value n = QList l \<longrightarrow> \<not> st_is_select st \<and> (l = [] \<or> length l = st_array_size st'))"
  using assms
proof (induction ns arbitrary: st)
  case Nil
  then show ?case by (intro conjI exI [of _ "st_array_size st"]) simp_all
next
  case (Cons n ns)
  show ?case
  proof (cases "\<exists>l. isValue n \<and> bn_value n = QList l")
    case True
    then obtain l where l: "isValue n" "bn_value n = QList l" by blast
    obtain st1 where s: "setArraySize (length l) st = (None, st1)" "scan_arrays ns st1 = (None, st')" "\<not> st_is_select st"
      using Cons.prems l by (auto split: if_splits prod.splits option.splits)
    then have st1: "st1 = st\<lparr>st_array_size := st_array_size st1\<rparr>" "st_array_size st > 0 \<longrightarrow> st_array_size st1 = st_array_size st"
        "st_array_size st1 = length l"
      by (auto simp: setArraySize_def split: if_splits)
    note ih = Cons.IH [OF s(2)]
    then obtain k where k: "st' = st1\<lparr>st_array_size := k\<rparr>" "st_array_size st1 > 0 \<longrightarrow> k = st_array_size st1"
      by (elim conjE exE)
    note r = conjunct2 [OF ih]
    have "st' = st\<lparr>st_array_size := k\<rparr>" using k(1) st1(1) by (metis ora_statement.update_convs(1) ora_statement.surjective)
    moreover have "l = [] \<or> length l = st_array_size st'" using k st1(3) by auto
    moreover have "st_is_select st1 = st_is_select st" using st1(1) by (metis ora_statement.select_convs(3) ora_statement.update_convs(1) ora_statement.surjective)
    ultimately show ?thesis using k(2) st1(2) r s(3) l by auto
  next
    case False
    then have "scan_arrays ns st = (None, st')" using Cons.prems by (auto split: qval.splits if_splits)
    from Cons.IH [OF this] False show ?thesis by auto
  qed
qed

text \<open>No value is an empty list.\<close>

definition no_empty_list :: "bind_node list \<Rightarrow> bool" where
  "no_empty_list ns \<longleftrightarrow> (\<forall>n \<in> set ns. isValue n \<longrightarrow> bn_value n \<noteq> QList [])"

definition nodes_bound :: "bind_env \<Rightarrow> prepared \<Rightarrow> bind_world \<Rightarrow> bool" where
  "nodes_bound env p w \<longleftrightarrow>
     (\<forall>i < length (pp_nodes p). isValue (pp_nodes p ! i) \<longrightarrow>
        node_bound (stmt_env env (pp_stmt p)) (Suc i) (bn_value (pp_nodes p ! i)) (pp_nodes p ! i) w)"

lemma bindOracle_bound:
  assumes "bindOracle env p w = (False, p', w')" "bw_sink w = []" "conversions_return env" "handles_old w"
    "no_empty_list (pp_nodes p)"
  shows "bw_sink w' = [] \<and> map node_param (pp_nodes p') = map node_param (pp_nodes p) \<and> nodes_bound env p' w'"
proof -
  obtain st where s: "scan_arrays (pp_nodes p) ((pp_stmt p)\<lparr>st_array_size := 0\<rparr>) = (None, st)"
    using assms(1) by (auto simp: bindOracle_def split: prod.splits option.splits)
  obtain r ns w1 where b: "bind_nodes (stmt_env env st) 1 (pp_nodes p) w = (r, ns, w1)" by (metis prod_cases3)
  with s assms(1) have r: "\<not> r" "p' = p\<lparr>pp_stmt := st, pp_nodes := ns\<rparr>" "w' = w1" by (simp_all add: bindOracle_def)
  have e: "conversions_return (stmt_env env st)" using assms(3) by (simp add: conversions_return_def stmt_env_def)
  have m: "map node_param ns = map node_param (pp_nodes p)" using bind_nodes_param [OF b] .
  have fits: "fits_array (stmt_env env st) (bn_value n)" if "n \<in> set (pp_nodes p)" "isValue n" for n
    using that scan_arrays_ok [OF s] assms(5) by (auto simp: fits_array_def stmt_env_def no_empty_list_def)
  have "bind_nodes (stmt_env env st) 1 (pp_nodes p) w = (False, ns, w1)" using b r(1) by simp
  from bind_nodes_bound [OF this assms(2) e assms(4)]
  have nb: "bw_sink w1 = []" "length ns = length (pp_nodes p)"
      "\<forall>i < length (pp_nodes p). isValue (pp_nodes p ! i) \<longrightarrow>
         node_bound (stmt_env env st) (1 + i) (bn_value (pp_nodes p ! i)) (ns ! i) w1"
    using fits by auto
  have "isValue (ns ! i) = isValue (pp_nodes p ! i) \<and> bn_value (ns ! i) = bn_value (pp_nodes p ! i)"
    if "i < length ns" for i
    using that m nb(2) by (intro isValue_param) (metis nth_map)
  with nb m r show ?thesis by (simp add: nodes_bound_def)
qed


text \<open>Lists of different lengths are refused when the first one is not empty; an empty list
  in front of others is not noticed, and becomes NULL in every row.
\<close>

theorem empty_list_first:
  assumes "l \<noteq> []" "\<not> st_is_select st" "st_array_size st = 0"
  shows "(\<exists>e. fst (scan_arrays [value_node (QList l), value_node (QList [])] st) = Some e)
    \<and> scan_arrays [value_node (QList []), value_node (QList l)] st = (None, st\<lparr>st_array_size := length l\<rparr>)
    \<and> list_array [] = Value SingleNull"
  using assms by (simp add: value_node_def isValue_def setArraySize_def list_array_def)

section \<open>Arguments in order\<close>

lemma extends_bfree [simp]: "extends pos w (bfree fs w') \<longleftrightarrow> extends pos w w'"
  by (simp add: extends_def bfree_def)

lemma array_data_delete_extends: "extends pos w (array_data_delete env d w)"
  by (cases d) (auto simp: array_data_delete_def extends_def call_at_def bfree_def store_call_def)

lemma resetValue_extends: "resetValue env n w = (n', w') \<Longrightarrow> extends pos w w'"
  by (cases "bcall env (FreeTemporaryLob (bn_strlob n)) w")
    (auto simp: resetValue_def delete_array_def Let_def array_data_delete_extends call_simps set_data_def
      split: if_splits prod.splits option.splits elim!: extends_call)

lemma node_set_value:
  assumes "node_set env v n w = (True, n', w')" "isValue n" "bw_sink w = []" "handles_old w"
  shows "isValue n' \<and> bn_value n' = v \<and> bw_sink w' = [] \<and> handles_old w'"
proof -
  obtain n1 w1 where r: "resetValue env n w = (n1, w1)" by fastforce
  with assms(1,2) have "n' = n1\<lparr>bn_value := v\<rparr>" "w' = w1" "bw_sink w1 = []" by (auto simp add: node_set_def)
  moreover have "isValue n1" using resetValue_param [of env n w] isValue_param [of n1 n] r assms(2) by simp
  ultimately show ?thesis using handles_old_extends [OF resetValue_extends [OF r] assms(4)] by (simp add: isValue_def)
qed

lemma set_nodes_values:
  assumes "set_nodes env isValue offset args ns w = (False, ns', w')" "bw_sink w = []" "handles_old w"
  shows "map isValue ns' = map isValue ns \<and> bw_sink w' = [] \<and> handles_old w'
    \<and> map bn_value (filter isValue ns') = map (retrieve_entry args) [offset ..< offset + length (filter isValue ns)]
    \<and> map (\<lambda>n. if isValue n then value_node QNothing else n) ns' = map (\<lambda>n. if isValue n then value_node QNothing else n) ns"
  using assms
proof (induction ns arbitrary: offset w ns')
  case (Cons n ns)
  show ?case
  proof (cases "isValue n")
    case False
    then obtain ns1 where "set_nodes env isValue offset args ns w = (False, ns1, w')" "ns' = n # ns1"
      using Cons.prems(1) by (auto split: prod.splits)
    with Cons.IH [OF this(1) Cons.prems(2,3)] False show ?thesis by simp
  next
    case True
    obtain ok n1 w1 where s: "node_set env (retrieve_entry args offset) n w = (ok, n1, w1)" by (metis prod_cases3)
    have ok: "ok" using Cons.prems(1) True s by (auto split: if_splits)
    then obtain ns1 where r: "set_nodes env isValue (Suc offset) args ns w1 = (False, ns1, w')" "ns' = n1 # ns1"
      using Cons.prems(1) True s by (auto split: prod.splits)
    have v: "isValue n1 \<and> bn_value n1 = retrieve_entry args offset \<and> bw_sink w1 = [] \<and> handles_old w1"
      using s ok True Cons.prems(2,3) by (intro node_set_value) simp_all
    then show ?thesis using Cons.IH [OF r(1)] r(2) True by (simp add: upt_rec)
  qed
qed simp


section \<open>Clearing keeps what a statement is\<close>

lemma prepared_clear_keeps:
  assumes "prepared_clear env p w = (p', w')"
  shows "pp_str p' = pp_str p \<and> map node_param (pp_nodes p') = map node_param (pp_nodes p) \<and> pp_columns p' = None
    \<and> \<not> pp_handle p' \<and> \<not> pp_defined p' \<and> pp_hasOutput p' = pp_hasOutput p"
proof -
  have "map node_param (fst (each_node (node_clear env) ns x)) = map node_param ns" for ns x
    by (rule each_node_param) simp
  with assms show ?thesis
    by (auto simp: prepared_clear_def free_handle_def drop_columns_def split_beta Let_def split: option.splits)
qed

section \<open>Witnesses\<close>

definition sample_statement :: ora_statement where
  "sample_statement = statement_init [] [] []"

definition sample_prepared :: prepared where
  "sample_prepared = (prepared_init sample_statement)\<lparr>pp_nodes := [value_node (QInt 7), value_node (QFloat 0)]\<rparr>"

lemma sample_bind: "fst (bindOracle (bind_env0 0) sample_prepared bind_world_init) = False"
  by code_simp

lemma init_world: "bw_sink bind_world_init = []" "handles_old bind_world_init"
  by (simp_all add: bind_world_init_def handles_old_def store_def)

lemma step_False: "fst x = False \<Longrightarrow> x = (False, fst (snd x), snd (snd x))"
  by (cases x) simp


lemma empty_list_first_witness:
  "scan_arrays [value_node (QList []), value_node (QList [QInt 1])] sample_statement
     = (None, sample_statement\<lparr>st_array_size := 1\<rparr>)"
  using empty_list_first [of "[QInt 1]" sample_statement] by (simp add: sample_statement_def statement_init_def)

lemma sample_bind_values: "fst (bindValues (bind_env0 0) (Some [QInt 1]) sample_prepared bind_world_init) = False"
  by code_simp


end
