(* ===== verification/Connection.thy ===== *)
theory Connection
  imports Columns
begin

text \<open>
  The parts of the connection that do not touch statements (QoreOracleConnection.h,
  QoreOracleConnection.cpp): the status of OCI calls, the options with the receive timeout,
  writing and reading LOBs, and dates and intervals in OCI descriptors.
\<close>

section \<open>Status codes\<close>

datatype oci_status = OCI_SUCCESS | OCI_SUCCESS_WITH_INFO | OCI_ERROR | OCI_INVALID_HANDLE | OCI_NEED_DATA
  | OCI_NO_DATA | OCI_STILL_EXECUTING | OCI_CONTINUE | OCI_OTHER int

text \<open>
  What \<open>checkerr\<close> raises; for \<open>OCI_ERROR\<close> this is what \<open>handleError\<close> raises (see the theory
  Recovery), which without a retry is at least one exception.
\<close>

definition checkerr :: "oci_status \<Rightarrow> exn \<Rightarrow> exn option" where
  "checkerr st err =
     (case st of
        OCI_SUCCESS \<Rightarrow> None
      | OCI_SUCCESS_WITH_INFO \<Rightarrow> None
      | OCI_ERROR \<Rightarrow> Some err
      | OCI_INVALID_HANDLE \<Rightarrow> Some (Exn ''DBI:ORACLE:OCI-INVALID-HANDLE'' ''an invalid OCI handle was used'')
      | OCI_NEED_DATA \<Rightarrow> Some (Exn ''DBI:ORACLE:OCI-NEED-DATA'' ''Oracle OCI error'')
      | OCI_NO_DATA \<Rightarrow> Some (Exn ''DBI:ORACLE:OCI-NODATA'' ''Oracle OCI error'')
      | OCI_STILL_EXECUTING \<Rightarrow> Some (Exn ''DBI:ORACLE:OCI-STILL-EXECUTING'' ''Oracle OCI error'')
      | OCI_CONTINUE \<Rightarrow> Some (Exn ''DBI:ORACLE:OCI-CONTINUE'' ''Oracle OCI error'')
      | OCI_OTHER n \<Rightarrow> Some (Exn ''DBI:ORACLE:UNKNOWN-ERROR'' ''unknown OCI error code''))"

lemma checkerr_None_iff: "checkerr st err = None \<longleftrightarrow> st = OCI_SUCCESS \<or> st = OCI_SUCCESS_WITH_INFO"
  by (cases st) (simp_all add: checkerr_def)

section \<open>Options\<close>

text \<open>
  \<open>co_handle_timeout\<close> is the timeout of the server handle: 0 after an attach, then what
  \<open>OCIAttrSet\<close> has set.
\<close>

record conn_options =
  co_number_support :: number_option
  co_recv_timeout :: "32 word"
  co_tz :: zone
  co_attached :: bool
  co_handle_timeout :: "32 word"

record option_env =
  oe_find_timezone :: "string \<Rightarrow> exn + zone"
  oe_region_name :: "zone \<Rightarrow> string"
  oe_status :: oci_status
  oe_error :: exn

definition ORACLE_RECV_TIMEOUT_MAX :: int where "ORACLE_RECV_TIMEOUT_MAX = 4294967295"

definition conn_options_init :: conn_options where
  "conn_options_init = \<lparr>co_number_support = OPT_NUM_OPTIMAL, co_recv_timeout = 0, co_tz = LocalZone,
     co_attached = False, co_handle_timeout = 0\<rparr>"

definition applyRecvTimeout :: "option_env \<Rightarrow> 32 word \<Rightarrow> conn_options \<Rightarrow> exn option \<times> conn_options" where
  "applyRecvTimeout env ms c =
     (case checkerr (oe_status env) (oe_error env) of
        None \<Rightarrow> (None, c\<lparr>co_handle_timeout := ms\<rparr>)
      | Some e \<Rightarrow> (Some e, c))"

text \<open>The C text of a string value ends at its first NUL.\<close>

definition c_str :: "string \<Rightarrow> string" where
  "c_str s = takeWhile (\<lambda>c. c \<noteq> CHR 0x00) s"

definition timeout_text :: "string \<Rightarrow> int option" where
  "timeout_text p =
     (let digits = (if p \<noteq> [] \<and> hd p = CHR ''-'' then tl p else p);
          ok = (digits \<noteq> [] \<and> list_all c_isdigit digits)
      in if \<not> ok \<or> length digits > 19 then None else Some (fst (c_strtoll p)))"

definition timeout_value :: "qval \<Rightarrow> int option" where
  "timeout_value v =
     (case v of
        QString s e \<Rightarrow> timeout_text (c_str s)
      | QNothing \<Rightarrow> Some 0
      | QInt i \<Rightarrow> Some i
      | _ \<Rightarrow> None)"

definition setRecvTimeout :: "option_env \<Rightarrow> qval \<Rightarrow> conn_options \<Rightarrow> exn option \<times> conn_options" where
  "setRecvTimeout env v c =
     (case timeout_value v of
        None \<Rightarrow> (Some (Exn ''ORACLE-OPTION-ERROR'' ''the receive timeout must be an integer number of milliseconds''), c)
      | Some ms \<Rightarrow>
          if ms < 0 \<or> ms > ORACLE_RECV_TIMEOUT_MAX
          then (Some (Exn ''ORACLE-OPTION-ERROR'' ''the receive timeout must be a number of milliseconds''), c)
          else case (if co_attached c then applyRecvTimeout env (word_of_int ms) c else (None, c)) of
                 (Some e, c1) \<Rightarrow> (Some e, c1)
               | (None, c1) \<Rightarrow> (None, c1\<lparr>co_recv_timeout := word_of_int ms\<rparr>))"

definition strcasecmp_eq :: "string \<Rightarrow> string \<Rightarrow> bool" where
  "strcasecmp_eq a b \<longleftrightarrow> map c_toupper a = map c_toupper b"

definition setOption :: "option_env \<Rightarrow> string \<Rightarrow> qval \<Rightarrow> conn_options \<Rightarrow> exn option \<times> conn_options" where
  "setOption env opt v c =
     (if strcasecmp_eq opt ''optimal-numbers'' then (None, c\<lparr>co_number_support := OPT_NUM_OPTIMAL\<rparr>)
      else if strcasecmp_eq opt ''string-numbers'' then (None, c\<lparr>co_number_support := OPT_NUM_STRING\<rparr>)
      else if strcasecmp_eq opt ''numeric-numbers'' then (None, c\<lparr>co_number_support := OPT_NUM_NUMERIC\<rparr>)
      else if strcasecmp_eq opt ''recv-timeout'' then setRecvTimeout env v c
      else if strcasecmp_eq opt ''timezone'' then
        (case oe_find_timezone env (case v of QString s e \<Rightarrow> c_str s | _ \<Rightarrow> []) of
           Inr tz \<Rightarrow> (None, c\<lparr>co_tz := tz\<rparr>)
         | Inl e \<Rightarrow> (Some e, c))
      else (Some (Exn ''ORACLE-OPTION-ERROR'' ''invalid option''), c))"

definition getOption :: "option_env \<Rightarrow> string \<Rightarrow> conn_options \<Rightarrow> qval" where
  "getOption env opt c =
     (if strcasecmp_eq opt ''optimal-numbers'' then QBool (co_number_support c = OPT_NUM_OPTIMAL)
      else if strcasecmp_eq opt ''string-numbers'' then QBool (co_number_support c = OPT_NUM_STRING)
      else if strcasecmp_eq opt ''numeric-numbers'' then QBool (co_number_support c = OPT_NUM_NUMERIC)
      else if strcasecmp_eq opt ''recv-timeout'' then QInt (uint (co_recv_timeout c))
      else QString (oe_region_name env (co_tz c)) [])"

text \<open>Attaching the server in \<open>logon\<close> sets the timeout again; detaching leaves the options.\<close>

definition server_attach :: "option_env \<Rightarrow> conn_options \<Rightarrow> exn option \<times> conn_options" where
  "server_attach env c =
     (let c1 = c\<lparr>co_attached := True, co_handle_timeout := 0\<rparr>
      in if co_recv_timeout c1 \<noteq> 0 then applyRecvTimeout env (co_recv_timeout c1) c1 else (None, c1))"

definition server_detach :: "conn_options \<Rightarrow> conn_options" where
  "server_detach c = c\<lparr>co_attached := False\<rparr>"

section \<open>LOBs\<close>

definition LOB_BLOCK_SIZE :: nat where "LOB_BLOCK_SIZE = 16384"

text \<open>
  \<open>le_cancel k\<close> is the answer of the poll before the piece number \<open>k\<close>, \<open>le_status k\<close> the status of
  writing it.  The result is whether -1 is returned, what was raised, and the pieces written.
\<close>

record lob_env =
  le_cancel :: "nat \<Rightarrow> exn option"
  le_status :: "nat \<Rightarrow> oci_status"
  le_error :: exn

type_synonym lob_result = "bool \<times> sink \<times> (piece \<times> string) list"

definition raise_list :: "exn option \<Rightarrow> sink" where
  "raise_list x = (case x of None \<Rightarrow> [] | Some e \<Rightarrow> [e])"

lemma raise_list_simps [simp]: "raise_list None = []" "raise_list (Some e) = [e]"
  by (simp_all add: raise_list_def)

function lob_write_loop :: "lob_env \<Rightarrow> string \<Rightarrow> nat \<Rightarrow> (piece \<times> string) list \<Rightarrow> lob_result" where
  "lob_write_loop env data offset tr =
     (case (if offset \<noteq> 0 then le_cancel env (length tr) else None) of
        Some e \<Rightarrow> (True, [e], tr)
      | None \<Rightarrow>
          (let rc = le_status env (length tr)
           in if length data - offset > LOB_BLOCK_SIZE then
                (let tr' = tr @ [(if offset \<noteq> 0 then OCI_NEXT_PIECE else OCI_FIRST_PIECE, take LOB_BLOCK_SIZE (drop offset data))]
                 in if rc \<noteq> OCI_NEED_DATA then (True, raise_list (checkerr rc (le_error env)), tr')
                    else lob_write_loop env data (offset + LOB_BLOCK_SIZE) tr')
              else
                (let tr' = tr @ [(OCI_LAST_PIECE, take (length data - offset) (drop offset data))]
                 in if rc \<noteq> OCI_SUCCESS then (True, raise_list (checkerr rc (le_error env)), tr')
                    else (False, [], tr'))))"
  by pat_completeness auto
termination
  by (relation "measure (\<lambda>(env, data, offset, tr). length data - offset)") (auto simp: LOB_BLOCK_SIZE_def)

declare lob_write_loop.simps [simp del]

definition writeLob :: "lob_env \<Rightarrow> string \<Rightarrow> lob_result" where
  "writeLob env data =
     (case le_cancel env 0 of
        Some e \<Rightarrow> (True, [e], [])
      | None \<Rightarrow>
          if length data \<le> LOB_BLOCK_SIZE then
            (let x = checkerr (le_status env 0) (le_error env)
             in (x \<noteq> None, raise_list x, [(OCI_ONE_PIECE, data)]))
          else lob_write_loop env data 0 [])"

text \<open>Reading: the callback appends what it is given.\<close>

definition readLobCallback :: "string \<Rightarrow> string \<Rightarrow> string" where
  "readLobCallback acc buf = acc @ buf"

definition readBlob :: "exn option \<Rightarrow> oci_status \<Rightarrow> exn \<Rightarrow> string list \<Rightarrow> qval outcome" where
  "readBlob cancel rc err bufs =
     (case cancel of
        Some e \<Rightarrow> Raised e
      | None \<Rightarrow>
          (case checkerr rc err of
             Some e \<Rightarrow> Raised e
           | None \<Rightarrow> Value (QBinary (foldl readLobCallback [] bufs))))"

definition readClob :: "exn option \<Rightarrow> oci_status \<Rightarrow> exn \<Rightarrow> string \<Rightarrow> string list \<Rightarrow> qval outcome" where
  "readClob cancel rc err enc bufs =
     (case cancel of
        Some e \<Rightarrow> Raised e
      | None \<Rightarrow>
          (case checkerr rc err of
             Some e \<Rightarrow> Raised e
           | None \<Rightarrow> Value (QString (foldl readLobCallback [] bufs) enc)))"

section \<open>Dates and intervals\<close>

text \<open>
  A date descriptor: its fields, its nanoseconds and the time zone offset, if it has one.  The
  zone arithmetic of the Qore library (\<open>DateTime::getInfo\<close>) is an argument.
\<close>

record oci_datetime =
  dt_fields :: date_fields
  dt_ns :: int
  dt_offset :: "(int \<times> int) option"

datatype datetime_call = DateTimeFields date_fields int | DateTimeText string string

definition sb2 :: "int \<Rightarrow> int" where "sb2 i = sint (word_of_int i :: 16 word)"
definition ub1 :: "int \<Rightarrow> int" where "ub1 i = uint (word_of_int i :: 8 word)"
definition ub4 :: "int \<Rightarrow> int" where "ub4 i = uint (word_of_int i :: 32 word)"

text \<open>\<open>%0<n>d\<close>\<close>

definition pad_int :: "nat \<Rightarrow> int \<Rightarrow> string" where
  "pad_int n i =
     (if i < 0 then CHR ''-'' # replicate (n - 1 - length (show_nat (nat (- i)))) CHR ''0'' @ show_nat (nat (- i))
      else replicate (n - length (show_nat (nat i))) CHR ''0'' @ show_nat (nat i))"

definition ORA_BACKUP_DATE_FMT :: string where "ORA_BACKUP_DATE_FMT = ''YYYYMMDDHH24MISSFF6''"

text \<open>The format has six conversions for seven arguments: the seventh is not printed.\<close>

definition backup_text :: "date_fields \<Rightarrow> string" where
  "backup_text f = pad_int 4 (d_year f) @ pad_int 2 (d_month f) @ pad_int 2 (d_day f) @ pad_int 2 (d_hour f)
     @ pad_int 2 (d_minute f) @ pad_int 6 (d_second f)"

definition dateTimeConstruct :: "(qdate \<Rightarrow> date_fields) \<Rightarrow> qdate \<Rightarrow> datetime_call" where
  "dateTimeConstruct info d =
     (let f = info d
      in if d_year f > 1 then
           DateTimeFields \<lparr>d_year = sb2 (d_year f), d_month = ub1 (d_month f), d_day = ub1 (d_day f), d_hour = ub1 (d_hour f),
             d_minute = ub1 (d_minute f), d_second = ub1 (d_second f), d_us = 0\<rparr> (ub4 (d_us f * 1000))
         else DateTimeText (backup_text f) (ORA_BACKUP_DATE_FMT @ [CHR 0x00]))"

definition getTimestamp :: "oci_status \<Rightarrow> oci_status \<Rightarrow> exn \<Rightarrow> bool \<Rightarrow> oci_datetime \<Rightarrow> qval outcome" where
  "getTimestamp date_rc time_rc err get_tz odt =
     (case checkerr date_rc err of
        Some e \<Rightarrow> Raised e
      | None \<Rightarrow>
          (case checkerr time_rc err of
             Some e \<Rightarrow> Raised e
           | None \<Rightarrow>
               (let zone = (if \<not> get_tz then ServerZone
                            else case dt_offset odt of
                                   Some (oh, om) \<Rightarrow> OffsetZone (oh * 3600 + om * 60)
                                 | None \<Rightarrow> ServerZone)
                in Value (QDate (AbsDate zone ((dt_fields odt)\<lparr>d_us := dt_ns odt div 1000\<rparr>))))))"

definition getDate :: "date_fields \<Rightarrow> qval" where
  "getDate f = QDate (AbsDate ServerZone (f\<lparr>d_us := 0\<rparr>))"

definition getIntervalYearMonth :: "oci_status \<Rightarrow> exn \<Rightarrow> int \<Rightarrow> int \<Rightarrow> qval outcome" where
  "getIntervalYearMonth rc err year month =
     (case checkerr rc err of
        Some e \<Rightarrow> Raised e
      | None \<Rightarrow> Value (QDate (RelDate \<lparr>d_year = year, d_month = month, d_day = 0, d_hour = 0, d_minute = 0, d_second = 0, d_us = 0\<rparr>)))"

text \<open>The C division truncates towards zero.\<close>

definition getIntervalDaySecond :: "oci_status \<Rightarrow> exn \<Rightarrow> int \<Rightarrow> int \<Rightarrow> int \<Rightarrow> int \<Rightarrow> int \<Rightarrow> qval outcome" where
  "getIntervalDaySecond rc err day hour minute second ns =
     (case checkerr rc err of
        Some e \<Rightarrow> Raised e
      | None \<Rightarrow> Value (QDate (RelDate \<lparr>d_year = 0, d_month = 0, d_day = day, d_hour = hour, d_minute = minute, d_second = second,
                                     d_us = sgn ns * (\<bar>ns\<bar> div 1000)\<rparr>)))"

section \<open>The receive timeout\<close>

text \<open>The number a value of the option denotes.\<close>

definition timeout_denotes :: "qval \<Rightarrow> int \<Rightarrow> bool" where
  "timeout_denotes v i \<longleftrightarrow>
     (case v of
        QNothing \<Rightarrow> i = 0
      | QInt j \<Rightarrow> i = j
      | QString s e \<Rightarrow>
          (\<exists>ds. ds \<noteq> [] \<and> list_all c_isdigit ds \<and> length ds \<le> 19
             \<and> (c_str s = ds \<and> i = int (dec_val ds) \<or> c_str s = CHR ''-'' # ds \<and> i = - int (dec_val ds)))
      | _ \<Rightarrow> False)"

lemma digits_scan:
  assumes "list_all c_isdigit ds" "ds \<noteq> []"
  shows "dropWhile c_isspace ds = ds" "parse_sign ds = (False, ds)" "takeWhile c_isdigit ds = ds" "hd ds \<noteq> CHR ''-''"
proof -
  obtain c cs where ds: "ds = c # cs" "c_isdigit c" using assms by (cases ds) auto
  then have "\<not> c_isspace c" "c \<noteq> CHR ''-''" "c \<noteq> CHR ''+''"
    using c_isspace_not_digit by (auto simp: c_isdigit_def chr_code_def)
  with ds show "dropWhile c_isspace ds = ds" "parse_sign ds = (False, ds)" "hd ds \<noteq> CHR ''-''"
    by (auto simp: parse_sign_def)
  show "takeWhile c_isdigit ds = ds" using assms(1) by (simp add: list_all_iff)
qed

definition clamp64 :: "int \<Rightarrow> int" where
  "clamp64 i = (if i64_ok i then i else if i < 0 then - (2 ^ 63) else 2 ^ 63 - 1)"

lemma strtoll_digits:
  assumes "list_all c_isdigit ds" "ds \<noteq> []"
  shows "fst (c_strtoll ds) = clamp64 (int (dec_val ds))"
    "fst (c_strtoll (CHR ''-'' # ds)) = clamp64 (- int (dec_val ds))"
proof -
  show "fst (c_strtoll ds) = clamp64 (int (dec_val ds))"
    unfolding c_strtoll_def digits_scan [OF assms] Let_def prod.case using assms(2) by (simp add: clamp64_def)
  have "\<not> c_isspace CHR ''-''" by (simp add: c_isspace_def chr_code_def)
  then have "parse_sign (dropWhile c_isspace (CHR ''-'' # ds)) = (True, ds)" by (simp add: parse_sign_def)
  then show "fst (c_strtoll (CHR ''-'' # ds)) = clamp64 (- int (dec_val ds))"
    unfolding c_strtoll_def Let_def prod.case digits_scan(3) [OF assms] using assms(2)
    by (auto simp: digits_scan(3) [OF assms] clamp64_def i64_ok_def)
qed

lemma timeout_text_denotes:
  "timeout_text (c_str s) = Some j \<longleftrightarrow> (\<exists>i. timeout_denotes (QString s e) i \<and> j = clamp64 i)"
proof (cases "c_str s \<noteq> [] \<and> hd (c_str s) = CHR ''-''")
  case True
  then obtain ds where p: "c_str s = CHR ''-'' # ds" by (cases "c_str s") auto
  then have "\<not> list_all c_isdigit (c_str s)" by (simp add: c_isdigit_def chr_code_def)
  then have "timeout_denotes (QString s e) i \<longleftrightarrow> ds \<noteq> [] \<and> list_all c_isdigit ds \<and> length ds \<le> 19 \<and> i = - int (dec_val ds)" for i
    using p by (auto simp: timeout_denotes_def)
  with p show ?thesis using strtoll_digits(2) [of ds] by (auto simp: timeout_text_def Let_def)
next
  case False
  then have "timeout_text (c_str s)
      = (if c_str s = [] \<or> \<not> list_all c_isdigit (c_str s) \<or> length (c_str s) > 19 then None
         else Some (fst (c_strtoll (c_str s))))"
    by (auto simp: timeout_text_def Let_def)
  moreover have "timeout_denotes (QString s e) i \<longleftrightarrow>
      c_str s \<noteq> [] \<and> list_all c_isdigit (c_str s) \<and> length (c_str s) \<le> 19 \<and> i = int (dec_val (c_str s))" for i
    using False by (auto simp: timeout_denotes_def)
  ultimately show ?thesis using strtoll_digits(1) [of "c_str s"] by auto
qed

lemma clamp64_small: "0 \<le> clamp64 i \<and> clamp64 i \<le> ORACLE_RECV_TIMEOUT_MAX \<longleftrightarrow> 0 \<le> i \<and> i \<le> ORACLE_RECV_TIMEOUT_MAX"
  "0 \<le> i \<Longrightarrow> i \<le> ORACLE_RECV_TIMEOUT_MAX \<Longrightarrow> clamp64 i = i"
  by (auto simp: clamp64_def i64_ok_def ORACLE_RECV_TIMEOUT_MAX_def)

lemma timeout_value_denotes:
  assumes "0 \<le> j" "j \<le> ORACLE_RECV_TIMEOUT_MAX"
  shows "timeout_value v = Some j \<longleftrightarrow> timeout_denotes v j"
proof (cases v)
  case (QString s e)
  have "(\<exists>i. timeout_denotes v i \<and> j = clamp64 i) \<longleftrightarrow> timeout_denotes v j"
    using clamp64_small assms by metis
  with QString timeout_text_denotes [of s j e] show ?thesis by (simp add: timeout_value_def)
qed (auto simp: timeout_value_def timeout_denotes_def)

lemma setRecvTimeout_result:
  assumes "setRecvTimeout env v c = (x, c')"
  shows "(x = None \<longleftrightarrow> (\<exists>i. timeout_denotes v i \<and> 0 \<le> i \<and> i \<le> ORACLE_RECV_TIMEOUT_MAX)
            \<and> (co_attached c \<longrightarrow> checkerr (oe_status env) (oe_error env) = None))
       \<and> (x = None \<longrightarrow> timeout_denotes v (uint (co_recv_timeout c')))
       \<and> (x \<noteq> None \<longrightarrow> c' = c)"
proof (cases "timeout_value v")
  case None
  then have "\<not> (timeout_denotes v i \<and> 0 \<le> i \<and> i \<le> ORACLE_RECV_TIMEOUT_MAX)" for i
    using timeout_value_denotes [of i v] by auto
  with None assms show ?thesis by (auto simp: setRecvTimeout_def)
next
  case (Some ms)
  show ?thesis
  proof (cases "0 \<le> ms \<and> ms \<le> ORACLE_RECV_TIMEOUT_MAX")
    case True
    then have d: "timeout_denotes v ms" using Some timeout_value_denotes by blast
    have u: "uint (word_of_int ms :: 32 word) = ms"
      using True by (simp add: unsigned_of_int ORACLE_RECV_TIMEOUT_MAX_def take_bit_int_eq_self)
    from assms Some True d u show ?thesis
      by (auto simp: setRecvTimeout_def applyRecvTimeout_def split: option.splits if_splits)
  next
    case False
    have "\<not> (timeout_denotes v i \<and> 0 \<le> i \<and> i \<le> ORACLE_RECV_TIMEOUT_MAX)" for i
      using timeout_value_denotes [of i v] Some False by auto
    with False Some assms show ?thesis by (auto simp: setRecvTimeout_def)
  qed
qed

text \<open>C39: Setting the receive timeout succeeds exactly for a value that denotes a number of
  milliseconds the client accepts (an integer, no value for 0, or an optionally signed decimal
  text of at most 19 digits), if the attached server handle takes it; the timeout is then that
  number, and otherwise nothing has changed.
\<close>

theorem recv_timeout_value:
  assumes "setRecvTimeout env v c = (x, c')"
  shows "(x = None \<longleftrightarrow> (\<exists>i. timeout_denotes v i \<and> 0 \<le> i \<and> i \<le> ORACLE_RECV_TIMEOUT_MAX)
            \<and> (co_attached c \<longrightarrow> checkerr (oe_status env) (oe_error env) = None))
       \<and> (x = None \<longrightarrow> timeout_denotes v (uint (co_recv_timeout c')))
       \<and> (x \<noteq> None \<longrightarrow> c' = c)"
  using assms by (rule setRecvTimeout_result)

text \<open>What can happen to the options of an open connection.\<close>

inductive option_step :: "conn_options \<Rightarrow> conn_options \<Rightarrow> bool" where
  step_option: "option_step c (snd (setOption env opt v c))"
| step_attach: "server_attach env c = (None, c') \<Longrightarrow> option_step c c'"
| step_detach: "option_step c (server_detach c)"

definition options_start :: "conn_options \<Rightarrow> bool" where
  "options_start c \<longleftrightarrow> \<not> co_attached c"

definition timeout_applied :: "conn_options \<Rightarrow> bool" where
  "timeout_applied c \<longleftrightarrow> (co_attached c \<longrightarrow> co_handle_timeout c = co_recv_timeout c)"

lemma setRecvTimeout_applied: "timeout_applied c \<Longrightarrow> timeout_applied (snd (setRecvTimeout env v c))"
  by (auto simp: setRecvTimeout_def applyRecvTimeout_def timeout_applied_def split: option.splits)

interpretation recv_timeout: transition_invariant options_start option_step timeout_applied
proof
  show "options_start c \<Longrightarrow> timeout_applied c" for c by (simp add: options_start_def timeout_applied_def)
  show "timeout_applied c \<Longrightarrow> option_step c c' \<Longrightarrow> timeout_applied c'" for c c'
  proof (erule option_step.cases, goal_cases)
    case (1 _ env opt v)
    then show ?case using setRecvTimeout_applied [of c env v]
      by (auto simp: setOption_def timeout_applied_def split: sum.splits)
  next
    case (2 env)
    then show ?case
      by (auto simp: server_attach_def Let_def applyRecvTimeout_def timeout_applied_def split: option.splits if_splits prod.splits)
  next
    case 3
    then show ?case by (simp add: server_detach_def timeout_applied_def)
  qed
qed

text \<open>C21: Whenever the server is attached, in any sequence of option changes, lost connections
  and new attaches, the timeout of the server handle is the one the option reports.
\<close>

theorem recv_timeout_on_server:
  assumes "reach options_start option_step c" "co_attached c"
  shows "getOption env ''recv-timeout'' c = QInt (uint (co_handle_timeout c))"
  using recv_timeout.reachable_inv [OF assms(1)] assms(2)
  by (simp add: timeout_applied_def getOption_def strcasecmp_eq_def c_toupper_def c_islower_def chr_code_def)

section \<open>Options\<close>

fun number_option_name :: "number_option \<Rightarrow> string" where
  "number_option_name OPT_NUM_OPTIMAL = ''optimal-numbers''"
| "number_option_name OPT_NUM_STRING = ''string-numbers''"
| "number_option_name OPT_NUM_NUMERIC = ''numeric-numbers''"

lemmas option_names = strcasecmp_eq_def c_toupper_def c_islower_def chr_code_def

text \<open>What an option is set to is what it reads as: a number option is on and the two others
  off, the receive timeout is the number given, the time zone the one found; an option that
  raises changes nothing.  Names are compared without regard to case.
\<close>

theorem options_roundtrip:
  assumes "setOption env opt v c = (x, c')"
  shows "(x = None \<and> strcasecmp_eq opt (number_option_name n) \<longrightarrow> getOption env opt c' = QBool True
            \<and> (\<forall>m. m \<noteq> n \<longrightarrow> getOption env (number_option_name m) c' = QBool False))
       \<and> (x = None \<and> strcasecmp_eq opt ''recv-timeout'' \<longrightarrow> (\<exists>i. timeout_denotes v i \<and> getOption env opt c' = QInt i))
       \<and> (x = None \<and> strcasecmp_eq opt ''timezone'' \<longrightarrow>
            (\<exists>tz. oe_find_timezone env (case v of QString s e \<Rightarrow> c_str s | _ \<Rightarrow> []) = Inr tz
               \<and> getOption env opt c' = QString (oe_region_name env tz) []))
       \<and> (x \<noteq> None \<longrightarrow> c' = c)"
proof (cases "strcasecmp_eq opt ''recv-timeout''")
  case True
  then have "setRecvTimeout env v c = (x, c')" using assms by (simp add: setOption_def option_names)
  from setRecvTimeout_result [OF this] True show ?thesis
    by (cases n) (auto simp: getOption_def option_names)
next
  case False
  have names: "getOption env (number_option_name m) d = QBool (co_number_support d = m)" for m d
    by (cases m) (simp_all add: getOption_def strcasecmp_eq_def c_toupper_def c_islower_def chr_code_def)
  show ?thesis
  proof (cases "strcasecmp_eq opt ''timezone''")
    case True
    with assms show ?thesis
      by (cases n) (auto simp: setOption_def getOption_def option_names split: sum.splits qval.splits)
  next
    case no_zone: False
    show ?thesis
    proof (cases "\<exists>k. strcasecmp_eq opt (number_option_name k)")
      case True
      then obtain k where k: "strcasecmp_eq opt (number_option_name k)" by blast
      then have "strcasecmp_eq opt (number_option_name n) \<longleftrightarrow> n = k" by (cases n; cases k) (simp_all add: option_names)
      moreover have "x = None" "c' = c\<lparr>co_number_support := k\<rparr>" "getOption env opt d = QBool (co_number_support d = k)" for d
        using assms k by (cases k; simp add: setOption_def getOption_def option_names)+
      ultimately show ?thesis using False no_zone by (simp add: names)
    next
      case other: False
      then have "\<not> strcasecmp_eq opt ''optimal-numbers''" "\<not> strcasecmp_eq opt ''string-numbers''"
          "\<not> strcasecmp_eq opt ''numeric-numbers''"
        by (metis number_option_name.simps)+
      with assms False no_zone other show ?thesis by (auto simp: setOption_def)
    qed
  qed
qed

section \<open>The pieces of a LOB\<close>

definition lob_blocks :: "string list \<Rightarrow> string \<Rightarrow> bool" where
  "lob_blocks bs p \<longleftrightarrow> (\<forall>b \<in> set bs. length b = LOB_BLOCK_SIZE) \<and> p \<noteq> [] \<and> length p \<le> LOB_BLOCK_SIZE"

lemma lob_loop_ok:
  assumes "lob_write_loop env data offset tr = (False, s, tr')" "offset \<noteq> 0" "offset < length data"
  shows "s = [] \<and> (\<exists>bs p. tr' = tr @ map (Pair OCI_NEXT_PIECE) bs @ [(OCI_LAST_PIECE, p)]
    \<and> concat bs @ p = drop offset data \<and> lob_blocks bs p)"
  using assms
proof (induction env data offset tr rule: lob_write_loop.induct)
  case (1 env data offset tr)
  have c: "le_cancel env (length tr) = None"
    using "1.prems"(1,2) by (subst (asm) lob_write_loop.simps) (auto split: option.splits)
  show ?case
  proof (cases "length data - offset > LOB_BLOCK_SIZE")
    case True
    let ?b = "take LOB_BLOCK_SIZE (drop offset data)"
    have n: "le_status env (length tr) = OCI_NEED_DATA"
      and r: "lob_write_loop env data (offset + LOB_BLOCK_SIZE) (tr @ [(OCI_NEXT_PIECE, ?b)]) = (False, s, tr')"
      using "1.prems"(1,2) c True by (subst (asm) lob_write_loop.simps, simp add: Let_def split: if_splits)+
    have "s = [] \<and> (\<exists>bs p. tr' = (tr @ [(OCI_NEXT_PIECE, ?b)]) @ map (Pair OCI_NEXT_PIECE) bs @ [(OCI_LAST_PIECE, p)]
        \<and> concat bs @ p = drop (offset + LOB_BLOCK_SIZE) data \<and> lob_blocks bs p)"
      using "1.IH" c True n r "1.prems"(2,3) by (simp add: LOB_BLOCK_SIZE_def)
    then obtain bs p where h: "s = []"
        "tr' = (tr @ [(OCI_NEXT_PIECE, ?b)]) @ map (Pair OCI_NEXT_PIECE) bs @ [(OCI_LAST_PIECE, p)]"
        "concat bs @ p = drop (offset + LOB_BLOCK_SIZE) data" "lob_blocks bs p" by blast
    have "concat (?b # bs) @ p = drop offset data"
      using h(3) by (simp add: add.commute append_take_drop_id drop_drop [symmetric] del: drop_drop)
    moreover have "lob_blocks (?b # bs) p" using h(4) True by (simp add: lob_blocks_def)
    ultimately show ?thesis using h(1,2) by (intro conjI exI [of _ "?b # bs"] exI [of _ p]) auto
  next
    case False
    then have "s = []" "tr' = tr @ [(OCI_LAST_PIECE, drop offset data)]"
      using "1.prems"(1,2) c by (subst (asm) lob_write_loop.simps, simp add: Let_def split: if_splits)+
    with False "1.prems"(3) show ?thesis
      by (intro conjI exI [of _ "[]"] exI [of _ "drop offset data"]) (auto simp: lob_blocks_def)
  qed
qed

text \<open>C22: When a LOB is written without an error, the server has been given its content in order:
  in one piece if it fits a block, otherwise as a first piece, next pieces and a last piece, of
  full blocks but for the last, which is not empty; reading back what was written, in
  whatever portions the server delivers it, gives the content.
\<close>

theorem write_lob_pieces:
  assumes "writeLob env data = (False, s, tr)" "concat bufs = concat (map snd tr)"
  shows "s = [] \<and> (length data \<le> LOB_BLOCK_SIZE \<and> tr = [(OCI_ONE_PIECE, data)]
            \<or> (\<exists>b bs p. tr = (OCI_FIRST_PIECE, b) # map (Pair OCI_NEXT_PIECE) bs @ [(OCI_LAST_PIECE, p)]
                 \<and> lob_blocks (b # bs) p))
       \<and> readBlob None OCI_SUCCESS err bufs = Value (QBinary data)
       \<and> readClob None OCI_SUCCESS err enc bufs = Value (QString data enc)"
proof -
  have f: "foldl readLobCallback a xs = a @ concat xs" for a xs
    by (induction xs arbitrary: a) (simp_all add: readLobCallback_def)
  have c: "le_cancel env 0 = None" using assms(1) by (auto simp: writeLob_def split: option.splits)
  show ?thesis
  proof (cases "length data \<le> LOB_BLOCK_SIZE")
    case True
    with assms c show ?thesis
      by (auto simp: writeLob_def Let_def f readBlob_def readClob_def checkerr_def raise_list_def)
  next
    case False
    let ?b = "take LOB_BLOCK_SIZE data"
    have l: "lob_write_loop env data LOB_BLOCK_SIZE [(OCI_FIRST_PIECE, ?b)] = (False, s, tr)"
      using assms(1) c False
      by (simp add: writeLob_def) (subst (asm) lob_write_loop.simps, simp add: Let_def split: if_splits)
    from False obtain bs p where h: "s = []" "tr = [(OCI_FIRST_PIECE, ?b)] @ map (Pair OCI_NEXT_PIECE) bs @ [(OCI_LAST_PIECE, p)]"
        "concat bs @ p = drop LOB_BLOCK_SIZE data" "lob_blocks bs p"
      using lob_loop_ok [OF l] by (auto simp: LOB_BLOCK_SIZE_def)
    have "concat (map snd tr) = data" using h(2,3) by (simp add: comp_def)
    moreover have "lob_blocks (?b # bs) p" using h(4) False by (simp add: lob_blocks_def)
    ultimately show ?thesis using h(1,2) assms(2) by (auto simp: f readBlob_def readClob_def checkerr_def)
  qed
qed

section \<open>A LOB that is written but reported as failed\<close>

lemma drop_blocks_less: "length data - k * LOB_BLOCK_SIZE \<le> LOB_BLOCK_SIZE \<longleftrightarrow> (length data - 1) div LOB_BLOCK_SIZE \<le> k"
proof -
  have "length data - k * B \<le> B \<longleftrightarrow> (length data - 1) div B \<le> k" if "B > 0" for B :: nat
    using that by (cases "length data") (auto simp: le_diff_conv less_eq_div_iff_mult_less_eq Suc_le_eq
        div_less_iff_less_mult simp flip: less_Suc_eq_le)
  then show ?thesis by (simp add: LOB_BLOCK_SIZE_def)
qed

lemma lob_loop_answers:
  assumes "\<And>k. le_cancel env k = None" "offset = length tr * LOB_BLOCK_SIZE" "concat (map snd tr) = take offset data"
    "n = (length data - 1) div LOB_BLOCK_SIZE" "length tr \<le> n"
    "\<And>k. k < n \<Longrightarrow> le_status env k = OCI_NEED_DATA"
  shows "\<exists>tr'. lob_write_loop env data offset tr
      = (le_status env n \<noteq> OCI_SUCCESS, raise_list (checkerr (le_status env n) (le_error env)), tr')
    \<and> concat (map snd tr') = data"
  using assms
proof (induction env data offset tr rule: lob_write_loop.induct)
  case (1 env data offset tr)
  show ?case
  proof (cases "length tr < n")
    case True
    then have big: "length data - offset > LOB_BLOCK_SIZE"
      using drop_blocks_less [of data "length tr"] "1.prems"(2,4) by simp
    let ?t = "tr @ [(if offset \<noteq> 0 then OCI_NEXT_PIECE else OCI_FIRST_PIECE, take LOB_BLOCK_SIZE (drop offset data))]"
    have big': "length data > LOB_BLOCK_SIZE" using big by simp
    have nd: "le_status env (length tr) = OCI_NEED_DATA" using "1.prems"(6) True by blast
    have "concat (map snd ?t) = take (offset + LOB_BLOCK_SIZE) data" using "1.prems"(3) by (simp add: take_add)
    then have ih: "\<exists>tr'. lob_write_loop env data (offset + LOB_BLOCK_SIZE) ?t
        = (le_status env n \<noteq> OCI_SUCCESS, raise_list (checkerr (le_status env n) (le_error env)), tr')
        \<and> concat (map snd tr') = data"
      using "1.IH" [OF _ refl big refl] "1.prems" nd True by simp
    have "lob_write_loop env data offset tr = lob_write_loop env data (offset + LOB_BLOCK_SIZE) ?t"
      using nd big big' "1.prems"(1) by (subst lob_write_loop.simps) (simp add: Let_def)
    with ih show ?thesis by simp
  next
    case False
    then have k: "length tr = n" using "1.prems"(5) by simp
    then have small: "\<not> length data - offset > LOB_BLOCK_SIZE"
      using drop_blocks_less [of data "length tr"] "1.prems"(2,4) by simp
    have d: "concat (map snd (tr @ [(OCI_LAST_PIECE, drop offset data)])) = data" using "1.prems"(3) by simp
    have small': "offset = 0 \<Longrightarrow> \<not> length data > LOB_BLOCK_SIZE" using small by simp
    have "lob_write_loop env data offset tr = (le_status env n \<noteq> OCI_SUCCESS,
        raise_list (checkerr (le_status env n) (le_error env)), tr @ [(OCI_LAST_PIECE, drop offset data)])"
      using k small small' "1.prems"(1)
      by (subst lob_write_loop.simps) (cases "offset = 0"; simp add: Let_def checkerr_def)
    with d show ?thesis by metis
  qed
qed

text \<open>When the server takes every piece of a long LOB, the whole content has been written,
  and the call fails exactly if the last piece does not return plain success: with a success
  that carries information it returns -1 without an exception, although the same status for a
  LOB of one piece is a success.
\<close>

theorem write_lob_silent:
  assumes "\<And>k. le_cancel env k = None" "length data > LOB_BLOCK_SIZE" "n = (length data - 1) div LOB_BLOCK_SIZE"
    "\<And>k. k < n \<Longrightarrow> le_status env k = OCI_NEED_DATA"
  shows "(\<exists>tr. writeLob env data = (le_status env n \<noteq> OCI_SUCCESS, raise_list (checkerr (le_status env n) (le_error env)), tr)
            \<and> concat (map snd tr) = data)
       \<and> (le_status env n = OCI_SUCCESS_WITH_INFO \<longrightarrow> (\<exists>tr. writeLob env data = (True, [], tr) \<and> concat (map snd tr) = data))
       \<and> (le_status env 0 = OCI_SUCCESS_WITH_INFO \<longrightarrow> writeLob env (take LOB_BLOCK_SIZE data)
            = (False, [], [(OCI_ONE_PIECE, take LOB_BLOCK_SIZE data)]))"
proof -
  obtain tr where "lob_write_loop env data 0 []
      = (le_status env n \<noteq> OCI_SUCCESS, raise_list (checkerr (le_status env n) (le_error env)), tr)" "concat (map snd tr) = data"
    using lob_loop_answers [OF assms(1) _ _ assms(3) _ assms(4), of 0 "[]"] by auto
  with assms(1,2) show ?thesis by (auto simp: writeLob_def Let_def checkerr_def)
qed

section \<open>Dates\<close>

definition fields_fit :: "date_fields \<Rightarrow> bool" where
  "fields_fit f \<longleftrightarrow> 1 < d_year f \<and> d_year f < 2 ^ 15 \<and> 0 \<le> d_month f \<and> d_month f < 256 \<and> 0 \<le> d_day f \<and> d_day f < 256
     \<and> 0 \<le> d_hour f \<and> d_hour f < 256 \<and> 0 \<le> d_minute f \<and> d_minute f < 256 \<and> 0 \<le> d_second f \<and> d_second f < 256
     \<and> 0 \<le> d_us f \<and> d_us f < 1000000"

lemma narrow [simp]:
  "0 \<le> i \<Longrightarrow> i < 2 ^ 15 \<Longrightarrow> sb2 i = i" "0 \<le> i \<Longrightarrow> i < 256 \<Longrightarrow> ub1 i = i" "0 \<le> i \<Longrightarrow> i < 2 ^ 32 \<Longrightarrow> ub4 i = i"
  by (simp_all add: sb2_def ub1_def ub4_def int_word_sint unsigned_of_int take_bit_int_eq_self)

text \<open>C40: A date after the year 1 is written to a descriptor with its fields in the zone of the
  server and read back as the same fields, to the microsecond: in the zone of the server, or,
  when the zone is asked for, at the offset the descriptor has.
\<close>

theorem timestamp_roundtrip:
  assumes "fields_fit (info d)"
  shows "\<exists>f ns. dateTimeConstruct info d = DateTimeFields f ns
     \<and> getTimestamp OCI_SUCCESS OCI_SUCCESS err False \<lparr>dt_fields = f, dt_ns = ns, dt_offset = off\<rparr>
         = Value (QDate (AbsDate ServerZone (info d)))
     \<and> getTimestamp OCI_SUCCESS OCI_SUCCESS err True \<lparr>dt_fields = f, dt_ns = ns, dt_offset = off\<rparr>
         = Value (QDate (AbsDate (case off of None \<Rightarrow> ServerZone | Some (h, m) \<Rightarrow> OffsetZone (h * 3600 + m * 60)) (info d)))"
  using assms
  by (auto simp: dateTimeConstruct_def fields_fit_def getTimestamp_def checkerr_def Let_def split: option.split)

lemma pad_int_length:
  assumes "0 \<le> i" "i < 10 ^ n" "0 < n"
  shows "length (pad_int n i) = n"
proof -
  have "length (show_nat (nat i)) \<le> n" using assms by (simp add: show_nat_length nat_less_iff)
  with assms(1) show ?thesis by (simp add: pad_int_def)
qed

lemma pad_int_zeros:
  assumes "0 \<le> i" "i < 10 ^ k" "0 < k" "k \<le> n"
  shows "take (n - k) (pad_int n i) = replicate (n - k) CHR ''0''"
proof -
  have "length (show_nat (nat i)) \<le> k" using assms by (simp add: show_nat_length nat_less_iff)
  with assms(1,4) show ?thesis by (simp add: pad_int_def)
qed

text \<open>The text of a date up to the year 1 does not hold the microseconds, and the two digits
  where the format expects the seconds are zeros whatever the seconds are.
\<close>

theorem backup_text_seconds:
  assumes "0 \<le> d_year f" "d_year f \<le> 1" "0 \<le> d_month f" "d_month f < 100" "0 \<le> d_day f" "d_day f < 100"
    "0 \<le> d_hour f" "d_hour f < 100" "0 \<le> d_minute f" "d_minute f < 100" "0 \<le> d_second f" "d_second f < 100"
  shows "dateTimeConstruct (\<lambda>_. f) d = DateTimeText (backup_text f) (ORA_BACKUP_DATE_FMT @ [CHR 0x00])
    \<and> take 2 (drop 12 (backup_text f)) = ''00'' \<and> length (backup_text f) = 18
    \<and> backup_text (f\<lparr>d_us := u\<rparr>) = backup_text f"
proof -
  note l = pad_int_length [of "d_year f" 4] pad_int_length [of "d_month f" 2] pad_int_length [of "d_day f" 2]
    pad_int_length [of "d_hour f" 2] pad_int_length [of "d_minute f" 2] pad_int_length [of "d_second f" 6]
  have z: "take 4 (pad_int 6 (d_second f)) = replicate 4 CHR ''0''"
    using pad_int_zeros [of "d_second f" 2 6] assms by simp
  have "take 2 (pad_int 6 (d_second f)) = take 2 (take 4 (pad_int 6 (d_second f)))" by simp
  also have "\<dots> = ''00''" unfolding z by (simp add: numeral_eq_Suc)
  finally show ?thesis using assms l by (simp add: dateTimeConstruct_def Let_def backup_text_def)
qed

section \<open>Witnesses\<close>

definition options0 :: conn_options where
  "options0 = conn_options_init\<lparr>co_attached := True\<rparr>"

definition option_env0 :: option_env where
  "option_env0 = \<lparr>oe_find_timezone = (\<lambda>s. Inr (OffsetZone 3600)), oe_region_name = (\<lambda>z. ''+01:00''),
     oe_status = OCI_SUCCESS, oe_error = Exn [] []\<rparr>"

lemma set_timeout0: "setRecvTimeout option_env0 (QString ''250'' ''UTF-8'') options0
    = (None, options0\<lparr>co_recv_timeout := 250, co_handle_timeout := 250\<rparr>)"
  by (simp add: setRecvTimeout_def timeout_value_def timeout_text_def c_str_def c_isdigit_def chr_code_def
      c_strtoll_def parse_sign_def c_isspace_def i64_ok_def dec_val_def digit_val_def Let_def options0_def
      conn_options_init_def option_env0_def applyRecvTimeout_def checkerr_def ORACLE_RECV_TIMEOUT_MAX_def)

lemma recv_timeout_value_witness: "timeout_denotes (QString ''250'' ''UTF-8'') 250"
  using recv_timeout_value [OF set_timeout0] by simp

lemma recv_timeout_on_server_witness:
  "getOption option_env0 ''recv-timeout'' (snd (server_attach option_env0 conn_options_init)) = QInt 0"
proof -
  have "reach options_start option_step conn_options_init"
    by (rule reach_init) (simp add: options_start_def conn_options_init_def)
  then have "reach options_start option_step (snd (server_attach option_env0 conn_options_init))"
    by (rule reach_step)
      (rule step_attach [of option_env0], simp add: server_attach_def conn_options_init_def)
  from recv_timeout_on_server [OF this, of option_env0] show ?thesis
    by (simp add: server_attach_def conn_options_init_def)
qed

lemma options_roundtrip_witness:
  "getOption option_env0 ''String-Numbers'' (snd (setOption option_env0 ''String-Numbers'' QNothing options0)) = QBool True"
proof -
  have c: "strcasecmp_eq ''String-Numbers'' (number_option_name OPT_NUM_STRING)"
    by (simp add: strcasecmp_eq_def c_toupper_def c_islower_def chr_code_def char_of_def bit_simps)
  then have "setOption option_env0 ''String-Numbers'' QNothing options0 = (None, options0\<lparr>co_number_support := OPT_NUM_STRING\<rparr>)"
    by (simp add: setOption_def strcasecmp_eq_def c_toupper_def c_islower_def chr_code_def)
  with options_roundtrip [OF this, of OPT_NUM_STRING] c show ?thesis by simp
qed

definition lob_env0 :: lob_env where
  "lob_env0 = \<lparr>le_cancel = (\<lambda>_. None), le_status = (\<lambda>k. if k = 0 then OCI_NEED_DATA else OCI_SUCCESS_WITH_INFO),
     le_error = Exn [] []\<rparr>"

lemma write_lob_pieces_witness:
  "readBlob None OCI_SUCCESS (Exn [] []) [''ab'', ''c''] = Value (QBinary ''abc'')"
proof -
  have "writeLob (lob_env0\<lparr>le_status := (\<lambda>_. OCI_SUCCESS)\<rparr>) ''abc'' = (False, [], [(OCI_ONE_PIECE, ''abc'')])"
    by (simp add: writeLob_def lob_env0_def LOB_BLOCK_SIZE_def checkerr_def)
  from write_lob_pieces [OF this, of "[''ab'', ''c'']"] show ?thesis by simp
qed

lemma write_lob_silent_witness:
  "\<exists>tr. writeLob lob_env0 (replicate 20000 CHR ''x'') = (True, [], tr)"
proof -
  have "length (replicate 20000 CHR ''x'') > LOB_BLOCK_SIZE" by (simp add: LOB_BLOCK_SIZE_def)
  from write_lob_silent [where env = lob_env0 and n = 1, OF _ this] show ?thesis
    by (auto simp: lob_env0_def LOB_BLOCK_SIZE_def)
qed

definition fields0 :: date_fields where
  "fields0 = \<lparr>d_year = 2024, d_month = 2, d_day = 29, d_hour = 23, d_minute = 59, d_second = 58, d_us = 123456\<rparr>"

lemma timestamp_roundtrip_witness:
  "\<exists>f ns. dateTimeConstruct (\<lambda>_. fields0) (AbsDate ServerZone fields0) = DateTimeFields f ns"
proof -
  have "fields_fit ((\<lambda>_. fields0) (AbsDate ServerZone fields0))" by (simp add: fields_fit_def fields0_def)
  from timestamp_roundtrip [OF this] show ?thesis by blast
qed

lemma backup_text_seconds_witness:
  "take 2 (drop 12 (backup_text (fields0\<lparr>d_year := 1\<rparr>))) = ''00''"
  using backup_text_seconds [of "fields0\<lparr>d_year := 1\<rparr>"] by (simp add: fields0_def)

end
