(* ===== verification/Session_Attrs.thy ===== *)
theory Session_Attrs
  imports Qore_Values
begin

text \<open>
  The session attributes (QoreOracleConnection.cpp): the information a thread has set, and the
  attributes of the session a connection makes agree with it before every round trip.
\<close>

section \<open>Truncation on a character boundary\<close>

definition continuation_byte :: "char \<Rightarrow> bool" where
  "continuation_byte c \<longleftrightarrow> chr_code c div 64 = 2"

fun back_up :: "string \<Rightarrow> nat \<Rightarrow> nat" where
  "back_up s 0 = 0"
| "back_up s (Suc n) = (if continuation_byte (s ! Suc n) then back_up s n else Suc n)"

definition ora_truncate_utf8 :: "nat \<Rightarrow> string \<Rightarrow> string" where
  "ora_truncate_utf8 max_bytes s = (if length s \<le> max_bytes then s else take (back_up s max_bytes) s)"

section \<open>The information of a thread\<close>

definition ORA_SA_COUNT :: nat where "ORA_SA_COUNT = 4"

definition ORA_SESSION_ATTR_MAX_BYTES :: nat where "ORA_SESSION_ATTR_MAX_BYTES = 64"

definition ora_session_attr_keys :: "string list" where
  "ora_session_attr_keys = [''module'', ''action'', ''client_info'', ''client_identifier'']"

text \<open>The values of one thread, one per key; an empty value is none.\<close>

type_synonym session_info = "string list"

definition info_empty :: "session_info \<Rightarrow> bool" where
  "info_empty vs \<longleftrightarrow> list_all (\<lambda>v. v = []) vs"

definition attr_value :: "(string \<Rightarrow> string \<Rightarrow> string outcome) \<Rightarrow> qval ohash \<Rightarrow> string \<Rightarrow> string outcome" where
  "attr_value to_utf8 h k =
     (let v = key_value h k
      in if is_null_or_nothing v then Value []
         else case v of
                QString s e \<Rightarrow>
                  bind_outcome (if e = ''UTF-8'' then Value s else to_utf8 s e)
                    (\<lambda>t. Value (ora_truncate_utf8 ORA_SESSION_ATTR_MAX_BYTES t))
              | _ \<Rightarrow> Raised (Exn ''ORACLE-SESSION-INFO-ERROR'' ''must be a string''))"

fun attr_values :: "(string \<Rightarrow> string \<Rightarrow> string outcome) \<Rightarrow> qval ohash \<Rightarrow> string list \<Rightarrow> session_info outcome" where
  "attr_values to_utf8 h [] = Value []"
| "attr_values to_utf8 h (k # ks) =
     bind_outcome (attr_value to_utf8 h k) (\<lambda>v. bind_outcome (attr_values to_utf8 h ks) (\<lambda>vs. Value (v # vs)))"

definition ora_set_thread_session_info ::
  "(string \<Rightarrow> string \<Rightarrow> string outcome) \<Rightarrow> qval ohash option \<Rightarrow> session_info option \<Rightarrow> unit outcome \<times> session_info option" where
  "ora_set_thread_session_info to_utf8 info thread =
     (case info of
        None \<Rightarrow> (Value (), None)
      | Some h \<Rightarrow>
          (case attr_values to_utf8 h ora_session_attr_keys of
             Value vs \<Rightarrow> (Value (), if info_empty vs then None else Some vs)
           | Raised e \<Rightarrow> (Raised e, thread)
           | Undefined \<Rightarrow> (Undefined, thread)))"

definition ora_get_thread_session_info_hash :: "session_info option \<Rightarrow> qval ohash option" where
  "ora_get_thread_session_info_hash thread =
     map_option (\<lambda>vs. map (\<lambda>(k, v). (k, QString v ''UTF-8'')) (filter (\<lambda>(k, v). v \<noteq> []) (zip ora_session_attr_keys vs))) thread"

section \<open>The attributes of the session\<close>

text \<open>
  \<open>sa_known\<close> and \<open>sa_attr\<close> are what the connection believes it has set, \<open>sa_server\<close> what the session
  handle holds: the bytes of the last \<open>OCIAttrSet\<close> per attribute.  The answer of the call
  number \<open>k\<close> is an argument.
\<close>

record session_state =
  sa_known :: bool
  sa_attr :: "string list"
  sa_server :: "string list"
  sa_calls :: nat

lemma back_up_le: "back_up s n \<le> n"
  by (induction n) auto

text \<open>
  A value that needs conversion is shortened by characters until it fits; a conversion of the
  empty text ends the loop.
\<close>

function fit_attr :: "(string \<Rightarrow> string outcome) \<Rightarrow> string \<Rightarrow> string outcome" where
  "fit_attr conv src =
     (case conv src of
        Value t \<Rightarrow>
          if length t \<le> ORA_SESSION_ATTR_MAX_BYTES then Value t
          else if src = [] then Undefined
          else fit_attr conv (ora_truncate_utf8 (length src - 1) src)
      | r \<Rightarrow> r)"
  by pat_completeness auto

termination
proof (relation "measure (\<lambda>(conv, src). length src)")
  fix conv :: "string \<Rightarrow> string outcome" and src :: string and t
  assume "src \<noteq> []"
  then have "back_up src (length src - 1) < length src"
    using back_up_le [of src "length src - 1"] by (cases src) auto
  with \<open>src \<noteq> []\<close> show "((conv, ora_truncate_utf8 (length src - 1) src), conv, src) \<in> measure (\<lambda>(conv, src). length src)"
    by (auto simp: ora_truncate_utf8_def)
qed simp

declare fit_attr.simps [simp del]

record session_env =
  se_same_encoding :: bool
  se_conv :: "string \<Rightarrow> string outcome"
  se_answer :: "nat \<Rightarrow> exn option"

definition attr_bytes :: "session_env \<Rightarrow> string \<Rightarrow> string outcome" where
  "attr_bytes env v = (if v = [] \<or> se_same_encoding env then Value v else fit_attr (se_conv env) v)"

definition setSessionAttr :: "session_env \<Rightarrow> nat \<Rightarrow> string \<Rightarrow> session_state \<Rightarrow> unit outcome \<times> session_state" where
  "setSessionAttr env i v s =
     (case attr_bytes env v of
        Value t \<Rightarrow>
          (case se_answer env (sa_calls s) of
             None \<Rightarrow> (Value (), s\<lparr>sa_server := (sa_server s)[i := t], sa_calls := Suc (sa_calls s)\<rparr>)
           | Some e \<Rightarrow> (Raised e, s\<lparr>sa_calls := Suc (sa_calls s)\<rparr>))
      | Raised e \<Rightarrow> (Raised e, s)
      | Undefined \<Rightarrow> (Undefined, s))"

fun apply_attrs :: "session_env \<Rightarrow> session_info \<Rightarrow> nat \<Rightarrow> nat \<Rightarrow> session_state \<Rightarrow> unit outcome \<times> session_state" where
  "apply_attrs env info i 0 s = (Value (), s\<lparr>sa_known := True\<rparr>)"
| "apply_attrs env info i (Suc n) s =
     (if sa_known s \<and> sa_attr s ! i = info ! i then apply_attrs env info (Suc i) n s
      else case setSessionAttr env i (info ! i) s of
             (Value _, s') \<Rightarrow> apply_attrs env info (Suc i) n (s'\<lparr>sa_attr := (sa_attr s')[i := info ! i]\<rparr>)
           | (r, s') \<Rightarrow> (r, s'\<lparr>sa_known := False\<rparr>))"

definition applyThreadSessionInfo :: "session_env \<Rightarrow> session_info option \<Rightarrow> session_state \<Rightarrow> unit outcome \<times> session_state" where
  "applyThreadSessionInfo env thread s =
     apply_attrs env (case thread of None \<Rightarrow> replicate ORA_SA_COUNT [] | Some vs \<Rightarrow> vs) 0 ORA_SA_COUNT s"

definition session_logon :: "session_state \<Rightarrow> session_state" where
  "session_logon s = s\<lparr>sa_known := False, sa_server := replicate ORA_SA_COUNT []\<rparr>"


section \<open>Whole characters are kept\<close>

text \<open>A UTF-8 character: a lead byte and its continuation bytes.\<close>

definition utf8_char :: "string \<Rightarrow> bool" where
  "utf8_char c \<longleftrightarrow> (\<exists>b r. c = b # r \<and> \<not> continuation_byte b \<and> list_all continuation_byte r)"

lemma back_up_spec:
  assumes "n < length s"
  shows "(\<forall>i. back_up s n < i \<and> i \<le> n \<longrightarrow> continuation_byte (s ! i))
    \<and> (back_up s n = 0 \<or> \<not> continuation_byte (s ! back_up s n))"
  using assms
proof (induction n)
  case (Suc n)
  then show ?case by (auto simp: le_Suc_eq)
qed simp

lemma char_boundary:
  assumes "list_all utf8_char cs" "k < length (concat cs)" "\<not> continuation_byte (concat cs ! k)"
  shows "\<exists>n < length cs. k = length (concat (take n cs))"
  using assms
proof (induction cs arbitrary: k)
  case (Cons c cs)
  show ?case
  proof (cases "k < length c")
    case True
    with Cons.prems have "k = 0"
      by (cases k) (auto simp: utf8_char_def nth_append list_all_length nth_Cons split: nat.splits)
    then show ?thesis by (intro exI [of _ 0]) simp
  next
    case False
    with Cons.prems have "k - length c < length (concat cs)" "\<not> continuation_byte (concat cs ! (k - length c))"
      by (auto simp: nth_append)
    with Cons.IH Cons.prems obtain n where "n < length cs" "k - length c = length (concat (take n cs))" by auto
    with False show ?thesis by (intro exI [of _ "Suc n"]) auto
  qed
qed simp

lemma char_lead:
  assumes "list_all utf8_char cs" "n < length cs"
  shows "length (concat (take n cs)) < length (concat cs) \<and> \<not> continuation_byte (concat cs ! length (concat (take n cs)))"
proof -
  have c: "concat cs = concat (take n cs) @ cs ! n @ concat (drop (Suc n) cs)"
    using assms(2) by (metis append_take_drop_id concat.simps(2) concat_append Cons_nth_drop_Suc)
  obtain b r where "cs ! n = b # r" "\<not> continuation_byte b"
    using assms by (auto simp: list_all_length utf8_char_def)
  with c have "concat cs = concat (take n cs) @ b # (r @ concat (drop (Suc n) cs))" by simp
  then have "length (concat (take n cs)) < length (concat cs)" "concat cs ! length (concat (take n cs)) = b"
    by (metis length_append length_Cons add_Suc_right less_add_Suc1, metis nth_append_length)
  with \<open>\<not> continuation_byte b\<close> show ?thesis by simp
qed

text \<open>C36: Truncation keeps whole characters: of a text of UTF-8 characters it returns the longest
  sequence of leading characters that fits the given number of bytes.
\<close>

theorem truncate_whole_characters:
  assumes "list_all utf8_char cs"
  shows "\<exists>n \<le> length cs. ora_truncate_utf8 m (concat cs) = concat (take n cs)
    \<and> length (concat (take n cs)) \<le> m \<and> (n < length cs \<longrightarrow> m < length (concat (take (Suc n) cs)))"
proof (cases "length (concat cs) \<le> m")
  case True
  then show ?thesis by (intro exI [of _ "length cs"]) (simp add: ora_truncate_utf8_def)
next
  case False
  let ?s = "concat cs" and ?k = "back_up (concat cs) m"
  from False have m: "m < length ?s" by simp
  note b = back_up_spec [OF m] and le = back_up_le [of ?s m]
  have ne: "cs \<noteq> []" using m by auto
  have k: "\<not> continuation_byte (?s ! ?k)"
  proof (cases "?k = 0")
    case True
    with char_lead [OF assms, of 0] ne show ?thesis by simp
  next
    case False
    with b show ?thesis by blast
  qed
  with char_boundary [OF assms] le m obtain n where n: "n < length cs" "?k = length (concat (take n cs))"
    by (metis order.strict_trans1)
  have "ora_truncate_utf8 m ?s = take ?k ?s" using False by (simp add: ora_truncate_utf8_def)
  also have "\<dots> = concat (take n cs)"
    using n by (metis append_eq_conv_conj append_take_drop_id concat_append)
  finally have t: "ora_truncate_utf8 m ?s = concat (take n cs)" .
  have "m < length (concat (take (Suc n) cs))"
  proof (rule ccontr)
    assume "\<not> m < length (concat (take (Suc n) cs))"
    moreover from this m have "Suc n < length cs" by (cases "Suc n < length cs") auto
    moreover have "?k < length (concat (take (Suc n) cs))"
      using n assms by (auto simp: take_Suc_conv_app_nth list_all_length utf8_char_def)
    ultimately show False using b char_lead [OF assms, of "Suc n"] by auto
  qed
  with t n le show ?thesis by (intro exI [of _ n]) simp
qed

section \<open>The session shows the thread that uses it\<close>

definition session_inv :: "session_env \<Rightarrow> session_state \<Rightarrow> bool" where
  "session_inv env s \<longleftrightarrow> length (sa_attr s) = ORA_SA_COUNT \<and> length (sa_server s) = ORA_SA_COUNT
     \<and> (sa_known s \<longrightarrow> (\<forall>i < ORA_SA_COUNT. attr_bytes env (sa_attr s ! i) = Value (sa_server s ! i)))"

lemma set_attr_cases:
  assumes "setSessionAttr env i v s = (r, s')"
  shows "sa_known s' = sa_known s \<and> sa_attr s' = sa_attr s
    \<and> (case r of Value _ \<Rightarrow> \<exists>t. attr_bytes env v = Value t \<and> sa_server s' = (sa_server s)[i := t]
        | _ \<Rightarrow> sa_server s' = sa_server s)"
  using assms by (auto simp: setSessionAttr_def split: outcome.splits option.splits)

lemma apply_attrs_inv:
  assumes "session_inv env s" "apply_attrs env info i n s = (r, s')" "i + n = ORA_SA_COUNT"
    "\<And>j. j < i \<Longrightarrow> attr_bytes env (info ! j) = Value (sa_server s ! j) \<and> sa_attr s ! j = info ! j"
  shows "session_inv env s' \<and> (r = Value () \<longrightarrow>
    (\<forall>j < ORA_SA_COUNT. attr_bytes env (info ! j) = Value (sa_server s' ! j)))"
  using assms
proof (induction n arbitrary: i s)
  case 0
  then show ?case by (auto simp: session_inv_def)
next
  case (Suc n)
  show ?case
  proof (cases "sa_known s \<and> sa_attr s ! i = info ! i")
    case True
    with Suc.prems have a: "apply_attrs env info (Suc i) n s = (r, s')" by simp
    have k: "attr_bytes env (info ! j) = Value (sa_server s ! j) \<and> sa_attr s ! j = info ! j" if "j < Suc i" for j
      using that True Suc.prems(1,3) Suc.prems(4) [of j] by (cases "j = i") (auto simp: session_inv_def dest: spec [of _ i])
    show ?thesis by (rule Suc.IH [OF Suc.prems(1) a]) (use Suc.prems(3) k in auto)
  next
    case False
    obtain r1 s1 where c: "setSessionAttr env i (info ! i) s = (r1, s1)" by fastforce
    note e = set_attr_cases [OF c]
    show ?thesis
    proof (cases r1)
      case (Value u)
      let ?s = "s1\<lparr>sa_attr := (sa_attr s1)[i := info ! i]\<rparr>"
      have a: "apply_attrs env info (Suc i) n ?s = (r, s')" using Suc.prems(2) False c Value by simp
      from e Value obtain t where t: "attr_bytes env (info ! i) = Value t" "sa_server s1 = (sa_server s)[i := t]" by auto
      have i: "session_inv env ?s"
        using Suc.prems(1,3) e t by (auto simp: session_inv_def nth_list_update)
      have k: "attr_bytes env (info ! j) = Value (sa_server ?s ! j) \<and> sa_attr ?s ! j = info ! j" if "j < Suc i" for j
        using that Suc.prems(1,3,4) e t by (cases "j = i") (auto simp: session_inv_def)
      show ?thesis by (rule Suc.IH [OF i a]) (use Suc.prems(3) k in auto)
    qed (use Suc.prems(1,2) False c e in \<open>auto simp: session_inv_def\<close>)
  qed
qed


text \<open>
  Threads share the connection: a step is a round trip on behalf of some thread (with its own
  information and any answers of the OCI calls) or a new logon.
\<close>

inductive session_step :: "session_env \<Rightarrow> session_state \<Rightarrow> session_state \<Rightarrow> bool" for env :: session_env where
  step_apply: "applyThreadSessionInfo (env\<lparr>se_answer := a\<rparr>) thread s = (r, s') \<Longrightarrow> session_step env s s'"
| step_logon: "session_step env s (session_logon s)"

inductive_cases session_stepE: "session_step env s s'"

definition session_init :: "session_state \<Rightarrow> bool" where
  "session_init s \<longleftrightarrow> \<not> sa_known s \<and> length (sa_attr s) = ORA_SA_COUNT \<and> length (sa_server s) = ORA_SA_COUNT"

lemma attr_bytes_answer [simp]: "attr_bytes (env\<lparr>se_answer := a\<rparr>) v = attr_bytes env v"
  by (simp add: attr_bytes_def)

lemma session_inv_answer [simp]: "session_inv (env\<lparr>se_answer := a\<rparr>) s = session_inv env s"
  by (simp add: session_inv_def)

lemma apply_inv:
  assumes "session_inv env s" "applyThreadSessionInfo env thread s = (r, s')"
  shows "session_inv env s' \<and> (r = Value () \<longrightarrow>
    (\<forall>j < ORA_SA_COUNT. attr_bytes env ((case thread of None \<Rightarrow> replicate ORA_SA_COUNT [] | Some vs \<Rightarrow> vs) ! j)
       = Value (sa_server s' ! j)))"
  using apply_attrs_inv [OF assms(1) assms(2) [unfolded applyThreadSessionInfo_def]] by simp

interpretation session: transition_invariant session_init "session_step env" "session_inv env" for env
proof
  show "session_init s \<Longrightarrow> session_inv env s" for s by (simp add: session_init_def session_inv_def)
  show "session_inv env s \<Longrightarrow> session_step env s s' \<Longrightarrow> session_inv env s'" for s s'
    by (erule session_stepE)
      (use apply_inv [of "env\<lparr>se_answer := a\<rparr>" s for a] in \<open>fastforce simp: session_logon_def session_inv_def ORA_SA_COUNT_def\<close>)+
qed

text \<open>C14: Whatever threads have used the connection before, and whatever calls failed, after
  \<open>applyThreadSessionInfo\<close> returns without an exception the session holds, for each attribute, the
  bytes of the value the current thread has set, and nothing where it has set none: no value
  of another thread is left.
\<close>

theorem session_shows_thread:
  assumes "reach session_init (session_step env) s" "applyThreadSessionInfo env thread s = (Value (), s')"
  shows "session_inv env s' \<and> (\<forall>j < ORA_SA_COUNT.
    case thread of None \<Rightarrow> sa_server s' ! j = [] | Some vs \<Rightarrow> attr_bytes env (vs ! j) = Value (sa_server s' ! j))"
proof -
  have "session_inv env s" using assms(1) by (rule session.reachable_inv)
  from apply_inv [OF this assms(2)] show ?thesis by (cases thread) (auto simp: attr_bytes_def)
qed

lemma fit_attr_bytes: "fit_attr conv src = Value t \<Longrightarrow> length t \<le> ORA_SESSION_ATTR_MAX_BYTES"
proof (induction conv src rule: fit_attr.induct)
  case (1 conv src)
  then show ?case by (subst (asm) (2) fit_attr.simps) (auto split: outcome.splits if_splits)
qed

lemma fit_attr_defined:
  "conv [] = Value [] \<Longrightarrow> (\<And>x. conv x \<noteq> Undefined) \<Longrightarrow> fit_attr conv src \<noteq> Undefined"
proof (induction conv src rule: fit_attr.induct)
  case (1 conv src)
  then show ?case by (subst fit_attr.simps) (auto split: outcome.splits)
qed

lemma attr_value_bytes:
  assumes "attr_value f h k = Value v"
  shows "length v \<le> ORA_SESSION_ATTR_MAX_BYTES"
proof -
  have "length (ora_truncate_utf8 m s) \<le> m" for m s
    using back_up_le [of s m] by (auto simp: ora_truncate_utf8_def)
  with assms show ?thesis by (auto simp: attr_value_def Let_def split: if_splits qval.splits)
qed

lemma attr_values_bytes: "attr_values f h ks = Value vs \<Longrightarrow> list_all (\<lambda>v. length v \<le> ORA_SESSION_ATTR_MAX_BYTES) vs \<and> length vs = length ks"
  by (induction ks arbitrary: vs) (auto dest: attr_value_bytes)

text \<open>C37: What is sent fits: the bytes of an attribute set from a thread's information are at most
  64, and shortening them for the encoding of the connection ends, if the empty text converts
  to the empty text.
\<close>

theorem attributes_fit:
  assumes "ora_set_thread_session_info to_utf8 (Some h) thread = (Value (), Some vs)"
    "se_conv env [] = Value []" "\<And>x. se_conv env x \<noteq> Undefined" "i < ORA_SA_COUNT"
  shows "attr_bytes env (vs ! i) \<noteq> Undefined
    \<and> (\<forall>t. attr_bytes env (vs ! i) = Value t \<longrightarrow> length t \<le> ORA_SESSION_ATTR_MAX_BYTES)"
proof -
  from assms(1) have "attr_values to_utf8 h ora_session_attr_keys = Value vs"
    by (auto simp: ora_set_thread_session_info_def split: outcome.splits if_splits)
  from attr_values_bytes [OF this] assms(4) have "length (vs ! i) \<le> ORA_SESSION_ATTR_MAX_BYTES"
    by (auto simp: list_all_length ora_session_attr_keys_def ORA_SA_COUNT_def)
  with fit_attr_bytes fit_attr_defined assms(2,3) show ?thesis by (auto simp: attr_bytes_def)
qed


section \<open>Samples\<close>

lemma truncate_whole_characters_witness:
  "\<exists>n \<le> 2. ora_truncate_utf8 2 (concat [''a'', [char_of (195 :: nat), char_of (164 :: nat)]])
      = concat (take n [''a'', [char_of (195 :: nat), char_of (164 :: nat)]])"
proof -
  have "list_all utf8_char [''a'', [char_of (195 :: nat), char_of (164 :: nat)]]"
    by (simp add: utf8_char_def continuation_byte_def chr_code_def)
  from truncate_whole_characters [OF this, of 2] show ?thesis by (metis One_nat_def Suc_1 length_Cons list.size(3))
qed

definition session_env0 :: session_env where
  "session_env0 = \<lparr>se_same_encoding = True, se_conv = Value, se_answer = (\<lambda>_. None)\<rparr>"

definition session_state0 :: session_state where
  "session_state0 = \<lparr>sa_known = False, sa_attr = [''m'', [], [], []], sa_server = [''m'', [], [], []], sa_calls = 0\<rparr>"

lemma session_shows_thread_witness:
  "sa_server (snd (applyThreadSessionInfo session_env0 None session_state0)) ! 0 = []"
proof -
  have i: "reach session_init (session_step session_env0) session_state0"
    by (rule reach_init) (simp add: session_init_def session_state0_def ORA_SA_COUNT_def)
  obtain s' where "applyThreadSessionInfo session_env0 None session_state0 = (Value (), s')"
    by (simp add: applyThreadSessionInfo_def session_env0_def session_state0_def ORA_SA_COUNT_def setSessionAttr_def
        attr_bytes_def eval_nat_numeral)
  with session_shows_thread [OF i this] show ?thesis by (simp add: ORA_SA_COUNT_def)
qed

lemma attributes_fit_witness:
  "attr_bytes session_env0 ([''app'', [], [], []] ! 0) \<noteq> Undefined"
proof -
  have "ora_set_thread_session_info (\<lambda>s e. Value s) (Some [(''module'', QString ''app'' ''UTF-8'')]) None
      = (Value (), Some [''app'', [], [], []])"
    by (simp add: ora_set_thread_session_info_def ora_session_attr_keys_def attr_value_def key_value_def
        ora_truncate_utf8_def ORA_SESSION_ATTR_MAX_BYTES_def info_empty_def)
  from attributes_fit [OF this, of session_env0 0] show ?thesis by (simp add: session_env0_def ORA_SA_COUNT_def)
qed

end
