(* ===== verification/Recovery.thy ===== *)
theory Recovery
  imports Prepared Connection Session_Attrs
begin

text \<open>
  The connection with its statements (QoreOracleConnection.cpp, QorePreparedStatement.cpp):
  logging on, what happens when the connection is lost during a call, preparing and executing
  statements, transactions, and the calls of the driver that combine them (oracle.cpp).
\<close>

section \<open>The state\<close>

text \<open>
  The calls that reach the server or the datasource, in order.  An execution records the
  statement as it is then, and the calls that bound it; the calls inside a bind are in the
  world of the binds, which also holds the exceptions.
\<close>

datatype ora_call =
    LogonUsername
  | LogonPassword
  | ServerAttach
  | SetReceiveTimeout "32 word"
  | SetServerHandle
  | SessionBegin
  | SetSessionHandle
  | SessionSql
  | SessionEnd
  | ServerDetach
  | AllocStatementHandle
  | StmtPrepare string
  | GetStmtType
  | StmtExecute prepared bind_world nat bool
  | GetRowCount
  | ServerVersion
  | StmtFetch
  | TransCommit
  | TransRollback
  | DsConnectionLost
  | DsConnectionRecovered
  | DsConnectionAborted

text \<open>
  Statements have numbers; \<open>os_reg\<close> are those registered with the connection.  \<open>os_bound\<close> is the
  state of the binds after a statement was bound last.  \<open>os_trans\<close> says that the datasource has an
  active transaction, \<open>os_open\<close> that it still has its connection.
\<close>

record ora_state =
  os_calls :: "ora_call list"
  os_polls :: nat
  os_bind :: bind_world
  os_lost :: bool
  os_in_logon :: bool
  os_depth :: nat
  os_abort_pending :: bool
  os_open :: bool
  os_trans :: bool
  os_autocommit :: bool
  os_session :: session_state
  os_options :: conn_options
  os_stmts :: "nat \<Rightarrow> prepared"
  os_bound :: "nat \<Rightarrow> bind_world"
  os_reg :: "nat list"
  os_warnings :: "exn list"

text \<open>
  The answers: the status of the \<open>k\<close>-th call and the error code behind it, the pings, the polls,
  the rows an execution produces; the conversions and the binds are those of \<open>en_bind\<close>.
  \<open>en_polls\<close> and \<open>en_attrs\<close> are the answers a new statement gets while fetching; \<open>en_typed\<close> makes a
  typed result of the Qore library from fetched data and its description.
\<close>

record ora_env =
  en_status :: "nat \<Rightarrow> ora_call \<Rightarrow> oci_status"
  en_code :: "nat \<Rightarrow> int"
  en_text :: "nat \<Rightarrow> string"
  en_cancel :: "nat \<Rightarrow> exn option"
  en_ocilib_init :: bool
  en_ping :: "nat \<Rightarrow> bool"
  en_errors :: "nat \<Rightarrow> (int \<times> string) list"
  en_event_queue :: bool
  en_bind :: bind_env
  en_session :: session_env
  en_thread :: "session_info option"
  en_parse :: parse_env
  en_is_select :: "string \<Rightarrow> bool"
  en_cursor :: "nat \<Rightarrow> fetch_event list"
  en_row_count :: "nat \<Rightarrow> int"
  en_params :: "string \<Rightarrow> param_desc list"
  en_define :: define_env
  en_value :: value_env
  en_char_width :: int
  en_utf8 :: bool
  en_polls :: polls
  en_attrs :: polls
  en_typed :: "(qval ohash list + column_hash) \<Rightarrow> column_desc ohash \<Rightarrow> exn + qval"

type_synonym ora_step = "ora_state \<Rightarrow> bool \<times> ora_state"

abbreviation os_sink :: "ora_state \<Rightarrow> sink" where
  "os_sink S \<equiv> bw_sink (os_bind S)"

definition set_sink :: "sink \<Rightarrow> ora_state \<Rightarrow> ora_state" where
  "set_sink xs S = S\<lparr>os_bind := (os_bind S)\<lparr>bw_sink := xs\<rparr>\<rparr>"

definition raise_exn :: "exn \<Rightarrow> ora_state \<Rightarrow> ora_state" where
  "raise_exn e S = set_sink (os_sink S @ [e]) S"

text \<open>A computation that has no defined result stops the call like an exception.\<close>

definition undefined_behaviour :: exn where "undefined_behaviour = Exn ''undefined'' []"

definition note_ora :: "ora_call \<Rightarrow> ora_state \<Rightarrow> ora_state" where
  "note_ora c S = S\<lparr>os_calls := os_calls S @ [c]\<rparr>"

definition ocall :: "ora_env \<Rightarrow> ora_call \<Rightarrow> ora_state \<Rightarrow> oci_status \<times> ora_state" where
  "ocall env c S = (en_status env (length (os_calls S)) c, note_ora c S)"

text \<open>The error the last call left: its code and text.\<close>

definition oci_error :: "ora_env \<Rightarrow> ora_state \<Rightarrow> exn" where
  "oci_error env S = Exn ''DBI:ORACLE:OCI-ERROR'' (en_text env (length (os_calls S) - 1))"

fun run_steps :: "ora_step list \<Rightarrow> ora_step" where
  "run_steps [] S = (False, S)"
| "run_steps (f # fs) S = (let (r, S') = f S in if r then (True, S') else run_steps fs S')"

definition poll_cancel :: "ora_env \<Rightarrow> ora_step" where
  "poll_cancel env S =
     (let S' = S\<lparr>os_polls := Suc (os_polls S)\<rparr>
      in case en_cancel env (os_polls S) of None \<Rightarrow> (False, S') | Some e \<Rightarrow> (True, raise_exn e S'))"

definition apply_session :: "ora_env \<Rightarrow> ora_step" where
  "apply_session env S =
     (case applyThreadSessionInfo (en_session env) (en_thread env) (os_session S) of
        (Value _, s) \<Rightarrow> (False, S\<lparr>os_session := s\<rparr>)
      | (Raised e, s) \<Rightarrow> (True, raise_exn e (S\<lparr>os_session := s\<rparr>))
      | (Undefined, s) \<Rightarrow> (True, raise_exn undefined_behaviour (S\<lparr>os_session := s\<rparr>)))"

section \<open>Logging on and off\<close>

text \<open>\<open>checkerr\<close> while logging on: \<open>handleError\<close> reports the error and does nothing else then.\<close>

definition logon_check :: "ora_env \<Rightarrow> oci_status \<Rightarrow> ora_step" where
  "logon_check env st S = (case checkerr st (oci_error env S) of None \<Rightarrow> (False, S) | Some e \<Rightarrow> (True, raise_exn e S))"

definition logon_call :: "ora_env \<Rightarrow> ora_call \<Rightarrow> ora_step" where
  "logon_call env c S = (let (st, S') = ocall env c S in logon_check env st S')"

text \<open>A cancel is reported before the status of the call it interrupted.\<close>

definition interruptible :: "ora_env \<Rightarrow> ora_call \<Rightarrow> ora_step" where
  "interruptible env c S =
     (let (st, S') = ocall env c S; (r, S'') = poll_cancel env S' in if r then (True, S'') else logon_check env st S'')"

definition attach_step :: "ora_env \<Rightarrow> ora_step" where
  "attach_step env S =
     (let (r, S') = interruptible env ServerAttach S
      in if r then (True, S')
         else (False, S'\<lparr>os_options := (os_options S')\<lparr>co_attached := True, co_handle_timeout := 0\<rparr>\<rparr>))"

definition timeout_step :: "ora_env \<Rightarrow> ora_step" where
  "timeout_step env S =
     (let ms = co_recv_timeout (os_options S)
      in if ms = 0 then (False, S)
         else let (r, S') = logon_call env (SetReceiveTimeout ms) S
              in if r then (True, S') else (False, S'\<lparr>os_options := (os_options S')\<lparr>co_handle_timeout := ms\<rparr>\<rparr>))"

text \<open>\<open>QoreOracleSimpleStatement::exec\<close> of the statement that sets the number format.\<close>

definition session_sql :: string where
  "session_sql = ''alter session set nls_numeric_characters = '' @ [CHR 0x22, CHR ''.'', CHR '' '', CHR 0x22, CHR 0x00]"

definition session_sql_steps :: "ora_env \<Rightarrow> ora_step list" where
  "session_sql_steps env = [logon_call env AllocStatementHandle, logon_call env (StmtPrepare session_sql),
     poll_cancel env, apply_session env, logon_call env SessionSql]"

definition logon :: "ora_env \<Rightarrow> ora_step" where
  "logon env S =
     (let (r, S') = run_steps
            ([logon_call env LogonUsername, logon_call env LogonPassword, poll_cancel env, attach_step env, timeout_step env,
              logon_call env SetServerHandle, poll_cancel env, interruptible env SessionBegin,
              logon_call env SetSessionHandle] @ session_sql_steps env)
            (S\<lparr>os_session := session_logon (os_session S), os_in_logon := True\<rparr>)
      in (r, S'\<lparr>os_in_logon := False\<rparr>))"

definition detach :: "ora_state \<Rightarrow> ora_state" where
  "detach S = (note_ora ServerDetach S)\<lparr>os_options := server_detach (os_options S)\<rparr>"

definition logoff :: "ora_state \<Rightarrow> ora_state" where
  "logoff S = detach (note_ora SessionEnd S)"

definition abandonSession :: "ora_state \<Rightarrow> ora_state" where
  "abandonSession S = detach S"

definition clearWarnings :: "ora_env \<Rightarrow> ora_state \<Rightarrow> ora_state" where
  "clearWarnings env S =
     (if en_event_queue env
      then S\<lparr>os_warnings := os_warnings S @ map (\<lambda>(n, s). Exn ''ORACLE-WARNING'' s) (en_errors env (length (os_calls S)))\<rparr>
      else S)"

section \<open>The statements of the connection\<close>

definition conn_bind_env :: "ora_env \<Rightarrow> ora_state \<Rightarrow> bind_env" where
  "conn_bind_env env S = (en_bind env)\<lparr>be_lost := os_lost S\<rparr>"

definition put_stmt :: "nat \<Rightarrow> prepared \<times> bind_world \<Rightarrow> ora_state \<Rightarrow> ora_state" where
  "put_stmt i pw S = S\<lparr>os_stmts := (os_stmts S)(i := fst pw), os_bind := snd pw\<rparr>"

definition clear_stmt :: "ora_env \<Rightarrow> nat \<Rightarrow> ora_state \<Rightarrow> ora_state" where
  "clear_stmt env i S = put_stmt i (prepared_clear (conn_bind_env env S) (os_stmts S i) (os_bind S)) S"

definition registerStatement :: "nat \<Rightarrow> ora_state \<Rightarrow> ora_state" where
  "registerStatement i S = (if i \<in> set (os_reg S) then S else S\<lparr>os_reg := os_reg S @ [i]\<rparr>)"

definition deregisterStatement :: "nat \<Rightarrow> ora_state \<Rightarrow> ora_state" where
  "deregisterStatement i S = S\<lparr>os_reg := filter (\<lambda>j. j \<noteq> i) (os_reg S)\<rparr>"

definition reset_stmt :: "ora_env \<Rightarrow> nat \<Rightarrow> ora_state \<Rightarrow> ora_state" where
  "reset_stmt env i S =
     deregisterStatement i (put_stmt i (prepared_reset (conn_bind_env env S) (os_stmts S i) (os_bind S)) S)"

definition clearStatements :: "ora_env \<Rightarrow> nat option \<Rightarrow> ora_state \<Rightarrow> ora_state" where
  "clearStatements env stmt S =
     (let S1 = fold (clear_stmt env) (os_reg S) S
      in case stmt of
           None \<Rightarrow> S1
         | Some i \<Rightarrow> if i \<notin> set (os_reg S1) then clear_stmt env i S1 else S1)"

definition resetStatements :: "ora_env \<Rightarrow> ora_state \<Rightarrow> ora_state" where
  "resetStatements env S = fold (reset_stmt env) (os_reg S) S"

definition close_datasource :: "ora_state \<Rightarrow> ora_state" where
  "close_datasource S = (note_ora DsConnectionAborted S)\<lparr>os_open := False\<rparr>"

definition abortConnection :: "ora_env \<Rightarrow> ora_state \<Rightarrow> ora_state" where
  "abortConnection env S =
     (let S1 = resetStatements env S
      in if os_depth S1 > 0 then S1\<lparr>os_abort_pending := True\<rparr> else close_datasource S1)"

section \<open>Errors\<close>

definition transaction_error :: "ora_state \<Rightarrow> ora_state" where
  "transaction_error S =
     (if os_trans S then raise_exn (Exn ''DBI:ORACLE:TRANSACTION-ERROR'' ''transaction has been lost'') S else S)"

definition timed_out :: "ora_env \<Rightarrow> exn \<Rightarrow> ora_step" where
  "timed_out env err S =
     (let S1 = clearStatements env None (transaction_error (raise_exn err S));
          (r, S2) = logon env (abandonSession (note_ora DsConnectionLost S1))
      in (False, if r then abortConnection env S2 else note_ora DsConnectionRecovered (clearWarnings env S2)))"

definition lost_code :: "int \<Rightarrow> bool" where
  "lost_code code \<longleftrightarrow> code = 3113 \<or> code = 3114 \<or> code = 1041"

text \<open>\<open>ping\<close> is 0 for a lost connection; without OCILIB an error is never taken for a lost connection.\<close>

definition still_connected :: "ora_env \<Rightarrow> int \<Rightarrow> ora_state \<Rightarrow> bool" where
  "still_connected env code S \<longleftrightarrow> \<not> lost_code code \<and> (en_ocilib_init env \<longrightarrow> en_ping env (length (os_calls S)))"

text \<open>
  \<open>handleError\<close>: the result is \<open>True\<close> if the operation can be retried.  \<open>rebind\<close> prepares and binds the
  statements on the new session; it is absent when the caller cannot retry.
\<close>

definition handleError :: "ora_env \<Rightarrow> nat option \<Rightarrow> ora_step option \<Rightarrow> ora_step" where
  "handleError env stmt rebind S =
     (let err = oci_error env S; code = en_code env (length (os_calls S) - 1)
      in if os_in_logon S then (False, raise_exn err S)
         else if code = 12609 then timed_out env err S
         else if still_connected env code S then (False, raise_exn err S)
         else
           let S1 = note_ora DsConnectionLost (clearStatements env stmt (transaction_error (S\<lparr>os_lost := True\<rparr>)))
           in case rebind of
                None \<Rightarrow> (False, abortConnection env (raise_exn err S1))
              | Some again \<Rightarrow>
                  (let xs = os_sink S1; (r, S2) = logon env (set_sink [] (logoff S1))
                   in if r then (False, abortConnection env (set_sink (xs @ [err] @ os_sink S2) S2))
                      else let S3 = clearWarnings env ((set_sink xs S2)\<lparr>os_lost := False\<rparr>)
                           in if xs \<noteq> [] then (False, note_ora DsConnectionRecovered S3)
                              else again S3))"

definition conn_checkerr :: "ora_env \<Rightarrow> oci_status \<Rightarrow> ora_step" where
  "conn_checkerr env st S =
     (if st = OCI_ERROR then (True, snd (handleError env None None S))
      else case checkerr st (oci_error env S) of None \<Rightarrow> (False, S) | Some e \<Rightarrow> (True, raise_exn e S))"

definition conn_call :: "ora_env \<Rightarrow> ora_call \<Rightarrow> ora_step" where
  "conn_call env c S = (let (st, S') = ocall env c S in conn_checkerr env st S')"

section \<open>Preparing a statement\<close>

definition change_stmt :: "nat \<Rightarrow> (prepared \<Rightarrow> prepared) \<Rightarrow> ora_state \<Rightarrow> ora_state" where
  "change_stmt i f S = S\<lparr>os_stmts := (os_stmts S)(i := f (os_stmts S i))\<rparr>"

definition convert_sql :: "bind_env \<Rightarrow> string \<Rightarrow> string \<Rightarrow> string outcome" where
  "convert_sql env sql enc = (if enc = be_encoding env then Value sql else be_convert env sql enc (be_encoding env))"

definition parse_step :: "ora_env \<Rightarrow> nat \<Rightarrow> qval list option \<Rightarrow> ora_step" where
  "parse_step env i args S =
     (case parseQuery (en_parse env) (case pp_str (os_stmts S i) of None \<Rightarrow> [] | Some s \<Rightarrow> s) args of
        Stop s \<Rightarrow>
          (let failed = bw_sink (pq_world s) \<noteq> [];
               S' = change_stmt i (\<lambda>p. p\<lparr>pp_str := Some (pq_pre s @ pq_rest s), pp_nodes := pq_nodes s,
                      pp_hasOutput := pq_has_output s,
                      pp_args := (if args \<noteq> None \<and> \<not> os_trans S \<and> \<not> failed then args else pp_args p)\<rparr>) S
           in (failed, set_sink (os_sink S' @ bw_sink (pq_world s)) S'))
      | _ \<Rightarrow> (True, raise_exn undefined_behaviour S))"

definition bind_step :: "(bind_env \<Rightarrow> prepared \<Rightarrow> bind_world \<Rightarrow> prepared_step) \<Rightarrow> ora_env \<Rightarrow> nat \<Rightarrow> ora_step" where
  "bind_step f env i S =
     (let (r, p, w) = f (conn_bind_env env S) (os_stmts S i) (os_bind S)
      in (r, (put_stmt i (p, w) S)\<lparr>os_bound := (os_bound S)(i := w)\<rparr>))"

definition note_select :: "ora_env \<Rightarrow> prepared \<Rightarrow> prepared" where
  "note_select env p =
     (if en_is_select env (case pp_str p of None \<Rightarrow> [] | Some s \<Rightarrow> s)
      then p\<lparr>pp_stmt := (pp_stmt p)\<lparr>st_is_select := True\<rparr>\<rparr> else p)"

definition prepare_steps :: "ora_env \<Rightarrow> nat \<Rightarrow> ora_step list" where
  "prepare_steps env i =
     [\<lambda>S. (let (r, S') = conn_call env AllocStatementHandle S
            in if r then (True, S') else (False, change_stmt i (\<lambda>p. p\<lparr>pp_handle := True\<rparr>) S')),
      \<lambda>S. conn_call env (StmtPrepare (case pp_str (os_stmts S i) of None \<Rightarrow> [] | Some s \<Rightarrow> s)) S,
      \<lambda>S. (let (r, S') = conn_call env GetStmtType S
            in if r then (True, S') else (False, change_stmt i (note_select env) S')),
      \<lambda>S. if pp_nodes (os_stmts S i) \<noteq> [] then bind_step bindOracle env i S else (False, S)]"

definition stmt_prepare :: "ora_env \<Rightarrow> string \<Rightarrow> string \<Rightarrow> qval list option \<Rightarrow> bool \<Rightarrow> nat \<Rightarrow> ora_step" where
  "stmt_prepare env sql enc args parse i S =
     (case convert_sql (en_bind env) sql enc of
        Raised e \<Rightarrow> (True, raise_exn e (change_stmt i (\<lambda>p. p\<lparr>pp_str := None\<rparr>) S))
      | Undefined \<Rightarrow> (True, raise_exn undefined_behaviour S)
      | Value t \<Rightarrow>
          run_steps ((if parse then [parse_step env i args] else []) @ prepare_steps env i)
            (change_stmt i (\<lambda>p. p\<lparr>pp_str := Some t\<rparr>) S))"

text \<open>On a new session the text is prepared again as it is: it has the encoding of the database.\<close>

definition rebindAbortedConnection :: "ora_env \<Rightarrow> nat \<Rightarrow> ora_step" where
  "rebindAbortedConnection env i S =
     (case pp_str (os_stmts S i) of
        None \<Rightarrow> (True, raise_exn undefined_behaviour S)
      | Some t \<Rightarrow> stmt_prepare env t (be_encoding (en_bind env)) None False i (change_stmt i (\<lambda>p. p\<lparr>pp_str := None\<rparr>) S))"

definition rebind_statements :: "ora_env \<Rightarrow> nat \<Rightarrow> ora_step" where
  "rebind_statements env i S =
     (let (r, S1) = run_steps (map (rebindAbortedConnection env) (os_reg S)) S
      in if r then (False, S1)
         else if i \<notin> set (os_reg S1)
         then let (r2, S2) = rebindAbortedConnection env i S1 in (\<not> r2, S2)
         else (True, S1))"

section \<open>Executing a statement\<close>

definition exec_call :: "ora_env \<Rightarrow> nat \<Rightarrow> nat \<Rightarrow> bool \<Rightarrow> ora_state \<Rightarrow> oci_status \<times> ora_state" where
  "exec_call env i iters describe S =
     (let k = length (os_calls S); (st, S') = ocall env (StmtExecute (os_stmts S i) (os_bound S i) iters describe) S
      in (st, if (st = OCI_SUCCESS \<or> st = OCI_SUCCESS_WITH_INFO) \<and> \<not> describe
              then change_stmt i (\<lambda>p. p\<lparr>pp_stmt := (pp_stmt p)\<lparr>st_cursor := en_cursor env k\<rparr>\<rparr>) S' else S'))"

definition stmt_execute :: "ora_env \<Rightarrow> nat \<Rightarrow> bool \<Rightarrow> ora_step" where
  "stmt_execute env i describe S =
     (let st0 = pp_stmt (os_stmts S i);
          iters = (if st_is_select st0 then 0 else if st_array_size st0 = 0 then 1 else st_array_size st0);
          (r, S1) = run_steps [poll_cancel env, apply_session env] S
      in if r then (True, S1)
         else let (status, S2) = exec_call env i iters describe S1
              in if status = OCI_ERROR then
                   (let (again, S3) = handleError env (Some i) (Some (rebind_statements env i)) S2
                    in if \<not> again then (True, S3)
                       else let (r, S4) = run_steps [poll_cancel env, apply_session env] S3
                            in if r then (True, S4)
                               else let (status, S5) = exec_call env i iters describe S4 in conn_checkerr env status S5)
                 else conn_checkerr env status S2)"

definition stmt_exec :: "ora_env \<Rightarrow> nat \<Rightarrow> ora_step" where
  "stmt_exec env i = stmt_execute env i False"

definition stmt_execDescribe :: "ora_env \<Rightarrow> nat \<Rightarrow> ora_step" where
  "stmt_execDescribe env i = stmt_execute env i True"

definition affectedRows :: "ora_env \<Rightarrow> ora_state \<Rightarrow> int \<times> ora_state" where
  "affectedRows env S =
     (let (r, S') = conn_call env GetRowCount S in (if r then 0 else en_row_count env (length (os_calls S)), S'))"

section \<open>Transactions\<close>

definition conn_commit :: "ora_env \<Rightarrow> ora_step" where
  "conn_commit env = run_steps [poll_cancel env, apply_session env, conn_call env TransCommit]"

text \<open>Ending an active direct path load comes first; \<open>load_end\<close> does it when there is one.\<close>

definition conn_rollback :: "ora_env \<Rightarrow> ora_step option \<Rightarrow> ora_step" where
  "conn_rollback env load_end =
     run_steps ((case load_end of None \<Rightarrow> [] | Some f \<Rightarrow> [f])
       @ [poll_cancel env, apply_session env, conn_call env TransRollback])"

section \<open>Calls of the driver\<close>

text \<open>\<open>QoreOracleCallGuard\<close>: the connection is closed when the outermost call ends.\<close>

definition call_guard :: "(ora_state \<Rightarrow> 'a \<times> ora_state) \<Rightarrow> ora_state \<Rightarrow> 'a \<times> ora_state" where
  "call_guard f S =
     (let (r, S1) = f (S\<lparr>os_depth := Suc (os_depth S)\<rparr>); S2 = S1\<lparr>os_depth := os_depth S1 - 1\<rparr>
      in (r, if os_depth S2 = 0 \<and> os_abort_pending S2 then close_datasource (S2\<lparr>os_abort_pending := False\<rparr>) else S2))"

section \<open>Steps that leave the statements alone\<close>

text \<open>The calls that do work on the server: executions, commits and rollbacks.\<close>

fun is_work :: "ora_call \<Rightarrow> bool" where
  "is_work (StmtExecute p w n d) = True"
| "is_work TransCommit = True"
| "is_work TransRollback = True"
| "is_work _ = False"

definition work :: "ora_call list \<Rightarrow> ora_call list" where
  "work cs = filter is_work cs"

definition new_calls :: "ora_state \<Rightarrow> ora_state \<Rightarrow> ora_call list" where
  "new_calls S S' = drop (length (os_calls S)) (os_calls S')"

definition grows :: "ora_state \<Rightarrow> ora_state \<Rightarrow> bool" where
  "grows S S' \<longleftrightarrow> (\<exists>cs. os_calls S' = os_calls S @ cs \<and> work cs = [])"

lemma grows_refl [simp]: "grows S S"
  by (simp add: grows_def work_def)

lemma grows_trans: "grows S S1 \<Longrightarrow> grows S1 S2 \<Longrightarrow> grows S S2"
  by (auto simp: grows_def work_def)

lemma grows_note: "\<not> is_work c \<Longrightarrow> grows S (note_ora c S)"
  by (simp add: grows_def note_ora_def work_def)

text \<open>The session is not ended: the server does not commit what it still has.\<close>

definition no_end :: "ora_state \<Rightarrow> ora_state \<Rightarrow> bool" where
  "no_end S S' \<longleftrightarrow> (\<exists>cs. os_calls S' = os_calls S @ cs \<and> SessionEnd \<notin> set cs)"

lemma no_end_refl [simp]: "no_end S S"
  by (simp add: no_end_def)

lemma no_end_trans: "no_end S S1 \<Longrightarrow> no_end S1 S2 \<Longrightarrow> no_end S S2"
  by (auto simp: no_end_def)

lemma no_end_note: "c \<noteq> SessionEnd \<Longrightarrow> no_end S (note_ora c S)"
  by (simp add: no_end_def note_ora_def)

text \<open>What the calls on the session do not touch.\<close>

definition core :: "ora_state \<Rightarrow> bool \<times> nat \<times> bool \<times> bool \<times> bool \<times> bool \<times> nat list" where
  "core S = (os_lost S, os_depth S, os_abort_pending S, os_open S, os_trans S, os_autocommit S, os_reg S)"

definition stores :: "ora_state \<Rightarrow> (nat \<Rightarrow> prepared) \<times> (nat \<Rightarrow> bind_world) \<times> bind_call list" where
  "stores S = (os_stmts S, os_bound S, bw_calls (os_bind S))"

definition light :: "ora_state \<Rightarrow> ora_state \<Rightarrow> bool" where
  "light S S' \<longleftrightarrow> core S' = core S \<and> os_in_logon S' = os_in_logon S \<and> stores S' = stores S \<and> grows S S' \<and> no_end S S'"

lemma light_refl [simp]: "light S S"
  by (simp add: light_def)

lemma light_trans: "light S S1 \<Longrightarrow> light S1 S2 \<Longrightarrow> light S S2"
  unfolding light_def by (metis grows_trans no_end_trans)

lemma light_sink [simp]: "light S (set_sink xs S') \<longleftrightarrow> light S S'" "light S (raise_exn e S') \<longleftrightarrow> light S S'"
  by (simp_all add: light_def core_def stores_def set_sink_def raise_exn_def grows_def no_end_def)

lemma light_note: "\<not> is_work c \<Longrightarrow> c \<noteq> SessionEnd \<Longrightarrow> light S S' \<Longrightarrow> light S (note_ora c S')"
  using grows_trans [OF _ grows_note] no_end_trans [OF _ no_end_note] by (auto simp: light_def core_def stores_def note_ora_def)

lemma light_updates [simp]:
  "light S (S'\<lparr>os_session := x\<rparr>) \<longleftrightarrow> light S S'" "light S (S'\<lparr>os_options := y\<rparr>) \<longleftrightarrow> light S S'"
  "light S (S'\<lparr>os_polls := n\<rparr>) \<longleftrightarrow> light S S'" "light S (S'\<lparr>os_warnings := ws\<rparr>) \<longleftrightarrow> light S S'"
  by (simp_all add: light_def core_def stores_def grows_def no_end_def)

lemma sink_simps [simp]:
  "os_sink (set_sink xs S) = xs" "os_sink (raise_exn e S) = os_sink S @ [e]" "os_sink (note_ora c S) = os_sink S"
  by (simp_all add: set_sink_def raise_exn_def note_ora_def)

text \<open>A step that reports: it fails exactly if it raises, and it is light.\<close>

definition session_step_ok :: "ora_step \<Rightarrow> bool" where
  "session_step_ok f \<longleftrightarrow> (\<forall>S r S'. f S = (r, S') \<longrightarrow> light S S' \<and> (\<exists>xs. os_sink S' = os_sink S @ xs \<and> (r \<longleftrightarrow> xs \<noteq> [])))"

lemma session_step_okI:
  "(\<And>S r S'. f S = (r, S') \<Longrightarrow> light S S' \<and> (\<exists>xs. os_sink S' = os_sink S @ xs \<and> (r \<longleftrightarrow> xs \<noteq> []))) \<Longrightarrow> session_step_ok f"
  by (simp add: session_step_ok_def)

lemma session_step_okD:
  "session_step_ok f \<Longrightarrow> f S = (r, S') \<Longrightarrow> light S S'"
  "session_step_ok f \<Longrightarrow> f S = (r, S') \<Longrightarrow> \<exists>xs. os_sink S' = os_sink S @ xs \<and> (r \<longleftrightarrow> xs \<noteq> [])"
  by (auto simp: session_step_ok_def)

lemma poll_ok [intro]: "session_step_ok (poll_cancel env)"
  by (rule session_step_okI) (auto simp: poll_cancel_def Let_def split: option.splits)

lemma apply_session_ok [intro]: "session_step_ok (apply_session env)"
  by (rule session_step_okI) (auto simp: apply_session_def split: prod.splits outcome.splits)

lemma logon_check_ok [intro]: "session_step_ok (logon_check env st)"
  by (rule session_step_okI) (auto simp: logon_check_def split: option.splits)

lemma logon_call_ok [intro]: "\<not> is_work c \<Longrightarrow> c \<noteq> SessionEnd \<Longrightarrow> session_step_ok (logon_call env c)"
  by (rule session_step_okI) (auto simp: logon_call_def ocall_def logon_check_def split: option.splits intro!: light_note)

lemma session_step_then:
  assumes "session_step_ok f" "session_step_ok g"
  shows "session_step_ok (\<lambda>S. let (r, S') = f S in if r then (True, S') else g S')"
proof (rule session_step_okI)
  fix S r S'
  assume a: "(let (r, S') = f S in if r then (True, S') else g S') = (r, S')"
  obtain r1 S1 where f: "f S = (r1, S1)" by fastforce
  note f1 = assms(1) [unfolded session_step_ok_def, rule_format, OF f]
  show "light S S' \<and> (\<exists>xs. os_sink S' = os_sink S @ xs \<and> (r \<longleftrightarrow> xs \<noteq> []))"
  proof (cases r1)
    case True
    with a f f1 show ?thesis by auto
  next
    case False
    with a f have "g S1 = (r, S')" by simp
    note g1 = assms(2) [unfolded session_step_ok_def, rule_format, OF this]
    have "light S S'" using f1 g1 light_trans by blast
    with f1 g1 False show ?thesis by auto
  qed
qed

lemma run_steps_ok: "list_all session_step_ok fs \<Longrightarrow> session_step_ok (run_steps fs)"
proof (induction fs)
  case Nil
  then show ?case by (simp add: session_step_ok_def)
next
  case (Cons f fs)
  then have "session_step_ok (\<lambda>S. let (r, S') = f S in if r then (True, S') else run_steps fs S')"
    by (intro session_step_then) auto
  then show ?case by (simp add: session_step_ok_def)
qed

lemma interruptible_ok [intro]:
  assumes "\<not> is_work c" "c \<noteq> SessionEnd"
  shows "session_step_ok (interruptible env c)"
proof -
  have "session_step_ok (\<lambda>S. let (r, S') = poll_cancel env S in if r then (True, S') else logon_check env st S')" for st
    by (intro session_step_then poll_ok logon_check_ok)
  note u = this [unfolded session_step_ok_def, rule_format]
  show ?thesis
  proof (rule session_step_okI)
    fix S r S'
    assume "interruptible env c S = (r, S')"
    then have "(let (r, S') = poll_cancel env (note_ora c S) in
        if r then (True, S') else logon_check env (en_status env (length (os_calls S)) c) S') = (r, S')"
      by (simp add: interruptible_def ocall_def)
    from u [OF this] light_trans [OF light_note [OF assms(1,2) light_refl]]
    show "light S S' \<and> (\<exists>xs. os_sink S' = os_sink S @ xs \<and> (r \<longleftrightarrow> xs \<noteq> []))" by auto
  qed
qed

lemma attach_ok [intro]: "session_step_ok (attach_step env)"
  by (rule session_step_okI)
    (force simp: attach_step_def split: prod.splits if_splits
      dest: session_step_okD [OF interruptible_ok [of ServerAttach env, simplified]])

lemma timeout_ok [intro]: "session_step_ok (timeout_step env)"
  by (rule session_step_okI)
    (force simp: timeout_step_def Let_def split: prod.splits if_splits
      dest: session_step_okD [OF logon_call_ok [of "SetReceiveTimeout ms" env for ms, simplified]])

lemma logon_light:
  assumes "logon env S = (r, S')"
  shows "core S' = core S \<and> \<not> os_in_logon S' \<and> stores S' = stores S \<and> grows S S' \<and> no_end S S'
    \<and> (\<exists>xs. os_sink S' = os_sink S @ xs \<and> (r \<longleftrightarrow> xs \<noteq> []))"
proof -
  let ?fs = "[logon_call env LogonUsername, logon_call env LogonPassword, poll_cancel env, attach_step env, timeout_step env,
              logon_call env SetServerHandle, poll_cancel env, interruptible env SessionBegin,
              logon_call env SetSessionHandle] @ session_sql_steps env"
  let ?S = "S\<lparr>os_session := session_logon (os_session S), os_in_logon := True\<rparr>"
  have "list_all session_step_ok ?fs" by (auto simp: session_sql_steps_def)
  note ok = run_steps_ok [OF this, unfolded session_step_ok_def, rule_format]
  obtain r1 S1 where r: "run_steps ?fs ?S = (r1, S1)" by fastforce
  from ok [OF r] have "light ?S S1" "\<exists>xs. os_sink S1 = os_sink S @ xs \<and> (r1 \<longleftrightarrow> xs \<noteq> [])" by auto
  moreover have "r = r1" "S' = S1\<lparr>os_in_logon := False\<rparr>" using assms r by (simp_all add: logon_def)
  ultimately show ?thesis by (simp add: light_def core_def stores_def grows_def no_end_def)
qed

section \<open>Clearing and resetting statements\<close>

text \<open>What clearing and resetting nodes does to the binds: exceptions are added, no handle is reused.\<close>

definition world_le :: "bind_world \<Rightarrow> bind_world \<Rightarrow> bool" where
  "world_le w w' \<longleftrightarrow> (\<exists>xs. bw_sink w' = bw_sink w @ xs) \<and> (handles_old w \<longrightarrow> handles_old w')"

lemma world_le_refl [simp]: "world_le w w"
  by (simp add: world_le_def)

lemma world_le_trans: "world_le w w1 \<Longrightarrow> world_le w1 w2 \<Longrightarrow> world_le w w2"
  by (auto simp: world_le_def)

lemma world_le_bfree [simp]: "world_le w (bfree fs w') \<longleftrightarrow> world_le w w'"
  by (simp add: world_le_def bfree_def handles_old_def)

lemma array_delete_le: "world_le w (array_data_delete env d w)"
proof -
  have "bw_sink (array_data_delete env d w) = bw_sink w" by (cases d) (auto simp: array_data_delete_def bfree_def)
  with handles_old_extends [OF array_data_delete_extends] show ?thesis by (simp add: world_le_def)
qed

lemma delete_array_le: "delete_array env n w = (n', w') \<Longrightarrow> world_le w w'"
  by (auto simp: delete_array_def array_delete_le split: option.splits)

lemma node_del_le: "node_del env n w = (n', w') \<Longrightarrow> world_le w w'"
  by (auto simp: node_del_def split: if_splits prod.splits dest: delete_array_le)

lemma clearPlaceholder_le: "clearPlaceholder env n w = (n', w') \<Longrightarrow> world_le w w'"
  by (auto simp: clearPlaceholder_def split: if_splits prod.splits dest: node_del_le)

lemma bcall_le: "call_writes c = None \<Longrightarrow> bcall env c w = (r, w') \<Longrightarrow> world_le w w'"
  using handles_old_extends [OF extends_call [OF _ _ _ extends_refl]]
  by (auto simp: world_le_def bcall_def handles_old_def store_call_other split: option.splits)

lemma resetValue_le: "resetValue env n w = (n', w') \<Longrightarrow> world_le w w'"
  using bcall_le [of "FreeTemporaryLob (bn_strlob n)" env w]
  by (cases "bcall env (FreeTemporaryLob (bn_strlob n)) w")
    (auto simp: resetValue_def Let_def set_data_def call_writes_def split: if_splits prod.splits dest!: delete_array_le)

lemma node_clear_le: "node_clear env n w = (n', w') \<Longrightarrow> world_le w w'"
  by (auto simp: node_clear_def split: if_splits dest: resetValue_le clearPlaceholder_le)

lemma node_reset_le: "node_reset env b n w = (n', w') \<Longrightarrow> world_le w w'"
  by (auto simp: node_reset_def resetPlaceholder_def Let_def split: if_splits dest: resetValue_le clearPlaceholder_le)

lemma each_node_le:
  assumes "\<And>n w n' w'. f n w = (n', w') \<Longrightarrow> world_le w w'"
  shows "each_node f ns w = (ns', w') \<Longrightarrow> world_le w w'"
proof (induction ns arbitrary: w ns')
  case (Cons n ns)
  obtain n1 w1 where f: "f n w = (n1, w1)" by fastforce
  obtain ns1 w2 where e: "each_node f ns w1 = (ns1, w2)" by fastforce
  have "w2 = w'" using Cons.prems f e by simp
  with Cons.IH e assms [OF f] world_le_trans show ?case by blast
qed simp

lemma drop_columns_le: "drop_columns p w = (p', w') \<Longrightarrow> world_le w w'"
  by (auto simp: drop_columns_def split: option.splits)

lemma free_handle_le: "free_handle p w = (p', w') \<Longrightarrow> world_le w w'"
  by (auto simp: free_handle_def)

lemma prepared_clear_le:
  assumes "prepared_clear env p w = (p', w')"
  shows "world_le w w'"
proof -
  obtain p1 w1 where 1: "free_handle p w = (p1, w1)" by fastforce
  obtain ns w2 where 2: "each_node (node_clear env) (pp_nodes p1) w1 = (ns, w2)" by fastforce
  obtain p2 where 3: "drop_columns (p1\<lparr>pp_nodes := ns\<rparr>) w2 = (p2, w')"
    using assms 1 2 by (auto simp: prepared_clear_def split: prod.splits)
  have "world_le w1 w2" by (rule each_node_le [OF _ 2]) (rule node_clear_le)
  with free_handle_le [OF 1] drop_columns_le [OF 3] show ?thesis by (blast intro: world_le_trans)
qed

lemma prepared_reset_le:
  assumes "prepared_reset env p w = (p', w')"
  shows "world_le w w'"
proof -
  obtain p1 w1 where 1: "free_handle p w = (p1, w1)" by fastforce
  obtain ns w2 where 2: "each_node (node_reset env True) (pp_nodes p1) w1 = (ns, w2)" by fastforce
  obtain p2 where 3: "drop_columns (p1\<lparr>pp_nodes := []\<rparr>) w2 = (p2, w')"
    using assms 1 2 by (auto simp: prepared_reset_def split: prod.splits)
  have "world_le w1 w2" by (rule each_node_le [OF _ 2]) (rule node_reset_le)
  with free_handle_le [OF 1] drop_columns_le [OF 3] show ?thesis by (blast intro: world_le_trans)
qed

text \<open>A statement is still the same: its text and what its nodes are for.\<close>

definition same_stmt :: "prepared \<Rightarrow> prepared \<Rightarrow> bool" where
  "same_stmt p p' \<longleftrightarrow> pp_str p' = pp_str p \<and> map node_param (pp_nodes p') = map node_param (pp_nodes p)"

lemma same_stmt_refl [simp]: "same_stmt p p"
  by (simp add: same_stmt_def)

lemma same_stmt_trans: "same_stmt p p1 \<Longrightarrow> same_stmt p1 p2 \<Longrightarrow> same_stmt p p2"
  by (simp add: same_stmt_def)

definition cleared :: "ora_state \<Rightarrow> ora_state \<Rightarrow> bool" where
  "cleared S S' \<longleftrightarrow> core S' = core S \<and> os_in_logon S' = os_in_logon S \<and> os_calls S' = os_calls S
     \<and> (\<forall>i. same_stmt (os_stmts S i) (os_stmts S' i)) \<and> world_le (os_bind S) (os_bind S')"

lemma cleared_refl [simp]: "cleared S S"
  by (simp add: cleared_def)

lemma cleared_trans: "cleared S S1 \<Longrightarrow> cleared S1 S2 \<Longrightarrow> cleared S S2"
  by (simp add: cleared_def) (blast intro: same_stmt_trans world_le_trans)

lemma clear_stmt_cleared: "cleared S (clear_stmt env i S)"
proof -
  obtain p w where c: "prepared_clear (conn_bind_env env S) (os_stmts S i) (os_bind S) = (p, w)" by fastforce
  from prepared_clear_keeps [OF c] prepared_clear_le [OF c] c show ?thesis
    by (simp add: clear_stmt_def put_stmt_def cleared_def core_def same_stmt_def)
qed

lemma fold_clear_cleared: "cleared S (fold (clear_stmt env) is S)"
  by (induction "is" arbitrary: S) (auto intro: cleared_trans [OF clear_stmt_cleared])

lemma clearStatements_cleared: "cleared S (clearStatements env stmt S)"
  using cleared_trans [OF fold_clear_cleared clear_stmt_cleared] fold_clear_cleared
  by (auto simp: clearStatements_def Let_def split: option.splits)

text \<open>Resetting the registered statements leaves none registered.\<close>

definition flags :: "ora_state \<Rightarrow> bool \<times> nat \<times> bool \<times> bool \<times> bool \<times> bool \<times> bool" where
  "flags S = (os_lost S, os_depth S, os_abort_pending S, os_open S, os_trans S, os_autocommit S, os_in_logon S)"

lemma reset_stmt_effect:
  "flags (reset_stmt env i S) = flags S \<and> os_calls (reset_stmt env i S) = os_calls S
     \<and> os_reg (reset_stmt env i S) = filter (\<lambda>j. j \<noteq> i) (os_reg S) \<and> world_le (os_bind S) (os_bind (reset_stmt env i S))"
proof -
  obtain p w where c: "prepared_reset (conn_bind_env env S) (os_stmts S i) (os_bind S) = (p, w)" by fastforce
  from prepared_reset_le [OF c] c show ?thesis
    by (simp add: reset_stmt_def put_stmt_def deregisterStatement_def flags_def)
qed

lemma fold_reset_effect:
  "flags (fold (reset_stmt env) is S) = flags S \<and> os_calls (fold (reset_stmt env) is S) = os_calls S
     \<and> os_reg (fold (reset_stmt env) is S) = filter (\<lambda>j. j \<notin> set is) (os_reg S)
     \<and> world_le (os_bind S) (os_bind (fold (reset_stmt env) is S))"
proof (induction "is" arbitrary: S)
  case (Cons i "is")
  from Cons.IH [of "reset_stmt env i S"] reset_stmt_effect [of env i S] world_le_trans show ?case
    by (auto intro: filter_cong)
qed simp

lemma resetStatements_effect:
  "flags (resetStatements env S) = flags S \<and> os_calls (resetStatements env S) = os_calls S \<and> os_reg (resetStatements env S) = []
     \<and> world_le (os_bind S) (os_bind (resetStatements env S))"
  using fold_reset_effect [of env "os_reg S" S] by (auto simp: resetStatements_def filter_empty_conv)

section \<open>What a call keeps\<close>

text \<open>
  During a call: a lost connection is marked to be closed, registered statements have their text.
\<close>

definition call_good :: "ora_state \<Rightarrow> bool" where
  "call_good S \<longleftrightarrow> (os_lost S \<longrightarrow> os_abort_pending S) \<and> (\<forall>i \<in> set (os_reg S). pp_str (os_stmts S i) \<noteq> None)"

definition flow :: "ora_state \<Rightarrow> ora_state \<Rightarrow> bool" where
  "flow S S' \<longleftrightarrow> os_depth S' = os_depth S \<and> os_trans S' = os_trans S \<and> os_autocommit S' = os_autocommit S \<and> \<not> os_in_logon S'
     \<and> (handles_old (os_bind S) \<longrightarrow> handles_old (os_bind S'))
     \<and> (0 < os_depth S \<longrightarrow> os_open S' = os_open S \<and> (call_good S \<longrightarrow> call_good S'))"

lemma flow_trans: "flow S S1 \<Longrightarrow> flow S1 S2 \<Longrightarrow> flow S S2"
  by (auto simp: flow_def)

lemma light_flow: "light S S' \<Longrightarrow> \<not> os_in_logon S \<Longrightarrow> flow S S'"
  by (auto simp: light_def core_def stores_def flow_def call_good_def handles_old_def)

definition call_step_ok :: "ora_step \<Rightarrow> bool" where
  "call_step_ok f \<longleftrightarrow> (\<forall>S r S'. f S = (r, S') \<longrightarrow> os_sink S = [] \<longrightarrow> \<not> os_in_logon S \<longrightarrow>
     flow S S' \<and> grows S S' \<and> (r \<longleftrightarrow> os_sink S' \<noteq> []))"

lemma call_step_okI:
  "(\<And>S r S'. f S = (r, S') \<Longrightarrow> os_sink S = [] \<Longrightarrow> \<not> os_in_logon S \<Longrightarrow> flow S S' \<and> grows S S' \<and> (r \<longleftrightarrow> os_sink S' \<noteq> []))
     \<Longrightarrow> call_step_ok f"
  by (simp add: call_step_ok_def)

lemma call_step_okD:
  "call_step_ok f \<Longrightarrow> f S = (r, S') \<Longrightarrow> os_sink S = [] \<Longrightarrow> \<not> os_in_logon S \<Longrightarrow> flow S S' \<and> grows S S' \<and> (r \<longleftrightarrow> os_sink S' \<noteq> [])"
  by (simp add: call_step_ok_def)

lemma session_step_call: "session_step_ok f \<Longrightarrow> call_step_ok f"
  by (rule call_step_okI) (use light_flow in \<open>fastforce simp: session_step_ok_def light_def\<close>)

lemma run_steps_call: "list_all call_step_ok fs \<Longrightarrow> call_step_ok (run_steps fs)"
proof (induction fs)
  case Nil
  then show ?case by (simp add: call_step_ok_def flow_def)
next
  case (Cons f fs)
  show ?case
  proof (rule call_step_okI)
    fix S r S'
    assume a: "run_steps (f # fs) S = (r, S')" "os_sink S = []" "\<not> os_in_logon S"
    obtain r1 S1 where f: "f S = (r1, S1)" by fastforce
    have ok: "call_step_ok f" "call_step_ok (run_steps fs)" using Cons by auto
    from call_step_okD [OF ok(1) f a(2,3)] have f1: "flow S S1" "grows S S1" "r1 \<longleftrightarrow> os_sink S1 \<noteq> []" by auto
    show "flow S S' \<and> grows S S' \<and> (r \<longleftrightarrow> os_sink S' \<noteq> [])"
    proof (cases r1)
      case True
      with a(1) f f1 show ?thesis by auto
    next
      case False
      with a(1) f have g: "run_steps fs S1 = (r, S')" by simp
      have "os_sink S1 = []" "\<not> os_in_logon S1" using f1 False by (auto simp: flow_def)
      from call_step_okD [OF ok(2) g this] f1 flow_trans grows_trans show ?thesis by blast
    qed
  qed
qed

lemma world_le_handles: "world_le w w' \<Longrightarrow> handles_old w \<Longrightarrow> handles_old w'"
  by (simp add: world_le_def)

lemma world_le_sink: "world_le w w' \<Longrightarrow> bw_sink w \<noteq> [] \<Longrightarrow> bw_sink w' \<noteq> []"
  by (auto simp: world_le_def)

text \<open>Within a call, aborting the connection only marks it; the datasource is closed otherwise.\<close>

lemma abortConnection_effect:
  assumes "\<not> os_in_logon S"
  shows "grows S (abortConnection env S) \<and> world_le (os_bind S) (os_bind (abortConnection env S))
    \<and> os_depth (abortConnection env S) = os_depth S \<and> os_trans (abortConnection env S) = os_trans S
    \<and> os_autocommit (abortConnection env S) = os_autocommit S \<and> \<not> os_in_logon (abortConnection env S)
    \<and> (0 < os_depth S \<longrightarrow> os_open (abortConnection env S) = os_open S \<and> call_good (abortConnection env S))"
  using resetStatements_effect [of env S] assms
  by (auto simp: abortConnection_def Let_def flags_def close_datasource_def note_ora_def grows_def work_def call_good_def)

lemma logon_flow:
  assumes "logon env S = (r, S')"
  shows "core S' = core S" "\<not> os_in_logon S'" "stores S' = stores S" "grows S S'"
    "\<exists>xs. os_sink S' = os_sink S @ xs \<and> (r \<longleftrightarrow> xs \<noteq> [])" "no_end S S'"
  using logon_light [OF assms] by auto

lemma stores_handles: "stores S' = stores S \<Longrightarrow> handles_old (os_bind S') = handles_old (os_bind S)"
  by (simp add: stores_def handles_old_def)

lemma stores_stmts: "stores S' = stores S \<Longrightarrow> os_stmts S' = os_stmts S"
  by (simp add: stores_def)

lemma note_simps [simp]:
  "core (note_ora c S) = core S" "stores (note_ora c S) = stores S" "os_in_logon (note_ora c S) = os_in_logon S"
  "core (detach S) = core S" "stores (detach S) = stores S" "os_in_logon (detach S) = os_in_logon S"
  "os_sink (detach S) = os_sink S"
  "core (clearWarnings env S) = core S" "stores (clearWarnings env S) = stores S"
  "os_in_logon (clearWarnings env S) = os_in_logon S" "os_sink (clearWarnings env S) = os_sink S"
  "core (set_sink xs S) = core S" "stores (set_sink xs S) = stores S" "os_in_logon (set_sink xs S) = os_in_logon S"
  "core (raise_exn e S) = core S" "stores (raise_exn e S) = stores S" "os_in_logon (raise_exn e S) = os_in_logon S"
  "os_calls (raise_exn e S) = os_calls S" "os_calls (set_sink xs S) = os_calls S"
  "os_calls (clearWarnings env S) = os_calls S"
  "core (transaction_error S) = core S" "stores (transaction_error S) = stores S"
  "os_in_logon (transaction_error S) = os_in_logon S" "os_calls (transaction_error S) = os_calls S"
  by (simp_all add: note_ora_def detach_def clearWarnings_def set_sink_def raise_exn_def core_def stores_def
      transaction_error_def)

lemma grows_detach: "grows S (detach S)"
  using grows_note [of ServerDetach S] by (simp add: detach_def grows_def)

lemma recovered_grows: "grows S (note_ora DsConnectionRecovered (clearWarnings env S))"
  by (simp add: grows_def note_ora_def work_def clearWarnings_def)

lemma grows_calls: "os_calls S1 = os_calls S \<Longrightarrow> os_calls S2 = os_calls S' \<Longrightarrow> grows S1 S2 = grows S S'"
  by (simp add: grows_def)

lemma core_simps: "core S' = core S \<Longrightarrow> os_depth S' = os_depth S \<and> os_trans S' = os_trans S \<and> os_autocommit S' = os_autocommit S
    \<and> os_open S' = os_open S \<and> os_lost S' = os_lost S \<and> os_abort_pending S' = os_abort_pending S \<and> os_reg S' = os_reg S"
  by (simp add: core_def)

text \<open>The statements are all still the same, and so is everything of the connection.\<close>

definition kept :: "ora_state \<Rightarrow> ora_state \<Rightarrow> bool" where
  "kept S S' \<longleftrightarrow> core S' = core S \<and> \<not> os_in_logon S' \<and> grows S S' \<and> (\<forall>i. same_stmt (os_stmts S i) (os_stmts S' i))
     \<and> (handles_old (os_bind S) \<longrightarrow> handles_old (os_bind S'))"

lemma kept_flow: "kept S S' \<Longrightarrow> flow S S'"
  by (auto simp: kept_def flow_def core_def call_good_def same_stmt_def)

lemma kept_trans: "kept S S1 \<Longrightarrow> kept S1 S2 \<Longrightarrow> kept S S2"
  by (simp add: kept_def) (blast intro: same_stmt_trans grows_trans)

lemma cleared_kept: "cleared S S' \<Longrightarrow> \<not> os_in_logon S \<Longrightarrow> kept S S'"
  by (auto simp: cleared_def kept_def grows_def work_def dest: world_le_handles)

lemma logon_kept: "logon env S = (r, S') \<Longrightarrow> kept S S'"
  using logon_flow [of env S r S'] stores_handles [of S' S] stores_stmts [of S' S] by (simp add: kept_def)

lemma kept_light: "core S' = core S \<Longrightarrow> stores S' = stores S \<Longrightarrow> \<not> os_in_logon S' \<Longrightarrow> grows S S' \<Longrightarrow> kept S S'"
  using stores_handles [of S' S] stores_stmts [of S' S] by (simp add: kept_def)

lemma timed_out_kept:
  assumes "timed_out env err S = (r, S')" "\<not> os_in_logon S"
  shows "\<exists>S3. kept S S3 \<and> os_sink S3 \<noteq> [] \<and> \<not> r
    \<and> (S' = abortConnection env S3 \<or> S' = note_ora DsConnectionRecovered (clearWarnings env S3))"
proof -
  let ?S0 = "transaction_error (raise_exn err S)"
  let ?S1 = "clearStatements env None ?S0"
  let ?S2 = "abandonSession (note_ora DsConnectionLost ?S1)"
  obtain r2 S3 where l: "logon env ?S2 = (r2, S3)" by fastforce
  have "kept S ?S0" using assms(2) by (intro kept_light) (simp_all add: grows_def work_def)
  moreover have c: "cleared ?S0 ?S1" by (rule clearStatements_cleared)
  then have k1: "kept ?S0 ?S1" using assms(2) by (intro cleared_kept) simp_all
  moreover have "kept ?S1 ?S2"
    using k1 grows_trans [OF grows_note grows_detach] by (intro kept_light) (simp_all add: abandonSession_def kept_def)
  ultimately have k: "kept S S3" using logon_kept [OF l] by (blast intro: kept_trans)
  have "os_sink ?S0 \<noteq> []" by (simp add: transaction_error_def)
  then have "os_sink ?S1 \<noteq> []" using c world_le_sink by (auto simp: cleared_def)
  then have s: "os_sink S3 \<noteq> []" using logon_flow(5) [OF l] by (auto simp: abandonSession_def)
  have "S' = (if r2 then abortConnection env S3 else note_ora DsConnectionRecovered (clearWarnings env S3))" "\<not> r"
    using assms(1) l by (simp_all add: timed_out_def Let_def)
  with k s show ?thesis by (cases r2) auto
qed

lemma recovered_kept: "kept S S3 \<Longrightarrow> kept S (note_ora DsConnectionRecovered (clearWarnings env S3))"
proof -
  assume k: "kept S S3"
  have "kept S3 (note_ora DsConnectionRecovered (clearWarnings env S3))"
    using k recovered_grows by (intro kept_light) (simp_all add: kept_def)
  with k show ?thesis by (rule kept_trans)
qed

lemma timed_out_flow:
  assumes "timed_out env err S = (r, S')" "\<not> os_in_logon S"
  shows "\<not> r \<and> flow S S' \<and> grows S S' \<and> os_sink S' \<noteq> []"
proof -
  from timed_out_kept [OF assms] obtain S3 where k: "kept S S3" "os_sink S3 \<noteq> []" "\<not> r"
    and S': "S' = abortConnection env S3 \<or> S' = note_ora DsConnectionRecovered (clearWarnings env S3)" by blast
  from S' show ?thesis
  proof
    assume S': "S' = note_ora DsConnectionRecovered (clearWarnings env S3)"
    with recovered_kept [OF k(1)] have "kept S S'" by simp
    with kept_flow [OF this] k S' show ?thesis by (simp add: kept_def)
  next
    assume S': "S' = abortConnection env S3"
    have n: "\<not> os_in_logon S3" using k(1) by (simp add: kept_def)
    note a = abortConnection_effect [OF n, of env]
    have "core S3 = core S" using k(1) by (simp add: kept_def)
    note c3 = core_simps [OF this]
    have "handles_old (os_bind S) \<longrightarrow> handles_old (os_bind S3)" using k(1) by (simp add: kept_def)
    then have "flow S S'" using a c3 S' world_le_handles by (auto simp: flow_def)
    moreover have "os_sink S' \<noteq> []" using a k(2) S' world_le_sink by auto
    ultimately show ?thesis using a k S' grows_trans by (auto simp: kept_def)
  qed
qed

lemma handleError_flow:
  assumes "handleError env stmt None S = (r, S')" "\<not> os_in_logon S"
  shows "\<not> r \<and> flow S S' \<and> grows S S' \<and> os_sink S' \<noteq> []"
proof -
  let ?err = "oci_error env S" and ?code = "en_code env (length (os_calls S) - 1)"
  consider "?code = 12609" | "?code \<noteq> 12609" "still_connected env ?code S" | "?code \<noteq> 12609" "\<not> still_connected env ?code S"
    by blast
  then show ?thesis
  proof cases
    case 1
    then have "timed_out env ?err S = (r, S')" using assms by (simp add: handleError_def Let_def)
    from timed_out_flow [OF this assms(2)] show ?thesis .
  next
    case 2
    with assms have "r = False" "S' = raise_exn ?err S" by (simp_all add: handleError_def Let_def)
    moreover have "kept S (raise_exn ?err S)" using assms(2) by (intro kept_light) (simp_all add: grows_def work_def)
    ultimately show ?thesis using kept_flow by (simp add: kept_def)
  next
    case 3
    let ?S0 = "transaction_error (S\<lparr>os_lost := True\<rparr>)"
    let ?S1 = "note_ora DsConnectionLost (clearStatements env stmt ?S0)"
    let ?S2 = "raise_exn ?err ?S1"
    have S': "S' = abortConnection env ?S2" "\<not> r" using assms 3 by (simp_all add: handleError_def Let_def)
    have c: "cleared ?S0 (clearStatements env stmt ?S0)" by (rule clearStatements_cleared)
    then have n: "\<not> os_in_logon ?S2" using assms(2) by (simp add: cleared_def)
    have d: "os_depth ?S2 = os_depth S" "os_trans ?S2 = os_trans S" "os_autocommit ?S2 = os_autocommit S" "os_open ?S2 = os_open S"
      using c core_simps [of ?S0 "S\<lparr>os_lost := True\<rparr>"]
      by (auto simp: cleared_def raise_exn_def set_sink_def note_ora_def core_def transaction_error_def)
    have g: "grows S ?S2" using c by (auto simp: cleared_def grows_def note_ora_def work_def)
    have h: "handles_old (os_bind S) \<longrightarrow> handles_old (os_bind ?S2)"
      using c world_le_handles stores_handles [of ?S2 "clearStatements env stmt ?S0"] stores_handles [of ?S0 "S\<lparr>os_lost := True\<rparr>"]
      by (auto simp: cleared_def)
    note a = abortConnection_effect [OF n, of env]
    have "flow S S'" using a d h S'(1) world_le_handles by (auto simp: flow_def)
    moreover have "os_sink S' \<noteq> []" using a S'(1) world_le_sink by auto
    ultimately show ?thesis using a g S' grows_trans by auto
  qed
qed

lemma conn_checkerr_ok [intro]: "call_step_ok (conn_checkerr env st)"
proof (rule call_step_okI)
  fix S r S'
  assume a: "conn_checkerr env st S = (r, S')" "os_sink S = []" "\<not> os_in_logon S"
  show "flow S S' \<and> grows S S' \<and> (r \<longleftrightarrow> os_sink S' \<noteq> [])"
  proof (cases "st = OCI_ERROR")
    case True
    with a handleError_flow [of env None S] show ?thesis
      by (cases "handleError env None None S") (auto simp: conn_checkerr_def)
  next
    case False
    with a have "session_step_ok (logon_check env st)" "logon_check env st S = (r, S')"
      by (auto simp: conn_checkerr_def logon_check_def)
    with a(2,3) session_step_call call_step_okD show ?thesis by blast
  qed
qed

lemma call_step_note:
  assumes "\<not> is_work c" "call_step_ok f" "f (note_ora c S) = (r, S')" "os_sink S = []" "\<not> os_in_logon S"
  shows "flow S S' \<and> grows S S' \<and> (r \<longleftrightarrow> os_sink S' \<noteq> [])"
proof -
  have "kept S (note_ora c S)" using assms(1,5) grows_note by (intro kept_light) simp_all
  then have "flow S (note_ora c S)" "grows S (note_ora c S)" using kept_flow by (auto simp: kept_def)
  with call_step_okD [OF assms(2,3)] assms(4,5) show ?thesis using flow_trans grows_trans by auto
qed

lemma conn_call_ok [intro]:
  assumes "\<not> is_work c"
  shows "call_step_ok (conn_call env c)"
proof (rule call_step_okI)
  fix S r S'
  assume a: "conn_call env c S = (r, S')" "os_sink S = []" "\<not> os_in_logon S"
  then have "conn_checkerr env (en_status env (length (os_calls S)) c) (note_ora c S) = (r, S')"
    by (simp add: conn_call_def ocall_def)
  from call_step_note [OF assms conn_checkerr_ok this a(2,3)] show "flow S S' \<and> grows S S' \<and> (r \<longleftrightarrow> os_sink S' \<noteq> [])" .
qed

section \<open>Preparing and binding again\<close>

lemma bind_nodes_report:
  assumes "bind_nodes env pos ns w = (r, ns', w')" "bw_sink w = []"
  shows "(r \<longleftrightarrow> bw_sink w' \<noteq> []) \<and> (handles_old w \<longrightarrow> handles_old w')"
  using assms
proof (induction ns arbitrary: pos w r ns')
  case (Cons n ns)
  obtain n1 w1 where b: "node_bind env pos n w = (n1, w1)" by fastforce
  have h: "handles_old w \<longrightarrow> handles_old w1" using handles_old_extends [OF node_bind_extends [OF b]] by blast
  show ?case
  proof (cases "bw_sink w1 = []")
    case False
    with Cons.prems b h show ?thesis by auto
  next
    case True
    then obtain ns1 where "bind_nodes env (Suc pos) ns w1 = (r, ns1, w')"
      using Cons.prems b by (auto split: prod.splits)
    from Cons.IH [OF this True] h show ?thesis by blast
  qed
qed simp

lemma bindOracle_report:
  assumes "bindOracle env p w = (r, p', w')" "bw_sink w = []"
  shows "(r \<longleftrightarrow> bw_sink w' \<noteq> []) \<and> (handles_old w \<longrightarrow> handles_old w') \<and> same_stmt p p'"
proof (cases "scan_arrays (pp_nodes p) ((pp_stmt p)\<lparr>st_array_size := 0\<rparr>)")
  case (Pair x st)
  show ?thesis
  proof (cases x)
    case (Some e)
    with Pair assms show ?thesis
      by (auto simp: bindOracle_def same_stmt_def braise_def handles_old_def)
  next
    case None
    obtain r1 ns w1 where b: "bind_nodes (stmt_env env st) 1 (pp_nodes p) w = (r1, ns, w1)" by (metis prod_cases3)
    with None Pair assms bind_nodes_report [OF b assms(2)] bind_nodes_param [OF b] show ?thesis
      by (auto simp: bindOracle_def same_stmt_def)
  qed
qed

lemma change_stmt_kept:
  assumes "\<And>p. same_stmt p (g p)" "\<not> os_in_logon S"
  shows "kept S (change_stmt i g S)"
  using assms by (auto simp: kept_def change_stmt_def core_def grows_def work_def same_stmt_def)

lemma change_after:
  assumes "call_step_ok f" "\<And>S p. same_stmt p (g S p)"
  shows "call_step_ok (\<lambda>S. let (r, S') = f S in if r then (True, S') else (False, change_stmt i (g S') S'))"
proof (rule call_step_okI)
  fix S r S'
  assume a: "(let (r, S') = f S in if r then (True, S') else (False, change_stmt i (g S') S')) = (r, S')"
    "os_sink S = []" "\<not> os_in_logon S"
  obtain r1 S1 where f: "f S = (r1, S1)" by fastforce
  from call_step_okD [OF assms(1) f a(2,3)] have ok: "flow S S1" "grows S S1" "r1 \<longleftrightarrow> os_sink S1 \<noteq> []" by auto
  show "flow S S' \<and> grows S S' \<and> (r \<longleftrightarrow> os_sink S' \<noteq> [])"
  proof (cases r1)
    case True
    with a f ok show ?thesis by auto
  next
    case False
    with a f have S': "\<not> r" "S' = change_stmt i (g S1) S1" by auto
    have "\<not> os_in_logon S1" using ok(1) by (simp add: flow_def)
    then have k: "kept S1 S'" unfolding S'(2) by (intro change_stmt_kept assms(2))
    have "os_sink S' = os_sink S1" using S'(2) by (simp add: change_stmt_def)
    moreover have "flow S S'" using flow_trans [OF ok(1) kept_flow [OF k]] .
    moreover have "grows S S'" using grows_trans [OF ok(2)] k by (simp add: kept_def)
    ultimately show ?thesis using ok(3) S'(1) False by simp
  qed
qed

lemma bind_step_ok [intro]: "call_step_ok (bind_step bindOracle env i)"
proof (rule call_step_okI)
  fix S r S'
  assume a: "bind_step bindOracle env i S = (r, S')" "os_sink S = []" "\<not> os_in_logon S"
  obtain p w where b: "bindOracle (conn_bind_env env S) (os_stmts S i) (os_bind S) = (r, p, w)"
      "S' = (put_stmt i (p, w) S)\<lparr>os_bound := (os_bound S)(i := w)\<rparr>"
    using a(1) by (auto simp: bind_step_def split: prod.splits)
  from bindOracle_report [OF b(1)] a(2,3) b(2) show "flow S S' \<and> grows S S' \<and> (r \<longleftrightarrow> os_sink S' \<noteq> [])"
    by (auto simp: put_stmt_def flow_def grows_def work_def call_good_def same_stmt_def)
qed

lemma prepare_steps_ok: "list_all call_step_ok (prepare_steps env i)"
proof -
  have 1: "call_step_ok (\<lambda>S. let (r, S') = conn_call env AllocStatementHandle S
            in if r then (True, S') else (False, change_stmt i (\<lambda>p. p\<lparr>pp_handle := True\<rparr>) S'))"
    using change_after [of "conn_call env AllocStatementHandle" "\<lambda>_ p. p\<lparr>pp_handle := True\<rparr>"] conn_call_ok
    by (simp add: same_stmt_def)
  have 2: "call_step_ok (\<lambda>S. conn_call env (StmtPrepare (case pp_str (os_stmts S i) of None \<Rightarrow> [] | Some s \<Rightarrow> s)) S)"
    using conn_call_ok [of "StmtPrepare s" env for s] by (simp add: call_step_ok_def)
  have 3: "call_step_ok (\<lambda>S. let (r, S') = conn_call env GetStmtType S
            in if r then (True, S') else (False, change_stmt i (note_select env) S'))"
    by (rule change_after [of "conn_call env GetStmtType" "\<lambda>_. note_select env"]) (auto simp: same_stmt_def note_select_def)
  have 4: "call_step_ok (\<lambda>S. if pp_nodes (os_stmts S i) \<noteq> [] then bind_step bindOracle env i S else (False, S))"
    using bind_step_ok [of env i] by (auto simp: call_step_ok_def flow_def)
  show ?thesis unfolding prepare_steps_def using 1 2 3 4 by simp
qed

lemma rebind_eq:
  "rebindAbortedConnection env i S =
     (case pp_str (os_stmts S i) of
        None \<Rightarrow> (True, raise_exn undefined_behaviour S)
      | Some t \<Rightarrow> run_steps (prepare_steps env i) S)"
proof (cases "pp_str (os_stmts S i)")
  case (Some t)
  have "change_stmt i (\<lambda>p. p\<lparr>pp_str := Some t\<rparr>) (change_stmt i (\<lambda>p. p\<lparr>pp_str := None\<rparr>) S) = S"
  proof -
    have "(os_stmts S i)\<lparr>pp_str := Some t\<rparr> = os_stmts S i" using Some by (cases "os_stmts S i") simp
    then show ?thesis by (simp add: change_stmt_def)
  qed
  with Some show ?thesis by (simp add: rebindAbortedConnection_def stmt_prepare_def convert_sql_def)
qed (simp add: rebindAbortedConnection_def)

lemma raise_flow:
  assumes "\<not> os_in_logon S"
  shows "flow S (raise_exn e S) \<and> grows S (raise_exn e S) \<and> os_sink (raise_exn e S) \<noteq> []"
proof -
  have "kept S (raise_exn e S)" using assms by (intro kept_light) (simp_all add: grows_def work_def)
  with kept_flow show ?thesis by (auto simp: kept_def)
qed

lemma rebind_ok [intro]: "call_step_ok (rebindAbortedConnection env i)"
proof (rule call_step_okI)
  fix S r S'
  assume a: "rebindAbortedConnection env i S = (r, S')" "os_sink S = []" "\<not> os_in_logon S"
  show "flow S S' \<and> grows S S' \<and> (r \<longleftrightarrow> os_sink S' \<noteq> [])"
  proof (cases "pp_str (os_stmts S i)")
    case None
    with a(1) raise_flow [OF a(3)] show ?thesis by (auto simp: rebind_eq)
  next
    case (Some t)
    with a(1) have "run_steps (prepare_steps env i) S = (r, S')" by (simp add: rebind_eq)
    from call_step_okD [OF run_steps_call [OF prepare_steps_ok] this a(2,3)] show ?thesis .
  qed
qed

lemma rebind_statements_ok:
  assumes "rebind_statements env i S = (r, S')" "os_sink S = []" "\<not> os_in_logon S"
  shows "flow S S' \<and> grows S S' \<and> (r \<longleftrightarrow> os_sink S' = [])"
proof -
  obtain r1 S1 where 1: "run_steps (map (rebindAbortedConnection env) (os_reg S)) S = (r1, S1)" by fastforce
  have "list_all call_step_ok (map (rebindAbortedConnection env) (os_reg S))" by (auto simp: list_all_iff)
  from call_step_okD [OF run_steps_call [OF this] 1 assms(2,3)]
  have f: "flow S S1" "grows S S1" "r1 \<longleftrightarrow> os_sink S1 \<noteq> []" by auto
  show ?thesis
  proof (cases "r1 \<or> i \<in> set (os_reg S1)")
    case True
    with assms(1) 1 f show ?thesis by (auto simp: rebind_statements_def split: if_splits)
  next
    case False
    obtain r2 S2 where 2: "rebindAbortedConnection env i S1 = (r2, S2)" by fastforce
    have "os_sink S1 = []" "\<not> os_in_logon S1" using f False by (auto simp: flow_def)
    from call_step_okD [OF rebind_ok 2 this] have g: "flow S1 S2" "grows S1 S2" "r2 \<longleftrightarrow> os_sink S2 \<noteq> []" by auto
    have "r = (\<not> r2)" "S' = S2" using assms(1) 1 2 False by (simp_all add: rebind_statements_def)
    with f g flow_trans grows_trans show ?thesis by blast
  qed
qed

section \<open>A statement bound again has the same values\<close>

lemma conn_call_light:
  assumes "conn_call env c S = (False, S')" "\<not> is_work c" "c \<noteq> SessionEnd"
  shows "light S S'"
proof -
  have "logon_call env c S = (False, S')"
    using assms(1) by (cases "en_status env (length (os_calls S)) c = OCI_ERROR")
      (simp_all add: conn_call_def logon_call_def ocall_def conn_checkerr_def logon_check_def)
  then show ?thesis using session_step_okD(1) [OF logon_call_ok [OF assms(2,3)]] by blast
qed

definition rebound_env :: "ora_env \<Rightarrow> bind_env" where
  "rebound_env env = (en_bind env)\<lparr>be_lost := False\<rparr>"

definition stmt_bound :: "ora_env \<Rightarrow> nat \<Rightarrow> ora_state \<Rightarrow> bool" where
  "stmt_bound env i S \<longleftrightarrow> nodes_bound (rebound_env env) (os_stmts S i) (os_bound S i)"

lemma no_empty_list_same: "same_stmt p p' \<Longrightarrow> no_empty_list (pp_nodes p) \<Longrightarrow> no_empty_list (pp_nodes p')"
proof -
  assume a: "same_stmt p p'" "no_empty_list (pp_nodes p)"
  have n: "no_empty_list ns \<longleftrightarrow> (\<forall>y \<in> set (map node_param ns). fst (snd y) = OB_BIND \<longrightarrow> fst y \<noteq> QList [])" for ns
    by (auto simp: no_empty_list_def node_param_def isValue_def)
  from a(1) have "map node_param (pp_nodes p') = map node_param (pp_nodes p)" by (simp add: same_stmt_def)
  with a(2) show ?thesis by (simp only: n)
qed

lemma light_stmts: "light S S' \<Longrightarrow> os_stmts S' = os_stmts S \<and> os_bound S' = os_bound S \<and> core S' = core S
    \<and> handles_old (os_bind S') = handles_old (os_bind S) \<and> os_in_logon S' = os_in_logon S"
  by (auto simp: light_def stores_def handles_old_def)

text \<open>One statement bound again: the others keep what they have.\<close>

lemma prepare_steps_effect:
  assumes "run_steps (prepare_steps env j) S = (False, S')" "os_sink S = []" "\<not> os_in_logon S"
  shows "core S' = core S \<and> same_stmt (os_stmts S j) (os_stmts S' j)
    \<and> (\<forall>i. i \<noteq> j \<longrightarrow> os_stmts S' i = os_stmts S i \<and> os_bound S' i = os_bound S i)
    \<and> (\<not> os_lost S \<longrightarrow> handles_old (os_bind S) \<longrightarrow> conversions_return (en_bind env) \<longrightarrow> no_empty_list (pp_nodes (os_stmts S j))
         \<longrightarrow> stmt_bound env j S')"
proof -
  obtain S1 where 1: "conn_call env AllocStatementHandle S = (False, S1)"
      and r1: "run_steps (tl (prepare_steps env j)) (change_stmt j (\<lambda>p. p\<lparr>pp_handle := True\<rparr>) S1) = (False, S')"
    using assms(1) by (auto simp: prepare_steps_def split: prod.splits if_splits)
  let ?S1 = "change_stmt j (\<lambda>p. p\<lparr>pp_handle := True\<rparr>) S1"
  obtain S2 where 2: "conn_call env (StmtPrepare (case pp_str (os_stmts ?S1 j) of None \<Rightarrow> [] | Some s \<Rightarrow> s)) ?S1 = (False, S2)"
      and r2: "run_steps (tl (tl (prepare_steps env j))) S2 = (False, S')"
    using r1 by (auto simp: prepare_steps_def split: prod.splits if_splits)
  obtain S3 where 3: "conn_call env GetStmtType S2 = (False, S3)"
      and r3: "(let S = change_stmt j (note_select env) S3 in
        if pp_nodes (os_stmts S j) \<noteq> [] then bind_step bindOracle env j S else (False, S)) = (False, S')"
    using r2 by (auto simp: prepare_steps_def Let_def split: prod.splits if_splits)
  let ?S3 = "change_stmt j (note_select env) S3"
  note l = light_stmts [OF conn_call_light [OF 1]] light_stmts [OF conn_call_light [OF 2]] light_stmts [OF conn_call_light [OF 3]]
  have n1: "\<not> os_in_logon S1" using l(1) assms(3) by simp
  have k1: "kept S1 ?S1" by (rule change_stmt_kept [OF _ n1]) (simp add: same_stmt_def)
  have n3: "\<not> os_in_logon S3" using l k1 by (simp add: kept_def)
  have k3: "kept S3 ?S3" by (rule change_stmt_kept [OF _ n3]) (simp add: same_stmt_def note_select_def)
  have c: "core ?S3 = core S" using l k1 k3 by (simp add: kept_def)
  have s: "same_stmt (os_stmts S j) (os_stmts ?S3 j)" using l k1 k3 same_stmt_trans by (simp add: kept_def) metis
  have o: "os_stmts ?S3 i = os_stmts S i \<and> os_bound ?S3 i = os_bound S i" if "i \<noteq> j" for i
    using that l by (simp add: change_stmt_def)
  have h: "handles_old (os_bind ?S3) = handles_old (os_bind S)" using l by (simp add: change_stmt_def)
  have sink: "os_sink ?S3 = []"
  proof -
    have "session_step_ok (logon_call env c)" "conn_call env c T = (False, T') \<Longrightarrow> logon_call env c T = (False, T')" if "\<not> is_work c" "c \<noteq> SessionEnd" for c T T'
      using that by (auto simp: conn_call_def logon_call_def ocall_def conn_checkerr_def logon_check_def split: if_splits)
    then have e: "conn_call env c T = (False, T') \<Longrightarrow> \<not> is_work c \<Longrightarrow> c \<noteq> SessionEnd \<Longrightarrow> os_sink T' = os_sink T" for c T T'
      using session_step_okD(2) by fastforce
    have "os_sink S1 = []" using e [OF 1] assms(2) by simp
    then have "os_sink S2 = []" using e [OF 2] by (simp add: change_stmt_def)
    then show ?thesis using e [OF 3] by (simp add: change_stmt_def)
  qed
  show ?thesis
  proof (cases "pp_nodes (os_stmts ?S3 j) = []")
    case True
    with r3 have "S' = ?S3" by simp
    with True c s o show ?thesis by (simp add: stmt_bound_def nodes_bound_def)
  next
    case False
    then have "bind_step bindOracle env j ?S3 = (False, S')" using r3 by simp
    then obtain p w where b: "bindOracle (conn_bind_env env ?S3) (os_stmts ?S3 j) (os_bind ?S3) = (False, p, w)"
        "S' = (put_stmt j (p, w) ?S3)\<lparr>os_bound := (os_bound ?S3)(j := w)\<rparr>"
      by (auto simp: bind_step_def split: prod.splits)
    have "same_stmt (os_stmts ?S3 j) p" using bindOracle_report [OF b(1) sink] by blast
    then have "same_stmt (os_stmts S j) (os_stmts S' j)" using s same_stmt_trans b(2) by (auto simp: put_stmt_def)
    moreover have "core S' = core S" using c b(2) by (simp add: put_stmt_def core_def)
    moreover have "\<forall>i. i \<noteq> j \<longrightarrow> os_stmts S' i = os_stmts S i \<and> os_bound S' i = os_bound S i"
      using o b(2) by (simp add: put_stmt_def)
    moreover have "stmt_bound env j S'"
      if a: "\<not> os_lost S" "handles_old (os_bind S)" "conversions_return (en_bind env)" "no_empty_list (pp_nodes (os_stmts S j))"
    proof -
      have "conn_bind_env env ?S3 = rebound_env env" using a(1) c by (simp add: conn_bind_env_def rebound_env_def core_def)
      moreover have "conversions_return (rebound_env env)" using a(3) by (simp add: conversions_return_def rebound_env_def)
      ultimately show ?thesis
        using bindOracle_bound [OF b(1) [unfolded \<open>conn_bind_env env ?S3 = rebound_env env\<close>] sink] a h
          no_empty_list_same [OF s] b(2) by (simp add: stmt_bound_def put_stmt_def)
    qed
    ultimately show ?thesis by blast
  qed
qed

lemma rebind_effect:
  assumes "rebindAbortedConnection env j S = (False, S')" "os_sink S = []" "\<not> os_in_logon S"
  shows "core S' = core S \<and> same_stmt (os_stmts S j) (os_stmts S' j)
    \<and> (\<forall>i. i \<noteq> j \<longrightarrow> os_stmts S' i = os_stmts S i \<and> os_bound S' i = os_bound S i)
    \<and> (\<not> os_lost S \<longrightarrow> handles_old (os_bind S) \<longrightarrow> conversions_return (en_bind env) \<longrightarrow> no_empty_list (pp_nodes (os_stmts S j))
         \<longrightarrow> stmt_bound env j S')"
  using assms prepare_steps_effect by (auto simp: rebind_eq split: option.splits)

lemma rebind_same: "rebindAbortedConnection env j S = (False, S') \<Longrightarrow> os_sink S = [] \<Longrightarrow> \<not> os_in_logon S \<Longrightarrow>
    same_stmt (os_stmts S i) (os_stmts S' i)"
  using rebind_effect by (cases "i = j") force+

lemma rebind_each_effect:
  assumes "run_steps (map (rebindAbortedConnection env) js) S = (False, S')" "os_sink S = []" "\<not> os_in_logon S"
    "\<not> os_lost S" "handles_old (os_bind S)" "conversions_return (en_bind env)" "no_empty_list (pp_nodes (os_stmts S i))"
  shows "core S' = core S \<and> os_sink S' = [] \<and> \<not> os_in_logon S' \<and> handles_old (os_bind S') \<and> same_stmt (os_stmts S i) (os_stmts S' i)
    \<and> (i \<in> set js \<or> stmt_bound env i S \<longrightarrow> stmt_bound env i S')"
  using assms
proof (induction js arbitrary: S)
  case (Cons j js)
  obtain S1 where j: "rebindAbortedConnection env j S = (False, S1)"
      and r: "run_steps (map (rebindAbortedConnection env) js) S1 = (False, S')"
    using Cons.prems(1) by (auto split: prod.splits if_splits)
  note e = rebind_effect [OF j Cons.prems(2,3)]
  from call_step_okD [OF rebind_ok j Cons.prems(2,3)] have f: "flow S S1" "os_sink S1 = []" by auto
  have l: "\<not> os_lost S1" using e Cons.prems(4) core_simps [of S1 S] by auto
  have s: "same_stmt (os_stmts S i) (os_stmts S1 i)" using rebind_same [OF j Cons.prems(2,3)] .
  have p: "\<not> os_in_logon S1" "handles_old (os_bind S1)" "no_empty_list (pp_nodes (os_stmts S1 i))"
    using f Cons.prems(5) no_empty_list_same [OF s Cons.prems(7)] by (auto simp: flow_def)
  have b: "i = j \<or> stmt_bound env i S \<longrightarrow> stmt_bound env i S1"
    using e Cons.prems(4-7) by (cases "i = j") (auto simp: stmt_bound_def)
  from Cons.IH [OF r f(2) p(1) l p(2) Cons.prems(6) p(3)] e s b same_stmt_trans show ?case by auto
qed simp

lemma rebind_statements_effect:
  assumes "rebind_statements env i S = (True, S')" "os_sink S = []" "\<not> os_in_logon S"
    "\<not> os_lost S" "handles_old (os_bind S)" "conversions_return (en_bind env)" "no_empty_list (pp_nodes (os_stmts S i))"
  shows "core S' = core S \<and> same_stmt (os_stmts S i) (os_stmts S' i) \<and> stmt_bound env i S'"
proof -
  obtain r S1 where 1: "run_steps (map (rebindAbortedConnection env) (os_reg S)) S = (r, S1)" by fastforce
  have r: "\<not> r" using assms(1) 1 by (auto simp: rebind_statements_def)
  then have "run_steps (map (rebindAbortedConnection env) (os_reg S)) S = (False, S1)" using 1 by simp
  note e = rebind_each_effect [OF this assms(2-)]
  show ?thesis
  proof (cases "i \<in> set (os_reg S)")
    case True
    then have "i \<in> set (os_reg S1)" using e core_simps [of S1 S] by simp
    with assms(1) 1 r have "S' = S1" by (simp add: rebind_statements_def)
    with e True show ?thesis by blast
  next
    case False
    then have "i \<notin> set (os_reg S1)" using e core_simps [of S1 S] by simp
    then have 2: "rebindAbortedConnection env i S1 = (False, S')"
      using assms(1) 1 r by (auto simp: rebind_statements_def split: prod.splits)
    have "\<not> os_lost S1" using e assms(4) core_simps [of S1 S] by auto
    moreover have "no_empty_list (pp_nodes (os_stmts S1 i))" using e no_empty_list_same assms(7) by blast
    ultimately show ?thesis using rebind_effect [OF 2] e assms(6) same_stmt_trans by auto
  qed
qed

end
