(* ===== verification/Retry.thy ===== *)
theory Retry
  imports Recovery
begin

text \<open>
  Executing a statement over a lost connection (QorePreparedStatement::execute,
  QoreOracleConnection::handleError): when it is executed again, and with which values.
\<close>

section \<open>When a statement is executed again\<close>

lemma new_calls_simps [simp]: "new_calls S S = []"
  by (simp add: new_calls_def)

definition longer :: "ora_state \<Rightarrow> ora_state \<Rightarrow> bool" where
  "longer S S' \<longleftrightarrow> (\<exists>cs. os_calls S' = os_calls S @ cs)"

lemma grows_longer: "grows S S' \<Longrightarrow> longer S S'"
  by (auto simp: grows_def longer_def)

lemma grows_work: "grows S S' \<Longrightarrow> work (new_calls S S') = []"
  by (auto simp: grows_def new_calls_def)

lemma longer_trans: "longer S S1 \<Longrightarrow> longer S1 S2 \<Longrightarrow> longer S S2"
  by (auto simp: longer_def)

lemma new_calls_append: "longer S S1 \<Longrightarrow> longer S1 S2 \<Longrightarrow> new_calls S S2 = new_calls S S1 @ new_calls S1 S2"
  by (auto simp: longer_def new_calls_def)

lemma work_append [simp]: "work (xs @ ys) = work xs @ work ys"
  by (simp add: work_def)

lemma run_steps_calls:
  assumes "run_steps fs S = (False, S')" "list_all session_step_ok fs" "f \<in> set fs" "\<And>T. c \<in> set (new_calls T (snd (f T)))"
  shows "c \<in> set (new_calls S S')"
  using assms(1-3)
proof (induction fs arbitrary: S)
  case (Cons g fs)
  obtain S1 where g: "g S = (False, S1)" and r: "run_steps fs S1 = (False, S')"
    using Cons.prems(1) by (auto split: prod.splits if_splits)
  have "light S S1" using Cons.prems(2) g by (auto intro: session_step_okD(1))
  then have "longer S S1" by (auto simp: light_def grows_longer)
  moreover have "light S1 S'" using Cons.prems(2) session_step_okD(1) [OF run_steps_ok r] by simp
  then have "longer S1 S'" by (auto simp: light_def grows_longer)
  ultimately have n: "new_calls S S' = new_calls S S1 @ new_calls S1 S'" by (rule new_calls_append)
  show ?case
  proof (cases "f = g")
    case True
    with assms(4) [of S] g n show ?thesis by simp
  next
    case False
    with Cons.IH [OF r] Cons.prems n show ?thesis by simp
  qed
qed simp

lemma interruptible_calls: "c \<in> set (new_calls S (snd (interruptible env c S)))"
proof -
  have "os_calls (snd (poll_cancel env T)) = os_calls T" "os_calls (snd (logon_check env st T)) = os_calls T" for T st
    by (simp_all add: poll_cancel_def Let_def logon_check_def split: option.split)
  then have "os_calls (snd (interruptible env c S)) = os_calls S @ [c]"
    by (simp add: interruptible_def ocall_def note_ora_def split_beta Let_def)
  then show ?thesis by (simp add: new_calls_def)
qed

lemma logon_begins:
  assumes "logon env S = (False, S')"
  shows "SessionBegin \<in> set (new_calls S S')"
proof -
  let ?fs = "[logon_call env LogonUsername, logon_call env LogonPassword, poll_cancel env, attach_step env, timeout_step env,
              logon_call env SetServerHandle, poll_cancel env, interruptible env SessionBegin,
              logon_call env SetSessionHandle] @ session_sql_steps env"
  let ?S = "S\<lparr>os_session := session_logon (os_session S), os_in_logon := True\<rparr>"
  have ok: "list_all session_step_ok ?fs" by (auto simp: session_sql_steps_def)
  obtain S1 where r: "run_steps ?fs ?S = (False, S1)" "S' = S1\<lparr>os_in_logon := False\<rparr>"
    using assms by (auto simp: logon_def split: prod.splits)
  have "SessionBegin \<in> set (new_calls ?S S1)"
    by (rule run_steps_calls [where f = "interruptible env SessionBegin", OF r(1) ok _ interruptible_calls]) simp
  then show ?thesis using r(2) by (simp add: new_calls_def)
qed

text \<open>
  The state in which the statements are bound again after \<open>handleError\<close> has logged on once more.
\<close>

lemma handleError_retry:
  assumes "handleError env (Some i) (Some (rebind_statements env i)) S = (r, S')" "os_sink S = []" "\<not> os_in_logon S"
  shows "flow S S' \<and> grows S S' \<and> (r \<longleftrightarrow> os_sink S' = [])
    \<and> (r \<longrightarrow> \<not> os_trans S \<and> en_code env (length (os_calls S) - 1) \<noteq> 12609
         \<and> \<not> still_connected env (en_code env (length (os_calls S) - 1)) S
         \<and> (\<exists>cs. new_calls S S' = DsConnectionLost # cs \<and> SessionBegin \<in> set cs)
         \<and> (handles_old (os_bind S) \<longrightarrow> conversions_return (en_bind env) \<longrightarrow> no_empty_list (pp_nodes (os_stmts S i)) \<longrightarrow>
              same_stmt (os_stmts S i) (os_stmts S' i) \<and> stmt_bound env i S'))"
proof -
  let ?err = "oci_error env S" and ?code = "en_code env (length (os_calls S) - 1)"
  consider "?code = 12609" | "?code \<noteq> 12609" "still_connected env ?code S" | "?code \<noteq> 12609" "\<not> still_connected env ?code S"
    by blast
  then show ?thesis
  proof cases
    case 1
    then have "timed_out env ?err S = (r, S')" using assms by (simp add: handleError_def Let_def)
    from timed_out_flow [OF this assms(3)] show ?thesis by simp
  next
    case 2
    with assms have "r = False" "S' = raise_exn ?err S" by (simp_all add: handleError_def Let_def)
    with raise_flow [OF assms(3)] show ?thesis by auto
  next
    case 3
    define S0 where "S0 = transaction_error (S\<lparr>os_lost := True\<rparr>)"
    define S1 where "S1 = note_ora DsConnectionLost (clearStatements env (Some i) S0)"
    define xs where "xs = os_sink S1"
    define S1' where "S1' = set_sink [] (logoff S1)"
    obtain rl S2 where l: "logon env S1' = (rl, S2)" by fastforce
    define S3 where "S3 = clearWarnings env ((set_sink xs S2)\<lparr>os_lost := False\<rparr>)"
    have "handleError env (Some i) (Some (rebind_statements env i)) S =
        (if rl then (False, abortConnection env (set_sink (xs @ [?err] @ os_sink S2) S2))
         else if xs \<noteq> [] then (False, note_ora DsConnectionRecovered S3) else rebind_statements env i S3)"
      using 3 l assms(3) unfolding S3_def xs_def S1'_def S1_def S0_def by (simp add: handleError_def Let_def)
    then have hE: "(r, S') = (if rl then (False, abortConnection env (set_sink (xs @ [?err] @ os_sink S2) S2))
        else if xs \<noteq> [] then (False, note_ora DsConnectionRecovered S3) else rebind_statements env i S3)"
      using assms(1) by (simp only:)
    have c: "cleared S0 (clearStatements env (Some i) S0)" by (rule clearStatements_cleared)
    have c0: "core S0 = core (S\<lparr>os_lost := True\<rparr>)" "stores S0 = stores S" "os_calls S0 = os_calls S" "\<not> os_in_logon S0"
      using assms(3) by (simp_all add: S0_def stores_def transaction_error_def raise_exn_def set_sink_def core_def)
    have c1: "core S1 = core S0" "\<forall>j. same_stmt (os_stmts S j) (os_stmts S1 j)" "\<not> os_in_logon S1"
        "handles_old (os_bind S) \<longrightarrow> handles_old (os_bind S1)" "os_calls S1 = os_calls S @ [DsConnectionLost]"
        "os_sink S0 \<noteq> [] \<longrightarrow> xs \<noteq> []"
    proof -
      show "core S1 = core S0" "\<not> os_in_logon S1" using c c0(4) by (simp_all add: cleared_def S1_def)
      show "\<forall>j. same_stmt (os_stmts S j) (os_stmts S1 j)"
        using c c0(2) by (simp add: cleared_def note_ora_def stores_def S1_def)
      show "handles_old (os_bind S) \<longrightarrow> handles_old (os_bind S1)"
        using c stores_handles [OF c0(2)] world_le_handles by (auto simp: cleared_def note_ora_def S1_def)
      show "os_calls S1 = os_calls S @ [DsConnectionLost]" using c c0(3) by (simp add: cleared_def note_ora_def S1_def)
      show "os_sink S0 \<noteq> [] \<longrightarrow> xs \<noteq> []" using c world_le_sink by (auto simp: cleared_def S1_def xs_def)
    qed
    have k1: "kept S1 S1'"
    proof (rule kept_light)
      have "grows S1 (logoff S1)" unfolding logoff_def
        by (rule grows_trans [OF grows_note grows_detach]) simp
      then show "grows S1 S1'" by (simp add: grows_def S1'_def)
    qed (use c1(3) in \<open>simp_all add: logoff_def S1'_def\<close>)
    have k2: "kept S1 S2" using kept_trans [OF k1 logon_kept [OF l]] .
    have g2: "grows S S2"
    proof -
      have "grows S S1" using c1(5) by (simp add: grows_def work_def)
      then show ?thesis using k2 grows_trans by (auto simp: kept_def)
    qed
    have core2: "core S2 = core (S\<lparr>os_lost := True\<rparr>)" using k2 c1(1) c0(1) by (simp add: kept_def)
    have st2: "\<forall>j. same_stmt (os_stmts S j) (os_stmts S2 j)"
      using k2 c1(2) unfolding kept_def by (blast intro: same_stmt_trans)
    have h2: "handles_old (os_bind S) \<longrightarrow> handles_old (os_bind S2)" using k2 c1(4) by (auto simp: kept_def)
    have n2: "\<not> os_in_logon S2" using k2 by (simp add: kept_def)
    obtain cs where cs: "new_calls S S2 = DsConnectionLost # cs" "longer S S2"
    proof -
      obtain cs where "os_calls S2 = os_calls S1 @ cs" using k2 unfolding kept_def grows_def by blast
      then have "os_calls S2 = os_calls S @ DsConnectionLost # cs" unfolding c1(5) by simp
      then show thesis using that by (simp add: new_calls_def longer_def)
    qed
    show ?thesis
    proof (cases rl)
      case True
      let ?T = "set_sink (xs @ [?err] @ os_sink S2) S2"
      have S': "\<not> r" "S' = abortConnection env ?T" using hE True by simp_all
      have nT: "\<not> os_in_logon ?T" using n2 by simp
      note a = abortConnection_effect [OF nT, of env]
      have cT: "core ?T = core (S\<lparr>os_lost := True\<rparr>)" using core2 by simp
      note cs = core_simps [OF cT]
      have "handles_old (os_bind ?T) = handles_old (os_bind S2)" by (rule stores_handles) simp
      then have "flow S S'" using a cs h2 S'(2) world_le_handles by (auto simp: flow_def)
      moreover have "grows S ?T" using g2 by (simp add: grows_def)
      then have "grows S S'" using grows_trans conjunct1 [OF a] unfolding S'(2) by blast
      moreover have "os_sink S' \<noteq> []" using a S'(2) world_le_sink [of "os_bind ?T"] by simp
      ultimately show ?thesis using S'(1) by simp
    next
      case ok: False
      have c3: "core S3 = core (S\<lparr>os_lost := False\<rparr>)"
        using core2 by (simp add: S3_def clearWarnings_def set_sink_def core_def)
      have s3: "stores S3 = stores S2" "os_calls S3 = os_calls S2" "\<not> os_in_logon S3" "os_sink S3 = xs"
        using n2 by (simp_all add: S3_def clearWarnings_def set_sink_def stores_def)
      have f3: "flow S S3"
      proof -
        have str: "pp_str (os_stmts S3 j) = pp_str (os_stmts S j)" for j
          using st2 stores_stmts [OF s3(1)] unfolding same_stmt_def by simp
        have hd: "handles_old (os_bind S) \<longrightarrow> handles_old (os_bind S3)" using h2 stores_handles [OF s3(1)] by simp
        note d = core_simps [OF c3, simplified]
        have "call_good S3" if "call_good S" using that str d unfolding call_good_def by simp
        with d hd s3(3) show ?thesis unfolding flow_def by simp
      qed
      have g3: "grows S S3" using g2 grows_calls [OF refl s3(2)] by blast
      show ?thesis
      proof (cases "xs = []")
        case False
        then have S': "\<not> r" "S' = note_ora DsConnectionRecovered S3" using hE ok by simp_all
        have "kept S3 S'" unfolding S'(2) using s3(3) grows_note by (intro kept_light) simp_all
        then have "flow S3 S'" "grows S3 S'" using kept_flow by (simp_all add: kept_def)
        then have "flow S S'" "grows S S'" using flow_trans [OF f3] grows_trans [OF g3] by blast+
        moreover have "os_sink S' \<noteq> []" using S'(2) s3(4) False by simp
        ultimately show ?thesis using S'(1) by simp
      next
        case True
        then have r: "rebind_statements env i S3 = (r, S')" using hE ok by simp
        have x3: "os_sink S3 = []" using s3(4) True by simp
        note rb = rebind_statements_ok [OF r x3 s3(3)]
        have nt: "\<not> os_trans S"
        proof
          assume "os_trans S"
          then have "os_sink S0 \<noteq> []" by (simp add: S0_def transaction_error_def)
          with c1(6) True show False by simp
        qed
        have "longer S2 S'" using grows_longer [of S3 S'] rb s3(2) by (simp add: longer_def)
        note n = new_calls_append [OF cs(2) this]
        have "SessionBegin \<in> set (new_calls S S2)"
        proof -
          have "SessionBegin \<in> set (new_calls S1' S2)" using logon_begins l ok by simp
          moreover have "longer S S1'" "longer S1' S2"
            using c1(5) grows_longer [of S1 S1'] k1 grows_longer [of S1' S2] logon_kept [OF l]
            by (auto simp: kept_def longer_def)
          ultimately show ?thesis using new_calls_append by auto
        qed
        then have "\<exists>cs. new_calls S S' = DsConnectionLost # cs \<and> SessionBegin \<in> set cs" using n cs(1) by simp
        moreover have "same_stmt (os_stmts S i) (os_stmts S' i) \<and> stmt_bound env i S'"
          if "r" "handles_old (os_bind S)" "conversions_return (en_bind env)" "no_empty_list (pp_nodes (os_stmts S i))"
        proof -
          have sm: "same_stmt (os_stmts S i) (os_stmts S3 i)" using st2 stores_stmts [OF s3(1)] by simp
          have "\<not> os_lost S3" using core_simps [OF c3] by simp
          moreover have "handles_old (os_bind S3)" using that(2) h2 stores_handles [OF s3(1)] by simp
          ultimately show ?thesis
            using rebind_statements_effect [of env i S3 S'] r that x3 s3(3) no_empty_list_same [OF sm] same_stmt_trans [OF sm]
            by simp
        qed
        moreover have "flow S S'" using f3 rb flow_trans by blast
        moreover have "grows S S'" using g3 rb grows_trans by blast
        moreover have "r \<longleftrightarrow> os_sink S' = []" using rb by blast
        ultimately show ?thesis using nt 3 by simp
      qed
    qed
  qed
qed

lemma exec_call_effect:
  assumes "exec_call env i iters describe S = (st, S')"
  shows "os_calls S' = os_calls S @ [StmtExecute (os_stmts S i) (os_bound S i) iters describe]"
    "st = en_status env (length (os_calls S)) (StmtExecute (os_stmts S i) (os_bound S i) iters describe)"
    "flow S S' \<longleftrightarrow> \<not> os_in_logon S" "os_sink S' = os_sink S" "os_in_logon S' = os_in_logon S" "same_stmt (os_stmts S i) (os_stmts S' i)"
    "handles_old (os_bind S') = handles_old (os_bind S)" "os_trans S' = os_trans S"
proof -
  let ?c = "StmtExecute (os_stmts S i) (os_bound S i) iters describe" and ?k = "length (os_calls S)"
  have "st = en_status env ?k ?c \<and> (S' = note_ora ?c S
      \<or> S' = change_stmt i (\<lambda>p. p\<lparr>pp_stmt := (pp_stmt p)\<lparr>st_cursor := en_cursor env ?k\<rparr>\<rparr>) (note_ora ?c S))"
    using assms unfolding exec_call_def ocall_def Let_def by (simp split: if_splits)
  then have st: "st = en_status env ?k ?c" and S': "S' = note_ora ?c S
      \<or> S' = change_stmt i (\<lambda>p. p\<lparr>pp_stmt := (pp_stmt p)\<lparr>st_cursor := en_cursor env ?k\<rparr>\<rparr>) (note_ora ?c S)"
    by blast+
  show "st = en_status env ?k ?c" by (rule st)
  show "os_calls S' = os_calls S @ [?c]" "os_sink S' = os_sink S" "os_in_logon S' = os_in_logon S"
      "same_stmt (os_stmts S i) (os_stmts S' i)" "handles_old (os_bind S') = handles_old (os_bind S)" "os_trans S' = os_trans S"
    using S' by (elim disjE; simp add: note_ora_def change_stmt_def same_stmt_def)+
  show "flow S S' \<longleftrightarrow> \<not> os_in_logon S"
    using S' by (elim disjE; simp add: note_ora_def change_stmt_def flow_def call_good_def)
qed

lemma exec_call_longer: "exec_call env i iters describe S = (st, S') \<Longrightarrow> longer S S'"
  using exec_call_effect(1) [of env i iters describe S st S'] by (simp add: longer_def)

lemma before_exec:
  assumes "run_steps [poll_cancel env, apply_session env] S = (r, S')"
  shows "light S S' \<and> (\<exists>xs. os_sink S' = os_sink S @ xs \<and> (r \<longleftrightarrow> xs \<noteq> []))"
proof -
  have "session_step_ok (run_steps [poll_cancel env, apply_session env])" by (rule run_steps_ok) auto
  from session_step_okD [OF this assms] show ?thesis by blast
qed

lemma light_calls: "light S S' \<Longrightarrow> longer S S'" "light S S' \<Longrightarrow> work (new_calls S S') = []"
  by (simp_all add: light_def grows_longer grows_work)

lemma grows_on:
  assumes "longer S S1" "work (new_calls S S1) = es" "grows S1 S2"
  shows "longer S S2" "work (new_calls S S2) = es"
  using longer_trans [OF assms(1) grows_longer [OF assms(3)]] new_calls_append [OF assms(1) grows_longer [OF assms(3)]]
    grows_work [OF assms(3)] assms(2) by simp_all

lemma exec_on:
  assumes "longer S S1" "work (new_calls S S1) = es" "exec_call env i n describe S1 = (st, S2)"
  shows "longer S S2" "work (new_calls S S2) = es @ [StmtExecute (os_stmts S1 i) (os_bound S1 i) n describe]"
proof -
  note l = exec_call_longer [OF assms(3)]
  have "new_calls S1 S2 = [StmtExecute (os_stmts S1 i) (os_bound S1 i) n describe]"
    using exec_call_effect(1) [OF assms(3)] by (simp add: new_calls_def)
  then show "work (new_calls S S2) = es @ [StmtExecute (os_stmts S1 i) (os_bound S1 i) n describe]"
    using new_calls_append [OF assms(1) l] assms(2) by (simp add: work_def)
  show "longer S S2" using longer_trans [OF assms(1) l] .
qed

text \<open>
  An execution that is repeated: \<open>a\<close>, \<open>b\<close> and \<open>c\<close> are the calls before, between and after the
  two executions.
\<close>

definition repeated ::
    "ora_env \<Rightarrow> nat \<Rightarrow> ora_state \<Rightarrow> ora_call list \<Rightarrow> ora_call \<Rightarrow> ora_call list \<Rightarrow> prepared \<Rightarrow> bind_world \<Rightarrow> bool" where
  "repeated env i S a e b p w \<longleftrightarrow>
     \<not> os_trans S \<and> work a = [] \<and> work b = []
     \<and> en_status env (length (os_calls S @ a)) e = OCI_ERROR \<and> en_code env (length (os_calls S @ a)) \<noteq> 12609
     \<and> (lost_code (en_code env (length (os_calls S @ a))) \<or> \<not> en_ping env (Suc (length (os_calls S @ a))))
     \<and> (\<exists>cs. b = DsConnectionLost # cs \<and> SessionBegin \<in> set cs)
     \<and> (handles_old (os_bind S) \<longrightarrow> conversions_return (en_bind env) \<longrightarrow> no_empty_list (pp_nodes (os_stmts S i)) \<longrightarrow>
          same_stmt (os_stmts S i) p \<and> nodes_bound (rebound_env env) p w)"

text \<open>The three ways an execution can go.\<close>

lemma execute_cases:
  assumes "stmt_execute env i describe S = (r, S')" "os_sink S = []" "\<not> os_in_logon S"
  shows "flow S S' \<and> longer S S' \<and> (r \<longleftrightarrow> os_sink S' \<noteq> []) \<and>
    (work (new_calls S S') = [] \<and> r
     \<or> (\<exists>n. work (new_calls S S') = [StmtExecute (os_stmts S i) (os_bound S i) n describe])
     \<or> (\<exists>n p w a b c. new_calls S S' = a @ StmtExecute (os_stmts S i) (os_bound S i) n describe # b @ StmtExecute p w n describe # c
          \<and> work c = [] \<and> repeated env i S a (StmtExecute (os_stmts S i) (os_bound S i) n describe) b p w))"
proof -
  define n where "n = (if st_is_select (pp_stmt (os_stmts S i)) then 0
      else if st_array_size (pp_stmt (os_stmts S i)) = 0 then 1 else st_array_size (pp_stmt (os_stmts S i)))"
  obtain r1 S1 where 1: "run_steps [poll_cancel env, apply_session env] S = (r1, S1)" by fastforce
  have l1: "light S S1" "r1 \<longleftrightarrow> os_sink S1 \<noteq> []" using before_exec [OF 1] assms(2) by auto
  note l1 = l1 light_flow [OF l1(1) assms(3)] light_calls [OF l1(1)]
  note s1 = light_stmts [OF l1(1)]
  show ?thesis
  proof (cases r1)
    case True
    then have "r" "S' = S1" using assms(1) 1 by (simp_all add: stmt_execute_def Let_def)
    with l1 True show ?thesis by simp
  next
    case False
    then have x1: "os_sink S1 = []" "\<not> os_in_logon S1" using l1(2) s1 assms(3) by auto
    let ?e = "StmtExecute (os_stmts S i) (os_bound S i) n describe"
    obtain st S2 where 2: "exec_call env i n describe S1 = (st, S2)" by fastforce
    note e2 = exec_call_effect [OF 2]
    have c2: "os_calls S2 = os_calls S1 @ [?e]" using e2(1) s1 by simp
    have f2: "flow S S2" using e2(3) x1(2) flow_trans [OF l1(3)] by blast
    have x2: "os_sink S2 = []" "\<not> os_in_logon S2" using e2 x1 by auto
    have g2: "longer S S2" "work (new_calls S S2) = [?e]" using exec_on [OF l1(4,5) 2] s1 by simp_all
    show ?thesis
    proof (cases "st = OCI_ERROR")
      case False
      then have "conn_checkerr env st S2 = (r, S')" using assms(1) 1 2 \<open>\<not> r1\<close> n_def by (simp add: stmt_execute_def Let_def)
      from call_step_okD [OF conn_checkerr_ok this x2]
      have k: "flow S2 S'" "grows S2 S'" "r \<longleftrightarrow> os_sink S' \<noteq> []" by auto
      have "flow S S'" using flow_trans [OF f2 k(1)] .
      with grows_on [OF g2 k(2)] k(3) show ?thesis by blast
    next
      case err: True
      obtain ag S3 where 3: "handleError env (Some i) (Some (rebind_statements env i)) S2 = (ag, S3)" by fastforce
      note h3 = handleError_retry [OF 3 x2]
      have h3': "flow S2 S3" "grows S2 S3" "ag \<longleftrightarrow> os_sink S3 = []" using h3 by blast+
      have l3: "longer S S3" "work (new_calls S S3) = [?e]" "flow S S3"
        using grows_on [OF g2 h3'(2)] flow_trans [OF f2 h3'(1)] by simp_all
      show ?thesis
      proof (cases ag)
        case False
        then have "r" "S' = S3" using assms(1) 1 2 3 err \<open>\<not> r1\<close> n_def by (simp_all add: stmt_execute_def Let_def)
        with h3'(3) l3 False show ?thesis by blast
      next
        case ag: True
        then have x3: "os_sink S3 = []" "\<not> os_in_logon S3" using h3' ag by (auto simp: flow_def)
        obtain r4 S4 where 4: "run_steps [poll_cancel env, apply_session env] S3 = (r4, S4)" by fastforce
        have l4: "light S3 S4" "r4 \<longleftrightarrow> os_sink S4 \<noteq> []" using before_exec [OF 4] x3 by auto
        note s4 = light_stmts [OF l4(1)]
        have g4: "longer S S4" "work (new_calls S S4) = [?e]" "flow S S4"
          using grows_on [OF l3(1,2)] l4(1) flow_trans [OF l3(3) light_flow [OF l4(1) x3(2)]] by (simp_all add: light_def)
        show ?thesis
        proof (cases r4)
          case True
          then have "r" "S' = S4" using assms(1) 1 2 3 4 err ag \<open>\<not> r1\<close> n_def by (simp_all add: stmt_execute_def Let_def)
          with l4 g4 True show ?thesis by blast
        next
          case False
          then have x4: "os_sink S4 = []" "\<not> os_in_logon S4" using l4 s4 x3 by auto
          let ?e2 = "StmtExecute (os_stmts S3 i) (os_bound S3 i) n describe"
          obtain st2 S5 where 5: "exec_call env i n describe S4 = (st2, S5)" by fastforce
          note e5 = exec_call_effect [OF 5]
          have r5: "conn_checkerr env st2 S5 = (r, S')"
            using assms(1) 1 2 3 4 5 err ag \<open>\<not> r1\<close> False n_def by (simp add: stmt_execute_def Let_def)
          have x5: "os_sink S5 = []" "\<not> os_in_logon S5" using e5 x4 by auto
          from call_step_okD [OF conn_checkerr_ok r5 x5]
          have f6: "flow S5 S'" "grows S5 S'" "r \<longleftrightarrow> os_sink S' \<noteq> []" by auto
          have g5: "longer S S5" using exec_on [OF g4(1,2) 5] by simp
          have f6': "flow S S'" using flow_trans [OF flow_trans [OF g4(3)] f6(1)] e5(3) x4(2) by blast
          define k where "k = length (os_calls S1)"
          have q: "os_calls S5 = os_calls S4 @ [?e2]" using e5(1) s4 by simp
          have g24: "grows S2 S4" using grows_trans [OF h3'(2)] l4(1) by (simp add: light_def)
          obtain a b c where abc: "os_calls S1 = os_calls S @ a" "os_calls S4 = os_calls S2 @ b" "os_calls S' = os_calls S5 @ c"
              "work a = []" "work b = []" "work c = []"
            using l1(1) g24 f6(2) unfolding light_def grows_def by blast
          have new: "new_calls S S' = a @ ?e # b @ ?e2 # c" using abc(1-3) c2 q by (simp add: new_calls_def)
          have b: "b = new_calls S2 S3 @ new_calls S3 S4"
            using new_calls_append [OF grows_longer [OF h3'(2)] light_calls(1) [OF l4(1)]] abc(2) by (simp add: new_calls_def)
          have k1: "k = length (os_calls S @ a)" using abc(1) by (simp add: k_def)
          have k2: "length (os_calls S2) - 1 = k" "length (os_calls S2) = Suc k" using c2 by (simp_all add: k_def)
          have st: "en_status env k ?e = OCI_ERROR" using e2(2) s1 err by (simp add: k_def)
          have r3: "\<not> os_trans S2" "en_code env k \<noteq> 12609" "\<not> still_connected env (en_code env k) S2"
              "\<exists>cs. new_calls S2 S3 = DsConnectionLost # cs \<and> SessionBegin \<in> set cs"
            using h3 ag k2 by auto
          then have lb: "\<exists>cs. b = DsConnectionLost # cs \<and> SessionBegin \<in> set cs" unfolding b by auto
          have h12: "handles_old (os_bind S2) = handles_old (os_bind S)" "os_trans S2 = os_trans S"
            using e2(7,8) s1 by (auto simp: core_def)
          have sb: "same_stmt (os_stmts S i) (os_stmts S3 i) \<and> nodes_bound (rebound_env env) (os_stmts S3 i) (os_bound S3 i)"
            if a: "handles_old (os_bind S)" "conversions_return (en_bind env)" "no_empty_list (pp_nodes (os_stmts S i))"
          proof -
            have sm: "same_stmt (os_stmts S i) (os_stmts S2 i)" using e2(6) s1 by simp
            show ?thesis using h3 ag a h12 no_empty_list_same [OF sm a(3)] same_stmt_trans [OF sm] by (simp add: stmt_bound_def)
          qed
          have lost: "lost_code (en_code env k) \<or> \<not> en_ping env (Suc k)" using r3(3) k2(2) by (auto simp: still_connected_def)
          have "repeated env i S a ?e b (os_stmts S3 i) (os_bound S3 i)"
            using r3(1,2) h12(2) abc(4,5) st lost lb sb unfolding repeated_def k1 [symmetric] by blast
          with new abc(6) f6' f6(3) longer_trans [OF g5 grows_longer [OF f6(2)]] show ?thesis by blast
        qed
      qed
    qed
  qed
qed

lemma execute_thrice:
  assumes "stmt_execute env i describe S = (r, S')" "os_sink S = []" "\<not> os_in_logon S"
  obtains (none) "work (new_calls S S') = []" "r"
    | (once) n where "work (new_calls S S') = [StmtExecute (os_stmts S i) (os_bound S i) n describe]"
    | (twice) n p w a b c where
        "new_calls S S' = a @ StmtExecute (os_stmts S i) (os_bound S i) n describe # b @ StmtExecute p w n describe # c"
        "repeated env i S a (StmtExecute (os_stmts S i) (os_bound S i) n describe) b p w"
        "work (new_calls S S') = [StmtExecute (os_stmts S i) (os_bound S i) n describe, StmtExecute p w n describe]"
proof -
  have e: "work (a @ StmtExecute q v m describe # b @ StmtExecute p w m describe # c)
      = [StmtExecute q v m describe, StmtExecute p w m describe]"
    if "work c = []" "work a = []" "work b = []" for a q v m b p w c
    using that by (simp add: work_def)
  show thesis using conjunct2 [OF conjunct2 [OF conjunct2 [OF execute_cases [OF assms]]]]
  proof (elim disjE exE conjE)
    fix n p w a b c
    assume a: "new_calls S S' = a @ StmtExecute (os_stmts S i) (os_bound S i) n describe # b @ StmtExecute p w n describe # c"
      "work c = []" "repeated env i S a (StmtExecute (os_stmts S i) (os_bound S i) n describe) b p w"
    then have "work (new_calls S S') = [StmtExecute (os_stmts S i) (os_bound S i) n describe, StmtExecute p w n describe]"
      using e by (simp add: repeated_def)
    with a show thesis using twice by blast
  qed (use none once in blast)+
qed

text \<open>C3: A statement is executed at most twice.  The second execution follows only when the first
  one failed with an error that was a lost connection (never the receive timeout), outside any
  transaction, after the datasource was told of the loss and a new session was begun.  Nothing
  else is executed, committed or rolled back.  Executing reports failure exactly if it raises.
\<close>

theorem retry_is_safe:
  assumes "stmt_execute env i describe S = (r, S')" "os_sink S = []" "\<not> os_in_logon S"
  shows "(r \<longleftrightarrow> os_sink S' \<noteq> []) \<and> length (work (new_calls S S')) \<le> 2 \<and> (\<not> r \<longrightarrow> work (new_calls S S') \<noteq> [])
    \<and> (length (work (new_calls S S')) = 2 \<longrightarrow>
         (\<exists>a n b p w c k. let e = StmtExecute (os_stmts S i) (os_bound S i) n describe in
            new_calls S S' = a @ e # DsConnectionLost # b @ StmtExecute p w n describe # c \<and> SessionBegin \<in> set b
          \<and> \<not> os_trans S \<and> k = length (os_calls S @ a) \<and> en_status env k e = OCI_ERROR \<and> en_code env k \<noteq> 12609
          \<and> (lost_code (en_code env k) \<or> \<not> en_ping env (Suc k))))"
proof -
  have f: "r \<longleftrightarrow> os_sink S' \<noteq> []" using execute_cases [OF assms] by blast
  show ?thesis
  proof (rule execute_thrice [OF assms], goal_cases)
    case (3 n p w a b c)
    let ?e = "StmtExecute (os_stmts S i) (os_bound S i) n describe"
    obtain cs where cs: "b = DsConnectionLost # cs" "SessionBegin \<in> set cs" using 3(2) by (auto simp: repeated_def)
    let ?k = "length (os_calls S @ a)"
    have "new_calls S S' = a @ ?e # DsConnectionLost # cs @ StmtExecute p w n describe # c" using 3(1) cs(1) by simp
    moreover have "\<not> os_trans S" "en_status env ?k ?e = OCI_ERROR" "en_code env ?k \<noteq> 12609"
        "lost_code (en_code env ?k) \<or> \<not> en_ping env (Suc ?k)"
      using 3(2) unfolding repeated_def by blast+
    ultimately have "\<exists>a n b p w c k. let e = StmtExecute (os_stmts S i) (os_bound S i) n describe in
            new_calls S S' = a @ e # DsConnectionLost # b @ StmtExecute p w n describe # c \<and> SessionBegin \<in> set b
          \<and> \<not> os_trans S \<and> k = length (os_calls S @ a) \<and> en_status env k e = OCI_ERROR \<and> en_code env k \<noteq> 12609
          \<and> (lost_code (en_code env k) \<or> \<not> en_ping env (Suc k))"
      using cs(2) unfolding Let_def by (intro exI conjI) (rule refl | assumption)+
    moreover have "length (work (new_calls S S')) \<le> 2" "work (new_calls S S') \<noteq> []" using 3(3) by simp_all
    ultimately show ?case using f by blast
  qed (use f in auto)
qed


section \<open>The receive timeout ends a call\<close>

lemma no_end_calls: "no_end S S' \<Longrightarrow> longer S S' \<and> SessionEnd \<notin> set (new_calls S S')"
  by (auto simp: no_end_def longer_def new_calls_def)

lemma world_le_prefix: "world_le w w' \<Longrightarrow> \<exists>xs. bw_sink w' = bw_sink w @ xs"
  by (simp add: world_le_def)

lemma timed_out_calls:
  assumes "timed_out env err S = (r, S')" "\<not> os_in_logon S"
  shows "(\<exists>cs. os_calls S' = os_calls S @ DsConnectionLost # ServerDetach # cs \<and> SessionEnd \<notin> set cs \<and> work cs = [])
    \<and> (\<exists>xs. os_sink S' = os_sink (transaction_error (raise_exn err S)) @ xs)"
proof -
  define S0 where "S0 = transaction_error (raise_exn err S)"
  define S1 where "S1 = clearStatements env None S0"
  define S2 where "S2 = abandonSession (note_ora DsConnectionLost S1)"
  obtain r2 S3 where l: "logon env S2 = (r2, S3)" by fastforce
  have S': "S' = (if r2 then abortConnection env S3 else note_ora DsConnectionRecovered (clearWarnings env S3))"
    using assms(1) l unfolding S2_def S1_def S0_def by (simp add: timed_out_def Let_def)
  have c: "cleared S0 S1" unfolding S1_def by (rule clearStatements_cleared)
  have c1: "os_calls S1 = os_calls S" using c by (simp add: cleared_def S0_def)
  have c2: "os_calls S2 = os_calls S @ [DsConnectionLost, ServerDetach]"
    using c1 by (simp add: S2_def abandonSession_def detach_def note_ora_def)
  obtain cs where cs: "os_calls S3 = os_calls S2 @ cs" "SessionEnd \<notin> set cs" "work cs = []"
    using logon_flow(4,6) [OF l] by (auto simp: no_end_def grows_def)
  have n3: "\<not> os_in_logon S3" by (rule logon_flow(2) [OF l])
  have a: "\<exists>c. os_calls S' = os_calls S3 @ c \<and> SessionEnd \<notin> set c \<and> work c = []"
    using resetStatements_effect [of env S3]
    by (simp add: S' abortConnection_def Let_def close_datasource_def note_ora_def work_def)
  have x1: "\<exists>xs. os_sink S1 = os_sink S0 @ xs" using c world_le_prefix by (simp add: cleared_def)
  have x3: "\<exists>xs. os_sink S3 = os_sink S1 @ xs" using logon_flow(5) [OF l] by (auto simp: S2_def abandonSession_def)
  have "\<exists>xs. os_sink S' = os_sink S3 @ xs"
    using abortConnection_effect [OF n3, of env] world_le_prefix by (simp add: S')
  with x1 x3 have "\<exists>xs. os_sink S' = os_sink S0 @ xs" by auto
  then show ?thesis using a cs c2 work_append unfolding S0_def by auto
qed

text \<open>C18: When the receive timeout ends a call, the call is never repeated and its error is raised,
  followed by the loss of the transaction if there was one; the connection is closed without
  ending its session, so that the server rolls the transaction back, before anything else is
  sent.
\<close>

theorem timeout_abandons:
  assumes "handleError env stmt rebind S = (r, S')" "en_code env (length (os_calls S) - 1) = 12609" "\<not> os_in_logon S"
  shows "\<not> r \<and> (\<exists>cs. new_calls S S' = DsConnectionLost # ServerDetach # cs \<and> SessionEnd \<notin> set cs \<and> work cs = [])
    \<and> (\<exists>xs. os_sink S' = os_sink S @ oci_error env S # xs
         \<and> (os_trans S \<longrightarrow> hd xs = Exn ''DBI:ORACLE:TRANSACTION-ERROR'' ''transaction has been lost'' \<and> xs \<noteq> []))"
proof -
  have t: "timed_out env (oci_error env S) S = (r, S')" using assms by (simp add: handleError_def Let_def)
  have "\<not> r" using t by (auto simp: timed_out_def Let_def split: prod.splits)
  moreover obtain xs where xs: "os_sink S' = os_sink (transaction_error (raise_exn (oci_error env S) S)) @ xs"
    using timed_out_calls [OF t assms(3)] by blast
  moreover have "os_trans (raise_exn (oci_error env S) S) = os_trans S" by (simp add: raise_exn_def set_sink_def)
  then have "\<exists>ys. os_sink S' = os_sink S @ oci_error env S # ys
      \<and> (os_trans S \<longrightarrow> hd ys = Exn ''DBI:ORACLE:TRANSACTION-ERROR'' ''transaction has been lost'' \<and> ys \<noteq> [])"
    using xs by (simp add: transaction_error_def)
  moreover have "\<exists>cs. new_calls S S' = DsConnectionLost # ServerDetach # cs \<and> SessionEnd \<notin> set cs \<and> work cs = []"
    using timed_out_calls [OF t assms(3)] by (auto simp: new_calls_def)
  ultimately show ?thesis by blast
qed

section \<open>Witnesses\<close>

text \<open>The statement fails with a lost connection the first time, and the server answers everything else.\<close>

definition sample_env :: "int \<Rightarrow> nat \<Rightarrow> ora_env" where
  "sample_env code failing = \<lparr>en_status = (\<lambda>k c. if k = failing then OCI_ERROR else OCI_SUCCESS), en_code = (\<lambda>k. code),
     en_text = (\<lambda>k. ''end of file''), en_cancel = (\<lambda>k. None), en_ocilib_init = True, en_ping = (\<lambda>k. False),
     en_errors = (\<lambda>k. []), en_event_queue = False, en_bind = bind_env0 0, en_session = session_env0, en_thread = None,
     en_parse = parse_env0, en_is_select = (\<lambda>s. False), en_cursor = (\<lambda>k. []), en_row_count = (\<lambda>k. 1), en_params = (\<lambda>s. []),
     en_define = (\<lambda>_ _. None), en_value = value_env0, en_char_width = 1, en_utf8 = True,
     en_polls = [], en_attrs = [], en_typed = (\<lambda>x d. Inr QNothing)\<rparr>"

definition sample_state :: "bool \<Rightarrow> ora_state" where
  "sample_state active = \<lparr>os_calls = [], os_polls = 0, os_bind = bind_world_init, os_lost = False, os_in_logon = False,
     os_depth = 1, os_abort_pending = False, os_open = True, os_trans = active, os_autocommit = False,
     os_session = session_state0, os_options = conn_options_init,
     os_stmts = (\<lambda>i. sample_prepared\<lparr>pp_str := Some ''delete from t where a = :1 and b = :2''\<rparr>),
     os_bound = (\<lambda>i. bind_world_init), os_reg = [], os_warnings = []\<rparr>"

lemma sample_state_ready: "os_sink (sample_state b) = []" "\<not> os_in_logon (sample_state b)"
    "handles_old (os_bind (sample_state b))" "conversions_return (en_bind (sample_env c k))"
    "no_empty_list (pp_nodes (os_stmts (sample_state b) i))"
  by (simp_all add: sample_state_def sample_env_def init_world bind_env0_returns no_empty_list_def sample_prepared_def value_node_def)

lemma sample_run:
  "let (r, S') = stmt_execute (sample_env 3113 0) 0 False (sample_state False)
   in \<not> r \<and> length (work (new_calls (sample_state False) S')) = 2"
  by code_simp

lemmas sample_run_facts = sample_run [unfolded Let_def split_beta]
lemmas sample_run_returns = sample_run_facts [THEN conjunct1]
lemmas sample_run_twice = sample_run_facts [THEN conjunct2]

lemma retry_is_safe_witness:
  "os_sink (snd (stmt_execute (sample_env 3113 0) 0 False (sample_state False))) = []"
  using retry_is_safe [OF prod.collapse [symmetric] sample_state_ready(1,2), of "sample_env 3113 0" 0 False False]
    sample_run_returns by simp

lemma two_executions:
  assumes "stmt_execute env i describe S = (r, S')" "os_sink S = []" "\<not> os_in_logon S" "length (work (new_calls S S')) = 2"
  shows "\<exists>p w n d p' w' n' d'. work (new_calls S S') = [StmtExecute p w n d, StmtExecute p' w' n' d']"
  by (rule execute_thrice [OF assms(1-3)]) (use assms(4) in auto)


lemma timeout_abandons_witness:
  "\<exists>cs. new_calls (note_ora TransCommit (sample_state True))
      (snd (handleError (sample_env 12609 0) None None (note_ora TransCommit (sample_state True))))
     = DsConnectionLost # ServerDetach # cs \<and> SessionEnd \<notin> set cs"
proof -
  have "en_code (sample_env 12609 0) (length (os_calls (note_ora TransCommit (sample_state True))) - 1) = 12609"
      "\<not> os_in_logon (note_ora TransCommit (sample_state True))"
    by (simp_all add: sample_env_def sample_state_def)
  from timeout_abandons [OF prod.collapse [symmetric] this] show ?thesis by blast
qed

end
