(* ===== verification/Driver.thy ===== *)
theory Driver
  imports Retry
begin

text \<open>
  The calls of the driver (oracle.cpp): the one-shot calls of the datasource, which work with a
  statement of their own, and the calls of a prepared statement.  Each runs under a call guard.
\<close>

section \<open>Results\<close>

datatype dbi_value =
    RowList "qval ohash list"
  | ColumnHash column_hash
  | SingleRow qval
  | OutputHash "qval ohash"
  | RowCount int
  | TypedResult qval
  | ColumnarResult columnar_result
  | Description "column_desc ohash"

text \<open>No value is returned when an exception has been raised.\<close>

type_synonym dbi_step = "ora_state \<Rightarrow> dbi_value option \<times> ora_state"

definition new_stmt :: "ora_env \<Rightarrow> nat \<Rightarrow> ora_state \<Rightarrow> ora_state" where
  "new_stmt env i = change_stmt i (\<lambda>_. prepared_init (statement_init [] (en_polls env) (en_attrs env)))"

definition stmt_text :: "prepared \<Rightarrow> string" where
  "stmt_text p = (case pp_str p of None \<Rightarrow> [] | Some s \<Rightarrow> s)"

text \<open>
  A fetch that failed: the error of the server goes through \<open>handleError\<close>, any other exception is
  raised as it is.
\<close>

fun is_fetch_error :: "fetch_event \<Rightarrow> bool" where
  "is_fetch_error (FetchError e) = True"
| "is_fetch_error _ = False"

definition consumed_error :: "ora_statement \<Rightarrow> ora_statement \<Rightarrow> bool" where
  "consumed_error st st' =
     list_ex is_fetch_error (take (length (st_cursor st) - length (st_cursor st')) (st_cursor st))"

definition failed_fetch :: "ora_env \<Rightarrow> ora_statement \<Rightarrow> ora_statement \<Rightarrow> exn \<Rightarrow> ora_state \<Rightarrow> ora_state" where
  "failed_fetch env st st' e S =
     (if consumed_error st st' then
        (let (status, S') = ocall env StmtFetch S
         in if status = OCI_ERROR then snd (handleError env None None S') else raise_exn e S')
      else raise_exn e S)"

text \<open>A computation on the statement \<open>i\<close>: the statement it leaves, then its result.\<close>

definition on_stmt :: "ora_env \<Rightarrow> nat \<Rightarrow> (prepared \<Rightarrow> dbi_value outcome \<times> prepared) \<Rightarrow> dbi_step" where
  "on_stmt env i f S =
     (let p = os_stmts S i; (r, p') = f p; S1 = change_stmt i (\<lambda>_. p') S
      in case r of
           Value v \<Rightarrow> (Some v, S1)
         | Raised e \<Rightarrow> (None, failed_fetch env (pp_stmt p) (pp_stmt p') e S1)
         | Undefined \<Rightarrow> (None, raise_exn undefined_behaviour S1))"

section \<open>Result sets of one call\<close>

definition free_columns :: "result_set \<Rightarrow> ora_state \<Rightarrow> ora_state" where
  "free_columns rs S = S\<lparr>os_bind := bfree (fst (result_set_del rs)) (os_bind S)\<rparr>"

text \<open>\<open>OraResultSetHelper\<close>: the result set is described first and released in any case.\<close>

definition with_result_set ::
    "ora_env \<Rightarrow> nat \<Rightarrow> (result_set \<Rightarrow> ora_statement \<Rightarrow> dbi_value outcome \<times> result_set \<times> ora_statement) \<Rightarrow> dbi_step" where
  "with_result_set env i f S =
     (let p = os_stmts S i;
          (cs, xs) = OraResultSet_init (en_params env (stmt_text p));
          rs = \<lparr>rs_defined = False, rs_clist = cs\<rparr>
      in if xs \<noteq> [] then (None, free_columns rs (set_sink (os_sink S @ xs) S))
         else let (r, rs', st) = f rs (pp_stmt p);
                  (v, S1) = on_stmt env i (\<lambda>p. (r, p\<lparr>pp_stmt := st\<rparr>)) S
              in (v, free_columns rs' S1))"

definition all_rows :: "ora_env \<Rightarrow> result_set \<Rightarrow> ora_statement \<Rightarrow> dbi_value outcome \<times> result_set \<times> ora_statement" where
  "all_rows env rs st =
     (let (r, rs', st') = stmt_fetchRows (en_value env) (en_define env) (en_char_width env) rs (- 1) st
      in (map_outcome RowList r, rs', st'))"

definition all_columns :: "ora_env \<Rightarrow> bool \<Rightarrow> result_set \<Rightarrow> ora_statement \<Rightarrow> dbi_value outcome \<times> result_set \<times> ora_statement" where
  "all_columns env cols rs st =
     (let (r, rs', st') = stmt_fetchColumns (en_value env) (en_define env) (en_char_width env) rs (- 1) cols st
      in (map_outcome ColumnHash r, rs', st'))"

text \<open>The description is made before the columns are defined.\<close>

definition typed_result :: "ora_env \<Rightarrow> result_set \<Rightarrow> (qval ohash list + column_hash) \<Rightarrow> dbi_value outcome" where
  "typed_result env rs x =
     (case en_typed env x (stmt_describe (en_utf8 env) (rs_clist rs)) of Inl e \<Rightarrow> Raised e | Inr v \<Rightarrow> Value (TypedResult v))"

definition all_typed :: "ora_env \<Rightarrow> bool \<Rightarrow> result_set \<Rightarrow> ora_statement \<Rightarrow> dbi_value outcome \<times> result_set \<times> ora_statement" where
  "all_typed env rows rs st =
     (if rows then
        (let (r, rs', st') = stmt_fetchRows (en_value env) (en_define env) (en_char_width env) rs (- 1) st
         in (bind_outcome r (\<lambda>l. typed_result env rs (Inl l)), rs', st'))
      else
        (let (r, rs', st') = stmt_fetchColumns (en_value env) (en_define env) (en_char_width env) rs (- 1) True st
         in (bind_outcome r (\<lambda>h. typed_result env rs (Inr h)), rs', st')))"

definition all_columnar :: "ora_env \<Rightarrow> result_set \<Rightarrow> ora_statement \<Rightarrow> dbi_value outcome \<times> result_set \<times> ora_statement" where
  "all_columnar env rs st =
     (let (r, rs', st') = stmt_fetchColumnar (en_value env) (en_define env) (en_char_width env) (en_utf8 env) rs (- 1) st
      in (map_outcome ColumnarResult r, rs', st'))"

text \<open>The columns are defined once the prefetch count is set.\<close>

definition single_row :: "ora_env \<Rightarrow> result_set \<Rightarrow> ora_statement \<Rightarrow> dbi_value outcome \<times> result_set \<times> ora_statement" where
  "single_row env rs st =
     (let (r, st') = stmt_fetchSingleRow (en_value env) (en_define env) (en_char_width env) rs st;
          rs' = (case fst (setPrefetch PREFETCH_DEFAULT st) of
                   None \<Rightarrow> fst (stmt_define (en_define env) (en_char_width env) rs)
                 | Some e \<Rightarrow> rs)
      in (map_outcome SingleRow r, rs', st'))"

section \<open>Execution with its result\<close>

definition output_step :: "ora_env \<Rightarrow> nat \<Rightarrow> bool \<Rightarrow> dbi_step" where
  "output_step env i rows S =
     (let (r, p) = getOutputHash (en_value env) rows (os_stmts S i); S1 = change_stmt i (\<lambda>_. p) S
      in case r of
           Value h \<Rightarrow> (Some (OutputHash h), S1)
         | Raised e \<Rightarrow> (None, raise_exn e S1)
         | Undefined \<Rightarrow> (None, raise_exn undefined_behaviour S1))"

definition count_step :: "ora_env \<Rightarrow> dbi_step" where
  "count_step env S = (let (n, S') = affectedRows env S in (if os_sink S' = [] then Some (RowCount n) else None, S'))"

definition autocommit :: "ora_env \<Rightarrow> ora_state \<Rightarrow> ora_state" where
  "autocommit env S = (if os_autocommit S then snd (conn_commit env S) else S)"

text \<open>An exception of a query ends the call; the other results are committed first.\<close>

definition prologue :: "ora_env \<Rightarrow> nat \<Rightarrow> dbi_step \<Rightarrow> bool \<Rightarrow> dbi_step" where
  "prologue env i query rows S =
     (let (r, S1) = stmt_exec env i S
      in if r then (None, S1)
         else let p = os_stmts S1 i; is_select = st_is_select (pp_stmt p);
                  (v, S2) = (if is_select then query S1
                             else if pp_hasOutput p then output_step env i rows S1
                             else count_step env S1)
              in if is_select \<and> os_sink S2 \<noteq> [] then (None, S2)
                 else let S3 = autocommit env S2 in (if os_sink S3 \<noteq> [] then None else v, S3))"

definition execWithPrologue :: "ora_env \<Rightarrow> nat \<Rightarrow> bool \<Rightarrow> bool \<Rightarrow> dbi_step" where
  "execWithPrologue env i rows cols =
     prologue env i (with_result_set env i (if rows then all_rows env else all_columns env cols)) rows"

definition execWithPrologueTyped :: "ora_env \<Rightarrow> nat \<Rightarrow> bool \<Rightarrow> dbi_step" where
  "execWithPrologueTyped env i rows = prologue env i (with_result_set env i (all_typed env rows)) rows"

definition execWithPrologueColumnar :: "ora_env \<Rightarrow> nat \<Rightarrow> dbi_step" where
  "execWithPrologueColumnar env i S =
     (if \<not> st_is_select (pp_stmt (os_stmts S i)) then
        (None, raise_exn (Exn ''COLUMNAR-RESULT-ERROR'' ''requires an SQL statement returning result columns'') S)
      else
        (let (r, S1) = stmt_exec env i S
         in if r then (None, S1)
            else let (v, S2) = with_result_set env i (all_columnar env) S1
                 in if os_sink S2 \<noteq> [] then (None, S2)
                    else let S3 = autocommit env S2 in (if os_sink S3 \<noteq> [] then None else v, S3)))"

definition selectRow :: "ora_env \<Rightarrow> nat \<Rightarrow> dbi_step" where
  "selectRow env i S =
     (if \<not> st_is_select (pp_stmt (os_stmts S i)) then
        (None, raise_exn (Exn ''DBI-SELECT-ROW-ERROR'' ''the SQL is not a select statement'') S)
      else
        (let (r, S1) = stmt_exec env i S in if r then (None, S1) else with_result_set env i (single_row env) S1))"

section \<open>The calls of the datasource\<close>

text \<open>\<open>QorePreparedStatementHelper\<close>: a statement of the call, reset at its end.\<close>

definition with_statement :: "ora_env \<Rightarrow> nat \<Rightarrow> dbi_step \<Rightarrow> dbi_step" where
  "with_statement env i f = call_guard (\<lambda>S. let (v, S') = f (new_stmt env i S) in (v, reset_stmt env i S'))"

definition prepare_and :: "ora_env \<Rightarrow> nat \<Rightarrow> string \<Rightarrow> string \<Rightarrow> qval list option \<Rightarrow> bool \<Rightarrow> dbi_step \<Rightarrow> dbi_step" where
  "prepare_and env i sql enc args parse f =
     with_statement env i (\<lambda>S. let (r, S') = stmt_prepare env sql enc args parse i S in if r then (None, S') else f S')"

definition oracle_exec :: "ora_env \<Rightarrow> nat \<Rightarrow> string \<Rightarrow> string \<Rightarrow> qval list option \<Rightarrow> dbi_step" where
  "oracle_exec env i sql enc args = prepare_and env i sql enc args True (execWithPrologue env i False False)"

definition oracle_select :: "ora_env \<Rightarrow> nat \<Rightarrow> string \<Rightarrow> string \<Rightarrow> qval list option \<Rightarrow> dbi_step" where
  "oracle_select env i sql enc args = prepare_and env i sql enc args True (execWithPrologue env i False True)"

definition oracle_select_typed :: "ora_env \<Rightarrow> nat \<Rightarrow> string \<Rightarrow> string \<Rightarrow> qval list option \<Rightarrow> dbi_step" where
  "oracle_select_typed env i sql enc args = prepare_and env i sql enc args True (execWithPrologueTyped env i False)"

definition oracle_select_columnar :: "ora_env \<Rightarrow> nat \<Rightarrow> string \<Rightarrow> string \<Rightarrow> qval list option \<Rightarrow> dbi_step" where
  "oracle_select_columnar env i sql enc args = prepare_and env i sql enc args True (execWithPrologueColumnar env i)"

definition oracle_exec_raw :: "ora_env \<Rightarrow> nat \<Rightarrow> string \<Rightarrow> string \<Rightarrow> dbi_step" where
  "oracle_exec_raw env i sql enc = prepare_and env i sql enc None False (execWithPrologue env i False False)"

definition oracle_select_row :: "ora_env \<Rightarrow> nat \<Rightarrow> string \<Rightarrow> string \<Rightarrow> qval list option \<Rightarrow> dbi_step" where
  "oracle_select_row env i sql enc args = prepare_and env i sql enc args True (selectRow env i)"

definition oracle_exec_rows :: "ora_env \<Rightarrow> nat \<Rightarrow> string \<Rightarrow> string \<Rightarrow> qval list option \<Rightarrow> dbi_step" where
  "oracle_exec_rows env i sql enc args = prepare_and env i sql enc args True (execWithPrologue env i True False)"

definition oracle_exec_rows_typed :: "ora_env \<Rightarrow> nat \<Rightarrow> string \<Rightarrow> string \<Rightarrow> qval list option \<Rightarrow> dbi_step" where
  "oracle_exec_rows_typed env i sql enc args = prepare_and env i sql enc args True (execWithPrologueTyped env i True)"

definition oracle_commit :: "ora_env \<Rightarrow> ora_step" where
  "oracle_commit env = call_guard (conn_commit env)"

definition oracle_rollback :: "ora_env \<Rightarrow> ora_step option \<Rightarrow> ora_step" where
  "oracle_rollback env load_end = call_guard (conn_rollback env load_end)"

section \<open>The calls of a prepared statement\<close>

definition oracle_stmt_prepare :: "ora_env \<Rightarrow> nat \<Rightarrow> string \<Rightarrow> string \<Rightarrow> qval list option \<Rightarrow> ora_step" where
  "oracle_stmt_prepare env i sql enc args = call_guard (\<lambda>S. stmt_prepare env sql enc args True i (new_stmt env i S))"

definition oracle_stmt_prepare_raw :: "ora_env \<Rightarrow> nat \<Rightarrow> string \<Rightarrow> string \<Rightarrow> ora_step" where
  "oracle_stmt_prepare_raw env i sql enc = call_guard (\<lambda>S. stmt_prepare env sql enc None False i (new_stmt env i S))"

definition oracle_stmt_bind :: "ora_env \<Rightarrow> nat \<Rightarrow> qval list \<Rightarrow> ora_step" where
  "oracle_stmt_bind env i l = call_guard (bind_step (\<lambda>be. prepared_bind be (Some l)) env i)"

definition oracle_stmt_bind_placeholders :: "ora_env \<Rightarrow> nat \<Rightarrow> qval list \<Rightarrow> ora_step" where
  "oracle_stmt_bind_placeholders env i l = call_guard (bind_step (\<lambda>be. bindPlaceholders be (Some l)) env i)"

definition oracle_stmt_bind_values :: "ora_env \<Rightarrow> nat \<Rightarrow> qval list \<Rightarrow> ora_step" where
  "oracle_stmt_bind_values env i l = call_guard (bind_step (\<lambda>be. bindValues be (Some l)) env i)"

definition oracle_stmt_exec :: "ora_env \<Rightarrow> nat \<Rightarrow> ora_step" where
  "oracle_stmt_exec env i = call_guard (stmt_exec env i)"

definition oracle_stmt_exec_describe :: "ora_env \<Rightarrow> nat \<Rightarrow> ora_step" where
  "oracle_stmt_exec_describe env i = call_guard (stmt_execDescribe env i)"

definition define_step :: "ora_env \<Rightarrow> nat \<Rightarrow> ora_step" where
  "define_step env i S =
     (let (xs, registered, p) = prepared_define (en_define env) (en_char_width env)
            (en_params env (stmt_text (os_stmts S i))) (os_stmts S i);
          S1 = change_stmt i (\<lambda>_. p) S;
          S2 = (if registered then registerStatement i S1 else S1)
      in (xs \<noteq> [], set_sink (os_sink S2 @ xs) S2))"

definition oracle_stmt_define :: "ora_env \<Rightarrow> nat \<Rightarrow> ora_step" where
  "oracle_stmt_define env i = call_guard (define_step env i)"

definition oracle_stmt_affected_rows :: "ora_env \<Rightarrow> ora_state \<Rightarrow> int \<times> ora_state" where
  "oracle_stmt_affected_rows env = call_guard (affectedRows env)"

definition oracle_stmt_get_output :: "ora_env \<Rightarrow> nat \<Rightarrow> dbi_step" where
  "oracle_stmt_get_output env i = call_guard (output_step env i False)"

definition oracle_stmt_get_output_rows :: "ora_env \<Rightarrow> nat \<Rightarrow> dbi_step" where
  "oracle_stmt_get_output_rows env i = call_guard (output_step env i True)"

definition oracle_stmt_fetch_row :: "ora_env \<Rightarrow> nat \<Rightarrow> dbi_step" where
  "oracle_stmt_fetch_row env i =
     call_guard (on_stmt env i (\<lambda>p. let (r, p') = prepared_fetchRow (en_value env) p in (map_outcome (\<lambda>h. SingleRow (QHash h)) r, p')))"

definition oracle_stmt_fetch_rows :: "ora_env \<Rightarrow> nat \<Rightarrow> int \<Rightarrow> dbi_step" where
  "oracle_stmt_fetch_rows env i rows =
     call_guard (on_stmt env i (\<lambda>p. let (r, p') = prepared_fetchRows (en_value env) (en_define env) (en_char_width env) rows p
       in (map_outcome RowList r, p')))"

definition oracle_stmt_fetch_columns :: "ora_env \<Rightarrow> nat \<Rightarrow> int \<Rightarrow> dbi_step" where
  "oracle_stmt_fetch_columns env i rows =
     call_guard (on_stmt env i (\<lambda>p. let (r, p') = prepared_fetchColumns (en_value env) (en_define env) (en_char_width env) rows p
       in (map_outcome ColumnHash r, p')))"

definition oracle_stmt_fetch_columnar :: "ora_env \<Rightarrow> nat \<Rightarrow> int \<Rightarrow> dbi_step" where
  "oracle_stmt_fetch_columnar env i rows =
     call_guard (on_stmt env i (\<lambda>p. let (r, p') = prepared_fetchColumnar (en_value env) (en_define env) (en_char_width env)
         (en_utf8 env) rows p in (map_outcome ColumnarResult r, p')))"

definition oracle_stmt_describe :: "ora_env \<Rightarrow> nat \<Rightarrow> dbi_step" where
  "oracle_stmt_describe env i =
     call_guard (on_stmt env i (\<lambda>p. let (r, p') = prepared_describe (en_utf8 env) p in (map_outcome Description r, p')))"

text \<open>\<open>next\<close>: true if there is a row.\<close>

definition next_step :: "ora_env \<Rightarrow> nat \<Rightarrow> ora_step" where
  "next_step env i S =
     (let p = os_stmts S i; (f, st) = stmt_fetch (pp_stmt p); S1 = change_stmt i (\<lambda>p. p\<lparr>pp_stmt := st\<rparr>) S
      in case f of
           GotRow \<Rightarrow> (True, S1)
         | NoMoreData \<Rightarrow> (False, S1)
         | FetchFailed e \<Rightarrow> (False, failed_fetch env (pp_stmt p) st e S1))"

definition oracle_stmt_next :: "ora_env \<Rightarrow> nat \<Rightarrow> ora_step" where
  "oracle_stmt_next env i = call_guard (next_step env i)"

text \<open>Freeing and closing have no guard; in a forked child the handles belong to the parent.\<close>

definition oracle_stmt_free :: "ora_env \<Rightarrow> bool \<Rightarrow> nat \<Rightarrow> ora_step" where
  "oracle_stmt_free env forked_child i S =
     (if forked_child then (False, S) else let S1 = clear_stmt env i S in (os_sink S1 \<noteq> [], S1))"

definition oracle_stmt_close :: "ora_env \<Rightarrow> bool \<Rightarrow> nat \<Rightarrow> ora_step" where
  "oracle_stmt_close env forked_child i S =
     (if forked_child then (False, S) else let S1 = reset_stmt env i S in (os_sink S1 \<noteq> [], S1))"

definition oracle_opt_set :: "option_env \<Rightarrow> string \<Rightarrow> qval \<Rightarrow> ora_step" where
  "oracle_opt_set oenv opt v S =
     (let (x, c) = setOption oenv opt v (os_options S); S1 = S\<lparr>os_options := c\<rparr>
      in case x of None \<Rightarrow> (False, S1) | Some e \<Rightarrow> (True, raise_exn e S1))"

definition oracle_opt_get :: "option_env \<Rightarrow> string \<Rightarrow> ora_state \<Rightarrow> qval" where
  "oracle_opt_get oenv opt S = getOption oenv opt (os_options S)"

section \<open>Versions\<close>

text \<open>The text of the version is that of the server, in the default encoding; this call has no guard.\<close>

definition oracle_get_server_version :: "ora_env \<Rightarrow> string \<Rightarrow> string \<Rightarrow> dbi_step" where
  "oracle_get_server_version env enc version S =
     (let (r, S') = conn_call env ServerVersion S in (if r then None else Some (SingleRow (QString (c_str version) enc)), S'))"

definition oracle_get_client_version :: "int \<Rightarrow> int \<Rightarrow> int \<Rightarrow> int \<Rightarrow> int \<Rightarrow> dbi_value" where
  "oracle_get_client_version major minor update patch port_update =
     OutputHash [(''major'', QInt major), (''minor'', QInt minor), (''update'', QInt update), (''patch'', QInt patch),
       (''port_update'', QInt port_update)]"

end
