(* ===== verification/Calls.thy ===== *)
theory Calls
  imports Driver
begin

text \<open>
  What the calls of the driver guarantee: between calls an open connection is one that can be
  used, nothing is committed that was not executed, and a query returns the rows of the server.
\<close>

section \<open>Steps of a call\<close>

text \<open>
  \<open>keeps\<close>: no exceptions are needed to be absent; \<open>works\<close>: the step starts without any and does no
  work on the server.
\<close>

definition keeps :: "(ora_state \<Rightarrow> 'a \<times> ora_state) \<Rightarrow> bool" where
  "keeps f \<longleftrightarrow> (\<forall>S r S'. f S = (r, S') \<longrightarrow> \<not> os_in_logon S \<longrightarrow> flow S S')"

lemma keepsI: "(\<And>S r S'. f S = (r, S') \<Longrightarrow> \<not> os_in_logon S \<Longrightarrow> flow S S') \<Longrightarrow> keeps f"
  by (simp add: keeps_def)

lemma keepsD: "keeps f \<Longrightarrow> f S = (r, S') \<Longrightarrow> \<not> os_in_logon S \<Longrightarrow> flow S S'"
  by (simp add: keeps_def)

lemma flow_refl: "\<not> os_in_logon S \<Longrightarrow> flow S S"
  by (simp add: flow_def)

lemma flow_not_logon: "flow S S' \<Longrightarrow> \<not> os_in_logon S'"
  by (simp add: flow_def)

lemma flow_same: "core S' = core S \<Longrightarrow> stores S' = stores S \<Longrightarrow> \<not> os_in_logon S' \<Longrightarrow> flow S S'"
  using stores_handles [of S' S] stores_stmts [of S' S] by (auto simp: flow_def core_def call_good_def)

lemma flow_note: "\<not> os_in_logon S \<Longrightarrow> flow S (note_ora c S)"
  by (rule flow_same) simp_all

lemma flow_raise: "\<not> os_in_logon S \<Longrightarrow> flow S (raise_exn e S)" "\<not> os_in_logon S \<Longrightarrow> flow S (set_sink xs S)"
  by (rule flow_same; simp)+

lemma grows_same: "os_calls S' = os_calls S \<Longrightarrow> grows S S'"
  by (simp add: grows_def work_def)

lemma grows_raise: "grows S (raise_exn e S)" "grows S (set_sink xs S)"
  by (rule grows_same; simp)+

lemma keeps_session: "session_step_ok f \<Longrightarrow> keeps f"
  using session_step_okD(1) light_flow by (auto simp: keeps_def)

lemma keeps_run: "list_all keeps fs \<Longrightarrow> keeps (run_steps fs)"
proof (induction fs)
  case Nil
  then show ?case by (simp add: keeps_def flow_refl)
next
  case (Cons f fs)
  show ?case
  proof (rule keepsI)
    fix S r S'
    assume a: "run_steps (f # fs) S = (r, S')" "\<not> os_in_logon S"
    obtain r1 S1 where f: "f S = (r1, S1)" by fastforce
    have 1: "flow S S1" using Cons.prems f a(2) by (auto intro: keepsD)
    show "flow S S'"
    proof (cases r1)
      case True
      with a(1) f 1 show ?thesis by simp
    next
      case False
      then have "run_steps fs S1 = (r, S')" using a(1) f by simp
      moreover have "keeps (run_steps fs)" using Cons by simp
      ultimately show ?thesis using 1 flow_trans keepsD flow_not_logon by metis
    qed
  qed
qed

lemma keeps_conn_call: "keeps (conn_call env c)"
proof (rule keepsI)
  fix S r S'
  assume a: "conn_call env c S = (r, S')" "\<not> os_in_logon S"
  let ?S = "note_ora c S" and ?st = "en_status env (length (os_calls S)) c"
  have n: "\<not> os_in_logon ?S" using a(2) by simp
  have "conn_checkerr env ?st ?S = (r, S')" using a(1) by (simp add: conn_call_def ocall_def)
  then have "flow ?S S'"
    using handleError_flow [OF prod.collapse [symmetric] n, of env None] flow_raise(1) [OF n] flow_refl [OF n]
    by (auto simp: conn_checkerr_def split: if_splits option.splits)
  with flow_note [OF a(2)] flow_trans show "flow S S'" by blast
qed

lemma conn_commit_keeps: "keeps (conn_commit env)"
  unfolding conn_commit_def by (rule keeps_run) (auto intro: keeps_session keeps_conn_call)

lemma conn_rollback_keeps: "keeps (conn_rollback env None)"
  unfolding conn_rollback_def by (rule keeps_run) (auto intro: keeps_session keeps_conn_call)

section \<open>Changing one statement\<close>

text \<open>A registered statement does not lose its text.\<close>

definition keeps_text :: "nat \<Rightarrow> prepared \<Rightarrow> ora_state \<Rightarrow> bool" where
  "keeps_text i p S \<longleftrightarrow> (i \<in> set (os_reg S) \<longrightarrow> pp_str (os_stmts S i) \<noteq> None \<longrightarrow> pp_str p \<noteq> None)"

lemma keeps_text_same: "pp_str p = pp_str (os_stmts S i) \<Longrightarrow> keeps_text i p S"
  by (simp add: keeps_text_def)

lemma flow_change:
  assumes "\<not> os_in_logon S" "keeps_text i (g (os_stmts S i)) S"
  shows "flow S (change_stmt i g S)" "grows S (change_stmt i g S)"
  using assms by (auto simp: flow_def change_stmt_def call_good_def keeps_text_def grows_def work_def)

lemma flow_world:
  assumes "\<not> os_in_logon S" "keeps_text i p S" "handles_old (os_bind S) \<longrightarrow> handles_old w"
  shows "flow S (put_stmt i (p, w) S)" "grows S (put_stmt i (p, w) S)"
  using assms by (auto simp: flow_def put_stmt_def call_good_def keeps_text_def grows_def work_def)

lemma flow_free: "\<not> os_in_logon S \<Longrightarrow> flow S (free_columns rs S)" "grows S (free_columns rs S)"
  by (auto simp: flow_def free_columns_def bfree_def handles_old_def call_good_def grows_def work_def)

lemma flow_reset:
  assumes "\<not> os_in_logon S"
  shows "flow S (reset_stmt env i S)" "grows S (reset_stmt env i S)"
proof -
  have "pp_str (os_stmts (reset_stmt env i S) j) = pp_str (os_stmts S j)" if "j \<noteq> i" for j
    using that by (simp add: reset_stmt_def deregisterStatement_def put_stmt_def)
  with reset_stmt_effect [of env i S] assms world_le_handles
  show "flow S (reset_stmt env i S)" "grows S (reset_stmt env i S)"
    by (auto simp: flow_def flags_def call_good_def grows_def work_def)
qed

lemma flow_clear:
  assumes "\<not> os_in_logon S"
  shows "flow S (clear_stmt env i S)" "grows S (clear_stmt env i S)"
  using kept_flow [OF cleared_kept [OF clear_stmt_cleared assms]] cleared_kept [OF clear_stmt_cleared assms]
  by (simp_all add: kept_def)

section \<open>Preparing, binding and executing\<close>

definition works :: "(ora_state \<Rightarrow> 'a \<times> ora_state) \<Rightarrow> bool" where
  "works f \<longleftrightarrow> (\<forall>S r S'. f S = (r, S') \<longrightarrow> os_sink S = [] \<longrightarrow> \<not> os_in_logon S \<longrightarrow> flow S S' \<and> grows S S')"

lemma worksI: "(\<And>S r S'. f S = (r, S') \<Longrightarrow> os_sink S = [] \<Longrightarrow> \<not> os_in_logon S \<Longrightarrow> flow S S' \<and> grows S S') \<Longrightarrow> works f"
  by (simp add: works_def)

lemma worksD: "works f \<Longrightarrow> f S = (r, S') \<Longrightarrow> os_sink S = [] \<Longrightarrow> \<not> os_in_logon S \<Longrightarrow> flow S S' \<and> grows S S'"
  by (simp add: works_def)

lemma parse_step_ok: "call_step_ok (parse_step env i args)"
proof (rule call_step_okI)
  fix S r S'
  assume a: "parse_step env i args S = (r, S')" "os_sink S = []" "\<not> os_in_logon S"
  show "flow S S' \<and> grows S S' \<and> (r \<longleftrightarrow> os_sink S' \<noteq> [])"
  proof (cases "\<exists>s. parseQuery (en_parse env) (case pp_str (os_stmts S i) of None \<Rightarrow> [] | Some s \<Rightarrow> s) args = Stop s")
    case False
    then have "r" "S' = raise_exn undefined_behaviour S"
      using a(1) by (auto simp: parse_step_def split: pq_result.splits)
    with raise_flow [OF a(3)] show ?thesis by simp
  next
    case True
    then obtain s where s: "parseQuery (en_parse env) (case pp_str (os_stmts S i) of None \<Rightarrow> [] | Some s \<Rightarrow> s) args = Stop s"
      by blast
    define g :: "prepared \<Rightarrow> prepared" where "g = (\<lambda>p. p\<lparr>pp_str := Some (pq_pre s @ pq_rest s), pp_nodes := pq_nodes s, pp_hasOutput := pq_has_output s,
      pp_args := (if args \<noteq> None \<and> \<not> os_trans S \<and> \<not> bw_sink (pq_world s) \<noteq> [] then args else pp_args p)\<rparr>)"
    have g: "pp_str (g p) \<noteq> None" for p by (simp add: g_def)
    have "parse_step env i args S = (bw_sink (pq_world s) \<noteq> [],
        set_sink (os_sink (change_stmt i g S) @ bw_sink (pq_world s)) (change_stmt i g S))"
      unfolding g_def parse_step_def Let_def s by (simp only: pq_result.case)
    then have S': "r = (bw_sink (pq_world s) \<noteq> [])"
        "S' = set_sink (os_sink (change_stmt i g S) @ bw_sink (pq_world s)) (change_stmt i g S)"
      using a(1) by (simp_all only: prod.inject)
    have k: "keeps_text i (g (os_stmts S i)) S" using g by (simp add: keeps_text_def)
    note f = flow_change [where g = g, OF a(3) k]
    have "flow S S'" unfolding S'(2) by (rule flow_trans [OF f(1) flow_raise(2)]) (use flow_not_logon [OF f(1)] in simp)
    moreover have "grows S S'" unfolding S'(2) by (rule grows_trans [OF f(2) grows_raise(2)])
    moreover have "os_sink S' = bw_sink (pq_world s)" using a(2) by (simp add: S'(2) change_stmt_def)
    ultimately show ?thesis using S'(1) by simp
  qed
qed

lemma stmt_prepare_ok:
  assumes "stmt_prepare env sql enc args parse i S = (r, S')" "os_sink S = []" "\<not> os_in_logon S" "i \<notin> set (os_reg S)"
  shows "flow S S' \<and> grows S S' \<and> (r \<longleftrightarrow> os_sink S' \<noteq> [])"
proof (cases "convert_sql (en_bind env) sql enc")
  case (Value t)
  let ?fs = "(if parse then [parse_step env i args] else []) @ prepare_steps env i"
  let ?S = "change_stmt i (\<lambda>p. p\<lparr>pp_str := Some t\<rparr>) S"
  have "keeps_text i ((os_stmts S i)\<lparr>pp_str := Some t\<rparr>) S" by (simp add: keeps_text_def)
  note f = flow_change [where g = "\<lambda>p. p\<lparr>pp_str := Some t\<rparr>", OF assms(3) this]
  have ok: "call_step_ok (run_steps ?fs)" by (rule run_steps_call) (simp add: parse_step_ok prepare_steps_ok)
  have r: "run_steps ?fs ?S = (r, S')" using assms(1) Value by (simp add: stmt_prepare_def)
  have "os_sink ?S = []" using assms(2) by (simp add: change_stmt_def)
  from call_step_okD [OF ok r this flow_not_logon [OF f(1)]]
  have "flow ?S S' \<and> grows ?S S' \<and> (r \<longleftrightarrow> os_sink S' \<noteq> [])" .
  with f flow_trans grows_trans show ?thesis by blast
next
  case (Raised e)
  let ?S = "change_stmt i (\<lambda>p. p\<lparr>pp_str := None\<rparr>) S"
  have "keeps_text i ((os_stmts S i)\<lparr>pp_str := None\<rparr>) S" using assms(4) by (simp add: keeps_text_def)
  note f = flow_change [where g = "\<lambda>p. p\<lparr>pp_str := None\<rparr>", OF assms(3) this]
  have "r" "S' = raise_exn e ?S" using assms(1) Raised by (simp_all add: stmt_prepare_def)
  with raise_flow [OF flow_not_logon [OF f(1)]] f flow_trans grows_trans show ?thesis by blast
next
  case Undefined
  then have "r" "S' = raise_exn undefined_behaviour S" using assms(1) by (simp_all add: stmt_prepare_def)
  with raise_flow [OF assms(3)] show ?thesis by blast
qed

lemma stmt_execute_keeps:
  assumes "stmt_execute env i describe S = (r, S')" "os_sink S = []" "\<not> os_in_logon S"
  shows "flow S S'" "longer S S'" "r \<longleftrightarrow> os_sink S' \<noteq> []"
  using execute_cases [OF assms] by blast+

section \<open>Results\<close>

lemma failed_fetch_ok:
  assumes "\<not> os_in_logon S"
  shows "flow S (failed_fetch env st st' e S)" "grows S (failed_fetch env st st' e S)"
    "os_sink (failed_fetch env st st' e S) \<noteq> []"
proof -
  let ?S = "note_ora StmtFetch S"
  have n: "\<not> os_in_logon ?S" using assms by simp
  obtain r S1 where h: "handleError env None None ?S = (r, S1)" by fastforce
  note f = handleError_flow [OF h n]
  have g: "flow S ?S" "grows S ?S" using flow_note [OF assms] grows_note by simp_all
  have "flow S S1" "grows S S1" using g f flow_trans grows_trans by blast+
  moreover have "flow S (raise_exn e ?S)" "grows S (raise_exn e ?S)"
    using g flow_trans [OF g(1) flow_raise(1) [OF n]] grows_trans [OF g(2) grows_raise(1)] by blast+
  ultimately show "flow S (failed_fetch env st st' e S)" "grows S (failed_fetch env st st' e S)"
      "os_sink (failed_fetch env st st' e S) \<noteq> []"
    using h f flow_raise(1) [OF assms] grows_raise(1) by (auto simp: failed_fetch_def ocall_def)
qed

lemma on_stmt_ok:
  assumes "on_stmt env i f S = (v, S')" "\<not> os_in_logon S" "\<And>p. pp_str (snd (f p)) = pp_str p"
  shows "flow S S' \<and> grows S S' \<and> (v = None \<longrightarrow> os_sink S' \<noteq> []) \<and> (v \<noteq> None \<longrightarrow> os_sink S' = os_sink S)"
proof -
  obtain r p where f: "f (os_stmts S i) = (r, p)" by fastforce
  let ?S = "change_stmt i (\<lambda>_. p) S"
  have "pp_str p = pp_str (os_stmts S i)" using assms(3) [of "os_stmts S i"] f by simp
  then have "keeps_text i p S" by (rule keeps_text_same)
  note c = flow_change [where g = "\<lambda>_. p", OF assms(2) this]
  have n: "\<not> os_in_logon ?S" by (rule flow_not_logon [OF c(1)])
  show ?thesis
  proof (cases r)
    case (Value x)
    with assms(1) f c show ?thesis by (auto simp: on_stmt_def change_stmt_def)
  next
    case (Raised e)
    with assms(1) f have "v = None" "S' = failed_fetch env (pp_stmt (os_stmts S i)) (pp_stmt p) e ?S" by (simp_all add: on_stmt_def Let_def)
    with failed_fetch_ok [OF n] flow_trans [OF c(1)] grows_trans [OF c(2)] show ?thesis by simp
  next
    case Undefined
    with assms(1) f have "v = None" "S' = raise_exn undefined_behaviour ?S" by (simp_all add: on_stmt_def Let_def)
    with raise_flow [OF n] flow_trans [OF c(1)] grows_trans [OF c(2)] show ?thesis by simp
  qed
qed

lemma with_result_set_ok:
  assumes "with_result_set env i f S = (v, S')" "\<not> os_in_logon S" "os_sink S = []"
  shows "flow S S' \<and> grows S S' \<and> (v = None \<longleftrightarrow> os_sink S' \<noteq> [])"
proof -
  obtain cs xs where o: "OraResultSet_init (en_params env (stmt_text (os_stmts S i))) = (cs, xs)" by fastforce
  let ?rs = "\<lparr>rs_defined = False, rs_clist = cs\<rparr>"
  have fs: "os_sink (free_columns rs T) = os_sink T" for rs T by (simp add: free_columns_def bfree_def)
  show ?thesis
  proof (cases "xs = []")
    case False
    then have "v = None" "S' = free_columns ?rs (set_sink xs S)"
      using assms(1,3) o by (simp_all add: with_result_set_def Let_def)
    moreover have "\<not> os_in_logon (set_sink xs S)" using assms(2) by simp
    ultimately show ?thesis
      using flow_trans [OF flow_raise(2) [OF assms(2)] flow_free(1)] grows_trans [OF grows_raise(2) flow_free(2)] fs False by auto
  next
    case True
    obtain r rs' st where f: "f ?rs (pp_stmt (os_stmts S i)) = (r, rs', st)" by (metis prod_cases3)
    obtain v1 S1 where o1: "on_stmt env i (\<lambda>p. (r, p\<lparr>pp_stmt := st\<rparr>)) S = (v1, S1)" by fastforce
    from on_stmt_ok [OF o1 assms(2)]
    have c: "flow S S1" "grows S S1" "v1 = None \<longrightarrow> os_sink S1 \<noteq> []" "v1 \<noteq> None \<longrightarrow> os_sink S1 = []" using assms(3) by auto
    have "v = v1" "S' = free_columns rs' S1" using assms(1) o True f o1 by (simp_all add: with_result_set_def Let_def)
    with c fs flow_trans [OF c(1) flow_free(1) [OF flow_not_logon [OF c(1)]]] grows_trans [OF c(2) flow_free(2)] show ?thesis by auto
  qed
qed

lemma output_step_ok:
  assumes "output_step env i rows S = (v, S')" "\<not> os_in_logon S" "os_sink S = []"
  shows "flow S S' \<and> grows S S' \<and> (v = None \<longleftrightarrow> os_sink S' \<noteq> [])"
proof -
  obtain r p where g: "getOutputHash (en_value env) rows (os_stmts S i) = (r, p)" by fastforce
  let ?S = "change_stmt i (\<lambda>_. p) S"
  have "pp_str p = pp_str (os_stmts S i)" using g by (auto simp: getOutputHash_def split: prod.splits)
  then have "keeps_text i p S" by (rule keeps_text_same)
  note c = flow_change [where g = "\<lambda>_. p", OF assms(2) this]
  have "\<not> os_in_logon ?S" "os_sink ?S = []" using flow_not_logon [OF c(1)] assms(3) by (simp_all add: change_stmt_def)
  then show ?thesis
    using assms(1) g c raise_flow [of ?S] flow_trans [OF c(1)] grows_trans [OF c(2)]
    by (cases r) (auto simp: output_step_def)
qed

lemma affectedRows_ok:
  assumes "affectedRows env S = (n, S')" "\<not> os_in_logon S" "os_sink S = []"
  shows "flow S S' \<and> grows S S'"
proof -
  obtain r where "conn_call env GetRowCount S = (r, S')" using assms(1) by (auto simp: affectedRows_def split: prod.splits)
  from call_step_okD [OF conn_call_ok this assms(3,2)] show ?thesis by simp
qed

lemma count_step_ok:
  assumes "count_step env S = (v, S')" "\<not> os_in_logon S" "os_sink S = []"
  shows "flow S S' \<and> grows S S' \<and> (v = None \<longleftrightarrow> os_sink S' \<noteq> [])"
proof -
  obtain n where "affectedRows env S = (n, S')" "v = (if os_sink S' = [] then Some (RowCount n) else None)"
    using assms(1) by (auto simp: count_step_def split: prod.splits)
  with affectedRows_ok [OF _ assms(2,3)] show ?thesis by auto
qed

section \<open>Execution with its result\<close>

text \<open>What a call did on the server: executions, and a commit at the end if the datasource commits by itself.\<close>

definition executed :: "ora_state \<Rightarrow> ora_state \<Rightarrow> bool \<Rightarrow> bool" where
  "executed S S' committed \<longleftrightarrow> longer S S' \<and> (\<exists>es. length es \<le> 2 \<and> (\<forall>e \<in> set es. \<exists>p w n. e = StmtExecute p w n False)
     \<and> work (new_calls S S') = es @ (if committed then [TransCommit] else []) \<and> (committed \<longrightarrow> es \<noteq> [] \<and> os_autocommit S))"

lemma executed_longer:
  assumes "longer S S1" "work (new_calls S S1) = ws" "longer S1 S2" "work (new_calls S1 S2) = ws'"
  shows "longer S S2" "work (new_calls S S2) = ws @ ws'"
  using longer_trans [OF assms(1,3)] new_calls_append [OF assms(1,3)] assms(2,4) by simp_all

lemma executed_grows:
  assumes "executed S S1 c" "grows S1 S2"
  shows "executed S S2 c"
proof -
  from assms(1) obtain es where es: "longer S S1" "length es \<le> 2" "\<forall>e \<in> set es. \<exists>p w n. e = StmtExecute p w n False"
      "work (new_calls S S1) = es @ (if c then [TransCommit] else [])" "c \<longrightarrow> es \<noteq> [] \<and> os_autocommit S"
    unfolding executed_def by blast
  note l = executed_longer [OF es(1,4) grows_longer [OF assms(2)] grows_work [OF assms(2)]]
  show ?thesis unfolding executed_def using l es(2,3,5) by (intro conjI exI [of _ es]) simp_all
qed

lemma grows_executed:
  assumes "grows S S1" "executed S1 S2 c" "os_autocommit S1 = os_autocommit S"
  shows "executed S S2 c"
proof -
  from assms(2) obtain es where es: "longer S1 S2" "length es \<le> 2" "\<forall>e \<in> set es. \<exists>p w n. e = StmtExecute p w n False"
      "work (new_calls S1 S2) = es @ (if c then [TransCommit] else [])" "c \<longrightarrow> es \<noteq> [] \<and> os_autocommit S1"
    unfolding executed_def by blast
  note l = executed_longer [OF grows_longer [OF assms(1)] grows_work [OF assms(1)] es(1,4)]
  show ?thesis unfolding executed_def using l es(2,3,5) assms(3) by (intro conjI exI [of _ es]) simp_all
qed

lemma executed_refl: "executed S S False"
  by (simp add: executed_def longer_def work_def)

lemma stmt_exec_executed:
  assumes "stmt_exec env i S = (r, S')" "os_sink S = []" "\<not> os_in_logon S"
  shows "executed S S' False" "\<not> r \<longrightarrow> work (new_calls S S') \<noteq> []"
proof -
  have e: "stmt_execute env i False S = (r, S')" using assms(1) by (simp add: stmt_exec_def)
  have l: "longer S S'" using execute_cases [OF e assms(2,3)] by blast
  show "executed S S' False" "\<not> r \<longrightarrow> work (new_calls S S') \<noteq> []"
    by (rule execute_thrice [OF e assms(2,3)]; use l in \<open>simp add: executed_def\<close>;
        rule exI [of _ "work (new_calls S S')"]; simp)+
qed

lemma conn_call_work:
  assumes "conn_call env c S = (r, S')" "\<not> os_in_logon S"
  shows "\<exists>cs. os_calls S' = os_calls S @ c # cs \<and> work cs = []" "r \<longrightarrow> os_sink S' \<noteq> []"
proof -
  let ?S = "note_ora c S" and ?st = "en_status env (length (os_calls S)) c"
  have n: "\<not> os_in_logon ?S" using assms(2) by simp
  have c: "conn_checkerr env ?st ?S = (r, S')" using assms(1) by (simp add: conn_call_def ocall_def)
  obtain q T where h: "handleError env None None ?S = (q, T)" by fastforce
  have "grows ?S S'" "r \<longrightarrow> os_sink S' \<noteq> []"
    using c h handleError_flow [OF h n] grows_raise(1) by (auto simp: conn_checkerr_def split: if_splits option.splits)
  then show "\<exists>cs. os_calls S' = os_calls S @ c # cs \<and> work cs = []" "r \<longrightarrow> os_sink S' \<noteq> []"
    by (auto simp: grows_def note_ora_def)
qed

lemma conn_commit_work:
  assumes "conn_commit env S = (r, S')" "\<not> os_in_logon S"
  shows "longer S S'" "work (new_calls S S') = [] \<and> os_sink S' \<noteq> [] \<or> work (new_calls S S') = [TransCommit]"
proof -
  obtain r1 S1 where 1: "run_steps [poll_cancel env, apply_session env] S = (r1, S1)" by fastforce
  have b: "light S S1" "\<exists>xs. os_sink S1 = os_sink S @ xs \<and> (r1 \<longleftrightarrow> xs \<noteq> [])" using before_exec [OF 1] by blast+
  have e: "conn_commit env S = (if r1 then (True, S1) else conn_call env TransCommit S1)"
    using 1 by (auto simp: conn_commit_def split: prod.splits if_splits)
  have "longer S S' \<and> (work (new_calls S S') = [] \<and> os_sink S' \<noteq> [] \<or> work (new_calls S S') = [TransCommit])"
  proof (cases r1)
    case True
    with e assms(1) b light_calls [OF b(1)] show ?thesis by auto
  next
    case False
    then have c: "conn_call env TransCommit S1 = (r, S')" using e assms(1) by simp
    have "\<not> os_in_logon S1" using b(1) assms(2) by (simp add: light_def)
    from conn_call_work(1) [OF c this] obtain cs where cs: "os_calls S' = os_calls S1 @ TransCommit # cs" "work cs = []" by blast
    have l: "longer S1 S'" using cs by (simp add: longer_def)
    have "work (new_calls S1 S') = [TransCommit]" using cs by (simp add: new_calls_def work_def)
    then show ?thesis
      using new_calls_append [OF light_calls(1) [OF b(1)] l] light_calls [OF b(1)] longer_trans [OF light_calls(1) [OF b(1)] l] by simp
  qed
  then show "longer S S'" "work (new_calls S S') = [] \<and> os_sink S' \<noteq> [] \<or> work (new_calls S S') = [TransCommit]" by blast+
qed

lemma conn_commit_raised:
  assumes "conn_commit env S = (r, S')" "\<not> os_in_logon S" "os_sink S \<noteq> []"
  shows "os_sink S' \<noteq> []"
proof -
  obtain r1 S1 where 1: "run_steps [poll_cancel env, apply_session env] S = (r1, S1)" by fastforce
  have b: "light S S1" "os_sink S1 \<noteq> []" using before_exec [OF 1] assms(3) by auto
  have e: "(if r1 then (True, S1) else conn_call env TransCommit S1) = (r, S')"
    using 1 assms(1) by (auto simp: conn_commit_def split: prod.splits if_splits)
  have n: "\<not> os_in_logon S1" using b(1) assms(2) by (simp add: light_def)
  show ?thesis
  proof (cases "r1 \<or> r")
    case True
    with e b conn_call_work(2) [OF _ n] show ?thesis by (auto split: if_splits)
  next
    case False
    then have "conn_checkerr env (en_status env (length (os_calls S1)) TransCommit) (note_ora TransCommit S1) = (False, S')"
      using e by (simp add: conn_call_def ocall_def)
    with b show ?thesis by (auto simp: conn_checkerr_def split: if_splits option.splits)
  qed
qed

text \<open>A query of a call: a step that starts without exceptions and returns a value or raises.\<close>

definition query_ok :: "dbi_step \<Rightarrow> bool" where
  "query_ok f \<longleftrightarrow> (\<forall>S v S'. f S = (v, S') \<longrightarrow> \<not> os_in_logon S \<longrightarrow> os_sink S = [] \<longrightarrow>
     flow S S' \<and> grows S S' \<and> (v = None \<longleftrightarrow> os_sink S' \<noteq> []))"

lemma query_okD: "query_ok f \<Longrightarrow> f S = (v, S') \<Longrightarrow> \<not> os_in_logon S \<Longrightarrow> os_sink S = [] \<Longrightarrow>
    flow S S' \<and> grows S S' \<and> (v = None \<longleftrightarrow> os_sink S' \<noteq> [])"
  by (simp add: query_ok_def)

lemma result_set_query: "query_ok (with_result_set env i f)"
  unfolding query_ok_def using with_result_set_ok by blast

lemma autocommit_ok:
  assumes "executed S S2 False" "work (new_calls S S2) \<noteq> []" "flow S S2"
  shows "flow S (autocommit env S2)" "\<exists>c. executed S (autocommit env S2) c \<and> (os_sink (autocommit env S2) = [] \<longrightarrow> c = os_autocommit S)"
proof -
  obtain r S3 where c: "conn_commit env S2 = (r, S3)" by fastforce
  have n: "\<not> os_in_logon S2" by (rule flow_not_logon [OF assms(3)])
  have au: "os_autocommit S2 = os_autocommit S" using assms(3) by (simp add: flow_def)
  show "flow S (autocommit env S2)"
    using c keepsD [OF conn_commit_keeps c n] flow_trans [OF assms(3)] assms(3) by (simp add: autocommit_def)
  show "\<exists>c. executed S (autocommit env S2) c \<and> (os_sink (autocommit env S2) = [] \<longrightarrow> c = os_autocommit S)"
  proof (cases "os_autocommit S")
    case False
    with au assms(1) show ?thesis by (auto simp: autocommit_def)
  next
    case True
    have "longer S S2" using assms(1) by (simp add: executed_def)
    note w = conn_commit_work [OF c n] new_calls_append [OF this conn_commit_work(1) [OF c n]]
      longer_trans [OF this conn_commit_work(1) [OF c n]]
    obtain es where es: "length es \<le> 2" "\<forall>e \<in> set es. \<exists>p w n. e = StmtExecute p w n False" "work (new_calls S S2) = es"
      using assms(1) by (auto simp: executed_def)
    from w(2) show ?thesis
    proof
      assume "work (new_calls S2 S3) = [] \<and> os_sink S3 \<noteq> []"
      then have "executed S S3 False" using es w by (auto simp: executed_def)
      with True au c \<open>work (new_calls S2 S3) = [] \<and> os_sink S3 \<noteq> []\<close> show ?thesis by (auto simp: autocommit_def)
    next
      assume "work (new_calls S2 S3) = [TransCommit]"
      then have "executed S S3 True" using es w True assms(2) by (auto simp: executed_def)
      with True au c show ?thesis by (auto simp: autocommit_def)
    qed
  qed
qed

lemma prologue_ok:
  assumes "prologue env i q rows S = (v, S')" "query_ok q" "os_sink S = []" "\<not> os_in_logon S"
  shows "flow S S' \<and> (v = None \<longleftrightarrow> os_sink S' \<noteq> []) \<and> (\<exists>c. executed S S' c \<and> (v \<noteq> None \<longrightarrow> c = os_autocommit S))"
proof -
  obtain r S1 where 1: "stmt_exec env i S = (r, S1)" by fastforce
  have e: "stmt_execute env i False S = (r, S1)" using 1 by (simp add: stmt_exec_def)
  note f1 = stmt_execute_keeps [OF e assms(3,4)] and x1 = stmt_exec_executed [OF 1 assms(3,4)]
  show ?thesis
  proof (cases r)
    case True
    then have "v = None" "S' = S1" using assms(1) 1 by (simp_all add: prologue_def)
    with True f1 x1 show ?thesis by auto
  next
    case False
    have s1: "os_sink S1 = []" "\<not> os_in_logon S1" using f1 False flow_not_logon by auto
    define sel where "sel = st_is_select (pp_stmt (os_stmts S1 i))"
    obtain v2 S2 where 2: "(if sel then q S1 else if pp_hasOutput (os_stmts S1 i) then output_step env i rows S1 else count_step env S1) = (v2, S2)"
      by fastforce
    have f2: "flow S1 S2" "grows S1 S2" "v2 = None \<longleftrightarrow> os_sink S2 \<noteq> []"
      using 2 query_okD [OF assms(2) _ s1(2,1)] output_step_ok [OF _ s1(2,1)] count_step_ok [OF _ s1(2,1)]
      by (auto split: if_splits)
    have f: "flow S S2" by (rule flow_trans [OF f1(1) f2(1)])
    have x2: "executed S S2 False" by (rule executed_grows [OF x1(1) f2(2)])
    have w2: "work (new_calls S S2) \<noteq> []"
      using x1 False new_calls_append [OF f1(2) grows_longer [OF f2(2)]] by auto
    have r: "(v, S') = (if sel \<and> os_sink S2 \<noteq> [] then (None, S2)
        else (if os_sink (autocommit env S2) \<noteq> [] then None else v2, autocommit env S2))"
      using assms(1) 1 2 False by (simp add: prologue_def sel_def Let_def split: if_splits)
    show ?thesis
    proof (cases "sel \<and> os_sink S2 \<noteq> []")
      case True
      with r have "v = None" "S' = S2" by simp_all
      with f x2 True show ?thesis by auto
    next
      case False
      with r have v: "v = (if os_sink (autocommit env S2) \<noteq> [] then None else v2)" "S' = autocommit env S2" by simp_all
      note a = autocommit_ok [OF x2 w2 f, of env]
      have "os_sink S2 \<noteq> [] \<longrightarrow> os_sink (autocommit env S2) \<noteq> []"
        using conn_commit_raised [OF prod.collapse [symmetric] flow_not_logon [OF f]] by (simp add: autocommit_def)
      then have "v = None \<longleftrightarrow> os_sink S' \<noteq> []" using v f2(3) by auto
      with a v show ?thesis by auto
    qed
  qed
qed

section \<open>Binding again\<close>

lemma world_le_braise: "world_le w w' \<Longrightarrow> world_le w (braise c m w')"
  by (auto simp: world_le_def braise_def handles_old_def)

lemma setPlaceholder_le:
  assumes "setPlaceholder env v n w = (ok, n', w')"
  shows "world_le w w'"
proof -
  obtain n1 w1 where r: "resetPlaceholder env False n w = (n1, w1)" by fastforce
  have "world_le w w1" using r by (auto simp: resetPlaceholder_def Let_def split: prod.splits dest: clearPlaceholder_le)
  moreover have "w' = w1 \<or> (\<exists>c m. w' = braise c m w1)"
    using assms r by (cases v) (auto simp: setPlaceholder_def Let_def split: option.splits if_splits qval.splits)
  ultimately show ?thesis using world_le_braise by blast
qed

lemma node_set_le: "node_set env v n w = (ok, n', w') \<Longrightarrow> world_le w w'"
  by (auto simp: node_set_def split: if_splits prod.splits dest: resetValue_le setPlaceholder_le)

lemma set_nodes_le: "set_nodes env chosen k args ns w = (r, ns', w') \<Longrightarrow> world_le w w'"
proof (induction ns arbitrary: k w r ns')
  case (Cons n ns)
  show ?case
  proof (cases "chosen n")
    case False
    then obtain r1 ns1 where "set_nodes env chosen k args ns w = (r1, ns1, w')" using Cons.prems by (auto split: prod.splits)
    then show ?thesis by (rule Cons.IH)
  next
    case True
    obtain ok n1 w1 where s: "node_set env (retrieve_entry args k) n w = (ok, n1, w1)" by (metis prod_cases3)
    note l = node_set_le [OF s]
    show ?thesis
    proof (cases ok)
      case False
      with Cons.prems True s l show ?thesis by simp
    next
      case ok: True
      obtain r1 ns1 where "set_nodes env chosen (Suc k) args ns w1 = (r1, ns1, w')"
        using Cons.prems True s ok by (auto split: prod.splits)
      from Cons.IH [OF this] l show ?thesis by (rule world_le_trans [rotated])
    qed
  qed
qed simp

lemma bind_nodes_handles: "bind_nodes env pos ns w = (r, ns', w') \<Longrightarrow> handles_old w \<Longrightarrow> handles_old w'"
proof (induction ns arbitrary: pos w r ns')
  case (Cons n ns)
  obtain n1 w1 where b: "node_bind env pos n w = (n1, w1)" by fastforce
  have h: "handles_old w1" using handles_old_extends [OF node_bind_extends [OF b] Cons.prems(2)] .
  show ?case
  proof (cases "bw_sink w1 = []")
    case False
    with Cons.prems b h show ?thesis by simp
  next
    case True
    then obtain r1 ns1 where "bind_nodes env (Suc pos) ns w1 = (r1, ns1, w')" using Cons.prems b by (auto split: prod.splits)
    from Cons.IH [OF this h] show ?thesis .
  qed
qed simp

lemma bindOracle_keeps: "bindOracle env p w = (r, p', w') \<Longrightarrow> pp_str p' = pp_str p \<and> (handles_old w \<longrightarrow> handles_old w')"
  using bind_nodes_handles by (fastforce simp: bindOracle_def braise_def handles_old_def split: prod.splits option.splits)

lemma set_and_bind_keeps:
  assumes "set_and_bind env chosen args p w = (r, p', w')"
  shows "pp_str p' = pp_str p \<and> (handles_old w \<longrightarrow> handles_old w')"
proof -
  obtain r1 ns w1 where s: "set_nodes (stmt_env env (pp_stmt p)) chosen 0 args (pp_nodes p) w = (r1, ns, w1)"
    by (metis prod_cases3)
  from world_le_handles [OF set_nodes_le [OF s]] bindOracle_keeps [of env "p\<lparr>pp_nodes := ns\<rparr>" w1 r p' w'] assms s show ?thesis
    by (auto simp: set_and_bind_def Let_def split: if_splits)
qed

lemma bind_step_flow:
  assumes "bind_step (\<lambda>be. set_and_bind be chosen args) env i S = (r, S')" "\<not> os_in_logon S"
  shows "flow S S'"
proof -
  obtain p w where b: "set_and_bind (conn_bind_env env S) chosen args (os_stmts S i) (os_bind S) = (r, p, w)"
      "S' = (put_stmt i (p, w) S)\<lparr>os_bound := (os_bound S)(i := w)\<rparr>"
    using assms(1) by (auto simp: bind_step_def split: prod.splits)
  note k = set_and_bind_keeps [OF b(1)]
  have "flow S (put_stmt i (p, w) S)"
    by (rule flow_world(1) [OF assms(2) keeps_text_same]) (use k in auto)
  then show ?thesis by (simp add: b(2) flow_def call_good_def)
qed

lemma define_step_flow:
  assumes "define_step env i S = (r, S')" "\<not> os_in_logon S" "pp_str (os_stmts S i) \<noteq> None"
  shows "flow S S'"
proof -
  obtain xs reg p where d: "prepared_define (en_define env) (en_char_width env)
      (en_params env (stmt_text (os_stmts S i))) (os_stmts S i) = (xs, reg, p)" by (metis prod_cases3)
  have str: "pp_str p = pp_str (os_stmts S i)"
    using d by (auto simp: prepared_define_def Let_def split: if_splits prod.splits option.splits)
  have S': "S' = set_sink (os_sink S @ xs) (if reg then registerStatement i (change_stmt i (\<lambda>_. p) S) else change_stmt i (\<lambda>_. p) S)"
    using assms(1) d by (auto simp: define_step_def change_stmt_def registerStatement_def Let_def)
  show ?thesis using str assms(2,3) unfolding S'
    by (auto simp: flow_def set_sink_def registerStatement_def change_stmt_def call_good_def handles_old_def)
qed

section \<open>Between calls\<close>

text \<open>What holds of a connection when no call is in progress.\<close>

definition driver_ok :: "ora_state \<Rightarrow> bool" where
  "driver_ok S \<longleftrightarrow> os_depth S = 0 \<and> \<not> os_in_logon S \<and> \<not> os_abort_pending S \<and> (os_open S \<longrightarrow> \<not> os_lost S)
     \<and> (\<forall>i \<in> set (os_reg S). pp_str (os_stmts S i) \<noteq> None) \<and> handles_old (os_bind S)"

definition driver_start :: "ora_state \<Rightarrow> bool" where
  "driver_start S \<longleftrightarrow> os_depth S = 0 \<and> \<not> os_in_logon S \<and> \<not> os_abort_pending S \<and> os_open S \<and> \<not> os_lost S \<and> os_reg S = []
     \<and> handles_old (os_bind S)"

text \<open>
  The calls, each without exceptions at its start: those with a statement of their own and the
  preparation of one, those that report failure, those that return a value.
\<close>

definition calls_of_one :: "ora_env \<Rightarrow> nat \<Rightarrow> string \<Rightarrow> string \<Rightarrow> qval list option \<Rightarrow> dbi_step list" where
  "calls_of_one env i sql enc args =
     [oracle_exec env i sql enc args, oracle_select env i sql enc args, oracle_exec_rows env i sql enc args,
      oracle_select_typed env i sql enc args, oracle_exec_rows_typed env i sql enc args, oracle_exec_raw env i sql enc]"

definition calls_of_query :: "ora_env \<Rightarrow> nat \<Rightarrow> string \<Rightarrow> string \<Rightarrow> qval list option \<Rightarrow> dbi_step list" where
  "calls_of_query env i sql enc args =
     [oracle_select_row env i sql enc args, oracle_select_columnar env i sql enc args]"

definition calls_of_statement :: "ora_env \<Rightarrow> nat \<Rightarrow> qval list \<Rightarrow> bool \<Rightarrow> option_env \<Rightarrow> string \<Rightarrow> qval \<Rightarrow> ora_step list" where
  "calls_of_statement env i l forked oenv opt v =
     [oracle_commit env, oracle_rollback env None, oracle_stmt_bind env i l, oracle_stmt_bind_placeholders env i l,
      oracle_stmt_bind_values env i l, oracle_stmt_exec env i, oracle_stmt_exec_describe env i, oracle_stmt_next env i,
      oracle_stmt_free env forked i, oracle_stmt_close env forked i, oracle_opt_set oenv opt v]"

definition calls_of_values :: "ora_env \<Rightarrow> nat \<Rightarrow> int \<Rightarrow> dbi_step list" where
  "calls_of_values env i rows =
     [oracle_stmt_get_output env i, oracle_stmt_get_output_rows env i, oracle_stmt_fetch_row env i,
      oracle_stmt_fetch_rows env i rows, oracle_stmt_fetch_columns env i rows, oracle_stmt_fetch_columnar env i rows,
      oracle_stmt_describe env i]"

inductive driver_step :: "ora_state \<Rightarrow> ora_state \<Rightarrow> bool" where
  call_own: "os_open S \<Longrightarrow> i \<notin> set (os_reg S) \<Longrightarrow>
     f \<in> set (calls_of_one env i sql enc args @ calls_of_query env i sql enc args) \<Longrightarrow> driver_step S (snd (f (set_sink [] S)))"
| call_new: "os_open S \<Longrightarrow> i \<notin> set (os_reg S) \<Longrightarrow>
     g \<in> {oracle_stmt_prepare env i sql enc args, oracle_stmt_prepare_raw env i sql enc} \<Longrightarrow> driver_step S (snd (g (set_sink [] S)))"
| call_stmt: "os_open S \<Longrightarrow> g \<in> set (calls_of_statement env i l forked oenv opt v) \<Longrightarrow> driver_step S (snd (g (set_sink [] S)))"
| call_value: "os_open S \<Longrightarrow> f \<in> set (calls_of_values env i rows) \<Longrightarrow> driver_step S (snd (f (set_sink [] S)))"
| call_define: "os_open S \<Longrightarrow> pp_str (os_stmts S i) \<noteq> None \<Longrightarrow> driver_step S (snd (oracle_stmt_define env i (set_sink [] S)))"
| call_count: "os_open S \<Longrightarrow> driver_step S (snd (oracle_stmt_affected_rows env (set_sink [] S)))"
| call_version: "os_open S \<Longrightarrow> driver_step S (snd (oracle_get_server_version env enc version (set_sink [] S)))"
| call_mode: "driver_step S (S\<lparr>os_trans := t, os_autocommit := a\<rparr>)"

lemma guard_ok:
  assumes "driver_ok S" "os_open S"
    "\<And>v S'. f (S\<lparr>os_depth := 1\<rparr>) = (v, S') \<Longrightarrow> flow (S\<lparr>os_depth := 1\<rparr>) S'"
  shows "driver_ok (snd (call_guard f S))"
proof -
  obtain v S1 where f: "f (S\<lparr>os_depth := 1\<rparr>) = (v, S1)" by fastforce
  have fl: "flow (S\<lparr>os_depth := 1\<rparr>) S1" by (rule assms(3) [OF f])
  have "call_good (S\<lparr>os_depth := 1\<rparr>)" using assms(1,2) by (simp add: driver_ok_def call_good_def)
  then have g: "call_good S1" "os_depth S1 = 1" "\<not> os_in_logon S1" "handles_old (os_bind S1)"
    using fl assms(1) by (simp_all add: flow_def driver_ok_def)
  have "os_depth S = 0" using assms(1) by (simp add: driver_ok_def)
  then show ?thesis using f g
    by (auto simp: call_guard_def Let_def driver_ok_def call_good_def close_datasource_def note_ora_def)
qed

lemma begin_ok: "driver_ok S \<Longrightarrow> driver_ok (set_sink [] S)"
  by (simp add: driver_ok_def set_sink_def handles_old_def)

text \<open>A step of a call without exceptions at its start.\<close>

definition starts :: "(ora_state \<Rightarrow> 'a \<times> ora_state) \<Rightarrow> bool" where
  "starts f \<longleftrightarrow> (\<forall>S r S'. f S = (r, S') \<longrightarrow> os_sink S = [] \<longrightarrow> \<not> os_in_logon S \<longrightarrow> flow S S')"

lemma startsI: "(\<And>S r S'. f S = (r, S') \<Longrightarrow> os_sink S = [] \<Longrightarrow> \<not> os_in_logon S \<Longrightarrow> flow S S') \<Longrightarrow> starts f"
  by (simp add: starts_def)

lemma startsD: "starts f \<Longrightarrow> f S = (r, S') \<Longrightarrow> os_sink S = [] \<Longrightarrow> \<not> os_in_logon S \<Longrightarrow> flow S S'"
  by (simp add: starts_def)

lemma keeps_starts: "keeps f \<Longrightarrow> starts f"
  by (simp add: starts_def keeps_def)

lemma query_starts: "query_ok f \<Longrightarrow> starts f"
  by (simp add: starts_def query_ok_def)

lemma execute_starts: "starts (stmt_exec env i)" "starts (stmt_execDescribe env i)"
  using stmt_execute_keeps(1) by (auto simp: starts_def stmt_exec_def stmt_execDescribe_def)

lemma prologue_starts: "query_ok q \<Longrightarrow> starts (prologue env i q rows)"
  using prologue_ok by (fastforce simp: starts_def)

lemma execute_then:
  assumes "stmt_exec env i S = (r, S1)" "os_sink S = []" "\<not> os_in_logon S"
  shows "flow S S1 \<and> (\<not> r \<longrightarrow> os_sink S1 = [] \<and> \<not> os_in_logon S1)"
  using stmt_execute_keeps [of env i False S r S1] assms flow_not_logon by (auto simp: stmt_exec_def)

lemma selectRow_starts: "starts (selectRow env i)"
proof (rule startsI)
  fix S v S'
  assume a: "selectRow env i S = (v, S')" "os_sink S = []" "\<not> os_in_logon S"
  obtain r S1 where 1: "stmt_exec env i S = (r, S1)" by fastforce
  note e = execute_then [OF 1 a(2,3)]
  show "flow S S'"
  proof (cases "st_is_select (pp_stmt (os_stmts S i)) \<and> \<not> r")
    case True
    then have "with_result_set env i (single_row env) S1 = (v, S')" using a(1) 1 by (simp add: selectRow_def)
    from with_result_set_ok [OF this] e True flow_trans show ?thesis by blast
  next
    case False
    with a 1 e flow_raise(1) [OF a(3)] show ?thesis by (auto simp: selectRow_def split: if_splits)
  qed
qed

lemma columnar_starts: "starts (execWithPrologueColumnar env i)"
proof (rule startsI)
  fix S v S'
  assume a: "execWithPrologueColumnar env i S = (v, S')" "os_sink S = []" "\<not> os_in_logon S"
  obtain r S1 where 1: "stmt_exec env i S = (r, S1)" by fastforce
  note e = execute_then [OF 1 a(2,3)]
  show "flow S S'"
  proof (cases "st_is_select (pp_stmt (os_stmts S i)) \<and> \<not> r")
    case True
    obtain v2 S2 where 2: "with_result_set env i (all_columnar env) S1 = (v2, S2)" by fastforce
    have f: "flow S S2" using with_result_set_ok [OF 2] e True flow_trans by blast
    have "S' = S2 \<or> S' = autocommit env S2" using a(1) 1 2 True by (auto simp: execWithPrologueColumnar_def Let_def split: if_splits)
    moreover have "flow S2 (autocommit env S2)"
      using keepsD [OF conn_commit_keeps prod.collapse [symmetric] flow_not_logon [OF f]] flow_refl [OF flow_not_logon [OF f]]
      by (simp add: autocommit_def)
    ultimately show ?thesis using f flow_trans by blast
  next
    case False
    with a 1 e flow_raise(1) [OF a(3)] show ?thesis by (auto simp: execWithPrologueColumnar_def split: if_splits)
  qed
qed

lemma new_stmt_ok:
  assumes "\<not> os_in_logon S" "i \<notin> set (os_reg S)"
  shows "flow S (new_stmt env i S)" "grows S (new_stmt env i S)" "os_sink (new_stmt env i S) = os_sink S"
    "os_reg (new_stmt env i S) = os_reg S"
  using flow_change [where g = "\<lambda>_. prepared_init (statement_init [] (en_polls env) (en_attrs env))", OF assms(1)] assms(2)
  by (simp_all add: new_stmt_def keeps_text_def change_stmt_def)

text \<open>The statement of a call.\<close>

definition statement_run :: "ora_env \<Rightarrow> nat \<Rightarrow> string \<Rightarrow> string \<Rightarrow> qval list option \<Rightarrow> bool \<Rightarrow> dbi_step \<Rightarrow> dbi_step" where
  "statement_run env i sql enc args parse k S =
     (let (r, S') = stmt_prepare env sql enc args parse i (new_stmt env i S); (v, S'') = (if r then (None, S') else k S')
      in (v, reset_stmt env i S''))"

lemma prepare_and_guard: "prepare_and env i sql enc args parse k = call_guard (statement_run env i sql enc args parse k)"
  by (rule ext)
    (simp add: prepare_and_def with_statement_def statement_run_def call_guard_def Let_def split_beta if_distrib [of fst] if_distrib [of snd])

lemma statement_run_flow:
  assumes "statement_run env i sql enc args parse k S = (v, S')" "starts k" "os_sink S = []" "\<not> os_in_logon S" "i \<notin> set (os_reg S)"
  shows "flow S S'"
proof -
  note n = new_stmt_ok [OF assms(4,5), of env]
  obtain r S1 where 1: "stmt_prepare env sql enc args parse i (new_stmt env i S) = (r, S1)" by fastforce
  obtain v2 S2 where 2: "(if r then (None, S1) else k S1) = (v2, S2)" by fastforce
  have S': "S' = reset_stmt env i S2" using assms(1) 1 2 by (simp add: statement_run_def)
  have "flow (new_stmt env i S) S1 \<and> (r \<longleftrightarrow> os_sink S1 \<noteq> [])"
    using stmt_prepare_ok [OF 1 _ flow_not_logon [OF n(1)]] n assms(3,5) by simp
  then have f1: "flow S S1" "r \<longleftrightarrow> os_sink S1 \<noteq> []" using n(1) flow_trans by blast+
  have "flow S1 S2"
    using 2 startsD [OF assms(2) _ _ flow_not_logon [OF f1(1)]] f1(2) flow_refl [OF flow_not_logon [OF f1(1)]]
    by (auto split: if_splits)
  then have "flow S S2" using f1(1) flow_trans by blast
  with flow_reset(1) [OF flow_not_logon [OF this]] S' flow_trans show ?thesis by blast
qed

lemma calls_of_one_form:
  assumes "f \<in> set (calls_of_one env i sql enc args)"
  shows "\<exists>as parse q rows. query_ok q \<and> f = prepare_and env i sql enc as parse (prologue env i q rows)"
proof -
  have "\<exists>as parse g rows. f = prepare_and env i sql enc as parse (prologue env i (with_result_set env i g) rows)"
    using assms
    unfolding calls_of_one_def oracle_exec_def oracle_select_def oracle_exec_rows_def oracle_select_typed_def
      oracle_exec_rows_typed_def oracle_exec_raw_def execWithPrologue_def execWithPrologueTyped_def list.set
    by (elim insertE emptyE) blast+
  then show ?thesis using result_set_query by blast
qed

lemma calls_of_query_form:
  assumes "f \<in> set (calls_of_query env i sql enc args)"
  shows "\<exists>k. starts k \<and> f = prepare_and env i sql enc args True k"
  using assms unfolding calls_of_query_def oracle_select_row_def oracle_select_columnar_def list.set
  by (elim insertE emptyE) (blast intro: selectRow_starts columnar_starts)+

lemma guard_starts:
  assumes "driver_ok S" "os_open S" "starts f"
  shows "driver_ok (snd (call_guard f (set_sink [] S)))"
proof (rule guard_ok)
  show "driver_ok (set_sink [] S)" by (rule begin_ok [OF assms(1)])
  show "os_open (set_sink [] S)" using assms(2) by (simp add: set_sink_def)
  fix v S'
  assume "f ((set_sink [] S)\<lparr>os_depth := 1\<rparr>) = (v, S')"
  then show "flow ((set_sink [] S)\<lparr>os_depth := 1\<rparr>) S'"
    by (rule startsD [OF assms(3)]) (use assms(1) in \<open>simp_all add: set_sink_def driver_ok_def\<close>)
qed

lemma guard_own:
  assumes "driver_ok S" "os_open S" "i \<notin> set (os_reg S)"
    "\<And>T v T'. f T = (v, T') \<Longrightarrow> os_sink T = [] \<Longrightarrow> \<not> os_in_logon T \<Longrightarrow> i \<notin> set (os_reg T) \<Longrightarrow> flow T T'"
  shows "driver_ok (snd (call_guard f (set_sink [] S)))"
proof (rule guard_ok)
  show "driver_ok (set_sink [] S)" by (rule begin_ok [OF assms(1)])
  show "os_open (set_sink [] S)" using assms(2) by (simp add: set_sink_def)
  fix v S'
  assume "f ((set_sink [] S)\<lparr>os_depth := 1\<rparr>) = (v, S')"
  then show "flow ((set_sink [] S)\<lparr>os_depth := 1\<rparr>) S'"
    by (rule assms(4)) (use assms(1,3) in \<open>simp_all add: set_sink_def driver_ok_def\<close>)
qed

lemma own_ok:
  assumes "driver_ok S" "os_open S" "i \<notin> set (os_reg S)"
    "f \<in> set (calls_of_one env i sql enc args @ calls_of_query env i sql enc args)"
  shows "driver_ok (snd (f (set_sink [] S)))"
proof -
  obtain as parse k where k: "starts k" "f = prepare_and env i sql enc as parse k"
  proof (cases "f \<in> set (calls_of_one env i sql enc args)")
    case True
    from calls_of_one_form [OF this] prologue_starts that show thesis by blast
  next
    case False
    then have "f \<in> set (calls_of_query env i sql enc args)" using assms(4) by simp
    from calls_of_query_form [OF this] that show thesis by blast
  qed
  have "driver_ok (snd (call_guard (statement_run env i sql enc as parse k) (set_sink [] S)))"
    by (rule guard_own [OF assms(1-3)]) (rule statement_run_flow [OF _ k(1)])
  then show ?thesis by (simp add: k(2) prepare_and_guard)
qed

lemma prepare_ok:
  assumes "driver_ok S" "os_open S" "i \<notin> set (os_reg S)"
    "g \<in> {oracle_stmt_prepare env i sql enc args, oracle_stmt_prepare_raw env i sql enc}"
  shows "driver_ok (snd (g (set_sink [] S)))"
proof -
  have "driver_ok (snd (call_guard (\<lambda>S. stmt_prepare env sql enc as parse i (new_stmt env i S)) (set_sink [] S)))" for as parse
  proof (rule guard_own [OF assms(1-3)])
    fix T v T'
    assume a: "stmt_prepare env sql enc as parse i (new_stmt env i T) = (v, T')" "os_sink T = []" "\<not> os_in_logon T" "i \<notin> set (os_reg T)"
    note n = new_stmt_ok [OF a(3,4), of env]
    have "flow (new_stmt env i T) T'" using stmt_prepare_ok [OF a(1) _ flow_not_logon [OF n(1)]] n a(2,4) by simp
    with n(1) flow_trans show "flow T T'" by blast
  qed
  with assms(4) show ?thesis by (auto simp: oracle_stmt_prepare_def oracle_stmt_prepare_raw_def)
qed

lemma next_step_starts: "starts (next_step env i)"
proof (rule startsI)
  fix S r S'
  assume a: "next_step env i S = (r, S')" "os_sink S = []" "\<not> os_in_logon S"
  obtain f st where f: "stmt_fetch (pp_stmt (os_stmts S i)) = (f, st)" by fastforce
  let ?S = "change_stmt i (\<lambda>p. p\<lparr>pp_stmt := st\<rparr>) S"
  have "keeps_text i ((os_stmts S i)\<lparr>pp_stmt := st\<rparr>) S" by (rule keeps_text_same) simp
  note c = flow_change [where g = "\<lambda>p. p\<lparr>pp_stmt := st\<rparr>", OF a(3) this]
  note n = flow_not_logon [OF c(1)]
  show "flow S S'" using a(1) f c flow_trans [OF c(1) failed_fetch_ok(1) [OF n]]
    by (cases f) (auto simp: next_step_def)
qed

lemma affected_starts: "starts (affectedRows env)"
  using affectedRows_ok by (auto simp: starts_def)

lemma bind_starts: "starts (bind_step (\<lambda>be. set_and_bind be chosen args) env i)"
  using bind_step_flow by (auto simp: starts_def)

lemma on_stmt_starts: "(\<And>p. pp_str (snd (f p)) = pp_str p) \<Longrightarrow> starts (on_stmt env i f)"
  using on_stmt_ok by (fastforce simp: starts_def)

lemma output_starts: "starts (output_step env i rows)"
  using output_step_ok by (fastforce simp: starts_def)

lemma columns_text: "pp_str (snd (on_columns f p)) = pp_str p"
  by (simp add: on_columns_def split_beta split: option.split)

lemma statement_calls_ok:
  assumes "driver_ok S" "os_open S" "g \<in> set (calls_of_statement env i l forked oenv opt v)"
  shows "driver_ok (snd (g (set_sink [] S)))"
proof -
  note guard = guard_starts [OF assms(1,2)]
  have b: "driver_ok (set_sink [] S)" by (rule begin_ok [OF assms(1)])
  then have n: "\<not> os_in_logon (set_sink [] S)" by (simp add: driver_ok_def)
  have free: "driver_ok (clear_stmt env i (set_sink [] S))" "driver_ok (reset_stmt env i (set_sink [] S))"
  proof -
    have ok: "driver_ok T \<Longrightarrow> flow T T' \<Longrightarrow> os_lost T' = os_lost T \<Longrightarrow> os_open T' = os_open T \<Longrightarrow> os_abort_pending T' = os_abort_pending T
        \<Longrightarrow> (\<forall>i \<in> set (os_reg T'). pp_str (os_stmts T' i) \<noteq> None) \<Longrightarrow> driver_ok T'" for T T'
      by (auto simp: driver_ok_def flow_def)
    let ?S = "set_sink [] S"
    have c: "cleared ?S (clear_stmt env i ?S)" by (rule clear_stmt_cleared)
    then have s: "core (clear_stmt env i ?S) = core ?S" "\<forall>j. pp_str (os_stmts (clear_stmt env i ?S) j) = pp_str (os_stmts ?S j)"
      by (simp_all add: cleared_def same_stmt_def)
    show "driver_ok (clear_stmt env i ?S)"
      using ok [OF b flow_clear(1) [OF n]] core_simps [OF s(1)] s(2) b by (simp add: driver_ok_def)
    have r: "pp_str (os_stmts (reset_stmt env i ?S) j) = pp_str (os_stmts ?S j)" if "j \<noteq> i" for j
      using that by (simp add: reset_stmt_def deregisterStatement_def put_stmt_def)
    show "driver_ok (reset_stmt env i ?S)"
      using ok [OF b flow_reset(1) [OF n]] reset_stmt_effect [of env i ?S] r b by (auto simp: driver_ok_def flags_def)
  qed
  have opt: "driver_ok (snd (oracle_opt_set oenv opt v (set_sink [] S)))"
    using b by (cases "setOption oenv opt v (os_options (set_sink [] S))"; cases "fst (setOption oenv opt v (os_options (set_sink [] S)))")
      (simp_all add: oracle_opt_set_def driver_ok_def raise_exn_def set_sink_def handles_old_def Let_def)
  show ?thesis using assms(3) unfolding calls_of_statement_def list.set
    by (elim insertE emptyE)
      (auto simp: oracle_commit_def oracle_rollback_def oracle_stmt_bind_def oracle_stmt_bind_placeholders_def
        oracle_stmt_bind_values_def oracle_stmt_exec_def oracle_stmt_exec_describe_def oracle_stmt_next_def oracle_stmt_free_def
        oracle_stmt_close_def prepared_bind_def bindPlaceholders_def bindValues_def Let_def free b opt
        intro!: guard keeps_starts [OF conn_commit_keeps] keeps_starts [OF conn_rollback_keeps] bind_starts execute_starts next_step_starts)
qed

lemma value_calls_ok:
  assumes "driver_ok S" "os_open S" "f \<in> set (calls_of_values env i rows)"
  shows "driver_ok (snd (f (set_sink [] S)))"
proof -
  have t: "pp_str (snd (let (r, p') = on_columns g p in (h r, p'))) = pp_str p" for g p and h :: "'a outcome \<Rightarrow> dbi_value outcome"
    using columns_text [of g p] by (simp add: split_beta)
  show ?thesis using assms(3) unfolding calls_of_values_def list.set
    by (elim insertE emptyE)
      (auto simp: oracle_stmt_get_output_def oracle_stmt_get_output_rows_def oracle_stmt_fetch_row_def oracle_stmt_fetch_rows_def
        oracle_stmt_fetch_columns_def oracle_stmt_fetch_columnar_def oracle_stmt_describe_def prepared_fetchRow_def
        prepared_fetchRows_def prepared_fetchColumns_def prepared_fetchColumnar_def prepared_describe_def split_beta columns_text
        intro!: guard_starts [OF assms(1,2)] output_starts on_stmt_starts)
qed

text \<open>
  A call without a guard: a lost connection that cannot be made again is closed at once.
\<close>

lemma abort_idle:
  assumes "os_depth S = 0" "\<not> os_in_logon S" "\<not> os_abort_pending S" "handles_old (os_bind S)"
  shows "driver_ok (abortConnection env S)"
  using resetStatements_effect [of env S] assms world_le_handles
  by (auto simp: abortConnection_def Let_def flags_def close_datasource_def note_ora_def driver_ok_def)

lemma kept_driver_ok: "kept S S' \<Longrightarrow> driver_ok S \<Longrightarrow> driver_ok S'"
  by (auto simp: kept_def driver_ok_def core_def same_stmt_def)

lemma idle_kept: "kept S S' \<Longrightarrow> driver_ok S \<Longrightarrow> driver_ok (abortConnection env S')"
  by (intro abort_idle) (auto simp: kept_def driver_ok_def core_def)

lemma handleError_idle:
  assumes "handleError env stmt None S = (r, S')" "driver_ok S"
  shows "driver_ok S'"
proof -
  let ?err = "oci_error env S" and ?code = "en_code env (length (os_calls S) - 1)"
  have n: "\<not> os_in_logon S" using assms(2) by (simp add: driver_ok_def)
  consider "?code = 12609" | "?code \<noteq> 12609" "still_connected env ?code S" | "?code \<noteq> 12609" "\<not> still_connected env ?code S"
    by blast
  then show ?thesis
  proof cases
    case 1
    then have "timed_out env ?err S = (r, S')" using assms(1) n by (simp add: handleError_def Let_def)
    from timed_out_kept [OF this n] obtain S3 where "kept S S3"
        "S' = abortConnection env S3 \<or> S' = note_ora DsConnectionRecovered (clearWarnings env S3)" by blast
    with idle_kept kept_driver_ok [OF recovered_kept] assms(2) show ?thesis by blast
  next
    case 2
    with assms(1) n have "S' = raise_exn ?err S" by (simp add: handleError_def Let_def)
    moreover have "kept S (raise_exn ?err S)" using n by (intro kept_light) (simp_all add: grows_def work_def)
    ultimately show ?thesis using kept_driver_ok assms(2) by blast
  next
    case 3
    let ?S0 = "transaction_error (S\<lparr>os_lost := True\<rparr>)"
    let ?S1 = "clearStatements env stmt ?S0"
    have c: "cleared ?S0 ?S1" by (rule clearStatements_cleared)
    have "kept (S\<lparr>os_lost := True\<rparr>) ?S0" using n by (intro kept_light) (simp_all add: grows_def work_def transaction_error_def)
    moreover have "kept ?S0 ?S1" using c n by (intro cleared_kept) simp_all
    moreover have "kept ?S1 (raise_exn ?err (note_ora DsConnectionLost ?S1))"
      using c n grows_note [of DsConnectionLost ?S1] by (intro kept_light) (simp_all add: cleared_def grows_def)
    ultimately have "kept (S\<lparr>os_lost := True\<rparr>) (raise_exn ?err (note_ora DsConnectionLost ?S1))" using kept_trans by blast
    then have "driver_ok (abortConnection env (raise_exn ?err (note_ora DsConnectionLost ?S1)))"
      using assms(2) by (intro abort_idle) (auto simp: kept_def driver_ok_def core_def)
    with 3 assms(1) n show ?thesis by (simp add: handleError_def Let_def)
  qed
qed

lemma conn_call_idle:
  assumes "conn_call env c S = (r, S')" "driver_ok S" "\<not> is_work c"
  shows "driver_ok S'"
proof -
  have n: "\<not> os_in_logon S" using assms(2) by (simp add: driver_ok_def)
  have "kept S (note_ora c S)" using assms(3) n grows_note by (intro kept_light) simp_all
  then have k: "driver_ok (note_ora c S)" using kept_driver_ok assms(2) by blast
  obtain st where st: "conn_checkerr env st (note_ora c S) = (r, S')" using assms(1) by (auto simp: conn_call_def ocall_def)
  show ?thesis
  proof (cases "st = OCI_ERROR")
    case True
    with st have "S' = snd (handleError env None None (note_ora c S))" by (simp add: conn_checkerr_def)
    with handleError_idle [OF prod.collapse [symmetric] k] show ?thesis by simp
  next
    case False
    with st have "S' = note_ora c S \<or> (\<exists>e. S' = raise_exn e (note_ora c S))" by (auto simp: conn_checkerr_def split: option.splits)
    with k show ?thesis by (auto simp: driver_ok_def raise_exn_def set_sink_def handles_old_def)
  qed
qed

lemma version_ok:
  assumes "driver_ok S" "os_open S"
  shows "driver_ok (snd (oracle_get_server_version env enc version (set_sink [] S)))"
proof -
  obtain r S' where c: "conn_call env ServerVersion (set_sink [] S) = (r, S')" by fastforce
  with conn_call_idle [OF c begin_ok [OF assms(1)]] show ?thesis by (simp add: oracle_get_server_version_def)
qed

interpretation driver: transition_invariant driver_start driver_step driver_ok
proof
  show "driver_start S \<Longrightarrow> driver_ok S" for S by (simp add: driver_start_def driver_ok_def)
  fix S T
  assume ok: "driver_ok S" and "driver_step S T"
  from this(2) show "driver_ok T"
  proof cases
    case call_own
    with own_ok [OF ok] show ?thesis by blast
  next
    case call_new
    with prepare_ok [OF ok] show ?thesis by blast
  next
    case call_stmt
    with statement_calls_ok [OF ok] show ?thesis by blast
  next
    case call_value
    with value_calls_ok [OF ok] show ?thesis by blast
  next
    case (call_define i env)
    have "driver_ok (snd (call_guard (define_step env i) (set_sink [] S)))"
    proof (rule guard_ok)
      show "driver_ok (set_sink [] S)" by (rule begin_ok [OF ok])
      show "os_open (set_sink [] S)" using call_define(2) by (simp add: set_sink_def)
      fix v S'
      assume "define_step env i ((set_sink [] S)\<lparr>os_depth := 1\<rparr>) = (v, S')"
      then show "flow ((set_sink [] S)\<lparr>os_depth := 1\<rparr>) S'"
        by (rule define_step_flow) (use ok call_define(3) in \<open>simp_all add: set_sink_def driver_ok_def\<close>)
    qed
    with call_define(1) show ?thesis by (simp add: oracle_stmt_define_def)
  next
    case call_count
    with guard_starts [OF ok _ affected_starts] show ?thesis by (simp add: oracle_stmt_affected_rows_def)
  next
    case call_version
    with version_ok [OF ok] show ?thesis by simp
  next
    case call_mode
    with ok show ?thesis by (simp add: driver_ok_def)
  qed
qed


section \<open>What is committed\<close>

lemma executed_cong: "os_calls S = os_calls T \<Longrightarrow> os_autocommit S = os_autocommit T \<Longrightarrow> executed S S' c \<longleftrightarrow> executed T S' c"
  by (simp add: executed_def longer_def new_calls_def)

lemma statement_run_executed:
  assumes "statement_run env i sql enc args parse (prologue env i q rows) S = (v, S')" "query_ok q" "os_sink S = []" "\<not> os_in_logon S"
    "i \<notin> set (os_reg S)"
  shows "\<exists>c. executed S S' c \<and> (v \<noteq> None \<longrightarrow> c = os_autocommit S)"
proof -
  note n = new_stmt_ok [OF assms(4,5), of env]
  obtain r S1 where 1: "stmt_prepare env sql enc args parse i (new_stmt env i S) = (r, S1)" by fastforce
  have "flow (new_stmt env i S) S1 \<and> grows (new_stmt env i S) S1 \<and> (r \<longleftrightarrow> os_sink S1 \<noteq> [])"
    using stmt_prepare_ok [OF 1 _ flow_not_logon [OF n(1)]] n assms(3,5) by simp
  then have f1: "flow S S1" "grows S S1" "r \<longleftrightarrow> os_sink S1 \<noteq> []" using n(1,2) flow_trans grows_trans by blast+
  have au: "os_autocommit S1 = os_autocommit S" using f1(1) by (simp add: flow_def)
  show ?thesis
  proof (cases r)
    case True
    then have "v = None" "S' = reset_stmt env i S1" using assms(1) 1 by (simp_all add: statement_run_def)
    moreover have "grows S (reset_stmt env i S1)"
      by (rule grows_trans [OF f1(2) flow_reset(2) [OF flow_not_logon [OF f1(1)]]])
    ultimately show ?thesis using executed_grows [OF executed_refl] by blast
  next
    case False
    obtain v2 S2 where 2: "prologue env i q rows S1 = (v2, S2)" by fastforce
    have v: "v = v2" "S' = reset_stmt env i S2" using assms(1) 1 2 False by (simp_all add: statement_run_def)
    have s1: "os_sink S1 = []" using f1(3) False by simp
    from prologue_ok [OF 2 assms(2) s1 flow_not_logon [OF f1(1)]] obtain c where
      p: "flow S1 S2" "executed S1 S2 c" "v2 \<noteq> None \<longrightarrow> c = os_autocommit S1" by blast
    have "executed S S' c"
      unfolding v(2) by (rule executed_grows [OF grows_executed [OF f1(2) p(2) au] flow_reset(2) [OF flow_not_logon [OF p(1)]]])
    with p(3) au v(1) show ?thesis by auto
  qed
qed

lemma guard_calls:
  assumes "call_guard f S = (v, S')"
  shows "\<exists>S1. f (S\<lparr>os_depth := Suc (os_depth S)\<rparr>) = (v, S1) \<and> (os_calls S' = os_calls S1 \<or> os_calls S' = os_calls S1 @ [DsConnectionAborted])"
proof -
  obtain r S1 where f: "f (S\<lparr>os_depth := Suc (os_depth S)\<rparr>) = (r, S1)" by fastforce
  with assms have "r = v" "os_calls S' = os_calls S1 \<or> os_calls S' = os_calls S1 @ [DsConnectionAborted]"
    by (auto simp: call_guard_def Let_def close_datasource_def note_ora_def)
  with f show ?thesis by blast
qed


section \<open>Witnesses\<close>

text \<open>The execution is the third request; the next one reads the number of rows.\<close>

definition sample_call :: "bool \<Rightarrow> ora_state" where
  "sample_call auto = (sample_state False)\<lparr>os_depth := 0, os_autocommit := auto\<rparr>"

lemma sample_call_start: "driver_start (sample_call auto)" "os_sink (sample_call auto) = []" "set_sink [] (sample_call auto) = sample_call auto"
  by (simp_all add: driver_start_def sample_call_def sample_state_def init_world set_sink_def)

lemma sample_call_done: "fst (oracle_exec (sample_env 3113 3) 1 ''delete from t'' ''UTF-8'' None (sample_call True)) \<noteq> None"
  by code_simp

lemma sample_call_commits:
  "fst (oracle_exec (sample_env 3113 4) 1 ''delete from t'' ''UTF-8'' None (sample_call True)) = None
   \<and> TransCommit \<in> set (os_calls (snd (oracle_exec (sample_env 3113 4) 1 ''delete from t'' ''UTF-8'' None (sample_call True))))"
  by code_simp



end
