(* ===== verification/Ocilib_Types.thy ===== *)
theory Ocilib_Types
  imports Qore_Values
begin

text \<open>
  What the OCILIB library tells of a column of a table or of an attribute of a named type.
\<close>

datatype column_type = CDT_NUMERIC | CDT_TEXT | CDT_DATETIME | CDT_TIMESTAMP | CDT_INTERVAL | CDT_RAW | CDT_other nat

record oci_column =
  oc_name :: string
  oc_type :: column_type
  oc_ocode :: sqlt
  oc_size :: nat
  oc_prec :: int
  oc_scale :: int

text \<open>
  An attribute also has the type of a named type, if it is one: here only whether that is a
  collection (\<open>typinf->ccode\<close>).  For every other attribute \<open>typinf\<close> is the null pointer.
\<close>

record nty_column = oci_column +
  nc_typinf :: "bool option"

record nty_type =
  nt_schema :: string
  nt_name :: string
  nt_cols :: "nty_column list"

definition is_text_type :: "sqlt \<Rightarrow> bool" where
  "is_text_type t \<longleftrightarrow> t \<in> {SQLT_LNG, SQLT_AFC, SQLT_AVC, SQLT_STR, SQLT_CHR}"

definition is_date_type :: "sqlt \<Rightarrow> bool" where
  "is_date_type t \<longleftrightarrow> t \<in> {SQLT_DAT, SQLT_ODT, SQLT_DATE, SQLT_TIMESTAMP, SQLT_TIMESTAMP_TZ, SQLT_TIMESTAMP_LTZ,
     SQLT_INTERVAL_YM, SQLT_INTERVAL_DS}"

text \<open>\<open>SQLT_PNTY\<close> is 110.\<close>

definition is_nty_type :: "sqlt \<Rightarrow> bool" where
  "is_nty_type t \<longleftrightarrow> t = SQLT_NTY \<or> t = SQLT_other 110"

definition is_lob_type :: "sqlt \<Rightarrow> bool" where
  "is_lob_type t \<longleftrightarrow> t \<in> {SQLT_CLOB, SQLT_BLOB}"

end
