(* ===== verification/BulkLoad.thy ===== *)
theory BulkLoad
  imports Connection Ocilib_Types
begin

text \<open>
  Loading rows through the OCI direct path interface (QoreOracleBulkLoad.cpp): the names and
  options that are accepted, the text of the values, the column array and the stream that carry
  the rows to the server in chunks, and the life of a load from begin to end.
\<close>

section \<open>Columns and cells\<close>

datatype bulk_kind = BulkNumeric | BulkText | BulkDate | BulkTimestamp

record bulk_column =
  bc_key :: string
  bc_name :: string
  bc_format :: string
  bc_kind :: bulk_kind
  bc_sqlcode :: sqlt
  bc_max_size :: nat
  bc_precision :: int
  bc_scale :: int

text \<open>The text of a cell; \<open>None\<close> is \<open>is_null\<close>, whose data is empty.\<close>

type_synonym bulk_cell = "string option"

definition cell_data :: "bulk_cell \<Rightarrow> string" where
  "cell_data c = (case c of None \<Rightarrow> [] | Some s \<Rightarrow> s)"

text \<open>What the client library tells of a table.\<close>

record type_info =
  ti_name :: string
  ti_schema :: string
  ti_cols :: "oci_column list"

section \<open>Calls and state\<close>

datatype bulk_call =
    DescribeTable string
  | AllocCtx | FreeCtx
  | SetTableName string | SetSchemaName string
  | SetNumRows "32 word" | SetNumCols "16 word" | SetBufferSize "32 word" | SetParallel bool | SetNolog bool
  | GetColumnList | ParamGet nat | FreeParam
  | ParamName string | ParamType sqlt | ParamSize nat | ParamPrecision int | ParamScale int | ParamFormat string
  | DirPathPrepare | DirPathFinish | DirPathAbort
  | AllocArray | FreeArray | AllocStream | FreeStream | GetArrayRows
  | ArrayReset | StreamReset
  | EntrySet nat nat bulk_cell
  | ArrayToStream "32 word" "32 word" | GetConverted | LoadStream
  | ReportBegin | ReportProgress int | ReportEnd int bool

text \<open>
  The answers: of a cancellation poll, of a call at its place in the log of the calls (its status,
  its exception, the number it gives), of the observer of the datasource, and of the conversions of
  the Qore library.
\<close>

record bulk_env =
  dpe_cancel :: "nat \<Rightarrow> exn option"
  dpe_status :: "nat \<Rightarrow> oci_status"
  dpe_error :: "nat \<Rightarrow> exn"
  dpe_count :: "nat \<Rightarrow> 32 word"
  dpe_report :: "nat \<Rightarrow> exn option"
  dpe_observer :: bool
  dpe_type_info :: "string \<Rightarrow> exn + type_info option"
  dpe_text :: "qval \<Rightarrow> exn + string"
  dpe_fields :: "qdate \<Rightarrow> date_fields"

text \<open>
  \<open>bk_active\<close>: the connection has a load (\<open>bulk_load\<close> is set); the fields after it are those of
  the load, the last five those of its \<open>QoreOracleBulkStream\<close>.
\<close>

record bulk =
  bk_calls :: "bulk_call list"
  bk_polls :: nat
  bk_sink :: sink
  bk_active :: bool
  bk_ctx :: bool
  bk_array :: bool
  bk_stream_handle :: bool
  bk_columns :: "bulk_column list"
  bk_max_rows :: "32 word"
  bk_prepared :: bool
  bk_used :: bool
  bk_observed :: bool
  bk_started :: bool
  bk_ok :: bool
  bk_consumed :: int
  bk_reported :: int

text \<open>A step returns true if it fails (the code returns -1).\<close>

type_synonym bulk_step = "bulk \<Rightarrow> bool \<times> bulk"

definition bulk_raise :: "exn \<Rightarrow> bulk \<Rightarrow> bulk" where
  "bulk_raise e B = B\<lparr>bk_sink := bk_sink B @ [e]\<rparr>"

definition path_error :: "string \<Rightarrow> exn" where
  "path_error what = Exn ''DBI:ORACLE:DIRECT-PATH-ERROR'' what"

definition bulk_fail :: "string \<Rightarrow> bulk_step" where
  "bulk_fail what B = (True, bulk_raise (path_error what) B)"

definition bulk_note :: "bulk_call \<Rightarrow> bulk \<Rightarrow> bulk" where
  "bulk_note c B = B\<lparr>bk_calls := bk_calls B @ [c]\<rparr>"

definition bulk_poll :: "bulk_env \<Rightarrow> bulk_step" where
  "bulk_poll env B =
     (let B1 = B\<lparr>bk_polls := Suc (bk_polls B)\<rparr>
      in case dpe_cancel env (bk_polls B) of None \<Rightarrow> (False, B1) | Some e \<Rightarrow> (True, bulk_raise e B1))"

text \<open>\<open>i \<and> !(i % 100) \<and> qore_check_cancel(...)\<close>.\<close>

definition poll_every :: "bulk_env \<Rightarrow> nat \<Rightarrow> bulk_step" where
  "poll_every env i B = (if i \<noteq> 0 \<and> i mod 100 = 0 then bulk_poll env B else (False, B))"

definition bulk_status :: "bulk_env \<Rightarrow> bulk \<Rightarrow> oci_status" where
  "bulk_status env B = dpe_status env (length (bk_calls B))"

text \<open>A call whose status goes to \<open>checkerr\<close>.\<close>

definition bulk_check :: "bulk_env \<Rightarrow> bulk_call \<Rightarrow> bulk_step" where
  "bulk_check env c B =
     (case checkerr (bulk_status env B) (dpe_error env (length (bk_calls B))) of
        None \<Rightarrow> (False, bulk_note c B)
      | Some e \<Rightarrow> (True, bulk_raise e (bulk_note c B)))"

fun bulk_seq :: "bulk_step list \<Rightarrow> bulk_step" where
  "bulk_seq [] B = (False, B)"
| "bulk_seq (f # fs) B = (let (r, B1) = f B in if r then (True, B1) else bulk_seq fs B1)"

text \<open>A step and what it changes of the load when it succeeds.\<close>

definition then_set :: "bulk_step \<Rightarrow> (bulk \<Rightarrow> bulk) \<Rightarrow> bulk_step" where
  "then_set f g B = (let (r, B1) = f B in (r, if r then B1 else g B1))"

section \<open>Names and options\<close>

fun ident_loop :: "bulk_env \<Rightarrow> bool \<Rightarrow> bool \<Rightarrow> bool \<Rightarrow> nat \<Rightarrow> string \<Rightarrow> string \<Rightarrow> bulk \<Rightarrow> string option \<times> bulk" where
  "ident_loop env qualified at_start saw_dot count normalized [] B = (if at_start then None else Some normalized, B)"
| "ident_loop env qualified at_start saw_dot count normalized (c # p) B =
     (let (cancelled, B1) = poll_every env count B
      in if cancelled then (None, B1)
         else if c = CHR ''.'' then
           (if \<not> qualified \<or> saw_dot \<or> at_start \<or> p = [] then (None, B1)
            else ident_loop env qualified True True (Suc count) (normalized @ [c]) p B1)
         else if at_start \<and> \<not> (c_isalpha c \<or> c = CHR ''_'') then (None, B1)
         else if \<not> at_start \<and> \<not> (c_isalnum c \<or> c = CHR ''_'' \<or> c = CHR ''$'' \<or> c = CHR ''#'') then (None, B1)
         else ident_loop env qualified False saw_dot (Suc count) (normalized @ [c_toupper c]) p B1)"

definition qoreOracleParseSimpleIdentifier :: "bulk_env \<Rightarrow> string \<Rightarrow> bool \<Rightarrow> bulk \<Rightarrow> string option \<times> bulk" where
  "qoreOracleParseSimpleIdentifier env value qualified B =
     (if value = [] then (None, B) else ident_loop env qualified True False 0 [] value B)"

definition qoreOracleGetBoolOption :: "qval ohash option \<Rightarrow> string \<Rightarrow> bool \<Rightarrow> exn + bool" where
  "qoreOracleGetBoolOption options name default_value =
     (case options of
        None \<Rightarrow> Inr default_value
      | Some h \<Rightarrow>
          (case key_value h name of
             QNothing \<Rightarrow> Inr default_value
           | QBool b \<Rightarrow> Inr b
           | _ \<Rightarrow> Inl (path_error ''option must be boolean'')))"

definition QORE_ORACLE_DIRECT_PATH_ROWS :: "32 word" where "QORE_ORACLE_DIRECT_PATH_ROWS = 1024"
definition QORE_ORACLE_DIRECT_PATH_BUFFER_SIZE :: "32 word" where "QORE_ORACLE_DIRECT_PATH_BUFFER_SIZE = 1024 * 1024"
definition QORE_ORACLE_STREAM_REPORT_BYTES :: int where "QORE_ORACLE_STREAM_REPORT_BYTES = 65536"

definition qoreOracleGetBufferSize :: "qval ohash option \<Rightarrow> exn + 32 word" where
  "qoreOracleGetBufferSize options =
     (case options of
        None \<Rightarrow> Inr QORE_ORACLE_DIRECT_PATH_BUFFER_SIZE
      | Some h \<Rightarrow>
          (case key_value h ''oracle_direct_path_buffer_size'' of
             QNothing \<Rightarrow> Inr QORE_ORACLE_DIRECT_PATH_BUFFER_SIZE
           | QInt bytes \<Rightarrow>
               if bytes < 65536 \<or> bytes > 4294967295 then Inl (path_error ''buffer size must be between 65536 and 4294967295 bytes'')
               else Inr (word_of_int bytes)
           | _ \<Rightarrow> Inl (path_error ''buffer size must be an integer'')))"

section \<open>Stream bounds\<close>

definition stream_begin :: "bulk_env \<Rightarrow> bulk_step" where
  "stream_begin env B =
     (if \<not> bk_observed B then (False, B)
      else case dpe_report env (length (bk_calls B)) of
             Some e \<Rightarrow> (True, bulk_raise e (bulk_note ReportBegin B))
           | None \<Rightarrow> (False, (bulk_note ReportBegin B)\<lparr>bk_started := True\<rparr>))"

definition stream_addBytes :: "bulk_env \<Rightarrow> nat \<Rightarrow> bulk_step" where
  "stream_addBytes env bytes B =
     (if \<not> bk_started B then (False, B)
      else if int bytes > 9223372036854775807 - bk_consumed B
      then bulk_fail ''payload byte counter overflow'' (B\<lparr>bk_ok := False\<rparr>)
      else
        (let B1 = B\<lparr>bk_consumed := bk_consumed B + int bytes\<rparr>
         in if bk_consumed B1 - bk_reported B1 < QORE_ORACLE_STREAM_REPORT_BYTES then (False, B1)
            else let B2 = bulk_note (ReportProgress (bk_consumed B1)) (B1\<lparr>bk_reported := bk_consumed B1\<rparr>)
                 in case dpe_report env (length (bk_calls B1)) of
                      Some e \<Rightarrow> (True, bulk_raise e (B2\<lparr>bk_ok := False\<rparr>))
                    | None \<Rightarrow> (False, B2)))"

definition stream_finish :: "bulk_env \<Rightarrow> bool \<Rightarrow> bulk_step" where
  "stream_finish env success B =
     (if \<not> bk_started B then (False, B)
      else
        (let ok = (bk_ok B \<and> success); B1 = bulk_note (ReportEnd (bk_consumed B) ok) (B\<lparr>bk_started := False, bk_ok := ok\<rparr>)
         in case dpe_report env (length (bk_calls B)) of None \<Rightarrow> (False, B1) | Some e \<Rightarrow> (True, bulk_raise e B1)))"

section \<open>The text of a value\<close>

definition qoreOracleSerializeText :: "bulk_env \<Rightarrow> qval \<Rightarrow> exn + string" where
  "qoreOracleSerializeText env v =
     (if qtype_of v \<in> {NT_BOOLEAN, NT_INT, NT_FLOAT, NT_NUMBER, NT_STRING, NT_DATE} then dpe_text env v
      else Inl (path_error ''cannot serialize as a text field''))"

definition bulk_date_text :: "date_fields \<Rightarrow> string" where
  "bulk_date_text f = pad_int 4 (d_year f) @ ''-'' @ pad_int 2 (d_month f) @ ''-'' @ pad_int 2 (d_day f) @ '' ''
     @ pad_int 2 (d_hour f) @ '':'' @ pad_int 2 (d_minute f) @ '':'' @ pad_int 2 (d_second f)"

definition qoreOracleSerializeDate :: "bulk_env \<Rightarrow> bool \<Rightarrow> qval \<Rightarrow> exn + string" where
  "qoreOracleSerializeDate env timestamp v =
     (case v of
        QString s e \<Rightarrow> qoreOracleSerializeText env v
      | QDate (RelDate f) \<Rightarrow> Inl (path_error ''relative date/time values cannot be loaded'')
      | QDate d \<Rightarrow>
          (let info = dpe_fields env d
           in if d_year info < 1 \<or> d_year info > 9999 then Inl (path_error ''year from 1 through 9999'')
              else Inr (bulk_date_text info @ (if timestamp then ''.'' @ pad_int 6 (d_us info) else [])))
      | _ \<Rightarrow> Inl (path_error ''cannot serialize as a date field''))"

definition qoreOracleSerializeCell :: "bulk_env \<Rightarrow> bulk_column \<Rightarrow> qval \<Rightarrow> exn + bulk_cell" where
  "qoreOracleSerializeCell env col v =
     (if is_null_or_nothing v then Inr None
      else
        case (case bc_kind col of
                BulkNumeric \<Rightarrow>
                  if qtype_of v \<in> {NT_BOOLEAN, NT_INT, NT_FLOAT, NT_NUMBER, NT_STRING} then qoreOracleSerializeText env v
                  else Inl (path_error ''cannot serialize as a numeric field'')
              | BulkText \<Rightarrow> qoreOracleSerializeText env v
              | BulkDate \<Rightarrow> qoreOracleSerializeDate env False v
              | BulkTimestamp \<Rightarrow> qoreOracleSerializeDate env True v) of
          Inl e \<Rightarrow> Inl e
        | Inr data \<Rightarrow>
            if length data > bc_max_size col then Inl (path_error ''value is too long for the column'') else Inr (Some data))"

section \<open>Beginning a load\<close>

text \<open>
  The index of the columns by their upper-case names: \<open>emplace\<close> keeps the first of equal names, as
  \<open>map_of\<close> does; a name that is not in upper case is that of a quoted column.
\<close>

fun index_columns :: "bulk_env \<Rightarrow> nat \<Rightarrow> oci_column list \<Rightarrow> (string \<times> nat) list \<Rightarrow> bulk \<Rightarrow> (string \<times> nat) list option \<times> bulk" where
  "index_columns env i [] m B = (Some m, B)"
| "index_columns env i (c # cs) m B =
     (let (cancelled, B1) = poll_every env i B; key = map c_toupper (oc_name c)
      in if cancelled then (None, B1)
         else index_columns env (Suc i) cs (if key = oc_name c then m @ [(key, i)] else m) B1)"

text \<open>\<open>None\<close>: the column is left to the ordinary bind path (the code returns 1).\<close>

definition ORACLE_NUMBER_TEXT :: nat where "ORACLE_NUMBER_TEXT = nat ORACLE_NUMBER_STR_LEN"

definition bulk_column_of :: "string \<Rightarrow> oci_column \<Rightarrow> bulk_column option" where
  "bulk_column_of key m =
     (let column = \<lparr>bc_key = key, bc_name = oc_name m, bc_format = [], bc_kind = BulkText, bc_sqlcode = SQLT_CHR,
                    bc_max_size = 0, bc_precision = oc_prec m, bc_scale = oc_scale m\<rparr>
      in case oc_type m of
           CDT_NUMERIC \<Rightarrow> Some (column\<lparr>bc_kind := BulkNumeric, bc_max_size := ORACLE_NUMBER_TEXT\<rparr>)
         | CDT_TEXT \<Rightarrow> Some (column\<lparr>bc_max_size := max (oc_size m) 1\<rparr>)
         | CDT_DATETIME \<Rightarrow> Some (column\<lparr>bc_kind := BulkDate, bc_max_size := 32, bc_format := ''YYYY-MM-DD HH24:MI:SS''\<rparr>)
         | CDT_TIMESTAMP \<Rightarrow>
             if oc_ocode m = SQLT_TIMESTAMP_TZ \<or> oc_ocode m = SQLT_TIMESTAMP_LTZ then None
             else Some (column\<lparr>bc_kind := BulkTimestamp, bc_max_size := 40, bc_format := ''YYYY-MM-DD HH24:MI:SS.FF6''\<rparr>)
         | CDT_INTERVAL \<Rightarrow> None
         | CDT_RAW \<Rightarrow> None
         | CDT_other n \<Rightarrow> None)"

text \<open>The code returns 0, -1 or 1.\<close>

datatype bulk_rc = BulkOk | BulkFailed | BulkUnavailable

text \<open>A name that is refused: -1 if an exception was raised, else 1.\<close>

definition refused :: "bulk \<Rightarrow> bulk_rc \<times> bulk" where
  "refused B = (if bk_sink B \<noteq> [] then BulkFailed else BulkUnavailable, B)"

definition rc_fail :: "string \<Rightarrow> bulk \<Rightarrow> bulk_rc \<times> bulk" where
  "rc_fail what B = (BulkFailed, bulk_raise (path_error what) B)"

fun describe_columns :: "bulk_env \<Rightarrow> type_info \<Rightarrow> (string \<times> nat) list \<Rightarrow> qval list \<Rightarrow> nat list \<Rightarrow> bulk \<Rightarrow> bulk_rc \<times> bulk" where
  "describe_columns env info metadata [] used B = (BulkOk, B)"
| "describe_columns env info metadata (v # vs) used B =
     (let (cancelled, B1) = poll_every env (length (bk_columns B)) B
      in if cancelled then (BulkFailed, B1)
         else case v of
           QString s e \<Rightarrow>
             (case qoreOracleParseSimpleIdentifier env (c_str s) False B1 of
                (None, B2) \<Rightarrow> refused B2
              | (Some normalized, B2) \<Rightarrow>
                  (case map_of metadata normalized of
                     None \<Rightarrow> rc_fail ''column was not found in the table'' B2
                   | Some i \<Rightarrow>
                       if i \<in> set used then rc_fail ''column occurs more than once'' B2
                       else case bulk_column_of s (ti_cols info ! i) of
                              None \<Rightarrow> (BulkUnavailable, B2)
                            | Some column \<Rightarrow>
                                describe_columns env info metadata vs (i # used) (B2\<lparr>bk_columns := bk_columns B2 @ [column]\<rparr>)))
         | _ \<Rightarrow> rc_fail ''column expected string'' B1)"

text \<open>The parameter of a column is released at the end of its iteration, whatever failed.\<close>

definition column_sets :: "bulk_env \<Rightarrow> bulk_column \<Rightarrow> bulk_step list" where
  "column_sets env c =
     [bulk_check env (ParamName (bc_name c)), bulk_check env (ParamType (bc_sqlcode c)), bulk_check env (ParamSize (bc_max_size c))]
     @ (if bc_precision c \<noteq> 0 then [bulk_check env (ParamPrecision (bc_precision c))] else [])
     @ (if bc_scale c \<noteq> 0 then [bulk_check env (ParamScale (bc_scale c))] else [])
     @ (if bc_format c \<noteq> [] then [bulk_check env (ParamFormat (bc_format c))] else [])"

definition column_setup :: "bulk_env \<Rightarrow> nat \<Rightarrow> bulk_column \<Rightarrow> bulk_step" where
  "column_setup env i c =
     bulk_seq [poll_every env i, bulk_check env (ParamGet (i + 1)),
       \<lambda>B. let (r, B1) = bulk_seq (column_sets env c) B in (r, bulk_note FreeParam B1)]"

definition array_rows :: "bulk_env \<Rightarrow> bulk_step" where
  "array_rows env B =
     (let (r, B1) = bulk_check env GetArrayRows B
      in if r then (True, B1)
         else let B2 = B1\<lparr>bk_max_rows := dpe_count env (length (bk_calls B))\<rparr>
              in if bk_max_rows B2 = 0 then bulk_fail ''zero-row column array'' B2 else (False, B2))"

definition direct_path_setup :: "bulk_env \<Rightarrow> type_info \<Rightarrow> bool \<Rightarrow> bool \<Rightarrow> 32 word \<Rightarrow> bulk_column list \<Rightarrow> bulk_step list" where
  "direct_path_setup env info parallel nolog buffer_size columns =
     [then_set (bulk_check env AllocCtx) (bk_ctx_update (\<lambda>_. True)),
      bulk_check env (SetTableName (ti_name info))]
     @ (if ti_schema info \<noteq> [] then [bulk_check env (SetSchemaName (ti_schema info))] else [])
     @ [bulk_check env (SetNumRows QORE_ORACLE_DIRECT_PATH_ROWS), bulk_check env (SetNumCols (word_of_nat (length columns))),
        bulk_check env (SetBufferSize buffer_size), bulk_check env (SetParallel parallel), bulk_check env (SetNolog nolog),
        bulk_check env GetColumnList]
     @ map (\<lambda>(i, c). column_setup env i c) (zip [0..<length columns] columns)
     @ [bulk_poll env,
        then_set (bulk_check env DirPathPrepare) (bk_prepared_update (\<lambda>_. True)),
        then_set (bulk_check env AllocArray) (bk_array_update (\<lambda>_. True)),
        then_set (bulk_check env AllocStream) (bk_stream_handle_update (\<lambda>_. True)),
        array_rows env, stream_begin env]"

definition initialize :: "bulk_env \<Rightarrow> string \<Rightarrow> qval list \<Rightarrow> bool \<Rightarrow> bool \<Rightarrow> 32 word \<Rightarrow> bulk \<Rightarrow> bulk_rc \<times> bulk" where
  "initialize env table column_list parallel nolog buffer_size B =
     (case qoreOracleParseSimpleIdentifier env (c_str table) True B of
        (None, B1) \<Rightarrow> refused B1
      | (Some _, B1) \<Rightarrow>
          if int (length column_list) > 65535 then rc_fail ''supports at most 65535 columns'' B1
          else let B2 = bulk_note (DescribeTable (c_str table)) B1 in
          case dpe_type_info env (c_str table) of
            Inl e \<Rightarrow> (BulkFailed, bulk_raise e B2)
          | Inr None \<Rightarrow> rc_fail ''Oracle returned no metadata'' B2
          | Inr (Some info) \<Rightarrow>
              (case index_columns env 0 (ti_cols info) [] B2 of
                 (None, B3) \<Rightarrow> (BulkFailed, B3)
               | (Some metadata, B3) \<Rightarrow>
                   (case describe_columns env info metadata column_list [] B3 of
                      (BulkOk, B4) \<Rightarrow>
                        (let (r, B5) = bulk_seq (direct_path_setup env info parallel nolog buffer_size (bk_columns B4)) B4
                         in (if r then BulkFailed else BulkOk, B5))
                    | (rc, B4) \<Rightarrow> (rc, B4))))"

section \<open>Loading rows\<close>

text \<open>
  The number of rows is that of the lists, which must agree; a value that is no list is repeated.
\<close>

definition block_count :: "qval \<Rightarrow> nat option \<Rightarrow> nat option option" where
  "block_count v n =
     (case v of
        QList l \<Rightarrow> (case n of None \<Rightarrow> Some (Some (length l)) | Some k \<Rightarrow> if k \<noteq> length l then None else Some n)
      | _ \<Rightarrow> Some n)"

fun block_values :: "bulk_env \<Rightarrow> qval ohash \<Rightarrow> nat \<Rightarrow> bulk_column list \<Rightarrow> nat option \<Rightarrow> qval list \<Rightarrow> bulk \<Rightarrow>
    (nat option \<times> qval list) option \<times> bulk" where
  "block_values env rows i [] n vs B = (Some (n, vs), B)"
| "block_values env rows i (c # cs) n vs B =
     (let (cancelled, B1) = poll_every env i B
      in if cancelled then (None, B1)
         else case hash_get rows (c_str (bc_key c)) of
           None \<Rightarrow> (None, bulk_raise (path_error ''row block is missing column'') B1)
         | Some v \<Rightarrow>
             (case block_count v n of
                None \<Rightarrow> (None, bulk_raise (path_error ''column has a different number of rows'') B1)
              | Some n' \<Rightarrow> block_values env rows (Suc i) cs n' (vs @ [v]) B1))"

definition row_value :: "qval \<Rightarrow> nat \<Rightarrow> qval" where
  "row_value v row = (case v of QList l \<Rightarrow> if row < length l then l ! row else QNothing | _ \<Rightarrow> v)"

definition SIZE_MAX :: int where "SIZE_MAX = 18446744073709551615"

fun serialize_rows :: "bulk_env \<Rightarrow> bulk_column \<Rightarrow> nat \<Rightarrow> qval list \<Rightarrow> bulk_cell list \<Rightarrow> nat \<Rightarrow> bulk \<Rightarrow>
    (bulk_cell list \<times> nat) option \<times> bulk" where
  "serialize_rows env c row [] cells payload B = (Some (cells, payload), B)"
| "serialize_rows env c row (v # vs) cells payload B =
     (let (cancelled, B1) = poll_every env row B
      in if cancelled then (None, B1)
         else case qoreOracleSerializeCell env c v of
           Inl e \<Rightarrow> (None, bulk_raise e B1)
         | Inr cell \<Rightarrow>
             if int (length (cell_data cell)) > SIZE_MAX - int payload
             then (None, bulk_raise (path_error ''block payload size overflow'') B1)
             else serialize_rows env c (Suc row) vs (cells @ [cell]) (payload + length (cell_data cell)) B1)"

fun serialize_columns :: "bulk_env \<Rightarrow> nat \<Rightarrow> nat \<Rightarrow> (bulk_column \<times> qval) list \<Rightarrow> bulk_cell list list \<Rightarrow> nat \<Rightarrow> bulk \<Rightarrow>
    (bulk_cell list list \<times> nat) option \<times> bulk" where
  "serialize_columns env count i [] cells payload B = (Some (cells, payload), B)"
| "serialize_columns env count i ((c, v) # cs) cells payload B =
     (let (cancelled, B1) = poll_every env i B
      in if cancelled then (None, B1)
         else case serialize_rows env c 0 (map (row_value v) [0..<count]) [] payload B1 of
                (None, B2) \<Rightarrow> (None, B2)
              | (Some (column, payload'), B2) \<Rightarrow> serialize_columns env count (Suc i) cs (cells @ [column]) payload' B2)"

definition resetHandles :: "bulk_env \<Rightarrow> bulk_step" where
  "resetHandles env = bulk_seq [bulk_check env ArrayReset, bulk_check env StreamReset]"

definition loadStream :: "bulk_env \<Rightarrow> bulk_step" where
  "loadStream env = bulk_seq [bulk_poll env,
     \<lambda>B. let rc = bulk_status env B
         in if rc \<in> {OCI_SUCCESS, OCI_SUCCESS_WITH_INFO, OCI_ERROR} then bulk_check env LoadStream B
            else bulk_fail ''OCIDirPathLoadStream() returned unexpected status'' (bulk_note LoadStream B)]"

text \<open>The entries of a chunk, row by row.\<close>

definition set_entries :: "bulk_env \<Rightarrow> bulk_cell list list \<Rightarrow> nat \<Rightarrow> nat \<Rightarrow> bulk_step" where
  "set_entries env cells offset row_count =
     bulk_seq (concat (map (\<lambda>row. poll_every env row #
       concat (map (\<lambda>column. [poll_every env column, bulk_check env (EntrySet row column (cells ! column ! (offset + row)))])
         [0..<length cells])) [0..<row_count]))"

text \<open>
  The end of a conversion: all rows, or those the array reports, which must be some and not more
  than there are.
\<close>

definition next_row :: "bulk_env \<Rightarrow> 32 word \<Rightarrow> 32 word \<Rightarrow> bulk \<Rightarrow> 32 word option \<times> bulk" where
  "next_row env row_count row_offset B =
     (let (r, B1) = bulk_check env GetConverted B; next_offset = row_offset + dpe_count env (length (bk_calls B))
      in if r then (None, B1)
         else if next_offset \<le> row_offset \<or> next_offset > row_count
         then (None, bulk_raise (path_error ''Oracle reported invalid direct path conversion progress'') B1)
         else (Some next_offset, B1))"

definition convert_rows :: "bulk_env \<Rightarrow> 32 word \<Rightarrow> 32 word \<Rightarrow> bulk \<Rightarrow> 32 word option \<times> bulk" where
  "convert_rows env row_count row_offset B =
     (let (cancelled, B1) = bulk_poll env B; rc = bulk_status env B1; c = ArrayToStream row_count row_offset
      in if cancelled then (None, B1)
         else if rc = OCI_SUCCESS_WITH_INFO \<or> rc = OCI_ERROR then
           (let (r, B2) = bulk_check env c B1 in (if r then None else Some row_count, B2))
         else if rc = OCI_SUCCESS then (Some row_count, bulk_note c B1)
         else if rc = OCI_CONTINUE then next_row env row_count row_offset (bulk_note c B1)
         else (None, bulk_raise (path_error ''OCIDirPathColArrayToStream() returned unexpected status'') (bulk_note c B1)))"

lemma next_row_bounds: "next_row env n off B = (Some x, B') \<Longrightarrow> off < x \<and> x \<le> n"
  by (auto simp: next_row_def Let_def split: prod.splits if_splits)

lemma convert_rows_bounds: "convert_rows env n off B = (Some x, B') \<Longrightarrow> off < n \<Longrightarrow> off < x \<and> x \<le> n"
  by (auto simp: convert_rows_def Let_def split: prod.splits if_splits dest: next_row_bounds)

text \<open>\<open>convert_rows\<close> only gives an offset behind the last one, up to the number of rows.\<close>

function convert_loop :: "bulk_env \<Rightarrow> 32 word \<Rightarrow> 32 word \<Rightarrow> bulk_step" where
  "convert_loop env row_count row_offset B =
     (if row_offset < row_count then
        case convert_rows env row_count row_offset B of
          (None, B1) \<Rightarrow> (True, B1)
        | (Some next_offset, B1) \<Rightarrow>
            (let (r, B2) = bulk_seq (loadStream env # (if next_offset < row_count then [bulk_check env StreamReset] else [])) B1
             in if r then (True, B2) else convert_loop env row_count next_offset B2)
      else (False, B))"
  by pat_completeness auto

termination
  by (relation "measure (\<lambda>(env, n, off, B). unat n - unat off)")
    (auto simp: word_less_nat_alt word_le_nat_alt dest!: convert_rows_bounds sym [of "(Some _, _)"])

declare convert_loop.simps [simp del]

definition loadChunk :: "bulk_env \<Rightarrow> bulk_cell list list \<Rightarrow> nat \<Rightarrow> nat \<Rightarrow> bulk_step" where
  "loadChunk env cells offset row_count =
     then_set (bulk_seq [\<lambda>B. if bk_used B then resetHandles env B else (False, B),
       set_entries env cells offset row_count,
       convert_loop env (word_of_nat row_count) 0]) (bk_used_update (\<lambda>_. True))"

text \<open>\<open>initialize\<close> refuses an array without rows, with which the loop of the code would not end.\<close>

function load_chunks :: "bulk_env \<Rightarrow> bulk_cell list list \<Rightarrow> nat \<Rightarrow> nat \<Rightarrow> nat \<Rightarrow> bulk_step" where
  "load_chunks env cells max_rows count offset B =
     (if offset < count \<and> 0 < max_rows then
        let chunk_rows = min max_rows (count - offset); (r, B1) = loadChunk env cells offset chunk_rows B
        in if r then (True, B1) else load_chunks env cells max_rows count (offset + chunk_rows) B1
      else (False, B))"
  by pat_completeness auto
termination
  by (relation "measure (\<lambda>(env, cells, m, count, offset, B). count - offset)") auto

declare load_chunks.simps [simp del]

text \<open>Every failure before the bytes are counted is noted in the stream (\<open>setError\<close>).\<close>

definition set_error :: "bulk \<Rightarrow> bulk" where
  "set_error B = B\<lparr>bk_ok := False\<rparr>"

definition loadRows :: "bulk_env \<Rightarrow> qval ohash \<Rightarrow> bulk_step" where
  "loadRows env rows B =
     (if length rows \<noteq> length (bk_columns B) then bulk_fail ''row block has another number of columns'' (set_error B)
      else case block_values env rows 0 (bk_columns B) None [] B of
        (None, B1) \<Rightarrow> (True, set_error B1)
      | (Some (n, vs), B1) \<Rightarrow>
          (let count = (case n of None \<Rightarrow> 1 | Some k \<Rightarrow> k)
           in if count = 0 then (False, B1)
              else case serialize_columns env count 0 (zip (bk_columns B1) vs) [] 0 B1 of
                (None, B2) \<Rightarrow> (True, set_error B2)
              | (Some (cells, payload), B2) \<Rightarrow>
                  (let (r, B3) = load_chunks env cells (unat (bk_max_rows B2)) count 0 B2
                   in if r then (True, set_error B3) else stream_addBytes env payload B3)))"

section \<open>The end of a load\<close>

definition terminate :: "bulk_env \<Rightarrow> bool \<Rightarrow> bulk_step" where
  "terminate env success B =
     (let (success, cleanup_ok, B1) =
        (if bk_prepared B then
           (let (cancelled, Ba) = bulk_poll env B; success = (success \<and> \<not> cancelled);
                (r, Bb) = bulk_check env (if success then DirPathFinish else DirPathAbort) Ba;
                Bc = Bb\<lparr>bk_prepared := False\<rparr>
            in (success, \<not> cancelled \<and> \<not> r, if r \<and> success then bulk_note DirPathAbort Bc else Bc))
         else (success, True, B));
          (r, B2) = stream_finish env (success \<and> cleanup_ok) B1;
          cleanup_ok = (cleanup_ok \<and> \<not> r)
      in (\<not> (cleanup_ok \<and> bk_sink B2 = []), B2))"

definition freeHandles :: "bulk \<Rightarrow> bulk" where
  "freeHandles B =
     (let B1 = (if bk_stream_handle B then bulk_note FreeStream B else B);
          B2 = (if bk_array B then bulk_note FreeArray B1 else B1);
          B3 = (if bk_ctx B then bulk_note FreeCtx B2 else B2)
      in B3\<lparr>bk_stream_handle := False, bk_array := False, bk_ctx := False\<rparr>)"

text \<open>The destructors of the load and of its stream; their errors go to no one.\<close>

definition destroy_load :: "bulk \<Rightarrow> bulk" where
  "destroy_load B =
     (let B1 = freeHandles (if bk_prepared B \<and> bk_ctx B then bulk_note DirPathAbort B else B)
      in (if bk_started B then bulk_note (ReportEnd (bk_consumed B) False) B1 else B1)\<lparr>bk_prepared := False, bk_started := False\<rparr>)"

definition new_load :: "bulk_env \<Rightarrow> bool \<Rightarrow> bulk \<Rightarrow> bulk" where
  "new_load env stream_bounds B =
     B\<lparr>bk_ctx := False, bk_array := False, bk_stream_handle := False, bk_columns := [], bk_max_rows := 0, bk_prepared := False,
       bk_used := False, bk_observed := (stream_bounds \<and> dpe_observer env), bk_started := False, bk_ok := True,
       bk_consumed := 0, bk_reported := 0\<rparr>"

section \<open>The calls of the connection\<close>

definition bulk_options :: "qval ohash option \<Rightarrow> exn + (bool \<times> bool \<times> bool \<times> 32 word)" where
  "bulk_options options =
     (case qoreOracleGetBoolOption options ''stream_bounds'' True of Inl e \<Rightarrow> Inl e | Inr stream_bounds \<Rightarrow>
      case qoreOracleGetBoolOption options ''oracle_direct_path_parallel'' False of Inl e \<Rightarrow> Inl e | Inr parallel \<Rightarrow>
      case qoreOracleGetBoolOption options ''oracle_direct_path_nolog'' False of Inl e \<Rightarrow> Inl e | Inr nolog \<Rightarrow>
      case qoreOracleGetBufferSize options of Inl e \<Rightarrow> Inl e | Inr bytes \<Rightarrow> Inr (stream_bounds, parallel, nolog, bytes))"

definition bulkLoadBegin :: "bulk_env \<Rightarrow> string \<Rightarrow> qval list \<Rightarrow> qval ohash option \<Rightarrow> bulk \<Rightarrow> bulk_rc \<times> bulk" where
  "bulkLoadBegin env table columns options B =
     (if bk_active B then rc_fail ''an OCI direct path load is already active'' B
      else case bulk_options options of
        Inl e \<Rightarrow> (BulkFailed, bulk_raise e B)
      | Inr (stream_bounds, parallel, nolog, buffer_size) \<Rightarrow>
          (case initialize env table columns parallel nolog buffer_size (new_load env stream_bounds B) of
             (BulkOk, B1) \<Rightarrow> (BulkOk, B1\<lparr>bk_active := True\<rparr>)
           | (rc, B1) \<Rightarrow> (rc, destroy_load B1)))"

definition bulkLoadRows :: "bulk_env \<Rightarrow> qval ohash \<Rightarrow> bulk_step" where
  "bulkLoadRows env rows B = (if \<not> bk_active B then bulk_fail ''no OCI direct path load is active'' B else loadRows env rows B)"

definition bulkLoadEnd :: "bulk_env \<Rightarrow> bool \<Rightarrow> bulk_step" where
  "bulkLoadEnd env success B =
     (if \<not> bk_active B then bulk_fail ''no OCI direct path load is active'' B
      else let (r, B1) = terminate env success (B\<lparr>bk_active := False\<rparr>) in (r, destroy_load B1))"

end
