(* ===== verification/Direct_Path.thy ===== *)
theory Direct_Path
  imports BulkLoad
begin

text \<open>
  What a bulk load does to the server: the calls are given their documented meaning, and the rows
  that reach the table are those of the blocks, in order.
\<close>

section \<open>The meaning of the calls\<close>

definition accepted :: "oci_status \<Rightarrow> bool" where
  "accepted st \<longleftrightarrow> st = OCI_SUCCESS \<or> st = OCI_SUCCESS_WITH_INFO"

lemma checkerr_accepted: "checkerr st e = None \<longleftrightarrow> accepted st"
  by (simp add: checkerr_None_iff accepted_def)

text \<open>
  The column array, the rows converted into the stream, the rows the load has sent, and the table.
\<close>

record server =
  sv_cols :: nat
  sv_array :: "nat \<times> nat \<Rightarrow> bulk_cell"
  sv_pending :: "bulk_cell list list"
  sv_loaded :: "bulk_cell list list"
  sv_table :: "bulk_cell list list"

definition array_row :: "server \<Rightarrow> nat \<Rightarrow> bulk_cell list" where
  "array_row sv row = map (\<lambda>column. sv_array sv (row, column)) [0..<sv_cols sv]"

text \<open>A conversion that stops early converts the number of rows the next call reads.\<close>

definition converted :: "bulk_env \<Rightarrow> nat \<Rightarrow> 32 word \<Rightarrow> 32 word \<Rightarrow> nat" where
  "converted env k n off =
     (if accepted (dpe_status env k) then unat n - unat off
      else if dpe_status env k = OCI_CONTINUE then unat (dpe_count env (Suc k)) else 0)"

fun server_effect :: "bulk_env \<Rightarrow> nat \<Rightarrow> bulk_call \<Rightarrow> server \<Rightarrow> server" where
  "server_effect env k AllocCtx sv = sv\<lparr>sv_array := (\<lambda>_. None), sv_pending := [], sv_loaded := []\<rparr>"
| "server_effect env k (SetNumCols n) sv = sv\<lparr>sv_cols := unat n\<rparr>"
| "server_effect env k ArrayReset sv = sv\<lparr>sv_array := (\<lambda>_. None)\<rparr>"
| "server_effect env k StreamReset sv = sv\<lparr>sv_pending := []\<rparr>"
| "server_effect env k (EntrySet row column cell) sv = sv\<lparr>sv_array := (sv_array sv)((row, column) := cell)\<rparr>"
| "server_effect env k LoadStream sv = sv\<lparr>sv_loaded := sv_loaded sv @ sv_pending sv\<rparr>"
| "server_effect env k DirPathFinish sv = sv\<lparr>sv_table := sv_table sv @ sv_loaded sv, sv_loaded := []\<rparr>"
| "server_effect env k DirPathAbort sv = sv\<lparr>sv_loaded := []\<rparr>"
| "server_effect env k _ sv = sv"

fun server_step :: "bulk_env \<Rightarrow> nat \<Rightarrow> bulk_call \<Rightarrow> server \<Rightarrow> server" where
  "server_step env k (ArrayToStream n off) sv =
     sv\<lparr>sv_pending := sv_pending sv @ map (array_row sv) [unat off..<unat off + converted env k n off]\<rparr>"
| "server_step env k c sv = (if accepted (dpe_status env k) then server_effect env k c sv else sv)"

fun server_run :: "bulk_env \<Rightarrow> nat \<Rightarrow> bulk_call list \<Rightarrow> server \<Rightarrow> server" where
  "server_run env k [] sv = sv"
| "server_run env k (c # cs) sv = server_run env (Suc k) cs (server_step env k c sv)"

definition server_init :: server where
  "server_init = \<lparr>sv_cols = 0, sv_array = (\<lambda>_. None), sv_pending = [], sv_loaded = [], sv_table = []\<rparr>"

definition server_of :: "bulk_env \<Rightarrow> bulk \<Rightarrow> server" where
  "server_of env B = server_run env 0 (bk_calls B) server_init"

lemma server_run_snoc: "server_run env k (cs @ [c]) sv = server_step env (k + length cs) c (server_run env k cs sv)"
  by (induction cs arbitrary: k sv) simp_all

lemma server_note [simp]: "server_of env (bulk_note c B) = server_step env (length (bk_calls B)) c (server_of env B)"
  by (simp add: server_of_def bulk_note_def server_run_snoc)

lemma server_same: "bk_calls B' = bk_calls B \<Longrightarrow> server_of env B' = server_of env B"
  by (simp add: server_of_def)

text \<open>The part of a load that the small steps leave alone.\<close>

definition frame :: "bulk \<Rightarrow> bulk_column list \<times> 32 word \<times> bool \<times> bool \<times> bool \<times> bool" where
  "frame B = (bk_columns B, bk_max_rows B, bk_used B, bk_active B, bk_prepared B, bk_ctx B)"

lemma note_frame [simp]: "frame (bulk_note c B) = frame B" "bk_calls (bulk_note c B) = bk_calls B @ [c]"
  by (simp_all add: frame_def bulk_note_def)

lemma raise_frame [simp]: "frame (bulk_raise e B) = frame B" "bk_calls (bulk_raise e B) = bk_calls B"
    "server_of env (bulk_raise e B) = server_of env B"
  by (simp_all add: frame_def bulk_raise_def server_of_def)

lemma poll_frame:
  assumes "bulk_poll env B = (r, B')"
  shows "frame B' = frame B" "bk_calls B' = bk_calls B" "server_of env B' = server_of env B"
  using assms by (auto simp: bulk_poll_def Let_def frame_def server_of_def bulk_raise_def split: option.splits)

lemma poll_every_frame:
  assumes "poll_every env i B = (r, B')"
  shows "frame B' = frame B" "bk_calls B' = bk_calls B" "server_of env B' = server_of env B"
  using assms poll_frame [of env B r B'] by (auto simp: poll_every_def split: if_splits)

lemma check_frame:
  assumes "bulk_check env c B = (r, B')"
  shows "frame B' = frame B" "bk_calls B' = bk_calls B @ [c]" "r \<longleftrightarrow> \<not> accepted (bulk_status env B)"
    "server_of env B' = server_step env (length (bk_calls B)) c (server_of env B)"
  using assms checkerr_accepted [of "bulk_status env B" "dpe_error env (length (bk_calls B))"]
  by (auto simp: bulk_check_def split: option.splits)

lemma check_effect:
  assumes "bulk_check env c B = (r, B')" "\<And>n off. c \<noteq> ArrayToStream n off"
  shows "server_of env B' = (if r then server_of env B else server_effect env (length (bk_calls B)) c (server_of env B))"
proof -
  have "server_step env k c sv = (if accepted (dpe_status env k) then server_effect env k c sv else sv)" for k sv
    using assms(2) by (cases c) (simp_all, blast)
  with check_frame(3,4) [OF assms(1)] show ?thesis by (auto simp: bulk_status_def)
qed

lemma bulk_seq_append: "bulk_seq (fs @ gs) B = (let (r, B1) = bulk_seq fs B in if r then (True, B1) else bulk_seq gs B1)"
  by (induction fs arbitrary: B) (simp_all add: split_beta Let_def)

text \<open>A property every step of a sequence keeps.\<close>

lemma bulk_seq_keeps:
  assumes "bulk_seq fs B = (r, B')" "P B" "\<And>f B r B'. f \<in> set fs \<Longrightarrow> f B = (r, B') \<Longrightarrow> P B \<Longrightarrow> P B'"
  shows "P B'"
  using assms
proof (induction fs arbitrary: B)
  case (Cons f fs)
  obtain r1 B1 where f: "f B = (r1, B1)" by fastforce
  have p: "P B1" using f Cons.prems(2,3) by auto
  show ?case
  proof (cases r1)
    case True
    with f p Cons.prems(1) show ?thesis by simp
  next
    case False
    with f Cons.prems(1) have "bulk_seq fs B1 = (r, B')" by simp
    from Cons.IH [OF this p] Cons.prems(3) show ?thesis by auto
  qed
qed simp

section \<open>The entries of the array\<close>

definition entry_steps :: "bulk_env \<Rightarrow> bulk_cell list list \<Rightarrow> nat \<Rightarrow> nat \<Rightarrow> nat \<Rightarrow> bulk_step list" where
  "entry_steps env cells offset row m =
     concat (map (\<lambda>column. [poll_every env column, bulk_check env (EntrySet row column (cells ! column ! (offset + row)))]) [0..<m])"

definition row_steps :: "bulk_env \<Rightarrow> bulk_cell list list \<Rightarrow> nat \<Rightarrow> nat \<Rightarrow> bulk_step list" where
  "row_steps env cells offset n =
     concat (map (\<lambda>row. poll_every env row # entry_steps env cells offset row (length cells)) [0..<n])"

lemma set_entries_steps: "set_entries env cells offset n = bulk_seq (row_steps env cells offset n)"
  by (simp add: set_entries_def row_steps_def entry_steps_def)

text \<open>\<open>only_array\<close>: only the array has changed.\<close>

definition only_array :: "bulk_env \<Rightarrow> bulk \<Rightarrow> bulk \<Rightarrow> bool" where
  "only_array env B B' \<longleftrightarrow> frame B' = frame B \<and>
     (\<exists>a. server_of env B' = (server_of env B)\<lparr>sv_array := a\<rparr>)"

lemma only_array_same: "frame B' = frame B \<Longrightarrow> server_of env B' = server_of env B \<Longrightarrow> only_array env B B'"
  by (auto simp: only_array_def intro: exI [of _ "sv_array (server_of env B)"])

lemma only_array_refl [simp]: "only_array env B B"
  by (simp add: only_array_same)

lemma only_array_trans: "only_array env A B \<Longrightarrow> only_array env B C \<Longrightarrow> only_array env A C"
  by (auto simp: only_array_def)

lemma only_arrayD:
  assumes "only_array env B B'"
  shows "sv_cols (server_of env B') = sv_cols (server_of env B)" "sv_pending (server_of env B') = sv_pending (server_of env B)"
    "sv_loaded (server_of env B') = sv_loaded (server_of env B)" "sv_table (server_of env B') = sv_table (server_of env B)"
    "frame B' = frame B"
  using assms by (auto simp: only_array_def)

lemma entry_step_only:
  assumes "f \<in> set (entry_steps env cells offset row m)" "f B = (r, B')"
  shows "only_array env B B'"
proof -
  from assms(1) consider k where "f = poll_every env k" | k c where "f = bulk_check env (EntrySet row k c)"
    by (auto simp: entry_steps_def)
  then show ?thesis
  proof cases
    case 1
    with assms(2) have "poll_every env k B = (r, B')" by simp
    from poll_every_frame [OF this] show ?thesis by (auto intro: only_array_same)
  next
    case 2
    with assms(2) have e: "bulk_check env (EntrySet row k c) B = (r, B')" by simp
    show ?thesis
    proof (cases r)
      case True
      with check_frame(1) [OF e] check_effect [OF e] show ?thesis by (simp add: only_array_same)
    next
      case False
      with check_frame(1) [OF e] check_effect [OF e] show ?thesis by (auto simp: only_array_def)
    qed
  qed
qed

lemma row_step_only:
  assumes "f \<in> set (row_steps env cells offset n)" "f B = (r, B')"
  shows "only_array env B B'"
proof -
  from assms(1) consider k where "f = poll_every env k" | row where "f \<in> set (entry_steps env cells offset row (length cells))"
    by (auto simp: row_steps_def)
  then show ?thesis
  proof cases
    case 1
    with assms(2) have "poll_every env k B = (r, B')" by simp
    from poll_every_frame [OF this] show ?thesis by (auto intro: only_array_same)
  qed (use assms(2) entry_step_only in blast)
qed

lemma bulk_seq_False:
  assumes "bulk_seq (fs @ gs) B = (False, B')"
  obtains B1 where "bulk_seq fs B = (False, B1)" "bulk_seq gs B1 = (False, B')"
  using assms by (cases "bulk_seq fs B") (auto simp: bulk_seq_append split: if_splits)

lemma bulk_seq_Cons_cases:
  assumes "bulk_seq (f # fs) B = (r, B')"
  obtains (failed) "f B = (True, B')" "r" | (passed) B1 where "f B = (False, B1)" "bulk_seq fs B1 = (r, B')"
  using assms by (cases "f B") (auto split: if_splits)

lemma bulk_seq_single [simp]: "bulk_seq [f] B = f B"
  by (cases "f B") simp

declare bulk_seq.simps(2) [simp del]

lemma entry_steps_array:
  assumes "bulk_seq (entry_steps env cells offset row m) B = (False, B')"
  shows "sv_array (server_of env B') = (\<lambda>(r, c). if r = row \<and> c < m then cells ! c ! (offset + row) else sv_array (server_of env B) (r, c))"
  using assms
proof (induction m arbitrary: B')
  case 0
  then show ?case by (auto simp: entry_steps_def fun_eq_iff)
next
  case (Suc m)
  let ?c = "EntrySet row m (cells ! m ! (offset + row))"
  have "entry_steps env cells offset row (Suc m) = entry_steps env cells offset row m @ [poll_every env m, bulk_check env ?c]"
    by (simp add: entry_steps_def)
  with Suc.prems obtain B1 where 1: "bulk_seq (entry_steps env cells offset row m) B = (False, B1)"
      and "bulk_seq [poll_every env m, bulk_check env ?c] B1 = (False, B')"
    by (metis bulk_seq_False)
  from this(2) obtain B2 where 2: "poll_every env m B1 = (False, B2)" "bulk_check env ?c B2 = (False, B')"
    by (cases rule: bulk_seq_Cons_cases) simp_all
  have "sv_array (server_of env B') = (sv_array (server_of env B1))((row, m) := cells ! m ! (offset + row))"
    using check_effect [OF 2(2)] poll_every_frame(3) [OF 2(1)] by simp
  with Suc.IH [OF 1] show ?case by (auto simp: fun_eq_iff less_Suc_eq)
qed

lemma row_steps_array:
  assumes "bulk_seq (row_steps env cells offset n) B = (False, B')"
  shows "sv_array (server_of env B')
    = (\<lambda>(r, c). if r < n \<and> c < length cells then cells ! c ! (offset + r) else sv_array (server_of env B) (r, c))"
  using assms
proof (induction n arbitrary: B')
  case 0
  then show ?case by (auto simp: row_steps_def fun_eq_iff)
next
  case (Suc n)
  let ?fs = "entry_steps env cells offset n (length cells)"
  have "row_steps env cells offset (Suc n) = row_steps env cells offset n @ (poll_every env n # ?fs)"
    by (simp add: row_steps_def)
  with Suc.prems obtain B1 where 1: "bulk_seq (row_steps env cells offset n) B = (False, B1)"
      and "bulk_seq (poll_every env n # ?fs) B1 = (False, B')"
    by (metis bulk_seq_False)
  from this(2) obtain B2 where 2: "poll_every env n B1 = (False, B2)" "bulk_seq ?fs B2 = (False, B')"
    by (cases rule: bulk_seq_Cons_cases) simp_all
  from entry_steps_array [OF 2(2)] Suc.IH [OF 1] poll_every_frame(3) [OF 2(1)]
  show ?case by (auto simp: fun_eq_iff less_Suc_eq)
qed

text \<open>Row \<open>j\<close> of a block whose cells are kept by column.\<close>

definition block_row :: "bulk_cell list list \<Rightarrow> nat \<Rightarrow> bulk_cell list" where
  "block_row cells j = map (\<lambda>column. column ! j) cells"

lemma set_entries_rows:
  assumes "set_entries env cells offset n B = (r, B')"
  shows "only_array env B B'"
    "\<not> r \<Longrightarrow> sv_cols (server_of env B) = length cells \<Longrightarrow> row < n \<Longrightarrow> array_row (server_of env B') row = block_row cells (offset + row)"
proof -
  have s: "bulk_seq (row_steps env cells offset n) B = (r, B')" using assms by (simp add: set_entries_steps)
  show o: "only_array env B B'"
    by (rule bulk_seq_keeps [where P = "only_array env B", OF s only_array_refl])
      (rule only_array_trans [OF _ row_step_only])
  assume a: "\<not> r" "sv_cols (server_of env B) = length cells" "row < n"
  from s a(1) have "bulk_seq (row_steps env cells offset n) B = (False, B')" by simp
  note e = row_steps_array [OF this]
  have "sv_cols (server_of env B') = length cells" using only_arrayD(1) [OF o] a(2) by simp
  then have "array_row (server_of env B') row = map (\<lambda>c. cells ! c ! (offset + row)) [0..<length cells]"
    using a(3) by (simp add: array_row_def e)
  also have "\<dots> = block_row cells (offset + row)"
    by (rule nth_equalityI) (simp_all add: block_row_def)
  finally show "array_row (server_of env B') row = block_row cells (offset + row)" .
qed

section \<open>The rows of a chunk\<close>

text \<open>\<open>sent\<close>: what a step does to the rows: it may convert and send some, in order, and keeps the rest.\<close>

definition same_array :: "bulk_env \<Rightarrow> bulk \<Rightarrow> bulk \<Rightarrow> bool" where
  "same_array env B B' \<longleftrightarrow> frame B' = frame B \<and> sv_cols (server_of env B') = sv_cols (server_of env B)
     \<and> sv_array (server_of env B') = sv_array (server_of env B) \<and> sv_table (server_of env B') = sv_table (server_of env B)"

lemma same_array_refl: "same_array env B B"
  by (simp add: same_array_def)

lemma same_array_trans: "same_array env A B \<Longrightarrow> same_array env B C \<Longrightarrow> same_array env A C"
  by (simp add: same_array_def)

lemma same_array_row: "same_array env B B' \<Longrightarrow> array_row (server_of env B') = array_row (server_of env B)"
  by (auto simp: same_array_def array_row_def fun_eq_iff)

lemma loadStream_sends:
  assumes "loadStream env B = (r, B')"
  shows "same_array env B B'" "sv_pending (server_of env B') = sv_pending (server_of env B)"
    "sv_loaded (server_of env B') = sv_loaded (server_of env B) @ (if r then [] else sv_pending (server_of env B))"
proof -
  obtain c B1 where p: "bulk_poll env B = (c, B1)" by fastforce
  have *: "same_array env B B' \<and> sv_pending (server_of env B') = sv_pending (server_of env B) \<and>
    sv_loaded (server_of env B') = sv_loaded (server_of env B) @ (if r then [] else sv_pending (server_of env B))"
  proof (cases c)
    case True
    with assms p have "r" "B' = B1" by (auto simp: loadStream_def bulk_seq.simps(2))
    with poll_frame [OF p] show ?thesis by (simp add: same_array_def)
  next
    case False
    show ?thesis
    proof (cases "bulk_status env B1 \<in> {OCI_SUCCESS, OCI_SUCCESS_WITH_INFO, OCI_ERROR}")
      case True
      with assms p False have c: "bulk_check env LoadStream B1 = (r, B')"
        by (cases "bulk_check env LoadStream B1") (auto simp: loadStream_def Let_def bulk_seq.simps(2) split: if_splits)
      from check_frame(1) [OF c] check_effect [OF c] poll_frame [OF p] show ?thesis by (auto simp: same_array_def)
    next
      case unexpected: False
      with assms p False have "r" "B' = bulk_raise (path_error ''OCIDirPathLoadStream() returned unexpected status'') (bulk_note LoadStream B1)"
        by (auto simp: loadStream_def bulk_fail_def Let_def bulk_seq.simps(2))
      with unexpected poll_frame [OF p] show ?thesis
        by (auto simp: same_array_def accepted_def bulk_status_def)
    qed
  qed
  then show "same_array env B B'" "sv_pending (server_of env B') = sv_pending (server_of env B)"
    "sv_loaded (server_of env B') = sv_loaded (server_of env B) @ (if r then [] else sv_pending (server_of env B))" by blast+
qed

lemma same_array_check:
  assumes "bulk_check env c B = (r, B')" "c \<in> {GetConverted, StreamReset}"
  shows "same_array env B B'" "sv_loaded (server_of env B') = sv_loaded (server_of env B)"
    "sv_pending (server_of env B') = (if c = StreamReset \<and> \<not> r then [] else sv_pending (server_of env B))"
  using assms(2) check_frame(1) [OF assms(1)] check_effect [OF assms(1)] by (auto simp: same_array_def)

lemma next_row_converted:
  assumes "next_row env n off B = (x, B')"
  shows "same_array env B B'" "sv_loaded (server_of env B') = sv_loaded (server_of env B)"
    "sv_pending (server_of env B') = sv_pending (server_of env B)"
    "x = Some next \<Longrightarrow> unat next = unat off + unat (dpe_count env (length (bk_calls B)))"
proof -
  obtain r B1 where c: "bulk_check env GetConverted B = (r, B1)" by fastforce
  have b: "B' = B1 \<or> B' = bulk_raise (path_error ''Oracle reported invalid direct path conversion progress'') B1"
    using assms c by (auto simp: next_row_def Let_def split: if_splits)
  note s = same_array_check [OF c]
  show "same_array env B B'" "sv_loaded (server_of env B') = sv_loaded (server_of env B)"
      "sv_pending (server_of env B') = sv_pending (server_of env B)"
    using b s by (auto simp: same_array_def)
  assume "x = Some next"
  with assms c have "next = off + dpe_count env (length (bk_calls B))" "\<not> next \<le> off"
    by (auto simp: next_row_def Let_def split: if_splits)
  then have "off \<le> off + dpe_count env (length (bk_calls B))" by simp
  then show "unat next = unat off + unat (dpe_count env (length (bk_calls B)))"
    using \<open>next = _\<close> by (simp add: unat_plus_simple)
qed

text \<open>A conversion puts the rows up to the offset it gives into the stream.\<close>

lemma convert_rows_pending:
  assumes "convert_rows env n off B = (x, B')" "off < n"
  shows "same_array env B B'" "sv_loaded (server_of env B') = sv_loaded (server_of env B)"
    "x = Some next \<Longrightarrow> sv_pending (server_of env B')
       = sv_pending (server_of env B) @ map (array_row (server_of env B)) [unat off..<unat next]"
proof -
  obtain c B1 where p: "bulk_poll env B = (c, B1)" by fastforce
  let ?c = "ArrayToStream n off" and ?rc = "bulk_status env B1"
  have le: "unat off \<le> unat n" using assms(2) by (simp add: word_less_nat_alt)
  have step: "same_array env B (bulk_note ?c B1)" "sv_loaded (server_of env (bulk_note ?c B1)) = sv_loaded (server_of env B)"
      "sv_pending (server_of env (bulk_note ?c B1)) = sv_pending (server_of env B)
         @ map (array_row (server_of env B)) [unat off..<unat off + converted env (length (bk_calls B1)) n off]"
    using poll_frame [OF p] by (simp_all add: same_array_def)
  consider (cancelled) "c" "x = None" "B' = B1"
    | (whole) "accepted ?rc" "x = Some n" "B' = bulk_note ?c B1" "\<not> c"
    | (failed) "x = None" "B' = bulk_note ?c B1 \<or> (\<exists>e. B' = bulk_raise e (bulk_note ?c B1))"
    | (partial) "?rc = OCI_CONTINUE" "next_row env n off (bulk_note ?c B1) = (x, B')"
  proof (cases "c")
    case True
    with assms(1) p that(1) show thesis by (simp add: convert_rows_def Let_def)
  next
    case nc: False
    show thesis
    proof (cases "?rc = OCI_SUCCESS_WITH_INFO \<or> ?rc = OCI_ERROR")
      case True
      obtain r B2 where k: "bulk_check env ?c B1 = (r, B2)" by fastforce
      with assms(1) p nc True have x: "x = (if r then None else Some n)" "B' = B2" by (auto simp: convert_rows_def Let_def)
      have "r \<longleftrightarrow> \<not> accepted ?rc" "B2 = bulk_note ?c B1 \<or> (\<exists>e. B2 = bulk_raise e (bulk_note ?c B1))" "\<not> r \<longrightarrow> B2 = bulk_note ?c B1"
        using check_frame(3) [OF k] k by (auto simp: bulk_check_def split: option.splits)
      with x nc that(2,3) show thesis by (cases r) auto
    next
      case False
      with assms(1) p nc that(2-4) show thesis
        by (auto simp: convert_rows_def Let_def accepted_def split: if_splits)
    qed
  qed
  then have "same_array env B B' \<and> sv_loaded (server_of env B') = sv_loaded (server_of env B) \<and>
    (x = Some next \<longrightarrow> sv_pending (server_of env B') = sv_pending (server_of env B) @ map (array_row (server_of env B)) [unat off..<unat next])"
  proof cases
    case cancelled
    with poll_frame [OF p] show ?thesis by (simp add: same_array_def)
  next
    case whole
    have c: "unat off + converted env (length (bk_calls B1)) n off = unat n"
      using whole(1) le by (simp add: converted_def bulk_status_def)
    show ?thesis using step [unfolded c, folded whole(3)] whole(2) by (simp only: option.inject) blast
  next
    case failed
    with step show ?thesis by (auto simp: same_array_def)
  next
    case partial
    note k = next_row_converted [OF partial(2)]
    have "converted env (length (bk_calls B1)) n off = unat (dpe_count env (Suc (length (bk_calls B1))))"
      using partial(1) by (simp add: converted_def accepted_def bulk_status_def)
    with k step same_array_trans show ?thesis by auto
  qed
  then show "same_array env B B'" "sv_loaded (server_of env B') = sv_loaded (server_of env B)"
    "x = Some next \<Longrightarrow> sv_pending (server_of env B')
       = sv_pending (server_of env B) @ map (array_row (server_of env B)) [unat off..<unat next]" by blast+
qed

text \<open>\<open>sent env B B' rows m\<close>: the step has sent the first \<open>m\<close> of the rows, and nothing else.\<close>

definition sent :: "bulk_env \<Rightarrow> bulk \<Rightarrow> bulk \<Rightarrow> bulk_cell list list \<Rightarrow> bool" where
  "sent env B B' rows \<longleftrightarrow> sv_cols (server_of env B') = sv_cols (server_of env B) \<and> sv_table (server_of env B') = sv_table (server_of env B)
     \<and> sv_loaded (server_of env B') = sv_loaded (server_of env B) @ rows
     \<and> bk_columns B' = bk_columns B \<and> bk_max_rows B' = bk_max_rows B \<and> bk_active B' = bk_active B
     \<and> bk_prepared B' = bk_prepared B \<and> bk_ctx B' = bk_ctx B"

lemma sent_trans: "sent env A B xs \<Longrightarrow> sent env B C ys \<Longrightarrow> sent env A C (xs @ ys)"
  by (simp add: sent_def)

lemma same_array_sent: "same_array env B B' \<Longrightarrow> sv_loaded (server_of env B') = sv_loaded (server_of env B) @ xs \<Longrightarrow> sent env B B' xs"
  by (simp add: sent_def same_array_def frame_def)

lemma only_array_sent: "only_array env B B' \<Longrightarrow> sent env B B' []"
  using only_arrayD [of env B B'] by (simp add: sent_def frame_def)

lemma upt_split: "i \<le> j \<Longrightarrow> j \<le> k \<Longrightarrow> [i..<k] = [i..<j] @ [j..<k]"
  by (metis le_Suc_ex upt_add_eq_append)

lemma convert_loop_sent:
  assumes "convert_loop env n off B = (r, B')" "sv_pending (server_of env B) = []" "off \<le> n"
  shows "\<exists>m. unat off \<le> m \<and> m \<le> unat n \<and> (\<not> r \<longrightarrow> m = unat n) \<and> same_array env B B' \<and>
    sv_loaded (server_of env B') = sv_loaded (server_of env B) @ map (array_row (server_of env B)) [unat off..<m]"
  using assms
proof (induction env n off B rule: convert_loop.induct)
  case (1 env n off B)
  show ?case
  proof (cases "off < n")
    case False
    with 1 have "r = False" "B' = B" "off = n" by (simp_all add: convert_loop.simps [of env n off B])
    then show ?thesis using same_array_refl [of env B] by (intro exI [of _ "unat off"]) simp
  next
    case less: True
    then have le: "unat off \<le> unat n" by (simp add: word_less_nat_alt)
    obtain x B1 where c: "convert_rows env n off B = (x, B1)" by fastforce
    note cr = convert_rows_pending [OF c less]
    show ?thesis
    proof (cases x)
      case None
      with "1.prems"(1) less c have "r" "B' = B1" by (simp_all add: convert_loop.simps [of env n off B])
      with cr(1,2) le show ?thesis by (intro exI [of _ "unat off"]) simp
    next
      case (Some k)
      have k: "off < k" "k \<le> n" using convert_rows_bounds [OF c [unfolded Some] less] by blast+
      then have kn: "unat off < unat k" "unat k \<le> unat n" by (simp_all add: word_less_nat_alt word_le_nat_alt)
      have pend: "sv_pending (server_of env B1) = map (array_row (server_of env B)) [unat off..<unat k]"
        using cr(3) [OF Some] "1.prems"(2) by simp
      let ?reset = "if k < n then [bulk_check env StreamReset] else []"
      obtain r2 B2 where s: "bulk_seq (loadStream env # ?reset) B1 = (r2, B2)" by fastforce
      have loop: "if r2 then r \<and> B' = B2 else convert_loop env n k B2 = (r, B')"
        using "1.prems"(1) less c Some s by (auto simp: convert_loop.simps [of env n off B])
      from s show ?thesis
      proof (cases rule: bulk_seq_Cons_cases)
        case failed
        note l = loadStream_sends [OF failed(1)]
        have "same_array env B B2" by (rule same_array_trans [OF cr(1) l(1)])
        with l(3) cr(2) failed(2) loop le show ?thesis by (intro exI [of _ "unat off"]) simp
      next
        case (passed B3)
        note l = loadStream_sends [OF passed(1)]
        have sa3: "same_array env B B3" by (rule same_array_trans [OF cr(1) l(1)])
        have l3: "sv_loaded (server_of env B3) = sv_loaded (server_of env B) @ map (array_row (server_of env B)) [unat off..<unat k]"
          using l(3) cr(2) pend by simp
        have reset: "same_array env B3 B2 \<and> sv_loaded (server_of env B2) = sv_loaded (server_of env B3)
            \<and> (\<not> r2 \<and> k < n \<longrightarrow> sv_pending (server_of env B2) = []) \<and> (k = n \<longrightarrow> \<not> r2)"
        proof (cases "k < n")
          case True
          with passed(2) have "bulk_check env StreamReset B3 = (r2, B2)" by simp
          from same_array_check [OF this] True show ?thesis by auto
        next
          case False
          with passed(2) show ?thesis by (simp add: same_array_def)
        qed
        have sa2: "same_array env B B2" using sa3 reset same_array_trans by blast
        have l2: "sv_loaded (server_of env B2) = sv_loaded (server_of env B) @ map (array_row (server_of env B)) [unat off..<unat k]"
          using reset l3 by simp
        show ?thesis
        proof (cases "r2 \<or> k = n")
          case True
          then have "B' = B2 \<and> (\<not> r \<longrightarrow> k = n)"
            using loop reset by (auto simp: convert_loop.simps [of env n n B2] split: if_splits)
          with sa2 l2 kn show ?thesis by (intro exI [of _ "unat k"]) auto
        next
          case False
          then have "k < n" "\<not> r2" using k(2) by auto
          moreover have "convert_loop env n k B2 = (r, B')" using loop False by simp
          ultimately obtain m where m: "unat k \<le> m" "m \<le> unat n" "\<not> r \<longrightarrow> m = unat n" "same_array env B2 B'"
              "sv_loaded (server_of env B') = sv_loaded (server_of env B2) @ map (array_row (server_of env B2)) [unat k..<m]"
            using "1.IH" [OF less c [symmetric] Some s [symmetric] refl] reset k(2) by auto
          have "[unat off..<m] = [unat off..<unat k] @ [unat k..<m]" using kn m(1) by (intro upt_split) simp_all
          then show ?thesis using m l2 kn same_array_row [OF sa2] same_array_trans [OF sa2 m(4)]
            by (intro exI [of _ m]) auto
        qed
      qed
    qed
  qed
qed

text \<open>A chunk: its rows in order, all of them if nothing failed.\<close>

definition ready :: "bulk_env \<Rightarrow> bulk \<Rightarrow> bool" where
  "ready env B \<longleftrightarrow> (bk_used B \<or> sv_pending (server_of env B) = []) \<and> sv_cols (server_of env B) = length (bk_columns B)"

lemma resetHandles_sent:
  assumes "resetHandles env B = (r, B')"
  shows "sent env B B' []" "bk_used B' = bk_used B" "\<not> r \<Longrightarrow> sv_pending (server_of env B') = []"
proof -
  have "bulk_seq [bulk_check env ArrayReset, bulk_check env StreamReset] B = (r, B')" using assms by (simp add: resetHandles_def)
  then have "sent env B B' [] \<and> bk_used B' = bk_used B \<and> (\<not> r \<longrightarrow> sv_pending (server_of env B') = [])"
  proof (cases rule: bulk_seq_Cons_cases)
    case failed
    from check_frame(1) [OF failed(1)] check_effect [OF failed(1)] failed(2) show ?thesis by (simp add: sent_def frame_def)
  next
    case (passed B1)
    from passed(2) have k: "bulk_check env StreamReset B1 = (r, B')" by simp
    from check_frame(1) [OF passed(1)] check_effect [OF passed(1)] check_frame(1) [OF k] check_effect [OF k]
    show ?thesis by (auto simp: sent_def frame_def)
  qed
  then show "sent env B B' []" "bk_used B' = bk_used B" "\<not> r \<Longrightarrow> sv_pending (server_of env B') = []" by blast+
qed

lemma loadChunk_sent:
  assumes "loadChunk env cells offset n B = (r, B')" "ready env B" "length cells = length (bk_columns B)" "n < 2 ^ 32"
  shows "\<exists>m. m \<le> n \<and> (\<not> r \<longrightarrow> m = n \<and> ready env B') \<and> sent env B B' (map (block_row cells) [offset..<offset + m])"
proof -
  let ?reset = "\<lambda>B. if bk_used B then resetHandles env B else (False, B)"
  obtain B2 where s: "bulk_seq [?reset, set_entries env cells offset n, convert_loop env (word_of_nat n) 0] B = (r, B2)"
      and B': "B' = (if r then B2 else B2\<lparr>bk_used := True\<rparr>)"
    using assms(1) unfolding loadChunk_def then_set_def
    by (cases "bulk_seq [?reset, set_entries env cells offset n, convert_loop env (word_of_nat n) 0] B") auto
  have fin: "sent env B B' xs" if "sent env B B2 xs" for xs
    using that B' by (auto simp: sent_def server_of_def)
  have none: ?thesis if "r" "sent env B B2 []" using fin [OF that(2)] that(1) by (intro exI [of _ 0]) simp
  from s show ?thesis
  proof (cases rule: bulk_seq_Cons_cases)
    case failed
    then have "sent env B B2 []" using resetHandles_sent(1) by (auto simp: sent_def split: if_splits)
    with none failed(2) show ?thesis by blast
  next
    case (passed B3)
    have r3: "sent env B B3 []" "sv_pending (server_of env B3) = []"
      using passed(1) resetHandles_sent [of env B False B3] assms(2) by (auto simp: sent_def ready_def split: if_splits)
    from passed(2) show ?thesis
    proof (cases rule: bulk_seq_Cons_cases)
      case failed
      have "sent env B B2 []" using sent_trans [OF r3(1) only_array_sent [OF set_entries_rows(1) [OF failed(1)]]] by simp
      with none failed(2) show ?thesis by blast
    next
      case (passed B4)
      note o = set_entries_rows(1) [OF passed(1)]
      have s4: "sent env B B4 []" using sent_trans [OF r3(1) only_array_sent [OF o]] by simp
      have cols: "sv_cols (server_of env B3) = length cells"
        using r3(1) assms(2,3) by (simp add: sent_def ready_def)
      have rows: "row < n \<Longrightarrow> array_row (server_of env B4) row = block_row cells (offset + row)" for row
        using set_entries_rows(2) [OF passed(1) _ cols] by simp
      have p4: "sv_pending (server_of env B4) = []" using r3(2) only_arrayD(2) [OF o] by simp
      have n: "unat (word_of_nat n :: 32 word) = n" using assms(4) by (simp add: unat_of_nat)
      from passed(2) have c: "convert_loop env (word_of_nat n) 0 B4 = (r, B2)" by simp
      from convert_loop_sent [OF c p4] obtain m where m: "m \<le> n" "\<not> r \<longrightarrow> m = n" "same_array env B4 B2"
          "sv_loaded (server_of env B2) = sv_loaded (server_of env B4) @ map (array_row (server_of env B4)) [0..<m]"
        by (auto simp: n)
      have "map (array_row (server_of env B4)) [0..<m] = map (block_row cells) [offset..<offset + m]"
        using m(1) rows by (intro nth_equalityI) simp_all
      with m(3,4) have "sent env B4 B2 (map (block_row cells) [offset..<offset + m])" by (simp add: same_array_sent)
      from fin [OF sent_trans [OF s4 this]] have snt: "sent env B B' (map (block_row cells) [offset..<offset + m])" by simp
      have "ready env B'" if "\<not> r"
        using snt that B' assms(2) by (simp add: ready_def sent_def)
      with m(1,2) snt show ?thesis by blast
    qed
  qed
qed

lemma load_chunks_sent:
  assumes "load_chunks env cells k count offset B = (r, B')" "ready env B" "length cells = length (bk_columns B)"
    "0 < k" "k < 2 ^ 32" "offset \<le> count"
  shows "\<exists>m. offset \<le> m \<and> m \<le> count \<and> (\<not> r \<longrightarrow> m = count \<and> ready env B') \<and> sent env B B' (map (block_row cells) [offset..<m])"
  using assms
proof (induction env cells k count offset B rule: load_chunks.induct)
  case (1 env cells k count offset B)
  show ?case
  proof (cases "offset < count")
    case False
    with "1.prems" have "B' = B" "\<not> r" "offset = count" by (simp_all add: load_chunks.simps [of env cells k count offset B])
    with "1.prems"(2) show ?thesis by (intro exI [of _ offset]) (simp add: sent_def)
  next
    case less: True
    let ?n = "min k (count - offset)"
    obtain r1 B1 where c: "loadChunk env cells offset ?n B = (r1, B1)" by fastforce
    have "?n < 2 ^ 32" using "1.prems"(5) by simp
    from loadChunk_sent [OF c "1.prems"(2,3) this] obtain m where m: "m \<le> ?n" "\<not> r1 \<longrightarrow> m = ?n \<and> ready env B1"
      "sent env B B1 (map (block_row cells) [offset..<offset + m])" by blast
    show ?thesis
    proof (cases r1)
      case True
      with "1.prems"(1,4) c less have "r" "B' = B1" by (simp_all add: load_chunks.simps [of env cells k count offset B])
      with m less show ?thesis by (intro exI [of _ "offset + m"]) auto
    next
      case False
      have l: "load_chunks env cells k count (offset + ?n) B1 = (r, B')"
        using "1.prems"(1,4) c less False by (simp add: load_chunks.simps [of env cells k count offset B])
      have "length cells = length (bk_columns B1)" using m(3) "1.prems"(3) by (simp add: sent_def)
      moreover have "offset + ?n \<le> count" using less by simp
      ultimately obtain m2 where m2: "offset + ?n \<le> m2" "m2 \<le> count" "\<not> r \<longrightarrow> m2 = count \<and> ready env B'"
          "sent env B1 B' (map (block_row cells) [offset + ?n..<m2])"
        using "1.IH" [OF _ refl c [symmetric] refl False l] less m(2) False "1.prems"(4,5) by auto
      have "sent env B B' (map (block_row cells) [offset..<offset + ?n] @ map (block_row cells) [offset + ?n..<m2])"
        using sent_trans [OF m(3) m2(4)] m(2) False by simp
      moreover have "[offset..<m2] = [offset..<offset + ?n] @ [offset + ?n..<m2]"
        using m2(1) by (intro upt_split) simp_all
      ultimately have "sent env B B' (map (block_row cells) [offset..<m2])" by simp
      with m2 show ?thesis by (intro exI [of _ m2]) auto
    qed
  qed
qed

section \<open>The rows of a block\<close>

text \<open>
  What a block stands for: every column of the load has its value, the lists have the same length,
  a block without a list is one row, and every cell is the text of its value.
\<close>

definition block_cells :: "bulk_env \<Rightarrow> bulk_column list \<Rightarrow> qval ohash \<Rightarrow> bulk_cell list list \<Rightarrow> bool" where
  "block_cells env columns rows cells \<longleftrightarrow>
     (\<exists>vs. list_all2 (\<lambda>c v. hash_get rows (c_str (bc_key c)) = Some v) columns vs
       \<and> (\<forall>l. QList l \<in> set vs \<longrightarrow> length cells = length l)
       \<and> ((\<forall>l. QList l \<notin> set vs) \<longrightarrow> length cells = 1)
       \<and> (\<forall>j < length cells. list_all2 (\<lambda>(c, v) x. qoreOracleSerializeCell env c (row_value v j) = Inr x) (zip columns vs) (cells ! j)))"

definition silent :: "bulk_env \<Rightarrow> bulk \<Rightarrow> bulk \<Rightarrow> bool" where
  "silent env B B' \<longleftrightarrow> frame B' = frame B \<and> server_of env B' = server_of env B"

lemma silent_refl [simp]: "silent env B B"
  by (simp add: silent_def)

lemma silent_trans: "silent env A B \<Longrightarrow> silent env B C \<Longrightarrow> silent env A C"
  by (simp add: silent_def)

lemma silent_raise [simp]: "silent env B (bulk_raise e B')= silent env B B'"
  by (simp add: silent_def)

lemma silent_poll: "poll_every env i B = (r, B') \<Longrightarrow> silent env B B'"
  using poll_every_frame by (simp add: silent_def)

lemma silent_sent: "silent env B B' \<Longrightarrow> sent env B B' []"
  by (simp add: silent_def sent_def frame_def)

lemma silent_ready: "silent env B B' \<Longrightarrow> ready env B' = ready env B"
  by (simp add: silent_def ready_def frame_def)

lemma block_values_silent: "block_values env rows i cs n vs B = (x, B') \<Longrightarrow> silent env B B'"
proof (induction env rows i cs n vs B rule: block_values.induct)
  case (2 env rows i c cs n vs B)
  obtain a B1 where p: "poll_every env i B = (a, B1)" by fastforce
  note s = silent_poll [OF p]
  show ?case
  proof (cases "\<exists>v k. \<not> a \<and> hash_get rows (c_str (bc_key c)) = Some v \<and> block_count v n = Some k")
    case True
    then obtain v k where v: "\<not> a" "hash_get rows (c_str (bc_key c)) = Some v" "block_count v n = Some k" by blast
    with "2.prems" p have "block_values env rows (Suc i) cs k (vs @ [v]) B1 = (x, B')" by simp
    from silent_trans [OF s "2.IH" [OF p [symmetric] refl v this]] show ?thesis .
  next
    case False
    with "2.prems" p have "B' = B1 \<or> (\<exists>e. B' = bulk_raise e B1)" by (auto split: if_splits option.splits)
    with s show ?thesis by auto
  qed
qed simp

lemma block_count_cases:
  assumes "block_count v n = Some n'"
  obtains (list) l where "v = QList l" "n' = Some (length l)" "n \<noteq> None \<longrightarrow> n' = n" | (single) "\<And>l. v \<noteq> QList l" "n' = n"
proof (cases "\<exists>l. v = QList l")
  case True
  then obtain l where l: "v = QList l" by blast
  show thesis by (rule list [OF l]) (use assms l in \<open>simp_all add: block_count_def split: option.splits if_splits\<close>)
next
  case False
  then have "block_count v n = Some n" by (cases v) (simp_all add: block_count_def)
  with False assms single show thesis by simp
qed

lemma block_values_given:
  assumes "block_values env rows i cs n vs B = (Some (n', vs'), B')"
  shows "\<exists>ws. vs' = vs @ ws \<and> list_all2 (\<lambda>c v. hash_get rows (c_str (bc_key c)) = Some v) cs ws
    \<and> (\<forall>l. QList l \<in> set ws \<longrightarrow> n' = Some (length l)) \<and> (n \<noteq> None \<longrightarrow> n' = n) \<and> (n' = n \<or> (\<exists>l. QList l \<in> set ws))"
  using assms
proof (induction env rows i cs n vs B rule: block_values.induct)
  case (2 env rows i c cs n vs B)
  obtain a B1 where p: "poll_every env i B = (a, B1)" by fastforce
  with "2.prems" obtain v k where v: "\<not> a" "hash_get rows (c_str (bc_key c)) = Some v" "block_count v n = Some k"
      "block_values env rows (Suc i) cs k (vs @ [v]) B1 = (Some (n', vs'), B')" by (auto split: option.splits if_splits)
  from "2.IH" [OF p [symmetric] refl v] obtain ws where ws: "vs' = (vs @ [v]) @ ws"
      "list_all2 (\<lambda>c v. hash_get rows (c_str (bc_key c)) = Some v) cs ws" "\<forall>l. QList l \<in> set ws \<longrightarrow> n' = Some (length l)"
      "k \<noteq> None \<longrightarrow> n' = k" "n' = k \<or> (\<exists>l. QList l \<in> set ws)" by blast
  from v(3) show ?case
  proof (cases rule: block_count_cases)
    case (list l)
    with ws v(2) show ?thesis by (intro exI [of _ "v # ws"]) auto
  next
    case single
    with ws v(2) show ?thesis by (intro exI [of _ "v # ws"]) auto
  qed
qed simp

lemma serialize_rows_cells:
  assumes "serialize_rows env c row vs cells payload B = (x, B')"
  shows "silent env B B'"
    "x = Some (cells', payload') \<Longrightarrow> \<exists>xs. cells' = cells @ xs \<and> list_all2 (\<lambda>v x. qoreOracleSerializeCell env c v = Inr x) vs xs"
  using assms
proof (induction env c row vs cells payload B rule: serialize_rows.induct)
  case (2 env c row v vs cells payload B)
  obtain a B1 where p: "poll_every env row B = (a, B1)" by fastforce
  note s = silent_poll [OF p]
  {
    case 1
    with 2(1) p s show ?case by (auto simp: Let_def split: if_splits sum.splits intro: silent_trans [OF s])
  next
    case 2
    with p obtain d where d: "\<not> a" "qoreOracleSerializeCell env c v = Inr d" "\<not> int (length (cell_data d)) > SIZE_MAX - int payload"
        "serialize_rows env c (Suc row) vs (cells @ [d]) (payload + length (cell_data d)) B1 = (x, B')"
      by (auto split: if_splits sum.splits)
    from "2.IH"(2) [OF p [symmetric] refl d(1-3) 2(1) d(4)] obtain xs where
      "cells' = (cells @ [d]) @ xs" "list_all2 (\<lambda>v x. qoreOracleSerializeCell env c v = Inr x) vs xs" by blast
    with d(2) show ?case by (intro exI [of _ "d # xs"]) simp
  }
qed auto

lemma serialize_columns_cells:
  assumes "serialize_columns env count i cvs cells payload B = (x, B')"
  shows "silent env B B'"
    "x = Some (cells', payload') \<Longrightarrow> \<exists>xs. cells' = cells @ xs \<and>
       list_all2 (\<lambda>(c, v) col. list_all2 (\<lambda>v x. qoreOracleSerializeCell env c v = Inr x) (map (row_value v) [0..<count]) col) cvs xs"
  using assms
proof (induction env count i cvs cells payload B rule: serialize_columns.induct)
  case (2 env count i c v cs cells payload B)
  obtain a B1 where p: "poll_every env i B = (a, B1)" by fastforce
  obtain y B2 where r: "serialize_rows env c 0 (map (row_value v) [0..<count]) [] payload B1 = (y, B2)" by fastforce
  note s = silent_poll [OF p]
  note sr = serialize_rows_cells [OF r]
  {
    case 1
    have s2: "silent env B B2" by (rule silent_trans [OF s sr(1)])
    from 1 2(1) p s r s2 show ?case by (auto split: if_splits option.splits intro: silent_trans [OF s2])
  next
    case 2
    with p r obtain col pay where d: "\<not> a" "y = Some (col, pay)" "serialize_columns env count (Suc i) cs (cells @ [col]) pay B2 = (x, B')"
      by (auto split: if_splits option.splits)
    from "2.IH"(2) [OF p [symmetric] refl d(1) r [symmetric] d(2) refl 2(1) d(3)] obtain xs where
      "cells' = (cells @ [col]) @ xs"
      "list_all2 (\<lambda>(c, v) col. list_all2 (\<lambda>v x. qoreOracleSerializeCell env c v = Inr x) (map (row_value v) [0..<count]) col) cs xs" by blast
    with sr(2) [OF d(2)] show ?case by (intro exI [of _ "col # xs"]) simp
  }
qed auto

text \<open>Reports to the observer are no calls of the server.\<close>

lemma report_silent [simp]: "silent env B (bulk_note (ReportProgress k) B') = silent env B B'"
  by (simp add: silent_def)

lemma stream_fields_silent [simp]: "silent env B (B'\<lparr>bk_ok := ok\<rparr>) = silent env B B'"
    "silent env B (B'\<lparr>bk_consumed := n\<rparr>) = silent env B B'" "silent env B (B'\<lparr>bk_reported := m\<rparr>) = silent env B B'"
  by (simp_all add: silent_def frame_def server_of_def)

lemma addBytes_silent:
  assumes "stream_addBytes env n B = (r, B')"
  shows "silent env B B'"
proof -
  have "silent env B (snd (stream_addBytes env n B))"
    by (simp add: stream_addBytes_def Let_def bulk_fail_def split: option.split)
  with assms show ?thesis by simp
qed

lemmas addBytes_sent = silent_sent [OF addBytes_silent] silent_ready [OF addBytes_silent]

lemma set_error_silent [simp]: "silent env B (set_error B') = silent env B B'" "sent env B (set_error B') xs = sent env B B' xs"
  by (simp_all add: set_error_def silent_def sent_def frame_def server_of_def)

lemma map_block_row:
  assumes "list_all2 (\<lambda>(c, v) col. list_all2 (\<lambda>v x. qoreOracleSerializeCell env c v = Inr x) (map (row_value v) [0..<count]) col) cvs cells"
    "j < count"
  shows "list_all2 (\<lambda>(c, v) x. qoreOracleSerializeCell env c (row_value v j) = Inr x) cvs (block_row cells j)"
  using assms
proof (induction cvs cells rule: list_all2_induct)
  case (Cons cv cvs col cells)
  obtain c v where cv: "cv = (c, v)" by fastforce
  with Cons.hyps have "list_all2 (\<lambda>v x. qoreOracleSerializeCell env c v = Inr x) (map (row_value v) [0..<count]) col" by simp
  from list_all2_nthD [OF this, of j] Cons cv show ?case by (simp add: block_row_def)
qed (simp add: block_row_def)

lemma loadRows_sent:
  assumes "loadRows env rows B = (r, B')" "ready env B" "bk_max_rows B \<noteq> 0"
  shows "\<exists>cells m. sent env B B' (take m cells) \<and> (m = 0 \<or> block_cells env (bk_columns B) rows cells)
    \<and> (\<not> r \<longrightarrow> block_cells env (bk_columns B) rows cells \<and> m = length cells \<and> ready env B')"
proof -
  have failed: ?thesis if "r" "sent env B B' []"
    using that by (intro exI [of _ "[]"] exI [of _ 0]) simp
  show ?thesis
  proof (cases "length rows \<noteq> length (bk_columns B)")
    case True
    with assms(1) have "r" "B' = bulk_raise (path_error ''row block has another number of columns'') (set_error B)"
      by (simp_all add: loadRows_def bulk_fail_def)
    with failed silent_sent show ?thesis by simp
  next
    case len: False
    obtain y B1 where b: "block_values env rows 0 (bk_columns B) None [] B = (y, B1)" by fastforce
    note s1 = block_values_silent [OF b]
    show ?thesis
    proof (cases y)
      case None
      with assms(1) len b have "r" "B' = set_error B1" by (simp_all add: loadRows_def)
      with failed silent_sent [OF s1] show ?thesis by simp
    next
      case (Some nvs)
      then obtain n vs where y: "y = Some (n, vs)" by fastforce
      define count where "count = (case n of None \<Rightarrow> 1 | Some k \<Rightarrow> k)"
      from block_values_given [OF b [unfolded y]] have given:
          "list_all2 (\<lambda>c v. hash_get rows (c_str (bc_key c)) = Some v) (bk_columns B) vs"
          "\<forall>l. QList l \<in> set vs \<longrightarrow> count = length l" "(\<forall>l. QList l \<notin> set vs) \<longrightarrow> count = 1"
        by (auto simp: count_def split: option.split)
      have spec: "block_cells env (bk_columns B) rows cells"
        if "length cells = count"
          "\<And>j. j < count \<Longrightarrow> list_all2 (\<lambda>(c, v) x. qoreOracleSerializeCell env c (row_value v j) = Inr x) (zip (bk_columns B) vs) (cells ! j)"
        for cells
        unfolding block_cells_def by (rule exI [of _ vs]) (use given that in simp)
      show ?thesis
      proof (cases "count = 0")
        case True
        with assms(1) len b y have "\<not> r" "B' = B1" by (simp_all add: loadRows_def count_def [symmetric])
        with spec [of "[]"] True silent_sent [OF s1] silent_ready [OF s1] assms(2) show ?thesis
          by (intro exI [of _ "[]"] exI [of _ 0]) simp
      next
        case pos: False
        have c1: "bk_columns B1 = bk_columns B" "bk_max_rows B1 = bk_max_rows B" using s1 by (simp_all add: silent_def frame_def)
        obtain z B2 where z: "serialize_columns env count 0 (zip (bk_columns B1) vs) [] 0 B1 = (z, B2)" by fastforce
        note sc = serialize_columns_cells [OF z]
        have s2: "silent env B B2" by (rule silent_trans [OF s1 sc(1)])
        show ?thesis
        proof (cases z)
          case None
          with assms(1) len b y pos z have "r" "B' = set_error B2" by (simp_all add: loadRows_def count_def [symmetric])
          with failed silent_sent [OF s2] show ?thesis by simp
        next
          case (Some cp)
          then obtain cells payload where cp: "z = Some (cells, payload)" by fastforce
          from sc(2) [OF cp] have cells: "list_all2 (\<lambda>(c, v) col. list_all2 (\<lambda>v x. qoreOracleSerializeCell env c v = Inr x)
              (map (row_value v) [0..<count]) col) (zip (bk_columns B) vs) cells" by (simp add: c1)
          let ?rows = "map (block_row cells) [0..<count]"
          have sp: "block_cells env (bk_columns B) rows ?rows" by (rule spec) (use map_block_row [OF cells] in simp_all)
          obtain r3 B3 where l: "load_chunks env cells (unat (bk_max_rows B2)) count 0 B2 = (r3, B3)" by fastforce
          have c2: "bk_columns B2 = bk_columns B" "bk_max_rows B2 = bk_max_rows B" using s2 by (simp_all add: silent_def frame_def)
          have "length vs = length (bk_columns B)" using given(1) by (simp add: list_all2_lengthD)
          with list_all2_lengthD [OF cells] have lc: "length cells = length (bk_columns B2)" by (simp add: c2)
          have k: "0 < unat (bk_max_rows B2)" "unat (bk_max_rows B2) < 2 ^ 32"
            using assms(3) c2(2) by (simp add: unat_gt_0, intro order_less_le_trans [OF unsigned_less]) simp
          from load_chunks_sent [OF l _ lc k] silent_ready [OF s2] assms(2) obtain m where
            m: "m \<le> count" "\<not> r3 \<longrightarrow> m = count \<and> ready env B3" "sent env B2 B3 (map (block_row cells) [0..<m])" by auto
          have t: "map (block_row cells) [0..<m] = take m ?rows" using m(1) by (simp add: take_map)
          have s3: "sent env B B3 (take m ?rows)" using sent_trans [OF silent_sent [OF s2] m(3)] t by simp
          have rest: "if r3 then r \<and> B' = set_error B3 else stream_addBytes env payload B3 = (r, B')"
            using assms(1) len b y pos z cp l by (simp add: loadRows_def count_def [symmetric] split: if_splits)
          show ?thesis
          proof (cases r3)
            case True
            with rest s3 sp show ?thesis by (intro exI [of _ ?rows] exI [of _ m]) simp
          next
            case False
            with rest have a: "stream_addBytes env payload B3 = (r, B')" by simp
            have "sent env B B' (take m ?rows)" using sent_trans [OF s3 addBytes_sent(1) [OF a]] by simp
            with addBytes_sent(2) [OF a] m(2) False sp show ?thesis by (intro exI [of _ ?rows] exI [of _ m]) simp
          qed
        qed
      qed
    qed
  qed
qed

section \<open>Beginning a load\<close>

text \<open>Steps that are nothing to the server and keep what the load has gained.\<close>

definition calm :: "bulk_env \<Rightarrow> bulk \<Rightarrow> bulk \<Rightarrow> bool" where
  "calm env B B' \<longleftrightarrow> server_of env B' = server_of env B \<and> bk_columns B' = bk_columns B \<and> bk_used B' = bk_used B
     \<and> (bk_prepared B \<longrightarrow> bk_prepared B')"

lemma calm_refl [simp]: "calm env B B"
  by (simp add: calm_def)

lemma calm_trans: "calm env A B \<Longrightarrow> calm env B C \<Longrightarrow> calm env A C"
  by (simp add: calm_def)

lemma silent_calm: "silent env B B' \<Longrightarrow> calm env B B'"
  by (simp add: silent_def calm_def frame_def)

definition plain_call :: "bulk_call \<Rightarrow> bool" where
  "plain_call c \<longleftrightarrow> (\<forall>env k sv. server_effect env k c sv = sv) \<and> (\<forall>n off. c \<noteq> ArrayToStream n off)"

lemma plain_calls [simp]:
  "plain_call (DescribeTable t)" "plain_call (SetTableName t)" "plain_call (SetSchemaName t)" "plain_call (SetNumRows n)"
  "plain_call (SetBufferSize n)" "plain_call (SetParallel b)" "plain_call (SetNolog b)" "plain_call GetColumnList" "plain_call (ParamGet i)"
  "plain_call FreeParam" "plain_call (ParamName t)" "plain_call (ParamType c)" "plain_call (ParamSize i)" "plain_call (ParamPrecision z)"
  "plain_call (ParamScale z)" "plain_call (ParamFormat t)" "plain_call DirPathPrepare" "plain_call AllocArray" "plain_call AllocStream"
  "plain_call GetArrayRows" "plain_call ReportBegin" "plain_call FreeArray" "plain_call FreeStream" "plain_call FreeCtx" "plain_call (ReportEnd z b)"
  by (simp_all add: plain_call_def)

lemma plain_note: "plain_call c \<Longrightarrow> silent env B (bulk_note c B') = silent env B B'"
  by (cases c) (simp_all add: silent_def plain_call_def)

lemma plain_check:
  assumes "bulk_check env c B = (r, B')" "plain_call c"
  shows "silent env B B'"
proof -
  have "\<And>n off. c \<noteq> ArrayToStream n off" using assms(2) by (simp add: plain_call_def)
  from check_effect [OF assms(1) this] check_frame(1) [OF assms(1)] assms(2) show ?thesis
    by (simp add: silent_def plain_call_def split: if_splits)
qed

text \<open>A setting of a flag of the load after a plain call.\<close>

lemma then_set_calm:
  assumes "then_set (bulk_check env c) g B = (r, B')" "plain_call c" "\<And>B. calm env B (g B)"
  shows "calm env B B'"
proof -
  obtain r1 B1 where k: "bulk_check env c B = (r1, B1)" by fastforce
  note s = silent_calm [OF plain_check [OF k assms(2)]]
  from assms(1) k have "B' = (if r1 then B1 else g B1)" by (auto simp: then_set_def)
  with s calm_trans [OF s assms(3)] show ?thesis by simp
qed

lemma flag_calm [simp]: "calm env B (B\<lparr>bk_prepared := True\<rparr>)" "calm env B (B\<lparr>bk_array := b\<rparr>)" "calm env B (B\<lparr>bk_stream_handle := b\<rparr>)"
    "calm env B (B\<lparr>bk_max_rows := n\<rparr>)" "calm env B (B\<lparr>bk_started := b\<rparr>)"
  by (simp_all add: calm_def server_of_def)

lemma plain_after: "bulk_check env c B = (r, B') \<Longrightarrow> silent env A B \<Longrightarrow> plain_call c \<Longrightarrow> silent env A B'"
  by (rule silent_trans [OF _ plain_check])

lemma poll_after: "poll_every env i B = (r, B') \<Longrightarrow> silent env A B \<Longrightarrow> silent env A B'"
  by (rule silent_trans [OF _ silent_poll])

lemma column_sets_silent:
  assumes "bulk_seq (column_sets env c) A = (r, A')"
  shows "silent env A A'"
proof (rule bulk_seq_keeps [where P = "silent env A", OF assms silent_refl])
  fix f B r B'
  assume "f \<in> set (column_sets env c)" "f B = (r, B')" "silent env A B"
  then show "silent env A B'" by (auto simp: column_sets_def elim!: plain_after split: if_splits)
qed

lemma column_setup_silent:
  assumes "column_setup env i c A = (r, A')"
  shows "silent env A A'"
proof (rule bulk_seq_keeps [where P = "silent env A", OF assms [unfolded column_setup_def] silent_refl])
  fix f B r B'
  assume f: "f \<in> set [poll_every env i, bulk_check env (ParamGet (i + 1)),
      \<lambda>B. let (r, B1) = bulk_seq (column_sets env c) B in (r, bulk_note FreeParam B1)]"
    and b: "f B = (r, B')" and s: "silent env A B"
  from f consider "f = poll_every env i" | "f = bulk_check env (ParamGet (i + 1))"
    | "f = (\<lambda>B. let (r, B1) = bulk_seq (column_sets env c) B in (r, bulk_note FreeParam B1))" by auto
  then show "silent env A B'"
  proof cases
    case 1
    with b s poll_after show ?thesis by simp
  next
    case 2
    with b have "bulk_check env (ParamGet (i + 1)) B = (r, B')" by simp
    from plain_after [OF this s] show ?thesis by simp
  next
    case 3
    obtain q B1 where q: "bulk_seq (column_sets env c) B = (q, B1)" by fastforce
    with b 3 have "B' = bulk_note FreeParam B1" by simp
    with silent_trans [OF s column_sets_silent [OF q]] show ?thesis by (simp add: plain_note)
  qed
qed

lemma calm_raise [simp]: "calm env B (bulk_raise e B') = calm env B B'"
  by (simp add: calm_def bulk_raise_def server_of_def)

lemma array_rows_calm:
  assumes "array_rows env B = (r, B')"
  shows "calm env B B'" "\<not> r \<Longrightarrow> bk_max_rows B' \<noteq> 0"
proof -
  obtain r1 B1 where k: "bulk_check env GetArrayRows B = (r1, B1)" by fastforce
  have c: "calm env B B1" by (rule silent_calm [OF plain_check [OF k]]) simp
  then have "calm env B (B1\<lparr>bk_max_rows := n\<rparr>)" for n by (rule calm_trans) simp
  with assms k c show "calm env B B'" "\<not> r \<Longrightarrow> bk_max_rows B' \<noteq> 0"
    by (auto simp: array_rows_def Let_def bulk_fail_def split: if_splits)
qed

lemma stream_begin_calm:
  assumes "stream_begin env B = (r, B')"
  shows "calm env B B'" "bk_max_rows B' = bk_max_rows B"
proof -
  have n: "calm env B (bulk_note ReportBegin B)" by (rule silent_calm) (simp add: plain_note)
  then have "calm env B ((bulk_note ReportBegin B)\<lparr>bk_started := True\<rparr>)" by (rule calm_trans) simp
  with n assms show "calm env B B'" by (auto simp: stream_begin_def split: if_splits option.splits)
  from assms show "bk_max_rows B' = bk_max_rows B"
    by (auto simp: stream_begin_def bulk_note_def bulk_raise_def split: if_splits option.splits)
qed

lemma calm_steps:
  assumes "bulk_seq fs B = (r, B')" "\<And>f B r B'. f \<in> set fs \<Longrightarrow> f B = (r, B') \<Longrightarrow> calm env B B'"
  shows "calm env B B'"
  by (rule bulk_seq_keeps [where P = "calm env B", OF assms(1) calm_refl]) (rule calm_trans [OF _ assms(2)])

lemma poll_calm: "bulk_poll env B = (r, B') \<Longrightarrow> calm env B B'"
  using poll_frame by (simp add: calm_def frame_def)

lemma check_calm: "bulk_check env c B = (r, B') \<Longrightarrow> plain_call c \<Longrightarrow> calm env B B'"
  by (rule silent_calm [OF plain_check])

lemma setup_ready:
  assumes "bulk_seq (direct_path_setup env info parallel nolog bufsize columns) B = (False, B')"
    "bk_columns B = columns" "length columns \<le> 65535" "\<not> bk_used B"
  shows "ready env B'" "sv_loaded (server_of env B') = []" "sv_table (server_of env B') = sv_table (server_of env B)"
    "bk_prepared B'" "bk_max_rows B' \<noteq> 0" "bk_columns B' = columns"
proof -
  let ?alloc = "then_set (bulk_check env AllocCtx) (bk_ctx_update (\<lambda>_. True))"
  let ?A = "[bulk_check env (SetTableName (ti_name info))]
      @ (if ti_schema info \<noteq> [] then [bulk_check env (SetSchemaName (ti_schema info))] else [])
      @ [bulk_check env (SetNumRows QORE_ORACLE_DIRECT_PATH_ROWS)]"
  let ?cols = "bulk_check env (SetNumCols (word_of_nat (length columns)))"
  let ?C = "[bulk_check env (SetBufferSize bufsize), bulk_check env (SetParallel parallel), bulk_check env (SetNolog nolog),
        bulk_check env GetColumnList] @ map (\<lambda>(i, c). column_setup env i c) (zip [0..<length columns] columns) @ [bulk_poll env]"
  let ?prep = "then_set (bulk_check env DirPathPrepare) (bk_prepared_update (\<lambda>_. True))"
  let ?D = "[then_set (bulk_check env AllocArray) (bk_array_update (\<lambda>_. True)),
        then_set (bulk_check env AllocStream) (bk_stream_handle_update (\<lambda>_. True))]"
  have "direct_path_setup env info parallel nolog bufsize columns
      = ?alloc # (?A @ (?cols # (?C @ (?prep # (?D @ [array_rows env, stream_begin env])))))"
    by (simp add: direct_path_setup_def)
  with assms(1) have s: "bulk_seq (?alloc # (?A @ (?cols # (?C @ (?prep # (?D @ [array_rows env, stream_begin env])))))) B = (False, B')"
    by simp
  then obtain B1 where 1: "?alloc B = (False, B1)"
      "bulk_seq (?A @ (?cols # (?C @ (?prep # (?D @ [array_rows env, stream_begin env]))))) B1 = (False, B')"
    by (cases rule: bulk_seq_Cons_cases) simp_all
  from 1(2) obtain B2 where 2: "bulk_seq ?A B1 = (False, B2)"
      "bulk_seq (?cols # (?C @ (?prep # (?D @ [array_rows env, stream_begin env])))) B2 = (False, B')" by (rule bulk_seq_False)
  from 2(2) obtain B3 where 3: "?cols B2 = (False, B3)"
      "bulk_seq (?C @ (?prep # (?D @ [array_rows env, stream_begin env]))) B3 = (False, B')"
    by (cases rule: bulk_seq_Cons_cases) simp_all
  from 3(2) obtain B4 where 4: "bulk_seq ?C B3 = (False, B4)" "bulk_seq (?prep # (?D @ [array_rows env, stream_begin env])) B4 = (False, B')"
    by (rule bulk_seq_False)
  from 4(2) obtain B5 where 5: "?prep B4 = (False, B5)" "bulk_seq (?D @ [array_rows env, stream_begin env]) B5 = (False, B')"
    by (cases rule: bulk_seq_Cons_cases) simp_all
  from 5(2) obtain B6 where 6: "bulk_seq ?D B5 = (False, B6)" "bulk_seq [array_rows env, stream_begin env] B6 = (False, B')"
    by (rule bulk_seq_False)
  from 6(2) obtain B7 where 7: "array_rows env B6 = (False, B7)" "stream_begin env B7 = (False, B')"
    by (cases rule: bulk_seq_Cons_cases) simp_all
  obtain Ba where k: "bulk_check env AllocCtx B = (False, Ba)" "B1 = Ba\<lparr>bk_ctx := True\<rparr>"
    using 1(1) by (cases "bulk_check env AllocCtx B") (auto simp: then_set_def)
  have b1: "bk_columns B1 = columns" "\<not> bk_used B1" "sv_pending (server_of env B1) = []" "sv_loaded (server_of env B1) = []"
      "sv_table (server_of env B1) = sv_table (server_of env B)"
    using check_frame(1) [OF k(1)] check_effect [OF k(1)] k(2) assms(2,4) by (simp_all add: frame_def server_of_def)
  have c2: "calm env B1 B2" by (rule calm_steps [OF 2(1)]) (auto intro: check_calm split: if_splits)
  have b3: "sv_cols (server_of env B3) = length columns" "sv_pending (server_of env B3) = sv_pending (server_of env B2)"
      "sv_loaded (server_of env B3) = sv_loaded (server_of env B2)" "sv_table (server_of env B3) = sv_table (server_of env B2)"
      "bk_columns B3 = bk_columns B2" "bk_used B3 = bk_used B2"
    using check_frame(1) [OF 3(1)] check_effect [OF 3(1)] assms(3) by (simp_all add: frame_def unat_of_nat)
  have c4: "calm env B3 B4"
    by (rule calm_steps [OF 4(1)]) (auto intro: check_calm poll_calm silent_calm column_setup_silent dest!: set_zip_rightD)
  obtain Bb where k5: "bulk_check env DirPathPrepare B4 = (False, Bb)" "B5 = Bb\<lparr>bk_prepared := True\<rparr>"
    using 5(1) by (cases "bulk_check env DirPathPrepare B4") (auto simp: then_set_def)
  have c5: "calm env B4 B5" by (rule then_set_calm [OF 5(1)]) simp_all
  have c6: "calm env B5 B6" by (rule calm_steps [OF 6(1)]) (auto elim!: then_set_calm)
  note c7 = array_rows_calm [OF 7(1)] stream_begin_calm [OF 7(2)]
  have c: "calm env B3 B'" "calm env B5 B'" using c4 c5 c6 c7(1,3) calm_trans by blast+
  show "bk_prepared B'" using c(2) k5(2) by (simp add: calm_def)
  show "bk_max_rows B' \<noteq> 0" using c7(2,4) by simp
  show "bk_columns B' = columns" using c(1) b3(5) c2 b1(1) by (simp add: calm_def)
  show "sv_loaded (server_of env B') = []" "sv_table (server_of env B') = sv_table (server_of env B)" "ready env B'"
    using c(1) b3 c2 b1 by (simp_all add: calm_def ready_def)
qed

lemma ident_silent: "ident_loop env q a d n acc p B = (x, B') \<Longrightarrow> silent env B B'"
proof (induction env q a d n acc p B rule: ident_loop.induct)
  case (2 env q a d n acc c p B)
  obtain x B1 where k: "poll_every env n B = (x, B1)" by fastforce
  note s = silent_poll [OF k]
  from 2 k s show ?case by (auto split: if_splits intro: silent_trans [OF s])
qed simp

lemma parse_silent: "qoreOracleParseSimpleIdentifier env v q B = (x, B') \<Longrightarrow> silent env B B'"
  using ident_silent by (auto simp: qoreOracleParseSimpleIdentifier_def split: if_splits)

lemma index_silent: "index_columns env i cs m B = (x, B') \<Longrightarrow> silent env B B'"
proof (induction env i cs m B rule: index_columns.induct)
  case (2 env i c cs m B)
  obtain x B1 where k: "poll_every env i B = (x, B1)" by fastforce
  note s = silent_poll [OF k]
  from 2 k s show ?case by (auto simp: Let_def split: if_splits intro: silent_trans [OF s])
qed simp

text \<open>Describing the columns only adds them, one for every name.\<close>

lemma describe_columns_adds:
  assumes "describe_columns env info md vs used B = (BulkOk, B')"
  shows "server_of env B' = server_of env B \<and> bk_used B' = bk_used B \<and> length (bk_columns B') = length (bk_columns B) + length vs"
  using assms
proof (induction env info md vs used B rule: describe_columns.induct)
  case (2 env info md v vs used B)
  obtain x B1 where k: "poll_every env (length (bk_columns B)) B = (x, B1)" by fastforce
  note s = silent_poll [OF k]
  from "2.prems" k obtain n e where v: "\<not> x" "v = QString n e"
    by (cases v) (auto simp: rc_fail_def split: if_splits)
  obtain y B2 where q: "qoreOracleParseSimpleIdentifier env (c_str n) False B1 = (y, B2)" by fastforce
  note s2 = parse_silent [OF q]
  from "2.prems" k v q obtain m i c where y: "y = Some m" "map_of md m = Some i" "i \<notin> set used" "bulk_column_of n (ti_cols info ! i) = Some c"
      and d: "describe_columns env info md vs (i # used) (B2\<lparr>bk_columns := bk_columns B2 @ [c]\<rparr>) = (BulkOk, B')"
    by (auto simp: rc_fail_def refused_def split: option.splits if_splits)
  have "server_of env (B2\<lparr>bk_columns := bk_columns B2 @ [c]\<rparr>) = server_of env B2" by (simp add: server_of_def)
  with "2.IH" [OF k [symmetric] refl v q [symmetric] y d] s s2 show ?case by (simp add: silent_def frame_def)
qed simp

lemma initialize_ready:
  assumes "initialize env table columns parallel nolog bufsize B = (BulkOk, B')" "bk_columns B = []" "\<not> bk_used B"
  shows "ready env B'" "sv_loaded (server_of env B') = []" "sv_table (server_of env B') = sv_table (server_of env B)"
    "bk_prepared B'" "bk_max_rows B' \<noteq> 0"
proof -
  obtain x B1 where p: "qoreOracleParseSimpleIdentifier env (c_str table) True B = (x, B1)" by fastforce
  let ?B2 = "bulk_note (DescribeTable (c_str table)) B1"
  from assms(1) p obtain info where i: "x \<noteq> None" "length columns \<le> 65535" "dpe_type_info env (c_str table) = Inr (Some info)"
    by (auto simp: initialize_def Let_def refused_def rc_fail_def split: option.splits if_splits sum.splits)
  obtain md B3 where ix: "index_columns env 0 (ti_cols info) [] ?B2 = (md, B3)" by fastforce
  from assms(1) p i ix obtain m where m: "md = Some m"
    by (auto simp: initialize_def Let_def split: option.splits if_splits)
  obtain rc B4 where d: "describe_columns env info m columns [] B3 = (rc, B4)" by fastforce
  from assms(1) p i ix m d have rc: "rc = BulkOk" by (cases rc) (auto simp: initialize_def Let_def)
  obtain r B5 where q: "bulk_seq (direct_path_setup env info parallel nolog bufsize (bk_columns B4)) B4 = (r, B5)" by fastforce
  from assms(1) p i ix m d rc q have r: "\<not> r" "B5 = B'" by (auto simp: initialize_def Let_def split: if_splits)
  have "silent env B ?B2" using parse_silent [OF p] by (simp add: plain_note)
  then have s: "silent env B B3" by (rule silent_trans [OF _ index_silent [OF ix]])
  have a: "server_of env B4 = server_of env B" "\<not> bk_used B4" "length (bk_columns B4) \<le> 65535"
    using describe_columns_adds [OF d [unfolded rc]] s assms(2,3) i(2) by (simp_all add: silent_def frame_def)
  have q': "bulk_seq (direct_path_setup env info parallel nolog bufsize (bk_columns B4)) B4 = (False, B')" using q r by simp
  from setup_ready [OF q' refl a(3,2)] a(1) show "ready env B'" "sv_loaded (server_of env B') = []"
    "sv_table (server_of env B') = sv_table (server_of env B)" "bk_prepared B'" "bk_max_rows B' \<noteq> 0" by simp_all
qed

lemma begin_ready:
  assumes "bulkLoadBegin env table columns options B = (BulkOk, B')"
  shows "ready env B'" "sv_loaded (server_of env B') = []" "sv_table (server_of env B') = sv_table (server_of env B)"
    "bk_prepared B'" "bk_max_rows B' \<noteq> 0" "bk_active B'"
proof -
  from assms obtain st par nolog bufsize B1 where o: "bulk_options options = Inr (st, par, nolog, bufsize)"
      "initialize env table columns par nolog bufsize (new_load env st B) = (BulkOk, B1)" "B' = B1\<lparr>bk_active := True\<rparr>"
    by (auto simp: bulkLoadBegin_def rc_fail_def split: if_splits sum.splits prod.splits bulk_rc.splits)
  from initialize_ready [OF o(2)] o(3)
  show "ready env B'" "sv_loaded (server_of env B') = []" "sv_table (server_of env B') = sv_table (server_of env B)"
    "bk_prepared B'" "bk_max_rows B' \<noteq> 0" "bk_active B'"
    by (simp_all add: new_load_def ready_def server_of_def)
qed

section \<open>A whole load\<close>

lemma blocks_sent:
  assumes "bulk_seq (map (bulkLoadRows env) blocks) B = (r, B')" "ready env B" "bk_max_rows B \<noteq> 0" "bk_active B"
  shows "\<exists>cells m. sent env B B' (take m (concat cells)) \<and> list_all2 (block_cells env (bk_columns B)) (take (length cells) blocks) cells
    \<and> (\<not> r \<longrightarrow> length cells = length blocks \<and> m = length (concat cells))"
  using assms
proof (induction blocks arbitrary: B)
  case Nil
  then show ?case by (intro exI [of _ "[]"] exI [of _ 0]) (simp add: sent_def)
next
  case (Cons b blocks)
  from Cons.prems(1) have "bulk_seq (bulkLoadRows env b # map (bulkLoadRows env) blocks) B = (r, B')" by simp
  then show ?case
  proof (cases rule: bulk_seq_Cons_cases)
    case failed
    then have "loadRows env b B = (True, B')" using Cons.prems(4) by (simp add: bulkLoadRows_def)
    from loadRows_sent [OF this Cons.prems(2,3)] obtain cells m where
      c: "sent env B B' (take m cells)" "m = 0 \<or> block_cells env (bk_columns B) b cells" by blast
    show ?thesis
    proof (cases "m = 0")
      case True
      with c(1) failed(2) show ?thesis by (intro exI [of _ "[]"] exI [of _ 0]) simp
    next
      case False
      with c failed(2) show ?thesis by (intro exI [of _ "[cells]"] exI [of _ m]) simp
    qed
  next
    case (passed B1)
    then have "loadRows env b B = (False, B1)" using Cons.prems(4) by (simp add: bulkLoadRows_def)
    from loadRows_sent [OF this Cons.prems(2,3)] obtain cells where
      c: "sent env B B1 cells" "block_cells env (bk_columns B) b cells" "ready env B1" by auto
    have f: "bk_max_rows B1 \<noteq> 0" "bk_active B1" "bk_columns B1 = bk_columns B" using c(1) Cons.prems(3,4) by (simp_all add: sent_def)
    from Cons.IH [OF passed(2) c(3) f(1,2)] obtain cs m where
      i: "sent env B1 B' (take m (concat cs))" "list_all2 (block_cells env (bk_columns B)) (take (length cs) blocks) cs"
        "\<not> r \<longrightarrow> length cs = length blocks \<and> m = length (concat cs)" unfolding f(3) by blast
    from sent_trans [OF c(1) i(1)] i(2,3) c(2) show ?thesis
      by (intro exI [of _ "cells # cs"] exI [of _ "length cells + m"]) simp
  qed
qed

lemma server_flags [simp]: "server_of env (B\<lparr>bk_stream_handle := x\<rparr>) = server_of env B" "server_of env (B\<lparr>bk_array := x\<rparr>) = server_of env B"
    "server_of env (B\<lparr>bk_ctx := x\<rparr>) = server_of env B" "server_of env (B\<lparr>bk_prepared := x\<rparr>) = server_of env B"
    "server_of env (B\<lparr>bk_started := x\<rparr>) = server_of env B" "server_of env (B\<lparr>bk_ok := x\<rparr>) = server_of env B"
    "server_of env (B\<lparr>bk_active := x\<rparr>) = server_of env B"
  by (simp_all add: server_of_def)

lemma destroyed_server: "\<not> bk_prepared B \<Longrightarrow> server_of env (destroy_load B) = server_of env B"
  by (simp add: destroy_load_def freeHandles_def Let_def)

lemma finish_server:
  assumes "stream_finish env ok B = (r, B')"
  shows "server_of env B' = server_of env B" "bk_prepared B' = bk_prepared B"
proof -
  have "server_of env (snd (stream_finish env ok B)) = server_of env B \<and> bk_prepared (snd (stream_finish env ok B)) = bk_prepared B"
    by (simp add: stream_finish_def Let_def bulk_note_def bulk_raise_def server_of_def server_run_snoc split: option.split)
  with assms show "server_of env B' = server_of env B" "bk_prepared B' = bk_prepared B" by simp_all
qed

text \<open>Ending a load: its rows are in the table or not at all.\<close>

lemma end_server:
  assumes "bulkLoadEnd env success B = (r, B')" "bk_active B" "bk_prepared B"
  shows "sv_table (server_of env B') = sv_table (server_of env B)
      \<or> success \<and> sv_table (server_of env B') = sv_table (server_of env B) @ sv_loaded (server_of env B)"
    "\<not> r \<Longrightarrow> success \<Longrightarrow> sv_table (server_of env B') = sv_table (server_of env B) @ sv_loaded (server_of env B)"
proof -
  let ?B = "B\<lparr>bk_active := False\<rparr>"
  obtain c Ba where p: "bulk_poll env ?B = (c, Ba)" by fastforce
  define success' where "success' = (success \<and> \<not> c)"
  obtain rc Bb where k: "bulk_check env (if success' then DirPathFinish else DirPathAbort) Ba = (rc, Bb)" by fastforce
  define B1 where "B1 = (if rc \<and> success' then bulk_note DirPathAbort (Bb\<lparr>bk_prepared := False\<rparr>) else Bb\<lparr>bk_prepared := False\<rparr>)"
  obtain r2 B2 where f: "stream_finish env (success' \<and> (\<not> c \<and> \<not> rc)) B1 = (r2, B2)" by fastforce
  have t: "terminate env success ?B = (\<not> ((\<not> c \<and> \<not> rc) \<and> \<not> r2 \<and> bk_sink B2 = []), B2)"
    using p k f assms(3) by (simp add: terminate_def Let_def success'_def [symmetric] B1_def [symmetric]) blast
  have B': "B' = destroy_load B2" "\<not> r \<longrightarrow> \<not> c \<and> \<not> rc" using assms(1,2) t by (auto simp: bulkLoadEnd_def)
  have "\<not> bk_prepared B1" by (simp add: B1_def bulk_note_def)
  then have s: "server_of env B' = server_of env B1" using B'(1) finish_server [OF f] by (simp add: destroyed_server)
  have a: "server_of env Ba = server_of env B" using poll_frame(3) [OF p] by simp
  have tb: "sv_table (server_of env B1) = (if success' \<and> \<not> rc then sv_table (server_of env B) @ sv_loaded (server_of env B)
      else sv_table (server_of env B))"
    using check_effect [OF k] a by (auto simp: B1_def)
  show "sv_table (server_of env B') = sv_table (server_of env B)
      \<or> success \<and> sv_table (server_of env B') = sv_table (server_of env B) @ sv_loaded (server_of env B)"
    using tb s by (simp add: success'_def)
  assume "\<not> r" "success"
  with tb s B'(2) show "sv_table (server_of env B') = sv_table (server_of env B) @ sv_loaded (server_of env B)"
    by (simp add: success'_def)
qed

lemma whole_load:
  assumes "bulkLoadBegin env table columns options B = (BulkOk, B1)" "bulk_seq (map (bulkLoadRows env) blocks) B1 = (r, B2)"
    "bulkLoadEnd env success B2 = (r', B3)"
  shows "\<exists>cells m. list_all2 (block_cells env (bk_columns B1)) (take (length cells) blocks) cells
    \<and> (\<not> r \<longrightarrow> length cells = length blocks \<and> m = length (concat cells))
    \<and> (sv_table (server_of env B3) = sv_table (server_of env B)
       \<or> success \<and> sv_table (server_of env B3) = sv_table (server_of env B) @ take m (concat cells))
    \<and> (success \<and> \<not> r' \<longrightarrow> sv_table (server_of env B3) = sv_table (server_of env B) @ take m (concat cells))"
proof -
  note b = begin_ready [OF assms(1)]
  from blocks_sent [OF assms(2) b(1,5,6)] obtain cells m where
    c: "sent env B1 B2 (take m (concat cells))" "list_all2 (block_cells env (bk_columns B1)) (take (length cells) blocks) cells"
      "\<not> r \<longrightarrow> length cells = length blocks \<and> m = length (concat cells)" by blast
  have a: "bk_active B2" "bk_prepared B2" "sv_table (server_of env B2) = sv_table (server_of env B)"
      "sv_loaded (server_of env B2) = take m (concat cells)"
    using c(1) b by (simp_all add: sent_def)
  from end_server [OF assms(3) a(1,2)] a(3,4) c(2,3) show ?thesis by (intro exI [of _ cells] exI [of _ m]) auto
qed

text \<open>C6: The rows that a load puts into the table are those of its blocks, row by row and in order,
  every cell the text of its value.  A load of which nothing failed puts all of them there when it
  is ended with success; if a block fails the rows before the failure are at most there; and a load
  that is ended without success, or whose end fails, puts nothing or all it has sent.  This holds
  however the server splits the conversion of the rows.
\<close>

theorem bulk_rows_in_order:
  assumes "bulkLoadBegin env table columns options B = (BulkOk, B1)" "bulk_seq (map (bulkLoadRows env) blocks) B1 = (r, B2)"
    "bulkLoadEnd env success B2 = (r', B3)"
  shows "\<exists>cells m. list_all2 (block_cells env (bk_columns B1)) (take (length cells) blocks) cells
    \<and> (\<not> r \<longrightarrow> length cells = length blocks \<and> m = length (concat cells))
    \<and> (sv_table (server_of env B3) = sv_table (server_of env B)
       \<or> success \<and> sv_table (server_of env B3) = sv_table (server_of env B) @ take m (concat cells))
    \<and> (success \<and> \<not> r' \<longrightarrow> sv_table (server_of env B3) = sv_table (server_of env B) @ take m (concat cells))"
  using assms by (rule whole_load)

section \<open>Witnesses\<close>

text \<open>Three rows in a column array for two.\<close>

definition sample_type_info :: type_info where
  "sample_type_info = \<lparr>ti_name = ''T'', ti_schema = ''S'', ti_cols =
     [\<lparr>oc_name = ''ID'', oc_type = CDT_NUMERIC, oc_ocode = SQLT_NUM, oc_size = 22, oc_prec = 10, oc_scale = 0\<rparr>,
      \<lparr>oc_name = ''NAME'', oc_type = CDT_TEXT, oc_ocode = SQLT_CHR, oc_size = 20, oc_prec = 0, oc_scale = 0\<rparr>]\<rparr>"

definition sample_bulk_env :: bulk_env where
  "sample_bulk_env = \<lparr>dpe_cancel = (\<lambda>k. None), dpe_status = (\<lambda>k. OCI_SUCCESS), dpe_error = (\<lambda>k. path_error ''failed''),
     dpe_count = (\<lambda>k. 2), dpe_report = (\<lambda>k. None), dpe_observer = True, dpe_type_info = (\<lambda>t. Inr (Some sample_type_info)),
     dpe_text = (\<lambda>v. case v of QInt i \<Rightarrow> Inr (show_int i) | QString s e \<Rightarrow> Inr s | _ \<Rightarrow> Inl (path_error ''text'')),
     dpe_fields = (\<lambda>d. case d of AbsDate z f \<Rightarrow> f | RelDate f \<Rightarrow> f)\<rparr>"

definition sample_bulk :: bulk where
  "sample_bulk = \<lparr>bk_calls = [], bk_polls = 0, bk_sink = [], bk_active = False, bk_ctx = False, bk_array = False,
     bk_stream_handle = False, bk_columns = [], bk_max_rows = 0, bk_prepared = False, bk_used = False, bk_observed = False,
     bk_started = False, bk_ok = True, bk_consumed = 0, bk_reported = 0\<rparr>"

definition sample_block :: "qval ohash" where
  "sample_block = [(''id'', QList [QInt 7, QInt 8, QInt 9]), (''name'', QString ''x'' ''UTF-8'')]"

definition sample_begun :: "bulk_rc \<times> bulk" where
  "sample_begun = bulkLoadBegin sample_bulk_env ''t'' [QString ''id'' ''UTF-8'', QString ''name'' ''UTF-8''] None sample_bulk"

definition sample_fed :: "bool \<times> bulk" where
  "sample_fed = bulk_seq (map (bulkLoadRows sample_bulk_env) [sample_block]) (snd sample_begun)"

definition sample_ended :: "bool \<times> bulk" where
  "sample_ended = bulkLoadEnd sample_bulk_env True (snd sample_fed)"

lemma sample_begins: "fst sample_begun = BulkOk"
  by code_simp

lemma sample_feeds: "\<not> fst sample_fed"
  by code_simp

lemma sample_ends: "\<not> fst sample_ended"
  by code_simp

lemma bulk_rows_in_order_witness:
  "\<exists>cells. block_cells sample_bulk_env (bk_columns (snd sample_begun)) sample_block cells
     \<and> sv_table (server_of sample_bulk_env (snd sample_ended)) = cells"
proof -
  have b: "bulkLoadBegin sample_bulk_env ''t'' [QString ''id'' ''UTF-8'', QString ''name'' ''UTF-8''] None sample_bulk
      = (BulkOk, snd sample_begun)"
    by (intro prod_eqI) (use sample_begins in \<open>simp_all add: sample_begun_def\<close>)
  have f: "bulk_seq (map (bulkLoadRows sample_bulk_env) [sample_block]) (snd sample_begun) = (False, snd sample_fed)"
    by (intro prod_eqI) (use sample_feeds in \<open>simp_all add: sample_fed_def\<close>)
  have e: "bulkLoadEnd sample_bulk_env True (snd sample_fed) = (False, snd sample_ended)"
    by (intro prod_eqI) (use sample_ends in \<open>simp_all add: sample_ended_def\<close>)
  have t: "sv_table (server_of sample_bulk_env sample_bulk) = []"
    by (simp add: server_of_def sample_bulk_def server_init_def)
  from bulk_rows_in_order [OF b f e] t show ?thesis by (auto simp: length_Suc_conv)
qed

end
