(* ===== verification/Open_Close.thy ===== *)
theory Open_Close
  imports Calls Direct_Path
begin

text \<open>
  Opening and closing a connection (oracle.cpp, QoreOracleConnection.h, QoreOracleConnection.cpp):
  the checks of the datasource, the environments and handles of the Oracle client, the logon, the
  OCILIB support handle, and what the destructor of the connection gives back.
\<close>

section \<open>The connection\<close>

record datasource =
  ds_user :: "string option"
  ds_pass :: "string option"
  ds_dbname :: "string option"
  ds_host :: "string option"
  ds_port :: int
  ds_dbencoding :: "string option"
  ds_qore_encoding :: string

datatype conn_handle = HError | HService | HServer | HSession

text \<open>
  The calls, in order: those of the session (\<open>OraCall\<close>) are the ones the connection makes itself.
  The name of a character set is looked up in a temporary environment (\<open>TmpEnvCreate\<close>,
  \<open>TmpEnvFree\<close>).
\<close>

datatype open_call =
    TmpEnvCreate
  | TmpEnvFree
  | CharSetNameToId string
  | NameMapToOracle string
  | NameMapToQore string
  | EnvNlsCreate nat
  | EnvFree
  | HandleAlloc conn_handle
  | HandleFree conn_handle
  | OraCall ora_call
  | LibInit
  | LibCleanup
  | ListCreate
  | ListClear
  | ListFree

text \<open>
  The answers: whether a call at its place succeeds, the character sets the client knows (0 for
  none) and their names, and the name of the default encoding.
\<close>

record open_env =
  oe_ok :: "nat \<Rightarrow> bool"
  oe_charset :: "string \<Rightarrow> nat"
  oe_to_oracle :: "string \<Rightarrow> string option"
  oe_to_qore :: "string \<Rightarrow> string option"
  oe_default_encoding :: string
  oe_ora :: ora_env
  oe_bulk :: bulk_env

text \<open>The handles that are not null; \<open>cn_ora\<close> is the rest of the connection, with the exceptions.\<close>

record conn =
  cn_calls :: "open_call list"
  cn_ds :: datasource
  cn_env :: bool
  cn_handles :: "conn_handle set"
  cn_ocilib_cn :: bool
  cn_ocilib_init :: bool
  cn_charsetid :: nat
  cn_ora :: ora_state
  cn_bulk :: bulk

type_synonym conn_step = "conn \<Rightarrow> bool \<times> conn"

abbreviation cn_sink :: "conn \<Rightarrow> sink" where
  "cn_sink C \<equiv> os_sink (cn_ora C)"

definition conn_note :: "open_call \<Rightarrow> conn \<Rightarrow> conn" where
  "conn_note c C = C\<lparr>cn_calls := cn_calls C @ [c]\<rparr>"

definition conn_raise :: "string \<Rightarrow> string \<Rightarrow> conn_step" where
  "conn_raise code what C = (True, C\<lparr>cn_ora := raise_exn (Exn code what) (cn_ora C)\<rparr>)"

definition conn_ok :: "open_env \<Rightarrow> conn \<Rightarrow> bool" where
  "conn_ok env C = oe_ok env (length (cn_calls C))"

fun conn_steps :: "conn_step list \<Rightarrow> conn_step" where
  "conn_steps [] C = (False, C)"
| "conn_steps (f # fs) C = (let (r, C1) = f C in if r then (True, C1) else conn_steps fs C1)"

text \<open>A step of the session: its calls are those of the connection.\<close>

definition with_ora :: "(ora_state \<Rightarrow> bool \<times> ora_state) \<Rightarrow> conn_step" where
  "with_ora f C =
     (let (r, S) = f (cn_ora C)
      in (r, C\<lparr>cn_ora := S, cn_calls := cn_calls C @ map OraCall (new_calls (cn_ora C) S)\<rparr>))"

section \<open>Opening\<close>

text \<open>
  The number of the character set.  The result of creating the temporary environment is not
  looked at; its destructor frees it if there is one.
\<close>

definition find_charset :: "open_env \<Rightarrow> conn_step" where
  "find_charset env C =
     (let C1 = conn_note TmpEnvCreate C; tmp = conn_ok env C; free = (\<lambda>C. if tmp then conn_note TmpEnvFree C else C)
      in case ds_dbencoding (cn_ds C) of
           Some e \<Rightarrow> (False, free ((conn_note (CharSetNameToId e) C1)\<lparr>cn_charsetid := oe_charset env e\<rparr>))
         | None \<Rightarrow>
             let C2 = conn_note (NameMapToOracle (oe_default_encoding env)) C1
             in case oe_to_oracle env (oe_default_encoding env) of
                  None \<Rightarrow>
                    (let (r, C3) = conn_raise ''DBI:ORACLE:UNKNOWN-CHARACTER-ENCODING'' ''cannot map default OS encoding'' C2
                     in (r, free C3))
                | Some e \<Rightarrow>
                    (False, free ((conn_note (CharSetNameToId e) C2)\<lparr>cn_charsetid := oe_charset env e,
                       cn_ds := (cn_ds C)\<lparr>ds_dbencoding := Some e, ds_qore_encoding := oe_default_encoding env\<rparr>\<rparr>)))"

definition create_env :: "open_env \<Rightarrow> conn_step" where
  "create_env env C =
     (if cn_charsetid C = 0
      then conn_raise ''DBI:ORACLE:UNKNOWN-CHARACTER-ENCODING'' ''this installation of Oracle does not support the character encoding'' C
      else let C1 = conn_note (EnvNlsCreate (cn_charsetid C)) C
           in if conn_ok env C then (False, C1\<lparr>cn_env := True\<rparr>)
              else conn_raise ''DBI:ORACLE:OPEN-ERROR'' ''error creating new environment handle'' C1)"

text \<open>An encoding that was given is mapped to one of Qore.\<close>

definition map_encoding :: "open_env \<Rightarrow> bool \<Rightarrow> conn_step" where
  "map_encoding env set_charset C =
     (if \<not> set_charset then (False, C)
      else let e = (case ds_dbencoding (cn_ds C) of Some e \<Rightarrow> e | None \<Rightarrow> []); C1 = conn_note (NameMapToQore e) C
           in case oe_to_qore env e of
                Some q \<Rightarrow> (False, C1\<lparr>cn_ds := (cn_ds C)\<lparr>ds_qore_encoding := q\<rparr>\<rparr>)
              | None \<Rightarrow> conn_raise ''DBI:ORACLE:OPEN-ERROR'' ''error mapping Oracle character encoding'' C1)"

definition alloc_handle :: "open_env \<Rightarrow> conn_handle \<Rightarrow> string \<Rightarrow> conn_step" where
  "alloc_handle env h what C =
     (let C1 = conn_note (HandleAlloc h) C
      in if conn_ok env C then (False, C1\<lparr>cn_handles := insert h (cn_handles C)\<rparr>)
         else conn_raise ''DBI:ORACLE:OPEN-ERROR'' what C1)"

definition log_in :: "open_env \<Rightarrow> conn_step" where
  "log_in env = with_ora (\<lambda>S.
     let (r, S1) = logon (oe_ora env) (clearWarnings (oe_ora env) S)
     in (r, if r then S1 else clearWarnings (oe_ora env) S1))"

definition init_ocilib :: "open_env \<Rightarrow> conn_step" where
  "init_ocilib env C =
     (let C1 = conn_note LibInit C
      in if conn_ok env C then (False, (conn_note ListCreate C1)\<lparr>cn_ocilib_init := True, cn_ocilib_cn := True\<rparr>)
         else conn_raise ''DBI:ORACLE:OPEN-ERROR'' ''failed to allocate OCILIB support handlers'' C1)"

text \<open>A new connection: nothing is allocated, and no attribute of the session is known.\<close>

definition new_conn :: "datasource \<Rightarrow> ora_state \<Rightarrow> bulk \<Rightarrow> conn" where
  "new_conn ds S B = \<lparr>cn_calls = [], cn_ds = ds, cn_env = False, cn_handles = {}, cn_ocilib_cn = False, cn_ocilib_init = False,
     cn_charsetid = 0,
     cn_ora = S\<lparr>os_lost := False, os_in_logon := False, os_depth := 0, os_abort_pending := False, os_reg := [],
       os_session := (os_session S)\<lparr>sa_known := False\<rparr>, os_options := conn_options_init\<rparr>,
     cn_bulk = B\<lparr>bk_active := False\<rparr>\<rparr>"

definition opening_steps :: "open_env \<Rightarrow> bool \<Rightarrow> conn_step list" where
  "opening_steps env set_charset =
     [find_charset env, create_env env, map_encoding env set_charset,
      alloc_handle env HError ''failed to allocate error handle for connection'',
      alloc_handle env HService ''failed to allocate service handle for connection'',
      alloc_handle env HServer ''failed to allocate server handle for connection'',
      alloc_handle env HSession ''failed to allocate session handle for connection'',
      log_in env, init_ocilib env]"

definition QoreOracleConnection :: "open_env \<Rightarrow> conn_step" where
  "QoreOracleConnection env C = conn_steps (opening_steps env (ds_dbencoding (cn_ds C) \<noteq> None)) C"

section \<open>Closing\<close>

definition conn_logoff :: "conn_step" where
  "conn_logoff C = with_ora (\<lambda>S. (False, logoff S)) (if cn_ocilib_cn C then conn_note ListClear C else C)"

definition free_handle_of :: "conn_handle \<Rightarrow> conn \<Rightarrow> conn" where
  "free_handle_of h C = (if h \<in> cn_handles C then conn_note (HandleFree h) C else C)"

text \<open>
  The destructor; in a child of \<open>fork\<close> nothing is freed.  Errors while a bulk load is aborted go
  to no one.
\<close>

definition destroy_conn :: "open_env \<Rightarrow> bool \<Rightarrow> conn \<Rightarrow> conn" where
  "destroy_conn env forked C =
     (if forked then C\<lparr>cn_env := False\<rparr>
      else
        (let C1 = (if bk_active (cn_bulk C) then C\<lparr>cn_bulk := snd (bulkLoadEnd (oe_bulk env) False (cn_bulk C))\<rparr> else C);
             C2 = (if HService \<in> cn_handles C1 then snd (conn_logoff C1) else C1);
             C3 = (if cn_ocilib_cn C2 then conn_note ListFree C2 else C2);
             C4 = (if cn_ocilib_init C3 then conn_note LibCleanup C3 else C3);
             C5 = free_handle_of HService (free_handle_of HSession (free_handle_of HServer (free_handle_of HError C4)))
         in if cn_env C5 then conn_note EnvFree C5 else C5))"

definition oracle_open :: "open_env \<Rightarrow> datasource \<Rightarrow> conn_step" where
  "oracle_open env ds C =
     (if ds_user ds = None then conn_raise ''DATASOURCE-MISSING-USERNAME'' ''empty username parameter'' C
      else if ds_pass ds = None then conn_raise ''DATASOURCE-MISSING-PASSWORD'' ''empty password parameter'' C
      else if ds_dbname ds = None then conn_raise ''DATASOURCE-MISSING-DBNAME'' ''empty dbname parameter'' C
      else if ds_port ds \<noteq> 0 \<and> ds_host ds = None then conn_raise ''DATASOURCE-MISSING-HOSTNAME'' ''no hostname is set'' C
      else if ds_port ds = 0 \<and> ds_host ds \<noteq> None then conn_raise ''DATASOURCE-MISSING-PORT'' ''no port is set'' C
      else
        (let (r, C1) = QoreOracleConnection env (new_conn ds (cn_ora C) (cn_bulk C))
         in if cn_sink C1 \<noteq> [] then (True, destroy_conn env False C1)
            else (False, C1\<lparr>cn_ora := (cn_ora C1)\<lparr>os_open := True\<rparr>\<rparr>)))"

definition oracle_close :: "open_env \<Rightarrow> bool \<Rightarrow> conn \<Rightarrow> conn" where
  "oracle_close env forked C =
     (let C1 = destroy_conn env forked C in C1\<lparr>cn_ora := (cn_ora C1)\<lparr>os_open := False\<rparr>\<rparr>)"

section \<open>What is held\<close>

datatype conn_resource = ResTmpEnv | ResEnv | ResHandle conn_handle | ResLib | ResList

definition four_handles :: "conn_handle set" where
  "four_handles = {HError, HService, HServer, HSession}"

fun res_gets :: "open_call \<Rightarrow> conn_resource set" where
  "res_gets TmpEnvCreate = {ResTmpEnv}"
| "res_gets (EnvNlsCreate n) = {ResEnv}"
| "res_gets (HandleAlloc h) = {ResHandle h}"
| "res_gets LibInit = {ResLib}"
| "res_gets ListCreate = {ResList}"
| "res_gets _ = {}"

fun res_frees :: "open_call \<Rightarrow> conn_resource set" where
  "res_frees TmpEnvFree = {ResTmpEnv}"
| "res_frees EnvFree = {ResEnv}"
| "res_frees (HandleFree h) = {ResHandle h}"
| "res_frees LibCleanup = {ResLib}"
| "res_frees ListFree = {ResList}"
| "res_frees _ = {}"

text \<open>What a call works with; a call of the session has all handles.\<close>

fun res_needs :: "open_call \<Rightarrow> conn_resource set" where
  "res_needs (CharSetNameToId e) = {ResTmpEnv}"
| "res_needs (NameMapToOracle e) = {ResTmpEnv}"
| "res_needs (NameMapToQore e) = {ResEnv}"
| "res_needs (HandleAlloc h) = {ResEnv}"
| "res_needs (OraCall c) = insert ResEnv (ResHandle ` four_handles)"
| "res_needs LibInit = {ResEnv, ResHandle HError}"
| "res_needs ListCreate = {ResLib}"
| "res_needs ListClear = {ResList}"
| "res_needs c = res_frees c"

text \<open>Creating the list of OCILIB does not fail.\<close>

definition res_step :: "open_env \<Rightarrow> nat \<Rightarrow> open_call \<Rightarrow> conn_resource set \<Rightarrow> conn_resource set" where
  "res_step env k c L = (L \<union> (if oe_ok env k \<or> c = ListCreate then res_gets c else {})) - res_frees c"

lemma res_step_simps [simp]:
  "res_step env k TmpEnvCreate L = (if oe_ok env k then insert ResTmpEnv L else L)"
  "res_step env k TmpEnvFree L = L - {ResTmpEnv}"
  "res_step env k (CharSetNameToId e) L = L"
  "res_step env k (NameMapToOracle e) L = L"
  "res_step env k (NameMapToQore e) L = L"
  "res_step env k (EnvNlsCreate n) L = (if oe_ok env k then insert ResEnv L else L)"
  "res_step env k EnvFree L = L - {ResEnv}"
  "res_step env k (HandleAlloc h) L = (if oe_ok env k then insert (ResHandle h) L else L)"
  "res_step env k (HandleFree h) L = L - {ResHandle h}"
  "res_step env k (OraCall c) L = L"
  "res_step env k LibInit L = (if oe_ok env k then insert ResLib L else L)"
  "res_step env k LibCleanup L = L - {ResLib}"
  "res_step env k ListCreate L = insert ResList L"
  "res_step env k ListClear L = L"
  "res_step env k ListFree L = L - {ResList}"
  by (simp_all add: res_step_def)

fun res_after :: "open_env \<Rightarrow> nat \<Rightarrow> open_call list \<Rightarrow> conn_resource set \<Rightarrow> conn_resource set" where
  "res_after env k [] L = L"
| "res_after env k (c # cs) L = res_after env (Suc k) cs (res_step env k c L)"

text \<open>Every call has what it works with, and gets nothing that is there already.\<close>

fun res_proper :: "open_env \<Rightarrow> nat \<Rightarrow> open_call list \<Rightarrow> conn_resource set \<Rightarrow> bool" where
  "res_proper env k [] L \<longleftrightarrow> True"
| "res_proper env k (c # cs) L \<longleftrightarrow> res_needs c \<subseteq> L \<and> res_gets c \<inter> L = {} \<and> res_proper env (Suc k) cs (res_step env k c L)"

definition held_by :: "open_env \<Rightarrow> conn \<Rightarrow> conn_resource set" where
  "held_by env C = res_after env 0 (cn_calls C) {}"

definition properly :: "open_env \<Rightarrow> conn \<Rightarrow> bool" where
  "properly env C \<longleftrightarrow> res_proper env 0 (cn_calls C) {}"

lemma res_after_append: "res_after env k (xs @ ys) L = res_after env (k + length xs) ys (res_after env k xs L)"
  by (induction xs arbitrary: k L) simp_all

lemma res_proper_append:
  "res_proper env k (xs @ ys) L \<longleftrightarrow> res_proper env k xs L \<and> res_proper env (k + length xs) ys (res_after env k xs L)"
  by (induction xs arbitrary: k L) simp_all

lemma res_ora: "res_after env k (map OraCall cs) L = L"
    "res_proper env k (map OraCall cs) L \<longleftrightarrow> cs = [] \<or> insert ResEnv (ResHandle ` four_handles) \<subseteq> L"
proof -
  show "res_after env k (map OraCall cs) L = L" by (induction cs arbitrary: k) simp_all
  show "res_proper env k (map OraCall cs) L \<longleftrightarrow> cs = [] \<or> insert ResEnv (ResHandle ` four_handles) \<subseteq> L"
    by (induction cs arbitrary: k) auto
qed

lemma held_note [simp]: "held_by env (conn_note c C) = res_step env (length (cn_calls C)) c (held_by env C)"
  by (simp add: held_by_def conn_note_def res_after_append)

lemma properly_note [simp]:
  "properly env (conn_note c C) \<longleftrightarrow> properly env C \<and> res_needs c \<subseteq> held_by env C \<and> res_gets c \<inter> held_by env C = {}"
  by (simp add: properly_def held_by_def conn_note_def res_proper_append)

lemma held_updates [simp]:
  "held_by env (C\<lparr>cn_ora := S\<rparr>) = held_by env C" "held_by env (C\<lparr>cn_ds := d\<rparr>) = held_by env C"
  "held_by env (C\<lparr>cn_charsetid := n\<rparr>) = held_by env C" "held_by env (C\<lparr>cn_env := b\<rparr>) = held_by env C"
  "held_by env (C\<lparr>cn_handles := h\<rparr>) = held_by env C" "held_by env (C\<lparr>cn_ocilib_init := b\<rparr>) = held_by env C"
  "held_by env (C\<lparr>cn_ocilib_cn := b\<rparr>) = held_by env C" "held_by env (C\<lparr>cn_bulk := B\<rparr>) = held_by env C"
  "properly env (C\<lparr>cn_ora := S\<rparr>) = properly env C" "properly env (C\<lparr>cn_ds := d\<rparr>) = properly env C"
  "properly env (C\<lparr>cn_charsetid := n\<rparr>) = properly env C" "properly env (C\<lparr>cn_env := b\<rparr>) = properly env C"
  "properly env (C\<lparr>cn_handles := h\<rparr>) = properly env C" "properly env (C\<lparr>cn_ocilib_init := b\<rparr>) = properly env C"
  "properly env (C\<lparr>cn_ocilib_cn := b\<rparr>) = properly env C" "properly env (C\<lparr>cn_bulk := B\<rparr>) = properly env C"
  by (simp_all add: held_by_def properly_def)

lemma note_fields [simp]:
  "cn_ora (conn_note c C) = cn_ora C" "cn_env (conn_note c C) = cn_env C" "cn_handles (conn_note c C) = cn_handles C"
  "cn_ocilib_cn (conn_note c C) = cn_ocilib_cn C" "cn_ocilib_init (conn_note c C) = cn_ocilib_init C" "cn_bulk (conn_note c C) = cn_bulk C"
  "cn_calls (conn_note c C) = cn_calls C @ [c]"
  by (simp_all add: conn_note_def)

text \<open>The handles of a connection that are not null are those it holds.\<close>

definition own :: "conn \<Rightarrow> conn_resource set" where
  "own C = (if cn_env C then {ResEnv} else {}) \<union> ResHandle ` cn_handles C
     \<union> (if cn_ocilib_init C then {ResLib} else {}) \<union> (if cn_ocilib_cn C then {ResList} else {})"

definition tracked :: "open_env \<Rightarrow> ora_state \<Rightarrow> conn \<Rightarrow> bool" where
  "tracked env S C \<longleftrightarrow> held_by env C = own C \<and> core (cn_ora C) = core S \<and> stores (cn_ora C) = stores S \<and> \<not> os_in_logon (cn_ora C)"

definition conn_le :: "conn \<Rightarrow> conn \<Rightarrow> bool" where
  "conn_le C C' \<longleftrightarrow> (cn_env C \<longrightarrow> cn_env C') \<and> cn_handles C \<subseteq> cn_handles C' \<and> (cn_ocilib_init C \<longrightarrow> cn_ocilib_init C')
     \<and> (cn_ocilib_cn C \<longrightarrow> cn_ocilib_cn C') \<and> set (cn_calls C) \<subseteq> set (cn_calls C') \<and> cn_bulk C' = cn_bulk C"

lemma conn_le_refl [simp]: "conn_le C C"
  by (simp add: conn_le_def)

lemma conn_le_trans: "conn_le C C1 \<Longrightarrow> conn_le C1 C2 \<Longrightarrow> conn_le C C2"
  by (auto simp: conn_le_def)

definition conn_step_ok :: "open_env \<Rightarrow> conn_step \<Rightarrow> bool" where
  "conn_step_ok env f \<longleftrightarrow> (\<forall>S C r C'. f C = (r, C') \<longrightarrow> tracked env S C \<longrightarrow>
     tracked env S C' \<and> conn_le C C' \<and> (cn_sink C = [] \<longrightarrow> (r \<longleftrightarrow> cn_sink C' \<noteq> [])))"

lemma conn_step_okI:
  "(\<And>S C r C'. f C = (r, C') \<Longrightarrow> tracked env S C \<Longrightarrow>
     tracked env S C' \<and> conn_le C C' \<and> (cn_sink C = [] \<longrightarrow> (r \<longleftrightarrow> cn_sink C' \<noteq> []))) \<Longrightarrow> conn_step_ok env f"
  by (simp add: conn_step_ok_def)

lemma conn_step_okD:
  assumes "conn_step_ok env f" "f C = (r, C')" "tracked env S C"
  shows "tracked env S C'" "conn_le C C'" "cn_sink C = [] \<Longrightarrow> r \<longleftrightarrow> cn_sink C' \<noteq> []"
  using assms unfolding conn_step_ok_def by blast+

lemma find_charset_ok: "conn_step_ok env (find_charset env)"
  by (rule conn_step_okI)
    (auto simp: find_charset_def Let_def conn_raise_def tracked_def conn_le_def own_def conn_ok_def split: option.splits if_splits)

lemma create_env_ok: "conn_step_ok env (create_env env)"
  by (rule conn_step_okI)
    (auto simp: create_env_def Let_def conn_raise_def tracked_def conn_le_def own_def conn_ok_def split: if_splits)

lemma map_encoding_ok: "conn_step_ok env (map_encoding env b)"
  by (rule conn_step_okI)
    (auto simp: map_encoding_def Let_def conn_raise_def tracked_def conn_le_def own_def split: option.splits if_splits)

lemma alloc_handle_ok: "conn_step_ok env (alloc_handle env h what)"
  by (rule conn_step_okI)
    (auto simp: alloc_handle_def Let_def conn_raise_def tracked_def conn_le_def own_def conn_ok_def split: if_splits)

lemma init_ocilib_ok: "conn_step_ok env (init_ocilib env)"
  by (rule conn_step_okI)
    (auto simp: init_ocilib_def Let_def conn_raise_def tracked_def conn_le_def own_def conn_ok_def split: if_splits)

text \<open>Logging in: the calls of the session.\<close>

lemma clearWarnings_light: "light S (clearWarnings env S)" "os_sink (clearWarnings env S) = os_sink S"
    "os_calls (clearWarnings env S) = os_calls S" "os_in_logon (clearWarnings env S) = os_in_logon S"
  by (simp_all add: clearWarnings_def)

lemma with_ora_held:
  assumes "with_ora f C = (r, C')"
  shows "held_by env C' = held_by env C"
    "properly env C' \<longleftrightarrow> properly env C
       \<and> (new_calls (cn_ora C) (cn_ora C') = [] \<or> insert ResEnv (ResHandle ` four_handles) \<subseteq> held_by env C)"
    "f (cn_ora C) = (r, cn_ora C')" "cn_calls C' = cn_calls C @ map OraCall (new_calls (cn_ora C) (cn_ora C'))"
    "C' = C\<lparr>cn_ora := cn_ora C', cn_calls := cn_calls C'\<rparr>"
proof -
  obtain r1 S where f: "f (cn_ora C) = (r1, S)" by fastforce
  with assms have C': "r1 = r" "C' = C\<lparr>cn_ora := S, cn_calls := cn_calls C @ map OraCall (new_calls (cn_ora C) S)\<rparr>"
    by (simp_all add: with_ora_def)
  then show "held_by env C' = held_by env C" "properly env C' \<longleftrightarrow> properly env C
       \<and> (new_calls (cn_ora C) (cn_ora C') = [] \<or> insert ResEnv (ResHandle ` four_handles) \<subseteq> held_by env C)"
      "cn_calls C' = cn_calls C @ map OraCall (new_calls (cn_ora C) (cn_ora C'))" "C' = C\<lparr>cn_ora := cn_ora C', cn_calls := cn_calls C'\<rparr>"
    by (simp_all add: held_by_def properly_def res_after_append res_proper_append res_ora)
  show "f (cn_ora C) = (r, cn_ora C')" using f C' by simp
qed

lemma log_in_effect:
  assumes "log_in env C = (r, C')"
  shows "core (cn_ora C') = core (cn_ora C)" "stores (cn_ora C') = stores (cn_ora C)" "\<not> os_in_logon (cn_ora C')"
    "\<exists>xs. cn_sink C' = cn_sink C @ xs \<and> (r \<longleftrightarrow> xs \<noteq> [])" "\<not> r \<Longrightarrow> OraCall SessionBegin \<in> set (cn_calls C')"
proof -
  let ?S = "clearWarnings (oe_ora env) (cn_ora C)"
  obtain r1 S1 where l: "logon (oe_ora env) ?S = (r1, S1)" by fastforce
  note w = with_ora_held [OF assms [unfolded log_in_def]]
  from w(3) l have S: "r1 = r" "cn_ora C' = (if r then S1 else clearWarnings (oe_ora env) S1)"
    by (auto split: if_splits)
  note c = clearWarnings_light [where S = "cn_ora C" and env = "oe_ora env"]
    and c1 = clearWarnings_light [where S = S1 and env = "oe_ora env"]
  note g = logon_light [OF l]
  show "core (cn_ora C') = core (cn_ora C)" "stores (cn_ora C') = stores (cn_ora C)" "\<not> os_in_logon (cn_ora C')"
      "\<exists>xs. cn_sink C' = cn_sink C @ xs \<and> (r \<longleftrightarrow> xs \<noteq> [])"
    using g c c1 S by (auto simp: light_def)
  assume "\<not> r"
  with S l have "logon (oe_ora env) ?S = (False, S1)" "os_calls (cn_ora C') = os_calls S1" using c1 by simp_all
  then have "SessionBegin \<in> set (new_calls (cn_ora C) (cn_ora C'))"
    using logon_begins [of "oe_ora env" ?S S1] c(3) by (simp add: new_calls_def)
  then show "OraCall SessionBegin \<in> set (cn_calls C')" by (simp add: w(4))
qed

lemma log_in_ok: "conn_step_ok env (log_in env)"
proof (rule conn_step_okI)
  fix S C r C'
  assume l: "log_in env C = (r, C')" and t: "tracked env S C"
  note w = with_ora_held [OF l [unfolded log_in_def]]
  have e: "cn_env C' = cn_env C" "cn_handles C' = cn_handles C" "cn_ocilib_cn C' = cn_ocilib_cn C" "cn_ocilib_init C' = cn_ocilib_init C"
      "cn_bulk C' = cn_bulk C"
    by (subst w(5), simp)+
  then have "own C' = own C" by (simp add: own_def)
  then have "tracked env S C'" using t w(1) [of env] log_in_effect(1-3) [OF l] by (simp add: tracked_def)
  moreover have "conn_le C C'" using e w(4) by (auto simp: conn_le_def)
  moreover have "cn_sink C = [] \<longrightarrow> (r \<longleftrightarrow> cn_sink C' \<noteq> [])" using log_in_effect(4) [OF l] by auto
  ultimately show "tracked env S C' \<and> conn_le C C' \<and> (cn_sink C = [] \<longrightarrow> (r \<longleftrightarrow> cn_sink C' \<noteq> []))" by blast
qed

lemma conn_steps_ok: "list_all (conn_step_ok env) fs \<Longrightarrow> conn_step_ok env (conn_steps fs)"
proof (induction fs)
  case (Cons f fs)
  show ?case
  proof (rule conn_step_okI)
    fix S C r C'
    assume s: "conn_steps (f # fs) C = (r, C')" and t: "tracked env S C"
    obtain r1 C1 where f: "f C = (r1, C1)" by fastforce
    have ok: "conn_step_ok env f" "conn_step_ok env (conn_steps fs)" using Cons by simp_all
    note f1 = conn_step_okD [OF ok(1) f t]
    show "tracked env S C' \<and> conn_le C C' \<and> (cn_sink C = [] \<longrightarrow> (r \<longleftrightarrow> cn_sink C' \<noteq> []))"
    proof (cases r1)
      case True
      with s f f1 show ?thesis by auto
    next
      case False
      with s f have "conn_steps fs C1 = (r, C')" by simp
      note f2 = conn_step_okD [OF ok(2) this f1(1)]
      from f1(2,3) f2 False conn_le_trans show ?thesis by auto
    qed
  qed
qed (simp add: conn_step_ok_def)

text \<open>What a step that succeeds establishes is there at the end.\<close>

lemma conn_steps_reach:
  assumes "conn_steps fs C = (False, C')" "list_all (conn_step_ok env) fs" "tracked env S C" "f \<in> set fs"
    "\<And>C C1. tracked env S C \<Longrightarrow> f C = (False, C1) \<Longrightarrow> Q C1" "\<And>C C1. conn_le C C1 \<Longrightarrow> Q C \<Longrightarrow> Q C1"
  shows "Q C'"
  using assms(1-4)
proof (induction fs arbitrary: C)
  case (Cons g fs)
  then obtain C1 where g: "g C = (False, C1)" "conn_steps fs C1 = (False, C')" by (auto split: prod.splits if_splits)
  have ok: "conn_step_ok env g" "conn_step_ok env (conn_steps fs)" using Cons.prems(2) conn_steps_ok by simp_all
  note t = conn_step_okD(1) [OF ok(1) g(1) Cons.prems(3)]
  show ?case
  proof (cases "f = g")
    case True
    with g(1) Cons.prems(3) assms(5) have "Q C1" by blast
    with assms(6) conn_step_okD(2) [OF ok(2) g(2) t] show ?thesis by blast
  next
    case False
    with Cons.IH [OF g(2) _ t] Cons.prems show ?thesis by simp
  qed
qed simp

lemma opening_ok: "list_all (conn_step_ok env) (opening_steps env b)"
  by (simp add: opening_steps_def find_charset_ok create_env_ok map_encoding_ok alloc_handle_ok log_in_ok init_ocilib_ok)

text \<open>Everything a connection has when it was made.\<close>

definition complete :: "conn \<Rightarrow> bool" where
  "complete C \<longleftrightarrow> cn_env C \<and> cn_handles C = four_handles \<and> cn_ocilib_init C \<and> cn_ocilib_cn C \<and> OraCall SessionBegin \<in> set (cn_calls C)"

lemma handles_all: "four_handles \<subseteq> H \<Longrightarrow> H = four_handles"
proof -
  have "h \<in> four_handles" for h by (cases h) (simp_all add: four_handles_def)
  then show "four_handles \<subseteq> H \<Longrightarrow> H = four_handles" by blast
qed

lemma opening_complete:
  assumes "conn_steps (opening_steps env b) C = (False, C')" "tracked env S C"
  shows "complete C'"
proof -
  note r = conn_steps_reach [OF assms(1) opening_ok assms(2)]
  have "cn_env C'"
    by (rule r [where f = "create_env env"])
      (auto simp: opening_steps_def create_env_def conn_raise_def Let_def conn_le_def split: if_splits)
  moreover have h: "h \<in> cn_handles C'" if "alloc_handle env h w \<in> set (opening_steps env b)" for h w
    by (rule r [OF that]) (auto simp: alloc_handle_def conn_raise_def Let_def conn_le_def split: if_splits)
  have "HError \<in> cn_handles C'" "HService \<in> cn_handles C'" "HServer \<in> cn_handles C'" "HSession \<in> cn_handles C'"
    by (rule h, simp add: opening_steps_def, blast)+
  then have "cn_handles C' = four_handles" by (intro handles_all) (simp add: four_handles_def)
  moreover have "cn_ocilib_init C' \<and> cn_ocilib_cn C'"
    by (rule r [where f = "init_ocilib env"])
      (auto simp: opening_steps_def init_ocilib_def conn_raise_def Let_def conn_le_def split: if_splits)
  moreover have "OraCall SessionBegin \<in> set (cn_calls C')"
    by (rule r [where f = "log_in env"]) (auto simp: opening_steps_def conn_le_def dest: log_in_effect(5))
  ultimately show ?thesis by (simp add: complete_def)
qed

section \<open>What the destructor gives back\<close>

lemma logoff_effect:
  "held_by env (snd (conn_logoff C)) = held_by env C"
  "properly env (snd (conn_logoff C)) \<longleftrightarrow> properly env C \<and> (cn_ocilib_cn C \<longrightarrow> ResList \<in> held_by env C)
     \<and> insert ResEnv (ResHandle ` four_handles) \<subseteq> held_by env C"
  "cn_env (snd (conn_logoff C)) = cn_env C" "cn_handles (snd (conn_logoff C)) = cn_handles C"
  "cn_ocilib_cn (snd (conn_logoff C)) = cn_ocilib_cn C" "cn_ocilib_init (snd (conn_logoff C)) = cn_ocilib_init C"
  "cn_calls (snd (conn_logoff C))
     = cn_calls C @ (if cn_ocilib_cn C then [ListClear] else []) @ [OraCall SessionEnd, OraCall ServerDetach]"
  "cn_sink (snd (conn_logoff C)) = cn_sink C"
proof -
  let ?C = "if cn_ocilib_cn C then conn_note ListClear C else C"
  obtain r C' where w: "with_ora (\<lambda>S. (False, logoff S)) ?C = (r, C')" by fastforce
  note e = with_ora_held [OF w]
  have S: "cn_ora C' = logoff (cn_ora C)" using e(3) by (auto split: if_splits)
  have n: "new_calls (cn_ora C) (cn_ora C') = [SessionEnd, ServerDetach]" unfolding S
    by (simp add: new_calls_def logoff_def detach_def note_ora_def)
  have c: "snd (conn_logoff C) = C'" using w by (simp add: conn_logoff_def)
  have a: "cn_ora ?C = cn_ora C" by simp
  show "held_by env (snd (conn_logoff C)) = held_by env C" unfolding c e(1) by simp
  show "properly env (snd (conn_logoff C)) \<longleftrightarrow> properly env C \<and> (cn_ocilib_cn C \<longrightarrow> ResList \<in> held_by env C)
     \<and> insert ResEnv (ResHandle ` four_handles) \<subseteq> held_by env C"
    unfolding c e(2) a n by auto
  show "cn_env (snd (conn_logoff C)) = cn_env C" "cn_handles (snd (conn_logoff C)) = cn_handles C"
    "cn_ocilib_cn (snd (conn_logoff C)) = cn_ocilib_cn C" "cn_ocilib_init (snd (conn_logoff C)) = cn_ocilib_init C"
    unfolding c by (subst e(5), simp)+
  show "cn_calls (snd (conn_logoff C))
     = cn_calls C @ (if cn_ocilib_cn C then [ListClear] else []) @ [OraCall SessionEnd, OraCall ServerDetach]"
    unfolding c e(4) a n by simp
  show "cn_sink (snd (conn_logoff C)) = cn_sink C" unfolding c S by (simp add: logoff_def detach_def)
qed

lemma free_handle_effect [simp]:
  "held_by env (free_handle_of h C) = (if h \<in> cn_handles C then held_by env C - {ResHandle h} else held_by env C)"
  "properly env (free_handle_of h C) \<longleftrightarrow> properly env C \<and> (h \<in> cn_handles C \<longrightarrow> ResHandle h \<in> held_by env C)"
  "cn_env (free_handle_of h C) = cn_env C" "cn_handles (free_handle_of h C) = cn_handles C"
  "cn_ora (free_handle_of h C) = cn_ora C"
  by (simp_all add: free_handle_of_def)

lemma cn_handles_cases: "h \<in> H \<Longrightarrow> h = HError \<or> h = HService \<or> h = HServer \<or> h = HSession"
  by (cases h) simp_all

text \<open>The destructor before the handles are freed.\<close>

definition before_handles :: "open_env \<Rightarrow> conn \<Rightarrow> conn" where
  "before_handles env C =
     (let C1 = (if bk_active (cn_bulk C) then C\<lparr>cn_bulk := snd (bulkLoadEnd (oe_bulk env) False (cn_bulk C))\<rparr> else C);
          C2 = (if HService \<in> cn_handles C1 then snd (conn_logoff C1) else C1);
          C3 = (if cn_ocilib_cn C2 then conn_note ListFree C2 else C2)
      in if cn_ocilib_init C3 then conn_note LibCleanup C3 else C3)"

definition free_handles :: "conn \<Rightarrow> conn" where
  "free_handles C = free_handle_of HService (free_handle_of HSession (free_handle_of HServer (free_handle_of HError C)))"

lemma destroy_parts:
  "destroy_conn env False C =
     (let C5 = free_handles (before_handles env C) in if cn_env C5 then conn_note EnvFree C5 else C5)"
  by (simp add: destroy_conn_def before_handles_def free_handles_def Let_def)

lemma before_handles_effect:
  assumes "held_by env C = own C"
  shows "held_by env (before_handles env C) = (if cn_env C then {ResEnv} else {}) \<union> ResHandle ` cn_handles C"
    "cn_handles (before_handles env C) = cn_handles C" "cn_env (before_handles env C) = cn_env C"
    "properly env C \<Longrightarrow> (HService \<in> cn_handles C \<Longrightarrow> cn_env C \<and> cn_handles C = four_handles) \<Longrightarrow>
       (cn_ocilib_init C \<Longrightarrow> HError \<in> cn_handles C) \<Longrightarrow> properly env (before_handles env C)"
proof -
  define C1 where "C1 = (if bk_active (cn_bulk C) then C\<lparr>cn_bulk := snd (bulkLoadEnd (oe_bulk env) False (cn_bulk C))\<rparr> else C)"
  define C2 where "C2 = (if HService \<in> cn_handles C1 then snd (conn_logoff C1) else C1)"
  define C3 where "C3 = (if cn_ocilib_cn C2 then conn_note ListFree C2 else C2)"
  have b: "before_handles env C = (if cn_ocilib_init C3 then conn_note LibCleanup C3 else C3)"
    unfolding before_handles_def C1_def C2_def C3_def Let_def ..
  have 1: "held_by env C1 = own C" "properly env C1 = properly env C" "cn_env C1 = cn_env C" "cn_handles C1 = cn_handles C"
      "cn_ocilib_cn C1 = cn_ocilib_cn C" "cn_ocilib_init C1 = cn_ocilib_init C"
    using assms by (simp_all add: C1_def)
  have 2: "held_by env C2 = own C" "cn_env C2 = cn_env C" "cn_handles C2 = cn_handles C"
      "cn_ocilib_cn C2 = cn_ocilib_cn C" "cn_ocilib_init C2 = cn_ocilib_init C"
    using 1 by (simp_all add: C2_def logoff_effect)
  have 3: "held_by env C3 = own C - {ResList}" "cn_env C3 = cn_env C" "cn_handles C3 = cn_handles C" "cn_ocilib_init C3 = cn_ocilib_init C"
    using 2 by (auto simp: C3_def own_def)
  show "held_by env (before_handles env C) = (if cn_env C then {ResEnv} else {}) \<union> ResHandle ` cn_handles C"
    using 3 by (auto simp: b own_def)
  show "cn_handles (before_handles env C) = cn_handles C" "cn_env (before_handles env C) = cn_env C"
    using 3 by (simp_all add: b)
  assume p: "properly env C" "HService \<in> cn_handles C \<Longrightarrow> cn_env C \<and> cn_handles C = four_handles"
    "cn_ocilib_init C \<Longrightarrow> HError \<in> cn_handles C"
  have "properly env C2"
    using p(1,2) 1 by (auto simp: C2_def logoff_effect own_def)
  then have "properly env C3"
    using 2 by (auto simp: C3_def own_def)
  with p(3) 3 show "properly env (before_handles env C)" by (auto simp: b own_def)
qed

lemma free_handles_effect:
  assumes "held_by env C = E \<union> ResHandle ` cn_handles C" "E \<subseteq> {ResEnv}"
  shows "held_by env (free_handles C) = E" "cn_env (free_handles C) = cn_env C" "properly env (free_handles C) = properly env C"
proof -
  let ?gone = "\<lambda>h. if h \<in> cn_handles C then {ResHandle h} else {}"
  have one: "held_by env (free_handle_of h D) = held_by env D - (if h \<in> cn_handles D then {ResHandle h} else {})" for h D by simp
  have "held_by env (free_handles C) = held_by env C - ?gone HError - ?gone HServer - ?gone HSession - ?gone HService"
    unfolding free_handles_def one free_handle_effect(4) ..
  moreover have "ResHandle ` cn_handles C = ?gone HError \<union> ?gone HServer \<union> ?gone HSession \<union> ?gone HService"
  proof -
    have "h \<in> cn_handles C \<Longrightarrow> ResHandle h \<in> ?gone h" for h by simp
    then have "ResHandle h \<in> ?gone HError \<union> ?gone HServer \<union> ?gone HSession \<union> ?gone HService" if "h \<in> cn_handles C" for h
      using that by (cases h) simp_all
    moreover have "?gone h \<subseteq> ResHandle ` cn_handles C" for h by simp
    ultimately show ?thesis by blast
  qed
  ultimately have "held_by env (free_handles C) = held_by env C - ResHandle ` cn_handles C" by blast
  with assms show "held_by env (free_handles C) = E" by auto
  show "cn_env (free_handles C) = cn_env C" by (simp add: free_handles_def)
  show "properly env (free_handles C) = properly env C" using assms(1) by (auto simp: free_handles_def)
qed

lemma destroy_effect:
  assumes "held_by env C = own C"
  shows "held_by env (destroy_conn env False C) = {}"
    "properly env C \<Longrightarrow> (HService \<in> cn_handles C \<Longrightarrow> cn_env C \<and> cn_handles C = four_handles) \<Longrightarrow>
       (cn_ocilib_init C \<Longrightarrow> HError \<in> cn_handles C) \<Longrightarrow> properly env (destroy_conn env False C)"
proof -
  note b = before_handles_effect [OF assms]
  have h: "held_by env (before_handles env C) = (if cn_env C then {ResEnv} else {}) \<union> ResHandle ` cn_handles (before_handles env C)"
    using b by simp
  have "(if cn_env C then {ResEnv} else {}) \<subseteq> {ResEnv}" by simp
  note f = free_handles_effect [OF h this]
  show "held_by env (destroy_conn env False C) = {}" using f b
    by (cases "cn_env C") (simp_all add: destroy_parts Let_def)
  assume "properly env C" "HService \<in> cn_handles C \<Longrightarrow> cn_env C \<and> cn_handles C = four_handles"
    "cn_ocilib_init C \<Longrightarrow> HError \<in> cn_handles C"
  from b(4) [OF this] show "properly env (destroy_conn env False C)" using f b
    by (cases "cn_env C") (simp_all add: destroy_parts Let_def)
qed

text \<open>The session is ended, and the server detached, after every other call of the session.\<close>

definition session_ended :: "open_call list \<Rightarrow> bool" where
  "session_ended cs \<longleftrightarrow> (\<exists>xs ys. cs = xs @ [OraCall SessionEnd, OraCall ServerDetach] @ ys \<and> (\<forall>c. OraCall c \<notin> set ys))"

lemma destroy_ends_session:
  assumes "HService \<in> cn_handles C"
  shows "session_ended (cn_calls (destroy_conn env False C))"
proof -
  define C1 where "C1 = (if bk_active (cn_bulk C) then C\<lparr>cn_bulk := snd (bulkLoadEnd (oe_bulk env) False (cn_bulk C))\<rparr> else C)"
  have "\<exists>ys. cn_calls (destroy_conn env False C) = cn_calls (snd (conn_logoff C1)) @ ys \<and> (\<forall>c. OraCall c \<notin> set ys)"
    using assms by (simp add: destroy_parts before_handles_def free_handles_def free_handle_of_def Let_def C1_def [symmetric])
      (simp add: C1_def)
  then obtain ys where "cn_calls (destroy_conn env False C) = cn_calls (snd (conn_logoff C1)) @ ys" "\<forall>c. OraCall c \<notin> set ys" by blast
  then show ?thesis unfolding session_ended_def logoff_effect by (metis append.assoc)
qed

section \<open>The stages of opening\<close>

definition alloc_failed :: "open_env \<Rightarrow> conn \<Rightarrow> conn_handle \<Rightarrow> bool" where
  "alloc_failed env C h \<longleftrightarrow> (\<exists>k < length (cn_calls C). cn_calls C ! k = HandleAlloc h \<and> \<not> oe_ok env k)"

definition stage :: "open_env \<Rightarrow> bool \<Rightarrow> conn_handle set \<Rightarrow> conn \<Rightarrow> bool" where
  "stage env e H C \<longleftrightarrow> properly env C \<and> held_by env C = own C \<and> cn_env C = e \<and> cn_handles C = H
     \<and> \<not> cn_ocilib_init C \<and> \<not> cn_ocilib_cn C"

text \<open>What the destructor can free with calls that have what they need.\<close>

definition freeable :: "open_env \<Rightarrow> conn \<Rightarrow> bool" where
  "freeable env C \<longleftrightarrow> properly env C \<and> held_by env C = own C
     \<and> (HService \<in> cn_handles C \<longrightarrow> cn_env C \<and> (cn_handles C = four_handles \<or> alloc_failed env C HServer \<or> alloc_failed env C HSession))
     \<and> (cn_ocilib_init C \<longrightarrow> HError \<in> cn_handles C)"

lemma stage_freeable:
  assumes "stage env e H C" "HService \<in> H \<Longrightarrow> e \<and> (H = four_handles \<or> alloc_failed env C HServer \<or> alloc_failed env C HSession)"
  shows "freeable env C"
  using assms by (simp add: stage_def freeable_def)

lemma stage_charset:
  assumes "find_charset env C = (r, C')" "stage env False {} C" "conn_ok env C"
  shows "stage env False {} C'"
  using assms by (auto simp: find_charset_def Let_def conn_raise_def stage_def own_def conn_ok_def split: option.splits)

lemma stage_env:
  assumes "create_env env C = (r, C')" "stage env False {} C"
  shows "stage env (\<not> r) {} C'"
  using assms by (auto simp: create_env_def Let_def conn_raise_def stage_def own_def conn_ok_def split: if_splits)

lemma stage_map:
  assumes "map_encoding env b C = (r, C')" "stage env True {} C"
  shows "stage env True {} C'"
  using assms by (auto simp: map_encoding_def Let_def conn_raise_def stage_def own_def split: option.splits if_splits)

lemma stage_alloc:
  assumes "alloc_handle env h w C = (r, C')" "stage env True H C" "h \<notin> H"
  shows "stage env True (if r then H else insert h H) C'" "r \<Longrightarrow> alloc_failed env C' h"
proof -
  have n: "ResHandle h \<notin> held_by env C" using assms(2,3) by (auto simp: stage_def own_def)
  show "stage env True (if r then H else insert h H) C'"
  proof (cases "conn_ok env C")
    case True
    with assms(1) have "\<not> r" "C' = (conn_note (HandleAlloc h) C)\<lparr>cn_handles := insert h (cn_handles C)\<rparr>"
      by (simp_all add: alloc_handle_def)
    with assms(2) n True show ?thesis by (simp add: stage_def own_def conn_ok_def)
  next
    case False
    with assms(1) obtain S where "r" "C' = (conn_note (HandleAlloc h) C)\<lparr>cn_ora := S\<rparr>" by (auto simp: alloc_handle_def conn_raise_def)
    with assms(2) n False show ?thesis by (simp add: stage_def own_def conn_ok_def)
  qed
  assume r
  with assms(1) have "\<not> conn_ok env C" "cn_calls C' = cn_calls C @ [HandleAlloc h]"
    by (auto simp: alloc_handle_def conn_raise_def Let_def split: if_splits)
  then show "alloc_failed env C' h"
    unfolding alloc_failed_def conn_ok_def by (intro exI [of _ "length (cn_calls C)"]) simp
qed

lemma stage_login:
  assumes "log_in env C = (r, C')" "stage env True four_handles C"
  shows "stage env True four_handles C'"
proof -
  note w = with_ora_held [OF assms(1) [unfolded log_in_def]]
  have e: "cn_env C' = cn_env C" "cn_handles C' = cn_handles C" "cn_ocilib_cn C' = cn_ocilib_cn C" "cn_ocilib_init C' = cn_ocilib_init C"
    by (subst w(5), simp)+
  with w(1,2) [of env] assms(2) show ?thesis by (auto simp: stage_def own_def)
qed

lemma stage_lib:
  assumes "init_ocilib env C = (r, C')" "stage env True four_handles C"
  shows "freeable env C'"
proof (cases "conn_ok env C")
  case True
  with assms(1) have "C' = (conn_note ListCreate (conn_note LibInit C))\<lparr>cn_ocilib_init := True, cn_ocilib_cn := True\<rparr>"
    by (simp add: init_ocilib_def)
  with assms(2) True show ?thesis by (auto simp: stage_def own_def freeable_def conn_ok_def four_handles_def)
next
  case False
  with assms(1) obtain S where "C' = (conn_note LibInit C)\<lparr>cn_ora := S\<rparr>" by (auto simp: init_ocilib_def conn_raise_def)
  with assms(2) False show ?thesis by (auto simp: stage_def own_def freeable_def conn_ok_def four_handles_def)
qed

lemma conn_steps_Cons:
  assumes "conn_steps (f # fs) C = (r, C')"
  obtains (failed) "f C = (True, C')" "r" | (passed) C1 where "f C = (False, C1)" "conn_steps fs C1 = (r, C')"
  using assms by (cases "f C") (auto split: if_splits)

lemma opening_last:
  assumes "conn_steps [alloc_handle env HServer w, alloc_handle env HSession w', log_in env, init_ocilib env] C = (r, C')"
    "stage env True {HService, HError} C"
  shows "freeable env C'"
  using assms(1)
proof (cases rule: conn_steps_Cons)
  case failed
  have "stage env True {HService, HError} C'" using stage_alloc(1) [OF failed(1) assms(2)] by simp
  then show ?thesis by (rule stage_freeable) (use stage_alloc(2) [OF failed(1) assms(2)] in simp)
next
  case 1: (passed C1)
  have s1: "stage env True {HServer, HService, HError} C1" using stage_alloc(1) [OF 1(1) assms(2)] by simp
  from 1(2) show ?thesis
  proof (cases rule: conn_steps_Cons)
    case failed
    have "stage env True {HServer, HService, HError} C'" using stage_alloc(1) [OF failed(1) s1] by simp
    then show ?thesis by (rule stage_freeable) (use stage_alloc(2) [OF failed(1) s1] in simp)
  next
    case 2: (passed C2)
    have "{HSession, HServer, HService, HError} = four_handles" by (auto simp: four_handles_def)
    then have s2: "stage env True four_handles C2" using stage_alloc(1) [OF 2(1) s1] by simp
    from 2(2) show ?thesis
    proof (cases rule: conn_steps_Cons)
      case failed
      from stage_login [OF failed(1) s2] show ?thesis by (rule stage_freeable) simp
    next
      case 3: (passed C3)
      from 3(2) have "init_ocilib env C3 = (r, C')" by (cases rule: conn_steps_Cons) simp_all
      from stage_lib [OF this stage_login [OF 3(1) s2]] show ?thesis .
    qed
  qed
qed

lemma opening_freeable:
  assumes "conn_steps (opening_steps env b) C = (r, C')" "stage env False {} C" "conn_ok env C"
  shows "freeable env C'"
  using assms(1) unfolding opening_steps_def
proof (cases rule: conn_steps_Cons)
  case failed
  from stage_charset [OF failed(1) assms(2,3)] show ?thesis by (rule stage_freeable) simp
next
  case 1: (passed C1)
  note s1 = stage_charset [OF 1(1) assms(2,3)]
  from 1(2) show ?thesis
  proof (cases rule: conn_steps_Cons)
    case failed
    from stage_env [OF failed(1) s1] show ?thesis by (rule stage_freeable) simp
  next
    case 2: (passed C2)
    have s2: "stage env True {} C2" using stage_env [OF 2(1) s1] by simp
    from 2(2) show ?thesis
    proof (cases rule: conn_steps_Cons)
      case failed
      from stage_map [OF failed(1) s2] show ?thesis by (rule stage_freeable) simp
    next
      case 3: (passed C3)
      note s3 = stage_map [OF 3(1) s2]
      from 3(2) show ?thesis
      proof (cases rule: conn_steps_Cons)
        case failed
        have "stage env True {} C'" using stage_alloc(1) [OF failed(1) s3] by simp
        then show ?thesis by (rule stage_freeable) simp
      next
        case 4: (passed C4)
        have s4: "stage env True {HError} C4" using stage_alloc(1) [OF 4(1) s3] by simp
        from 4(2) show ?thesis
        proof (cases rule: conn_steps_Cons)
          case failed
          have "stage env True {HError} C'" using stage_alloc(1) [OF failed(1) s4] by simp
          then show ?thesis by (rule stage_freeable) simp
        next
          case 5: (passed C5)
          have s5: "stage env True {HService, HError} C5" using stage_alloc(1) [OF 5(1) s4] by simp
          from opening_last [OF 5(2) s5] show ?thesis .
        qed
      qed
    qed
  qed
qed

section \<open>A connection is opened whole or not at all\<close>

text \<open>No call of the session is made before the handles are there.\<close>

lemma conn_steps_append: "conn_steps (fs @ gs) C = (let (r, C1) = conn_steps fs C in if r then (True, C1) else conn_steps gs C1)"
  by (induction fs arbitrary: C) (simp_all add: split_beta Let_def)

definition no_ora :: "conn \<Rightarrow> bool" where
  "no_ora C \<longleftrightarrow> (\<forall>c. OraCall c \<notin> set (cn_calls C))"

definition before_login :: "open_env \<Rightarrow> bool \<Rightarrow> conn_step list" where
  "before_login env b = take 7 (opening_steps env b)"

lemma before_login_no_ora:
  assumes "f \<in> set (before_login env b)" "f C = (r, C')" "no_ora C"
  shows "no_ora C'"
  using assms
  by (auto simp: before_login_def opening_steps_def find_charset_def create_env_def map_encoding_def alloc_handle_def conn_raise_def
      Let_def no_ora_def split: option.splits if_splits)

lemma conn_steps_no_ora:
  assumes "conn_steps fs C = (r, C')" "no_ora C" "set fs \<subseteq> set (before_login env b)"
  shows "no_ora C'"
  using assms
proof (induction fs arbitrary: C)
  case (Cons f fs)
  from Cons.prems(1) show ?case
  proof (cases rule: conn_steps_Cons)
    case failed
    with before_login_no_ora Cons.prems(2,3) show ?thesis by auto
  next
    case (passed C1)
    have "no_ora C1" using before_login_no_ora [of f env b, OF _ passed(1) Cons.prems(2)] Cons.prems(3) by auto
    with Cons.IH [OF passed(2)] Cons.prems(3) show ?thesis by simp
  qed
qed simp

lemma opening_service:
  assumes "conn_steps (opening_steps env b) C = (r, C')" "tracked env S C" "no_ora C"
  shows "no_ora C' \<or> HService \<in> cn_handles C'"
proof -
  have o: "opening_steps env b = before_login env b @ [log_in env, init_ocilib env]"
    by (simp add: opening_steps_def before_login_def)
  have ok: "list_all (conn_step_ok env) (before_login env b)" "conn_step_ok env (conn_steps [log_in env, init_ocilib env])"
    using opening_ok [of env b] conn_steps_ok [of env "[log_in env, init_ocilib env]"] unfolding o by simp_all
  obtain r1 C1 where p: "conn_steps (before_login env b) C = (r1, C1)" by fastforce
  show ?thesis
  proof (cases r1)
    case True
    with assms(1) p have "C' = C1" by (simp add: o conn_steps_append)
    with conn_steps_no_ora [OF p assms(3) subset_refl] show ?thesis by simp
  next
    case False
    with p have p: "conn_steps (before_login env b) C = (False, C1)" by simp
    have "alloc_handle env HService ''failed to allocate service handle for connection'' \<in> set (before_login env b)"
      by (simp add: opening_steps_def before_login_def)
    then have "HService \<in> cn_handles C1"
      by (rule conn_steps_reach [OF p ok(1) assms(2), where Q = "\<lambda>C. HService \<in> cn_handles C"])
        (auto simp: alloc_handle_def conn_raise_def Let_def conn_le_def split: if_splits)
    moreover have "conn_steps [log_in env, init_ocilib env] C1 = (r, C')" using assms(1) p by (simp add: o conn_steps_append)
    from conn_step_okD(2) [OF ok(2) this conn_step_okD(1) [OF conn_steps_ok [OF ok(1)] p assms(2)]] have "conn_le C1 C'" .
    ultimately show ?thesis by (auto simp: conn_le_def)
  qed
qed

lemma new_conn_start:
  assumes "cn_sink C0 = []"
  shows "tracked env (cn_ora (new_conn ds (cn_ora C0) B)) (new_conn ds (cn_ora C0) B)" "no_ora (new_conn ds S B)"
    "stage env False {} (new_conn ds S B)" "cn_sink (new_conn ds (cn_ora C0) B) = []" "cn_calls (new_conn ds S B) = []"
  using assms by (simp_all add: new_conn_def tracked_def no_ora_def stage_def held_by_def own_def properly_def)

text \<open>A datasource that is refused before a connection is made.\<close>

lemma open_cases:
  assumes "oracle_open env ds C0 = (r, C)"
  obtains (refused) e where "r" "C = C0\<lparr>cn_ora := raise_exn e (cn_ora C0)\<rparr>"
  | (made) r1 C1 where "QoreOracleConnection env (new_conn ds (cn_ora C0) (cn_bulk C0)) = (r1, C1)"
      "r \<longleftrightarrow> cn_sink C1 \<noteq> []" "C = (if r then destroy_conn env False C1 else C1\<lparr>cn_ora := (cn_ora C1)\<lparr>os_open := True\<rparr>\<rparr>)"
  using assms
  by (auto simp: oracle_open_def conn_raise_def Let_def split: if_splits prod.splits)

text \<open>The connection after calls of the session and bulk loads.\<close>

definition used_conn :: "ora_state \<Rightarrow> bulk \<Rightarrow> ora_call list \<Rightarrow> conn \<Rightarrow> conn" where
  "used_conn S B cs C = C\<lparr>cn_ora := S, cn_bulk := B, cn_calls := cn_calls C @ map OraCall cs\<rparr>"

lemma destroy_sink: "cn_sink (destroy_conn env False C) = cn_sink C"
proof -
  have s: "cn_sink (before_handles env C) = cn_sink C" by (simp add: before_handles_def Let_def logoff_effect)
  show ?thesis by (simp add: destroy_parts free_handles_def Let_def s)
qed

lemma free_handles_calls: "\<exists>ys. cn_calls (free_handles C) = cn_calls C @ ys \<and> (\<forall>c. OraCall c \<notin> set ys)"
  by (simp add: free_handles_def free_handle_of_def)

lemma before_handles_calls:
  "\<exists>zs. cn_calls (before_handles env C) = cn_calls C @ zs \<and> (HService \<notin> cn_handles C \<longrightarrow> (\<forall>c. OraCall c \<notin> set zs))"
proof -
  define C1 where "C1 = (if bk_active (cn_bulk C) then C\<lparr>cn_bulk := snd (bulkLoadEnd (oe_bulk env) False (cn_bulk C))\<rparr> else C)"
  define C2 where "C2 = (if HService \<in> cn_handles C1 then snd (conn_logoff C1) else C1)"
  define C3 where "C3 = (if cn_ocilib_cn C2 then conn_note ListFree C2 else C2)"
  have b: "before_handles env C = (if cn_ocilib_init C3 then conn_note LibCleanup C3 else C3)"
    unfolding before_handles_def C1_def C2_def C3_def Let_def ..
  have 1: "cn_calls C1 = cn_calls C" "cn_handles C1 = cn_handles C" by (simp_all add: C1_def)
  obtain zs where 2: "cn_calls C2 = cn_calls C @ zs" "HService \<notin> cn_handles C \<longrightarrow> (\<forall>c. OraCall c \<notin> set zs)"
    using 1 by (cases "HService \<in> cn_handles C") (simp_all add: C2_def logoff_effect)
  have 3: "cn_calls C3 = cn_calls C @ zs @ (if cn_ocilib_cn C2 then [ListFree] else [])" using 2 by (simp add: C3_def)
  with 2 show ?thesis by (simp add: b)
qed

lemma destroy_calls:
  "\<exists>xs. cn_calls (destroy_conn env False C) = cn_calls C @ xs \<and> (HService \<notin> cn_handles C \<longrightarrow> (\<forall>c. OraCall c \<notin> set xs))"
proof -
  obtain ys where y: "cn_calls (free_handles (before_handles env C)) = cn_calls (before_handles env C) @ ys" "\<forall>c. OraCall c \<notin> set ys"
    using free_handles_calls by blast
  obtain zs where z: "cn_calls (before_handles env C) = cn_calls C @ zs" "HService \<notin> cn_handles C \<longrightarrow> (\<forall>c. OraCall c \<notin> set zs)"
    using before_handles_calls by blast
  show ?thesis using y z by (simp add: destroy_parts Let_def)
qed

lemma alloc_failed_destroyed: "alloc_failed env C h \<Longrightarrow> alloc_failed env (destroy_conn env False C) h"
proof -
  obtain xs where "cn_calls (destroy_conn env False C) = cn_calls C @ xs" using destroy_calls by blast
  then show "alloc_failed env C h \<Longrightarrow> alloc_failed env (destroy_conn env False C) h"
    unfolding alloc_failed_def by (metis length_append nth_append trans_less_add1)
qed

lemma used_conn_held:
  "held_by env (used_conn S B cs C) = held_by env C" "own (used_conn S B cs C) = own C"
  "properly env (used_conn S B cs C) \<longleftrightarrow> properly env C \<and> (cs = [] \<or> insert ResEnv (ResHandle ` four_handles) \<subseteq> held_by env C)"
  by (simp_all add: used_conn_def held_by_def properly_def own_def res_after_append res_proper_append res_ora)

lemma closed_effect:
  assumes "complete C" "held_by env C = own C"
  shows "held_by env (oracle_close env False (used_conn S B cs C)) = {}"
    "session_ended (cn_calls (oracle_close env False (used_conn S B cs C)))"
    "properly env C \<Longrightarrow> properly env (oracle_close env False (used_conn S B cs C))"
proof -
  let ?C = "used_conn S B cs C"
  have c: "oracle_close env False ?C = (destroy_conn env False ?C)\<lparr>cn_ora := (cn_ora (destroy_conn env False ?C))\<lparr>os_open := False\<rparr>\<rparr>"
    by (simp add: oracle_close_def Let_def)
  have h: "held_by env ?C = own ?C" using assms(2) by (simp add: used_conn_held)
  have f: "cn_env ?C" "cn_handles ?C = four_handles" using assms(1) by (simp_all add: complete_def used_conn_def)
  show "held_by env (oracle_close env False ?C) = {}" using destroy_effect(1) [OF h] by (simp add: c)
  show "session_ended (cn_calls (oracle_close env False ?C))"
    using destroy_ends_session [of ?C env] f by (simp add: c four_handles_def)
  assume "properly env C"
  moreover have "insert ResEnv (ResHandle ` four_handles) \<subseteq> held_by env C"
    using assms by (auto simp: own_def complete_def)
  ultimately have "properly env ?C" by (simp add: used_conn_held)
  from destroy_effect(2) [OF h this] f show "properly env (oracle_close env False ?C)" by (simp add: c four_handles_def)
qed

lemma driver_start_core:
  assumes "core S = core S0" "stores S = stores S0" "\<not> os_in_logon S" "os_depth S0 = 0" "\<not> os_abort_pending S0" "\<not> os_lost S0"
    "os_reg S0 = []" "handles_old (os_bind S0)"
  shows "driver_start (S\<lparr>os_open := True\<rparr>)"
  using assms stores_handles [OF assms(2)] by (simp add: driver_start_def core_def)

text \<open>C2: Opening a datasource gives a connection that is whole or none.  If it fails, with
  whatever answer of the client and the server, an exception has been raised, every environment and
  handle that was allocated has been freed, and if the session had made a call it has been ended
  and its server detached.  If it succeeds, the connection has its environment, its four handles,
  the OCILIB handle and a session that has begun, and is one the calls of the driver start from;
  and closing it after whatever calls frees all of it and ends the session.  Every call on the way
  has the handles it works with, if the temporary environment could be created and no allocation
  of the server or session handle failed.
\<close>

theorem connection_opened_whole:
  assumes "oracle_open env ds C0 = (r, C)" "cn_sink C0 = []" "cn_calls C0 = []"
  shows "(r \<longleftrightarrow> cn_sink C \<noteq> [])
    \<and> (r \<longrightarrow> held_by env C = {} \<and> (no_ora C \<or> session_ended (cn_calls C)))
    \<and> (\<not> r \<longrightarrow> complete C \<and> held_by env C = own C \<and> (handles_old (os_bind (cn_ora C0)) \<longrightarrow> driver_start (cn_ora C))
         \<and> (\<forall>S B cs. held_by env (oracle_close env False (used_conn S B cs C)) = {}
              \<and> session_ended (cn_calls (oracle_close env False (used_conn S B cs C)))))
    \<and> (oe_ok env 0 \<longrightarrow> \<not> alloc_failed env C HServer \<longrightarrow> \<not> alloc_failed env C HSession \<longrightarrow>
         properly env C \<and> (\<not> r \<longrightarrow> (\<forall>S B cs. properly env (oracle_close env False (used_conn S B cs C)))))"
  using assms(1)
proof (cases rule: open_cases)
  case (refused e)
  with assms(2,3) show ?thesis by (simp add: held_by_def properly_def no_ora_def)
next
  case (made r1 C1)
  let ?N = "new_conn ds (cn_ora C0) (cn_bulk C0)"
  note n = new_conn_start [OF assms(2)]
  obtain b where q: "conn_steps (opening_steps env b) ?N = (r1, C1)" using made(1) by (simp add: QoreOracleConnection_def)
  note k = conn_step_okD [OF conn_steps_ok [OF opening_ok] q n(1)]
  have r1: "r1 = r" using k(3) [OF n(4)] made(2) by simp
  have h: "held_by env C1 = own C1" using k(1) by (simp add: tracked_def)
  have fr: "freeable env C1" if "oe_ok env 0"
    using opening_freeable [OF q n(3)] that n(5) by (simp add: conn_ok_def)
  show ?thesis
  proof (cases r)
    case True
    with made(3) have C: "C = destroy_conn env False C1" by simp
    have s: "no_ora C \<or> session_ended (cn_calls C)"
    proof (cases "HService \<in> cn_handles C1")
      case True
      then show ?thesis using destroy_ends_session C by simp
    next
      case False
      then have "no_ora C1" using opening_service [OF q n(1,2)] by simp
      with False destroy_calls [of env C1] C show ?thesis by (auto simp: no_ora_def)
    qed
    have p: "properly env C" if "oe_ok env 0" "\<not> alloc_failed env C HServer" "\<not> alloc_failed env C HSession"
      using destroy_effect(2) [OF h] fr [OF that(1)] that(2,3) alloc_failed_destroyed [of env C1] C by (auto simp: freeable_def)
    have "cn_sink C \<noteq> []" using True made(2) destroy_sink C by simp
    with True s p destroy_effect(1) [OF h] C show ?thesis by simp
  next
    case False
    with made(3) have C: "C = C1\<lparr>cn_ora := (cn_ora C1)\<lparr>os_open := True\<rparr>\<rparr>" by simp
    have q: "conn_steps (opening_steps env b) ?N = (False, C1)" using q r1 False by simp
    have c: "complete C" using opening_complete [OF q n(1)] C by (simp add: complete_def)
    have hC: "held_by env C = own C" using h C by (simp add: own_def)
    have d: "driver_start (cn_ora C)" if "handles_old (os_bind (cn_ora C0))"
      using driver_start_core [of "cn_ora C1" "cn_ora ?N"] k(1) that C by (simp add: tracked_def new_conn_def)
    have p: "properly env C" if "oe_ok env 0" using fr [OF that] C by (simp add: freeable_def)
    have "cn_sink C = []" using False made(2) C by simp
    with False c hC d p closed_effect [OF c hC] show ?thesis by blast
  qed
qed

section \<open>Witnesses\<close>

definition sample_open_env :: "(nat \<Rightarrow> bool) \<Rightarrow> open_env" where
  "sample_open_env ok = \<lparr>oe_ok = ok, oe_charset = (\<lambda>s. 3), oe_to_oracle = (\<lambda>s. Some ''AL32UTF8''), oe_to_qore = (\<lambda>s. Some ''UTF-8''),
     oe_default_encoding = ''UTF-8'', oe_ora = sample_env 0 50, oe_bulk = sample_bulk_env\<rparr>"

definition sample_datasource :: datasource where
  "sample_datasource = \<lparr>ds_user = Some ''scott'', ds_pass = Some ''tiger'', ds_dbname = Some ''ORCL'', ds_host = None, ds_port = 0,
     ds_dbencoding = None, ds_qore_encoding = []\<rparr>"

definition sample_closed :: conn where
  "sample_closed = new_conn sample_datasource (sample_state False) sample_bulk"

definition sample_opened :: "(nat \<Rightarrow> bool) \<Rightarrow> bool \<times> conn" where
  "sample_opened ok = oracle_open (sample_open_env ok) sample_datasource sample_closed"

lemma sample_closed_start: "cn_sink sample_closed = []" "cn_calls sample_closed = []"
  by (simp_all add: sample_closed_def new_conn_def sample_state_def init_world)

lemma sample_opens: "\<not> fst (sample_opened (\<lambda>k. True))"
  by code_simp

lemma connection_opened_whole_witness:
  "complete (snd (sample_opened (\<lambda>k. True)))
   \<and> held_by (sample_open_env (\<lambda>k. True))
       (oracle_close (sample_open_env (\<lambda>k. True)) False
         (used_conn (sample_state True) sample_bulk [StmtFetch] (snd (sample_opened (\<lambda>k. True))))) = {}"
proof -
  let ?ok = "\<lambda>k::nat. True"
  have "oracle_open (sample_open_env ?ok) sample_datasource sample_closed = (fst (sample_opened ?ok), snd (sample_opened ?ok))"
    by (simp add: sample_opened_def)
  from connection_opened_whole [OF this sample_closed_start] sample_opens show ?thesis by blast
qed

text \<open>
  Without a server handle the destructor still logs off: the calls get null handles.  Without a
  temporary environment the character set is looked up in none.
\<close>

lemma server_handle_missing:
  "\<not> properly (sample_open_env (\<lambda>k. k \<noteq> 7)) (snd (sample_opened (\<lambda>k. k \<noteq> 7)))"
  by code_simp

lemma temporary_environment_missing:
  "\<not> properly (sample_open_env (\<lambda>k. k \<noteq> 0)) (snd (sample_opened (\<lambda>k. k \<noteq> 0)))"
  by code_simp

end
