(* ===== verification/Bulk_Life.thy ===== *)
theory Bulk_Life
  imports Direct_Path
begin

text \<open>
  The life of a bulk load: which handles it has at every call, and that none is left when it is over.
\<close>

section \<open>The order of the calls\<close>

datatype bulk_handle = HCtx | HParam | HPrepared | HArray | HStream | HReports

text \<open>What a call needs, what must be closed before it, what it opens if it succeeds and what it closes.\<close>

fun needs :: "bulk_call \<Rightarrow> bulk_handle set" where
  "needs (DescribeTable t) = {}"
| "needs AllocCtx = {}"
| "needs ReportBegin = {}"
| "needs (ReportProgress n) = {HReports}"
| "needs (ReportEnd n ok) = {HReports}"
| "needs FreeParam = {HParam}"
| "needs (ParamName t) = {HParam}"
| "needs (ParamType t) = {HParam}"
| "needs (ParamSize n) = {HParam}"
| "needs (ParamPrecision n) = {HParam}"
| "needs (ParamScale n) = {HParam}"
| "needs (ParamFormat t) = {HParam}"
| "needs DirPathFinish = {HCtx, HPrepared}"
| "needs DirPathAbort = {HCtx, HPrepared}"
| "needs AllocArray = {HCtx, HPrepared}"
| "needs AllocStream = {HCtx, HPrepared}"
| "needs FreeArray = {HArray}"
| "needs FreeStream = {HStream}"
| "needs GetArrayRows = {HArray}"
| "needs GetConverted = {HArray}"
| "needs ArrayReset = {HArray}"
| "needs StreamReset = {HStream}"
| "needs (EntrySet row column cell) = {HArray, HPrepared}"
| "needs (ArrayToStream n off) = {HCtx, HPrepared, HArray, HStream}"
| "needs LoadStream = {HCtx, HPrepared, HStream}"
| "needs _ = {HCtx}"

fun opens :: "bulk_call \<Rightarrow> bulk_handle option" where
  "opens AllocCtx = Some HCtx"
| "opens (ParamGet i) = Some HParam"
| "opens DirPathPrepare = Some HPrepared"
| "opens AllocArray = Some HArray"
| "opens AllocStream = Some HStream"
| "opens ReportBegin = Some HReports"
| "opens _ = None"

definition bars :: "bulk_call \<Rightarrow> bulk_handle set" where
  "bars c = (case opens c of Some h \<Rightarrow> {h} | None \<Rightarrow> if c = FreeCtx then {HParam, HPrepared, HArray, HStream} else {})"

text \<open>The observer of the datasource answers a report, the client library every other call.\<close>

definition call_succeeds :: "bulk_env \<Rightarrow> nat \<Rightarrow> bulk_call \<Rightarrow> bool" where
  "call_succeeds env k c \<longleftrightarrow> (if c = ReportBegin then dpe_report env k = None else accepted (dpe_status env k))"

fun closes :: "bulk_env \<Rightarrow> nat \<Rightarrow> bulk_call \<Rightarrow> bulk_handle set" where
  "closes env k FreeParam = {HParam}"
| "closes env k DirPathFinish = (if accepted (dpe_status env k) then {HPrepared} else {})"
| "closes env k DirPathAbort = {HPrepared}"
| "closes env k FreeArray = {HArray}"
| "closes env k FreeStream = {HStream}"
| "closes env k FreeCtx = {HCtx}"
| "closes env k (ReportEnd n ok) = {HReports}"
| "closes env k _ = {}"

definition protocol_step :: "bulk_env \<Rightarrow> nat \<Rightarrow> bulk_call \<Rightarrow> bulk_handle set \<Rightarrow> bulk_handle set option" where
  "protocol_step env k c H =
     (if needs c \<subseteq> H \<and> bars c \<inter> H = {}
      then Some ((H - closes env k c) \<union> (if call_succeeds env k c then set_option (opens c) else {}))
      else None)"

fun protocol :: "bulk_env \<Rightarrow> nat \<Rightarrow> bulk_call list \<Rightarrow> bulk_handle set \<Rightarrow> bulk_handle set option" where
  "protocol env k [] H = Some H"
| "protocol env k (c # cs) H = (case protocol_step env k c H of None \<Rightarrow> None | Some H' \<Rightarrow> protocol env (Suc k) cs H')"

text \<open>The handles that are open after the calls of a connection; none if they break the order.\<close>

definition open_handles :: "bulk_env \<Rightarrow> bulk \<Rightarrow> bulk_handle set option" where
  "open_handles env B = protocol env 0 (bk_calls B) {}"

lemma protocol_snoc: "protocol env k (cs @ [c]) H =
    (case protocol env k cs H of None \<Rightarrow> None | Some H' \<Rightarrow> protocol_step env (k + length cs) c H')"
  by (induction cs arbitrary: k H) (simp_all split: option.split)

lemma open_note: "open_handles env (bulk_note c B) =
    (case open_handles env B of None \<Rightarrow> None | Some H \<Rightarrow> protocol_step env (length (bk_calls B)) c H)"
  by (simp add: open_handles_def bulk_note_def protocol_snoc cong: option.case_cong)

lemma active_simps [simp]: "bk_active (bulk_note c B) = bk_active B" "bk_active (bulk_raise e B) = bk_active B"
  by (simp_all add: bulk_note_def bulk_raise_def)

text \<open>What the load knows of its handles.\<close>

definition known :: "bulk \<Rightarrow> bulk_handle set" where
  "known B = (if bk_ctx B then {HCtx} else {}) \<union> (if bk_prepared B then {HPrepared} else {}) \<union> (if bk_array B then {HArray} else {})
     \<union> (if bk_stream_handle B then {HStream} else {}) \<union> (if bk_started B then {HReports} else {})"

definition holding :: "bulk_env \<Rightarrow> bool \<Rightarrow> bulk_handle set \<Rightarrow> bulk \<Rightarrow> bool" where
  "holding env a H B \<longleftrightarrow> open_handles env B = Some H \<and> known B = H - {HParam} \<and> bk_active B = a"

text \<open>A step that starts with the handles \<open>H\<close> has \<open>H'\<close> if it succeeds and one of \<open>E\<close> if it fails.\<close>

definition moves :: "bulk_env \<Rightarrow> bool \<Rightarrow> bulk_handle set set \<Rightarrow> bulk_handle set \<Rightarrow> bulk_step \<Rightarrow> bulk_handle set \<Rightarrow> bool" where
  "moves env a E H f H' \<longleftrightarrow> (\<forall>B r B'. f B = (r, B') \<longrightarrow> holding env a H B \<longrightarrow>
     (if r then \<exists>X \<in> E. holding env a X B' else holding env a H' B'))"

lemma movesI: "(\<And>B r B'. f B = (r, B') \<Longrightarrow> holding env a H B \<Longrightarrow> if r then \<exists>X \<in> E. holding env a X B' else holding env a H' B')
    \<Longrightarrow> moves env a E H f H'"
  by (simp add: moves_def)

lemma movesD: "moves env a E H f H' \<Longrightarrow> f B = (r, B') \<Longrightarrow> holding env a H B \<Longrightarrow>
    if r then \<exists>X \<in> E. holding env a X B' else holding env a H' B'"
  by (simp add: moves_def)

lemma moves_Nil: "moves env a E H (bulk_seq []) H"
  by (simp add: moves_def)

lemma moves_Cons:
  assumes "moves env a E H f H1" "moves env a E H1 (bulk_seq fs) H'"
  shows "moves env a E H (bulk_seq (f # fs)) H'"
proof (rule movesI)
  fix B r B'
  assume a: "bulk_seq (f # fs) B = (r, B')" "holding env a H B"
  from a(1) show "if r then \<exists>X \<in> E. holding env a X B' else holding env a H' B'"
  proof (cases rule: bulk_seq_Cons_cases)
    case failed
    with movesD [OF assms(1) failed(1) a(2)] show ?thesis by simp
  next
    case (passed B1)
    from movesD [OF assms(1) passed(1) a(2)] have "holding env a H1 B1" by simp
    from movesD [OF assms(2) passed(2) this] show ?thesis .
  qed
qed

lemma moves_append:
  assumes "moves env a E H (bulk_seq fs) H1" "moves env a E H1 (bulk_seq gs) H'"
  shows "moves env a E H (bulk_seq (fs @ gs)) H'"
proof (rule movesI)
  fix B r B'
  assume a: "bulk_seq (fs @ gs) B = (r, B')" "holding env a H B"
  obtain q B1 where f: "bulk_seq fs B = (q, B1)" by fastforce
  note m = movesD [OF assms(1) f a(2)]
  show "if r then \<exists>X \<in> E. holding env a X B' else holding env a H' B'"
  proof (cases q)
    case True
    with a(1) f m show ?thesis by (simp add: bulk_seq_append)
  next
    case False
    with a(1) f m have "bulk_seq gs B1 = (r, B')" "holding env a H1 B1" by (simp_all add: bulk_seq_append)
    from movesD [OF assms(2) this] show ?thesis .
  qed
qed

lemma moves_all: "(\<And>f. f \<in> set fs \<Longrightarrow> moves env a E H f H) \<Longrightarrow> moves env a E H (bulk_seq fs) H"
proof (induction fs)
  case Nil
  show ?case by (rule moves_Nil)
next
  case (Cons f fs)
  have f: "moves env a E H f H" by (rule Cons.prems) simp
  have fs: "moves env a E H (bulk_seq fs) H" by (rule Cons.IH) (rule Cons.prems, simp)
  show ?case by (rule moves_Cons [OF f fs])
qed

lemma open_simps [simp]: "open_handles env (bulk_raise e B) = open_handles env B"
    "open_handles env (B\<lparr>bk_polls := n\<rparr>) = open_handles env B" "open_handles env (B\<lparr>bk_max_rows := m\<rparr>) = open_handles env B"
    "open_handles env (B\<lparr>bk_started := x\<rparr>) = open_handles env B" "open_handles env (B\<lparr>bk_used := x\<rparr>) = open_handles env B"
    "open_handles env (B\<lparr>bk_ok := x\<rparr>) = open_handles env B" "open_handles env (B\<lparr>bk_columns := cs\<rparr>) = open_handles env B"
    "open_handles env (B\<lparr>bk_active := x\<rparr>) = open_handles env B" "open_handles env (B\<lparr>bk_prepared := x\<rparr>) = open_handles env B"
    "open_handles env (B\<lparr>bk_consumed := z\<rparr>) = open_handles env B" "open_handles env (B\<lparr>bk_reported := z\<rparr>) = open_handles env B"
  by (simp_all add: open_handles_def bulk_raise_def)

lemma known_simps [simp]: "known (bulk_note c B) = known B" "known (bulk_raise e B) = known B"
    "known (B\<lparr>bk_polls := n\<rparr>) = known B" "known (B\<lparr>bk_max_rows := m\<rparr>) = known B" "known (B\<lparr>bk_used := x\<rparr>) = known B"
    "known (B\<lparr>bk_ok := x\<rparr>) = known B" "known (B\<lparr>bk_columns := cs\<rparr>) = known B" "known (B\<lparr>bk_active := x\<rparr>) = known B"
    "known (B\<lparr>bk_consumed := z\<rparr>) = known B" "known (B\<lparr>bk_reported := z\<rparr>) = known B"
  by (simp_all add: known_def bulk_note_def bulk_raise_def)

lemma known_flags [simp]: "known (B\<lparr>bk_ctx := True\<rparr>) = insert HCtx (known B)" "known (B\<lparr>bk_prepared := True\<rparr>) = insert HPrepared (known B)"
    "known (B\<lparr>bk_array := True\<rparr>) = insert HArray (known B)" "known (B\<lparr>bk_stream_handle := True\<rparr>) = insert HStream (known B)"
    "known (B\<lparr>bk_started := True\<rparr>) = insert HReports (known B)"
  by (auto simp: known_def)

lemma known_cleared [simp]: "known (B\<lparr>bk_prepared := False\<rparr>) = known B - {HPrepared}" "known (B\<lparr>bk_started := False\<rparr>) = known B - {HReports}"
  by (auto simp: known_def)

lemma known_mem [simp]: "HCtx \<in> known B \<longleftrightarrow> bk_ctx B" "HPrepared \<in> known B \<longleftrightarrow> bk_prepared B" "HArray \<in> known B \<longleftrightarrow> bk_array B"
    "HStream \<in> known B \<longleftrightarrow> bk_stream_handle B" "HReports \<in> known B \<longleftrightarrow> bk_started B" "HParam \<notin> known B"
  by (simp_all add: known_def)

lemma holding_raise [simp]: "holding env a H (bulk_raise e B) = holding env a H B"
  by (simp add: holding_def)

lemma holding_fields: "bk_calls B' = bk_calls B \<Longrightarrow> known B' = known B \<Longrightarrow> bk_active B' = bk_active B \<Longrightarrow> holding env a H B' = holding env a H B"
  by (simp add: holding_def open_handles_def)

lemma holding_poll:
  assumes "bulk_poll env B = (r, B')"
  shows "holding env a H B' = holding env a H B"
proof (cases "dpe_cancel env (bk_polls B)")
  case None
  with assms have "B' = B\<lparr>bk_polls := Suc (bk_polls B)\<rparr>" by (simp add: bulk_poll_def Let_def)
  then show ?thesis by (simp add: holding_def)
next
  case (Some e)
  with assms have "B' = bulk_raise e (B\<lparr>bk_polls := Suc (bk_polls B)\<rparr>)" by (simp add: bulk_poll_def Let_def)
  then show ?thesis by (simp add: holding_def)
qed

lemma moves_poll: "H \<in> E \<Longrightarrow> moves env a E H (bulk_poll env) H"
  by (auto simp: moves_def dest: holding_poll)

lemma moves_poll_every: "H \<in> E \<Longrightarrow> moves env a E H (poll_every env i) H"
  by (auto simp: moves_def poll_every_def dest: holding_poll split: if_splits)

text \<open>A call that needs what there is and opens and closes nothing.\<close>

definition passing :: "bulk_handle set \<Rightarrow> bulk_call \<Rightarrow> bool" where
  "passing H c \<longleftrightarrow> needs c \<subseteq> H \<and> opens c = None \<and> bars c = {} \<and> (\<forall>env k. closes env k c = {})"

lemma holding_note: "holding env a H B \<Longrightarrow> passing H c \<Longrightarrow> holding env a H (bulk_note c B)"
  by (simp add: holding_def open_note protocol_step_def passing_def)

lemma check_notes:
  assumes "bulk_check env c B = (r, B')"
  shows "B' = bulk_note c B \<or> (\<exists>e. B' = bulk_raise e (bulk_note c B))" "r \<longleftrightarrow> \<not> accepted (dpe_status env (length (bk_calls B)))"
  using assms check_frame(3) [OF assms] by (auto simp: bulk_check_def bulk_status_def split: option.splits)

lemma holding_check: "bulk_check env c B = (r, B') \<Longrightarrow> holding env a H B \<Longrightarrow> passing H c \<Longrightarrow> holding env a H B'"
  using check_notes(1) [of env c B r B'] holding_note by auto

lemma moves_check: "H \<in> E \<Longrightarrow> passing H c \<Longrightarrow> moves env a E H (bulk_check env c) H"
  using holding_check by (fastforce simp: moves_def)

text \<open>A call that opens a handle of the load.\<close>

definition opens_one :: "bulk_handle set \<Rightarrow> bulk_call \<Rightarrow> bulk_handle \<Rightarrow> bool" where
  "opens_one H c h \<longleftrightarrow> needs c \<subseteq> H \<and> opens c = Some h \<and> h \<notin> H \<and> c \<noteq> ReportBegin"

lemma opens_closes: "opens c = Some h \<Longrightarrow> closes env k c = {}"
  by (cases c) simp_all

lemma open_opens:
  assumes "opens_one H c h" "open_handles env B = Some H"
  shows "open_handles env (bulk_note c B) = Some (if accepted (dpe_status env (length (bk_calls B))) then insert h H else H)"
  using assms opens_closes [of c h]
  by (auto simp: open_note protocol_step_def opens_one_def bars_def call_succeeds_def)

lemma moves_open:
  assumes "opens_one H c h" "H \<in> E" "h \<noteq> HParam" "\<And>B. known (g B) = insert h (known B)" "\<And>B. bk_calls (g B) = bk_calls B" "\<And>B. bk_active (g B) = bk_active B"
  shows "moves env a E H (then_set (bulk_check env c) g) (insert h H)"
proof (rule movesI)
  fix B r B'
  assume a: "then_set (bulk_check env c) g B = (r, B')" "holding env a H B"
  obtain q B1 where k: "bulk_check env c B = (q, B1)" by fastforce
  with a(1) have r: "r = q" "B' = (if q then B1 else g B1)" by (auto simp: then_set_def)
  have o: "open_handles env B1 = Some (if q then H else insert h H)" "known B1 = known B" "bk_active B1 = bk_active B"
    using check_notes [OF k] open_opens [OF assms(1)] a(2) by (auto simp: holding_def)
  have "open_handles env (g B1) = open_handles env B1" by (simp add: open_handles_def assms(5))
  with o r a(2) assms(2-4,6) show "if r then \<exists>X \<in> E. holding env a X B' else holding env a (insert h H) B'"
    by (auto simp: holding_def)
qed

section \<open>Beginning\<close>

text \<open>Handles a destroyed load can give back.\<close>

definition closable :: "bulk_handle set \<Rightarrow> bool" where
  "closable H \<longleftrightarrow> HParam \<notin> H \<and> (HPrepared \<in> H \<longrightarrow> HCtx \<in> H)"

lemma param_note:
  assumes "open_handles env B = Some H" "HCtx \<in> H" "HParam \<notin> H"
  shows "open_handles env (bulk_note (ParamGet i) B) = Some (if accepted (dpe_status env (length (bk_calls B))) then insert HParam H else H)"
  by (rule open_opens) (use assms in \<open>simp_all add: opens_one_def\<close>)

lemma moves_column_setup:
  assumes "closable H" "HCtx \<in> H"
  shows "moves env a (Collect closable) H (column_setup env i c) H"
proof (rule movesI)
  fix B r B'
  assume a: "column_setup env i c B = (r, B')" "holding env a H B"
  let ?sets = "\<lambda>B. let (r, B1) = bulk_seq (column_sets env c) B in (r, bulk_note FreeParam B1)"
  let ?H = "insert HParam H"
  have n: "HParam \<notin> H" using assms(1) by (simp add: closable_def)
  have "bulk_seq [poll_every env i, bulk_check env (ParamGet (i + 1)), ?sets] B = (r, B')" using a(1) by (simp add: column_setup_def)
  then have "holding env a H B'"
  proof (cases rule: bulk_seq_Cons_cases)
    case failed
    with movesD [OF moves_poll_every [of H "{H}"] failed(1) a(2)] show ?thesis by simp
  next
    case (passed B1)
    have h1: "holding env a H B1" using movesD [OF moves_poll_every [of H "{H}"] passed(1) a(2)] by simp
    from passed(2) show ?thesis
    proof (cases rule: bulk_seq_Cons_cases)
      case failed
      with check_notes [OF failed(1)] param_note [of env B1 H "i + 1"] h1 assms(2) n show ?thesis
        by (auto simp: holding_def)
    next
      case (passed B2)
      have h2: "holding env a ?H B2"
        using check_notes [OF passed(1)] param_note [of env B1 H "i + 1"] h1 assms(2) n
        by (auto simp: holding_def)
      obtain q B3 where q: "bulk_seq (column_sets env c) B2 = (q, B3)" by fastforce
      have "moves env a {?H} ?H (bulk_seq (column_sets env c)) ?H"
        by (rule moves_all) (auto simp: column_sets_def passing_def bars_def intro!: moves_check split: if_splits)
      from movesD [OF this q h2] have h3: "holding env a ?H B3" by (simp split: if_splits)
      have "B' = bulk_note FreeParam B3" using passed(2) q by simp
      with h3 n show ?thesis
        by (auto simp: holding_def open_note protocol_step_def bars_def call_succeeds_def)
    qed
  qed
  with assms(1) show "if r then \<exists>X \<in> Collect closable. holding env a X B' else holding env a H B'" by auto
qed

lemma holding_array_rows:
  assumes "array_rows env B = (r, B')" "holding env a H B" "HArray \<in> H"
  shows "holding env a H B'"
proof -
  obtain q B1 where k: "bulk_check env GetArrayRows B = (q, B1)" by fastforce
  have h: "holding env a H B1" by (rule holding_check [OF k assms(2)]) (use assms(3) in \<open>simp add: passing_def bars_def\<close>)
  let ?B2 = "B1\<lparr>bk_max_rows := dpe_count env (length (bk_calls B))\<rparr>"
  have "B' = (if q then B1 else if bk_max_rows ?B2 = 0 then bulk_raise (path_error ''zero-row column array'') ?B2 else ?B2)"
    using assms(1) k by (simp add: array_rows_def Let_def bulk_fail_def split: if_splits)
  with h show ?thesis by (simp add: holding_def)
qed

text \<open>The reports are begun if the observer is active.\<close>

lemma stream_begin_holds:
  assumes "stream_begin env B = (r, B')" "holding env a H B" "HReports \<notin> H"
  shows "holding env a H B' \<or> holding env a (insert HReports H) B' \<and> \<not> r"
proof (cases "bk_observed B")
  case False
  with assms show ?thesis by (simp add: stream_begin_def)
next
  case True
  have o: "open_handles env (bulk_note ReportBegin B) = Some (if dpe_report env (length (bk_calls B)) = None then insert HReports H else H)"
    using assms(2,3) by (simp add: holding_def open_note protocol_step_def bars_def call_succeeds_def)
  show ?thesis
  proof (cases "dpe_report env (length (bk_calls B))")
    case None
    with assms(1) True have "\<not> r" "B' = (bulk_note ReportBegin B)\<lparr>bk_started := True\<rparr>" by (simp_all add: stream_begin_def)
    with o None assms(2) show ?thesis by (auto simp: holding_def)
  next
    case (Some e)
    with assms(1) True have "B' = bulk_raise e (bulk_note ReportBegin B)" by (simp add: stream_begin_def)
    with o Some assms(2) show ?thesis by (simp add: holding_def)
  qed
qed

lemma holding_poll_every: "poll_every env i B = (r, B') \<Longrightarrow> holding env a H B' = holding env a H B"
  using holding_poll by (cases "i \<noteq> 0 \<and> i mod 100 = 0") (auto simp: poll_every_def)

lemma ident_holding: "ident_loop env q st d n acc p B = (x, B') \<Longrightarrow> holding env a H B' = holding env a H B"
proof (induction env q st d n acc p B rule: ident_loop.induct)
  case (2 env q st d n acc c p B)
  obtain x B1 where k: "poll_every env n B = (x, B1)" by fastforce
  note h = holding_poll_every [OF k, of a H]
  from 2 k h show ?case by (simp split: if_splits)
qed simp

lemma parse_holding: "qoreOracleParseSimpleIdentifier env v q B = (x, B') \<Longrightarrow> holding env a H B' = holding env a H B"
  using ident_holding by (cases "v = []") (simp_all add: qoreOracleParseSimpleIdentifier_def)

lemma index_holding: "index_columns env i cs m B = (x, B') \<Longrightarrow> holding env a H B' = holding env a H B"
proof (induction env i cs m B rule: index_columns.induct)
  case (2 env i c cs m B)
  obtain x B1 where k: "poll_every env i B = (x, B1)" by fastforce
  note h = holding_poll_every [OF k, of a H]
  from 2 k h show ?case by (simp add: Let_def split: if_splits)
qed simp

lemma refusals:
  assumes "refused B = (rc, B') \<or> rc_fail what B = (rc, B')"
  shows "holding env a H B' = holding env a H B"
proof -
  from assms show ?thesis
  proof
    assume "refused B = (rc, B')"
    then show ?thesis by (simp add: refused_def)
  next
    assume "rc_fail what B = (rc, B')"
    then have "B' = bulk_raise (path_error what) B" by (simp add: rc_fail_def)
    then show ?thesis by simp
  qed
qed

lemma describe_holding:
  assumes "describe_columns env info md vs used B = (rc, B')"
  shows "holding env a H B' = holding env a H B"
  using assms
proof (induction env info md vs used B rule: describe_columns.induct)
  case (2 env info md v vs used B)
  obtain x B1 where k: "poll_every env (length (bk_columns B)) B = (x, B1)" by fastforce
  note h = holding_poll_every [OF k, of a H]
  show ?case
  proof (cases "\<exists>n e. \<not> x \<and> v = QString n e")
    case False
    show ?thesis
    proof (cases x)
      case True
      with "2.prems" k h show ?thesis by simp
    next
      case no: False
      with False have "\<nexists>n e. v = QString n e" by blast
      with "2.prems" k no have "rc_fail ''column expected string'' B1 = (rc, B')" by (cases v) simp_all
      with refusals h show ?thesis by blast
    qed
  next
    case True
    then obtain n e where v: "\<not> x" "v = QString n e" by blast
    obtain y B2 where q: "qoreOracleParseSimpleIdentifier env (c_str n) False B1 = (y, B2)" by fastforce
    have h2: "holding env a H B2 = holding env a H B" using parse_holding [OF q] h by simp
    show ?thesis
    proof (cases "\<exists>m i c. y = Some m \<and> map_of md m = Some i \<and> i \<notin> set used \<and> bulk_column_of n (ti_cols info ! i) = Some c")
      case True
      then obtain m i c where y: "y = Some m" "map_of md m = Some i" "i \<notin> set used" "bulk_column_of n (ti_cols info ! i) = Some c" by blast
      with "2.prems" k v q have d: "describe_columns env info md vs (i # used) (B2\<lparr>bk_columns := bk_columns B2 @ [c]\<rparr>) = (rc, B')" by simp
      from "2.IH" [OF k [symmetric] refl v q [symmetric] y d] h2 show ?thesis by (simp add: holding_def)
    next
      case False
      with "2.prems" k v q have "B' = B2 \<or> (\<exists>what. refused B2 = (rc, B') \<or> rc_fail what B2 = (rc, B'))"
        by (simp split: option.splits if_splits) blast+
      then show ?thesis using refusals h2 by blast
    qed
  qed
qed simp

text \<open>The handles of a load that has begun.\<close>

definition all_handles :: "bulk_handle set" where
  "all_handles = {HCtx, HPrepared, HArray, HStream}"

lemma bulk_seq_snoc:
  assumes "bulk_seq (fs @ [g]) B = (r, B')" "bulk_seq fs B = (q, B1)"
  shows "if q then r \<and> B' = B1 else g B1 = (r, B')"
  using assms by (cases q) (simp_all add: bulk_seq_append)

lemma setup_holding:
  assumes "bulk_seq (direct_path_setup env info parallel nolog bufsize columns) B = (r, B')" "holding env a {} B"
  shows "if r then \<exists>X. closable X \<and> holding env a X B' else holding env a all_handles B' \<or> holding env a (insert HReports all_handles) B'"
proof -
  let ?E = "Collect closable"
  let ?A = "[bulk_check env (SetTableName (ti_name info))]
     @ (if ti_schema info \<noteq> [] then [bulk_check env (SetSchemaName (ti_schema info))] else [])
     @ [bulk_check env (SetNumRows QORE_ORACLE_DIRECT_PATH_ROWS), bulk_check env (SetNumCols (word_of_nat (length columns))),
        bulk_check env (SetBufferSize bufsize), bulk_check env (SetParallel parallel), bulk_check env (SetNolog nolog),
        bulk_check env GetColumnList]
     @ map (\<lambda>(i, c). column_setup env i c) (zip [0..<length columns] columns) @ [bulk_poll env]"
  let ?B = "[then_set (bulk_check env DirPathPrepare) (bk_prepared_update (\<lambda>_. True)),
        then_set (bulk_check env AllocArray) (bk_array_update (\<lambda>_. True)),
        then_set (bulk_check env AllocStream) (bk_stream_handle_update (\<lambda>_. True)), array_rows env]"
  let ?fs = "then_set (bulk_check env AllocCtx) (bk_ctx_update (\<lambda>_. True)) # (?A @ ?B)"
  have ctx: "closable {}" "closable {HCtx}" "closable {HPrepared, HCtx}" "closable {HArray, HPrepared, HCtx}"
      "closable {HStream, HArray, HPrepared, HCtx}" by (simp_all add: closable_def)
  have a0: "moves env a ?E {} (then_set (bulk_check env AllocCtx) (bk_ctx_update (\<lambda>_. True))) {HCtx}"
    by (rule moves_open) (simp_all add: opens_one_def ctx)
  have a1: "moves env a ?E {HCtx} (bulk_seq ?A) {HCtx}"
  proof (rule moves_all)
    fix f assume "f \<in> set ?A"
    then consider c where "f = bulk_check env c" "passing {HCtx} c" | i c where "f = column_setup env i c" | "f = bulk_poll env"
      by (auto simp: passing_def bars_def split: if_splits)
    then show "moves env a ?E {HCtx} f {HCtx}"
    proof cases
      case 1
      with moves_check ctx show ?thesis by simp
    next
      case 2
      with moves_column_setup [OF ctx(2)] show ?thesis by simp
    next
      case 3
      with moves_poll ctx show ?thesis by simp
    qed
  qed
  have b1: "moves env a ?E {HCtx} (then_set (bulk_check env DirPathPrepare) (bk_prepared_update (\<lambda>_. True))) {HPrepared, HCtx}"
    by (rule moves_open) (simp_all add: opens_one_def ctx)
  have b2: "moves env a ?E {HPrepared, HCtx} (then_set (bulk_check env AllocArray) (bk_array_update (\<lambda>_. True))) {HArray, HPrepared, HCtx}"
    by (rule moves_open) (simp_all add: opens_one_def ctx)
  have b3: "moves env a ?E {HArray, HPrepared, HCtx} (then_set (bulk_check env AllocStream) (bk_stream_handle_update (\<lambda>_. True)))
      {HStream, HArray, HPrepared, HCtx}"
    by (rule moves_open) (simp_all add: opens_one_def ctx)
  have all: "{HStream, HArray, HPrepared, HCtx} = all_handles" by (auto simp: all_handles_def)
  have b4: "moves env a ?E all_handles (array_rows env) all_handles"
    by (rule movesI) (use holding_array_rows ctx(5) in \<open>auto simp: all [symmetric]\<close>)
  have "moves env a ?E {} (bulk_seq ?fs) all_handles"
    by (rule moves_Cons [OF a0 moves_append [OF a1]])
      (rule moves_Cons [OF b1 moves_Cons [OF b2 moves_Cons [OF b3 [unfolded all] moves_Cons [OF b4 moves_Nil]]]])
  note m = movesD [OF this]
  have "direct_path_setup env info parallel nolog bufsize columns = ?fs @ [stream_begin env]" by (simp add: direct_path_setup_def)
  with assms(1) have s: "bulk_seq (?fs @ [stream_begin env]) B = (r, B')" by simp
  obtain q B1 where q: "bulk_seq ?fs B = (q, B1)" by fastforce
  note h = m [OF q assms(2)]
  show ?thesis
  proof (cases q)
    case True
    with bulk_seq_snoc [OF s q] have "r" "B' = B1" by simp_all
    with h True show ?thesis by auto
  next
    case False
    with bulk_seq_snoc [OF s q] have "stream_begin env B1 = (r, B')" by simp
    from stream_begin_holds [OF this, of a all_handles] h False have "holding env a all_handles B' \<or> holding env a (insert HReports all_handles) B' \<and> \<not> r"
      by (simp add: all_handles_def)
    moreover have "closable all_handles" by (simp add: closable_def all_handles_def)
    ultimately show ?thesis by auto
  qed
qed

section \<open>Loading rows\<close>

text \<open>A load with all its handles, with or without reports.\<close>

definition loading :: "bulk_handle set \<Rightarrow> bool" where
  "loading H \<longleftrightarrow> H = all_handles \<or> H = insert HReports all_handles"

lemma loading_passes:
  assumes "loading H"
  shows "passing H ArrayReset" "passing H StreamReset" "passing H (EntrySet row column cell)" "passing H (ArrayToStream n off)"
    "passing H GetConverted" "passing H LoadStream"
  using assms by (auto simp: loading_def all_handles_def passing_def bars_def)

definition steady :: "bulk_env \<Rightarrow> bool \<Rightarrow> bulk_handle set \<Rightarrow> bulk_step \<Rightarrow> bool" where
  "steady env a H f \<longleftrightarrow> (\<forall>B r B'. f B = (r, B') \<longrightarrow> holding env a H B \<longrightarrow> holding env a H B')"

lemma steadyI: "(\<And>B r B'. f B = (r, B') \<Longrightarrow> holding env a H B \<Longrightarrow> holding env a H B') \<Longrightarrow> steady env a H f"
  by (simp add: steady_def)

lemma steadyD: "steady env a H f \<Longrightarrow> f B = (r, B') \<Longrightarrow> holding env a H B \<Longrightarrow> holding env a H B'"
  by (simp add: steady_def)

lemma steady_seq: "(\<And>f. f \<in> set fs \<Longrightarrow> steady env a H f) \<Longrightarrow> steady env a H (bulk_seq fs)"
  unfolding steady_def by (metis bulk_seq_keeps)

lemma steady_poll: "steady env a H (bulk_poll env)" "steady env a H (poll_every env i)"
  by (simp_all add: steady_def holding_poll holding_poll_every)

lemma steady_check: "passing H c \<Longrightarrow> steady env a H (bulk_check env c)"
  using holding_check by (simp add: steady_def)

lemma steady_entries:
  assumes "loading H"
  shows "steady env a H (set_entries env cells offset n)"
  unfolding set_entries_steps
proof (rule steady_seq)
  fix f assume "f \<in> set (row_steps env cells offset n)"
  then consider i where "f = poll_every env i" | row column cell where "f = bulk_check env (EntrySet row column cell)"
    by (auto simp: row_steps_def entry_steps_def)
  then show "steady env a H f" by cases (simp_all add: steady_poll steady_check loading_passes [OF assms])
qed

lemma steady_loadStream:
  assumes "loading H"
  shows "steady env a H (loadStream env)"
  unfolding loadStream_def
proof (rule steady_seq)
  let ?load = "\<lambda>B. let rc = bulk_status env B in if rc \<in> {OCI_SUCCESS, OCI_SUCCESS_WITH_INFO, OCI_ERROR} then bulk_check env LoadStream B
            else bulk_fail ''OCIDirPathLoadStream() returned unexpected status'' (bulk_note LoadStream B)"
  fix f assume "f \<in> set [bulk_poll env, ?load]"
  moreover have "steady env a H ?load"
  proof (rule steadyI)
    fix B r B'
    assume a: "?load B = (r, B')" "holding env a H B"
    show "holding env a H B'"
    proof (cases "bulk_status env B \<in> {OCI_SUCCESS, OCI_SUCCESS_WITH_INFO, OCI_ERROR}")
      case True
      with a(1) have "bulk_check env LoadStream B = (r, B')" by (simp add: Let_def)
      with steadyD [OF steady_check [OF loading_passes(6) [OF assms]]] a(2) show ?thesis by simp
    next
      case False
      with a(1) have "B' = bulk_raise (path_error ''OCIDirPathLoadStream() returned unexpected status'') (bulk_note LoadStream B)"
        by (simp add: Let_def bulk_fail_def)
      with holding_note [OF a(2) loading_passes(6) [OF assms]] show ?thesis by simp
    qed
  qed
  ultimately show "steady env a H f" using steady_poll by auto
qed

lemma convert_rows_holding:
  assumes "convert_rows env n off B = (x, B')" "holding env a H B" "loading H"
  shows "holding env a H B'"
proof -
  obtain c B1 where p: "bulk_poll env B = (c, B1)" by fastforce
  have h1: "holding env a H B1" using holding_poll [OF p] assms(2) by simp
  let ?c = "ArrayToStream n off" and ?rc = "bulk_status env B1"
  note note1 = holding_note [OF h1 loading_passes(4) [OF assms(3)], of n off]
  show ?thesis
  proof (cases "c")
    case True
    with assms(1) p h1 show ?thesis by (simp add: convert_rows_def Let_def)
  next
    case nc: False
    show ?thesis
    proof (cases "?rc = OCI_SUCCESS_WITH_INFO \<or> ?rc = OCI_ERROR")
      case True
      obtain r B2 where k: "bulk_check env ?c B1 = (r, B2)" by fastforce
      with assms(1) p nc True have "B' = B2" by (simp add: convert_rows_def Let_def)
      with holding_check [OF k h1 loading_passes(4) [OF assms(3)]] show ?thesis by simp
    next
      case other: False
      show ?thesis
      proof (cases "?rc = OCI_CONTINUE")
        case True
        obtain q B2 where k: "bulk_check env GetConverted (bulk_note ?c B1) = (q, B2)" by fastforce
        have h2: "holding env a H B2" by (rule holding_check [OF k note1 loading_passes(5) [OF assms(3)]])
        from assms(1) p nc other True k
        have "B' = B2 \<or> B' = bulk_raise (path_error ''Oracle reported invalid direct path conversion progress'') B2"
          by (simp add: convert_rows_def next_row_def Let_def split: if_splits)
        with h2 show ?thesis by (elim disjE) simp_all
      next
        case False
        with assms(1) p nc other
        have "B' = bulk_note ?c B1 \<or> B' = bulk_raise (path_error ''OCIDirPathColArrayToStream() returned unexpected status'') (bulk_note ?c B1)"
          by (simp add: convert_rows_def Let_def split: if_splits)
        with note1 show ?thesis by (elim disjE) simp_all
      qed
    qed
  qed
qed

lemma convert_loop_holding:
  assumes "convert_loop env n off B = (r, B')" "holding env a H B" "loading H"
  shows "holding env a H B'"
  using assms
proof (induction env n off B rule: convert_loop.induct)
  case (1 env n off B)
  show ?case
  proof (cases "off < n")
    case False
    with "1.prems" show ?thesis by (simp add: convert_loop.simps [of env n off B])
  next
    case less: True
    obtain x B1 where c: "convert_rows env n off B = (x, B1)" by fastforce
    have h1: "holding env a H B1" by (rule convert_rows_holding [OF c "1.prems"(2,3)])
    show ?thesis
    proof (cases x)
      case None
      with "1.prems"(1) less c h1 show ?thesis by (simp add: convert_loop.simps [of env n off B])
    next
      case (Some k)
      let ?fs = "loadStream env # (if k < n then [bulk_check env StreamReset] else [])"
      obtain q B2 where s: "bulk_seq ?fs B1 = (q, B2)" by fastforce
      have "steady env a H (bulk_seq ?fs)"
      proof (rule steady_seq)
        fix f assume "f \<in> set ?fs"
        then consider "f = loadStream env" | "f = bulk_check env StreamReset" by (auto split: if_splits)
        then show "steady env a H f" by cases (simp_all add: steady_loadStream steady_check loading_passes "1.prems"(3))
      qed
      from steadyD [OF this s h1] have h2: "holding env a H B2" .
      show ?thesis
      proof (cases q)
        case True
        with "1.prems"(1) less c Some s h2 show ?thesis by (simp add: convert_loop.simps [of env n off B])
      next
        case False
        with "1.prems"(1) less c Some s have "convert_loop env n k B2 = (r, B')" by (simp add: convert_loop.simps [of env n off B])
        from "1.IH" [OF less c [symmetric] Some s [symmetric] refl False this h2 "1.prems"(3)] show ?thesis .
      qed
    qed
  qed
qed

lemma steady_loadChunk:
  assumes "loading H"
  shows "steady env a H (loadChunk env cells offset n)"
proof (rule steadyI)
  fix B r B'
  assume a: "loadChunk env cells offset n B = (r, B')" "holding env a H B"
  let ?reset = "\<lambda>B. if bk_used B then resetHandles env B else (False, B)"
  let ?fs = "[?reset, set_entries env cells offset n, convert_loop env (word_of_nat n) 0]"
  obtain q B1 where s: "bulk_seq ?fs B = (q, B1)" by fastforce
  have reset: "steady env a H (resetHandles env)"
    unfolding resetHandles_def
  proof (rule steady_seq)
    fix f assume "f \<in> set [bulk_check env ArrayReset, bulk_check env StreamReset]"
    then consider "f = bulk_check env ArrayReset" | "f = bulk_check env StreamReset" by auto
    then show "steady env a H f" by cases (simp_all add: steady_check loading_passes assms)
  qed
  have "steady env a H (bulk_seq ?fs)"
  proof (rule steady_seq)
    fix f assume "f \<in> set ?fs"
    then consider "f = ?reset" | "f = set_entries env cells offset n" | "f = convert_loop env (word_of_nat n) 0" by auto
    then show "steady env a H f"
    proof cases
      case 1
      with reset show ?thesis by (simp add: steady_def)
    next
      case 2
      with steady_entries [OF assms] show ?thesis by simp
    next
      case 3
      with convert_loop_holding assms show ?thesis by (simp add: steady_def)
    qed
  qed
  from steadyD [OF this s a(2)] have h: "holding env a H B1" .
  from a(1) s have "B' = (if q then B1 else B1\<lparr>bk_used := True\<rparr>)" by (simp add: loadChunk_def then_set_def split: if_splits)
  with h show "holding env a H B'" by (simp add: holding_def)
qed

lemma load_chunks_holding:
  assumes "load_chunks env cells k count offset B = (r, B')" "holding env a H B" "loading H"
  shows "holding env a H B'"
  using assms
proof (induction env cells k count offset B rule: load_chunks.induct)
  case (1 env cells k count offset B)
  show ?case
  proof (cases "offset < count \<and> 0 < k")
    case False
    with "1.prems" show ?thesis by (auto simp: load_chunks.simps [of env cells k count offset B])
  next
    case True
    let ?n = "min k (count - offset)"
    obtain q B1 where c: "loadChunk env cells offset ?n B = (q, B1)" by fastforce
    have h: "holding env a H B1" by (rule steadyD [OF steady_loadChunk [OF "1.prems"(3)] c "1.prems"(2)])
    show ?thesis
    proof (cases q)
      case qt: True
      with "1.prems"(1) True c h show ?thesis by (simp add: load_chunks.simps [of env cells k count offset B])
    next
      case False
      with "1.prems"(1) True c have "load_chunks env cells k count (offset + ?n) B1 = (r, B')"
        by (simp add: load_chunks.simps [of env cells k count offset B])
      from "1.IH" [OF True refl c [symmetric] refl False this h "1.prems"(3)] show ?thesis .
    qed
  qed
qed

lemma block_values_holding: "holding env a H (snd (block_values env rows i cs n vs B)) = holding env a H B"
proof (induction env rows i cs n vs B rule: block_values.induct)
  case (2 env rows i c cs n vs B)
  obtain b B1 where p: "poll_every env i B = (b, B1)" by fastforce
  note h = holding_poll_every [OF p, of a H]
  from 2 p h show ?case by (simp split: option.split)
qed simp

lemma serialize_rows_holding: "holding env a H (snd (serialize_rows env c row vs cells payload B)) = holding env a H B"
proof (induction env c row vs cells payload B rule: serialize_rows.induct)
  case (2 env c row v vs cells payload B)
  obtain b B1 where p: "poll_every env row B = (b, B1)" by fastforce
  note h = holding_poll_every [OF p, of a H]
  from 2 p h show ?case by (simp split: sum.split)
qed simp

lemma serialize_columns_holding: "holding env a H (snd (serialize_columns env count i cvs cells payload B)) = holding env a H B"
proof (induction env count i cvs cells payload B rule: serialize_columns.induct)
  case (2 env count i c v cs cells payload B)
  obtain b B1 where p: "poll_every env i B = (b, B1)" by fastforce
  obtain y B2 where r: "serialize_rows env c 0 (map (row_value v) [0..<count]) [] payload B1 = (y, B2)" by fastforce
  have h: "holding env a H B1 = holding env a H B" "holding env a H B2 = holding env a H B"
    using holding_poll_every [OF p] serialize_rows_holding [of env a H c 0 "map (row_value v) [0..<count]" "[]" payload B1] r by simp_all
  from 2 p r h show ?case by (cases y) (simp_all split: prod.split)
qed simp

lemma holding_reports: "holding env a H B \<Longrightarrow> bk_started B \<Longrightarrow> HReports \<in> H"
  using known_mem(5) [of B] by (auto simp: holding_def)

lemma addBytes_holding:
  assumes "stream_addBytes env n B = (r, B')" "holding env a H B"
  shows "holding env a H B'"
proof (cases "bk_started B \<and> \<not> int n > 9223372036854775807 - bk_consumed B")
  case False
  with assms have "B' = B \<or> B' = bulk_raise (path_error ''payload byte counter overflow'') (B\<lparr>bk_ok := False\<rparr>)"
    by (simp add: stream_addBytes_def bulk_fail_def split: if_splits)
  with assms(2) show ?thesis by (elim disjE) (simp_all add: holding_def)
next
  case True
  let ?B1 = "B\<lparr>bk_consumed := bk_consumed B + int n\<rparr>"
  let ?B2 = "bulk_note (ReportProgress (bk_consumed ?B1)) (?B1\<lparr>bk_reported := bk_consumed ?B1\<rparr>)"
  have "passing H (ReportProgress k)" for k
    using holding_reports [OF assms(2)] True by (simp add: passing_def bars_def)
  moreover have h1: "holding env a H ?B1" "holding env a H (?B1\<lparr>bk_reported := bk_consumed ?B1\<rparr>)"
    using assms(2) by (simp_all add: holding_def)
  ultimately have h2: "holding env a H ?B2" by (intro holding_note)
  then have h3: "holding env a H (?B2\<lparr>bk_ok := False\<rparr>)" by (simp add: holding_def)
  from assms(1) True consider "B' = ?B1" | "B' = ?B2" | e where "B' = bulk_raise e (?B2\<lparr>bk_ok := False\<rparr>)"
    by (simp add: stream_addBytes_def Let_def split: if_splits option.splits) metis+
  then show ?thesis
    by cases (simp_all only: h1(1) h2 h3 holding_raise)
qed

lemma loadRows_holding:
  assumes "loadRows env rows B = (r, B')" "holding env a H B" "loading H"
  shows "holding env a H B'"
proof -
  have err: "holding env a H X \<Longrightarrow> holding env a H (set_error X)" for X by (simp add: set_error_def holding_def)
  show ?thesis
  proof (cases "length rows \<noteq> length (bk_columns B)")
    case True
    with assms(1) have "B' = bulk_raise (path_error ''row block has another number of columns'') (set_error B)"
      by (simp add: loadRows_def bulk_fail_def)
    with err [OF assms(2)] show ?thesis by simp
  next
    case len: False
    obtain y B1 where b: "block_values env rows 0 (bk_columns B) None [] B = (y, B1)" by fastforce
    have h1: "holding env a H B1" using block_values_holding [of env a H rows 0 "bk_columns B" None "[]" B] b assms(2) by simp
    show ?thesis
    proof (cases y)
      case None
      with assms(1) len b err [OF h1] show ?thesis by (simp add: loadRows_def)
    next
      case (Some nvs)
      then obtain n vs where y: "y = Some (n, vs)" by fastforce
      define count where "count = (case n of None \<Rightarrow> 1 | Some k \<Rightarrow> k)"
      obtain z B2 where z: "serialize_columns env count 0 (zip (bk_columns B1) vs) [] 0 B1 = (z, B2)" by fastforce
      have h2: "holding env a H B2" using serialize_columns_holding [of env a H count 0 "zip (bk_columns B1) vs" "[]" 0 B1] z h1 by simp
      show ?thesis
      proof (cases "count = 0 \<or> z = None")
        case True
        with assms(1) len b y z h1 err [OF h2] show ?thesis
          by (auto simp: loadRows_def count_def [symmetric] split: if_splits)
      next
        case False
        then obtain cells payload where cp: "z = Some (cells, payload)" "count \<noteq> 0" by fastforce
        obtain q B3 where l: "load_chunks env cells (unat (bk_max_rows B2)) count 0 B2 = (q, B3)" by fastforce
        have h3: "holding env a H B3" by (rule load_chunks_holding [OF l h2 assms(3)])
        have rest: "if q then B' = set_error B3 else stream_addBytes env payload B3 = (r, B')"
          using assms(1) len b y z cp l by (simp add: loadRows_def count_def [symmetric] split: if_splits)
        show ?thesis
        proof (cases q)
          case True
          with rest err [OF h3] show ?thesis by simp
        next
          case False
          with rest addBytes_holding h3 show ?thesis by simp
        qed
      qed
    qed
  qed
qed

section \<open>The end\<close>

text \<open>Giving a handle back.\<close>

lemma open_close:
  assumes "open_handles env B = Some H" "needs c \<subseteq> H" "bars c \<inter> H = {}" "opens c = None"
  shows "open_handles env (bulk_note c B) = Some (H - closes env (length (bk_calls B)) c)"
  using assms by (simp add: open_note protocol_step_def)

lemma closable_abort:
  assumes "holding env a H B" "closable H"
  shows "open_handles env (if bk_prepared B \<and> bk_ctx B then bulk_note DirPathAbort B else B) = Some (H - {HPrepared})"
proof (cases "bk_prepared B \<and> bk_ctx B")
  case True
  then have "{HCtx, HPrepared} \<subseteq> H" using assms(1) known_mem(1,2) [of B] by (auto simp: holding_def)
  with open_close [of env B H DirPathAbort] assms(1) True show ?thesis by (simp add: holding_def bars_def)
next
  case False
  have "HPrepared \<notin> H" using False assms known_mem(1,2) [of B] by (auto simp: holding_def closable_def)
  moreover have "(if bk_prepared B \<and> bk_ctx B then bulk_note DirPathAbort B else B) = B" using False by (simp only: if_False)
  then have "open_handles env (if bk_prepared B \<and> bk_ctx B then bulk_note DirPathAbort B else B) = Some H"
    using assms(1) by (simp only: holding_def)
  ultimately show ?thesis by (simp add: Diff_triv)
qed

lemma freed_handles:
  assumes "open_handles env B = Some H" "known B \<inter> {HStream, HArray, HCtx} = H \<inter> {HStream, HArray, HCtx}" "HParam \<notin> H" "HPrepared \<notin> H"
  shows "open_handles env (freeHandles B) = Some (H - {HStream, HArray, HCtx})"
proof -
  define B1 where "B1 = (if bk_stream_handle B then bulk_note FreeStream B else B)"
  define B2 where "B2 = (if bk_array B1 then bulk_note FreeArray B1 else B1)"
  define B3 where "B3 = (if bk_ctx B2 then bulk_note FreeCtx B2 else B2)"
  have k: "HStream \<in> H \<longleftrightarrow> bk_stream_handle B" "HArray \<in> H \<longleftrightarrow> bk_array B" "HCtx \<in> H \<longleftrightarrow> bk_ctx B"
    using assms(2) known_mem [of B] by blast+
  have f: "bk_array B1 = bk_array B" "bk_ctx B2 = bk_ctx B" "bk_array B2 = bk_array B"
    by (simp_all add: B1_def B2_def bulk_note_def)
  have 1: "open_handles env B1 = Some (H - {HStream})"
    using open_close [OF assms(1), of FreeStream] assms(1) k(1) by (simp add: B1_def bars_def Diff_triv)
  have 2: "open_handles env B2 = Some (H - {HStream} - {HArray})"
    using open_close [OF 1, of FreeArray] 1 k(2) f(1) by (simp add: B2_def bars_def Diff_triv)
  have 3: "open_handles env B3 = Some (H - {HStream} - {HArray} - {HCtx})"
    using open_close [OF 2, of FreeCtx] 2 k(3) f(2) assms(3,4) by (simp add: B3_def bars_def Diff_triv)
  have s: "H - {HStream} - {HArray} - {HCtx} = H - {HStream, HArray, HCtx}" by blast
  have "bk_calls (freeHandles B) = bk_calls B3"
    unfolding freeHandles_def Let_def B1_def [symmetric] B2_def [symmetric] B3_def [symmetric]
    using f by (simp add: B2_def B3_def)
  then have "open_handles env (freeHandles B) = open_handles env B3" by (simp add: open_handles_def)
  with 3 s show ?thesis by simp
qed

lemma destroyed_holding:
  assumes "holding env a H B" "closable H"
  shows "holding env a {} (destroy_load B)"
proof -
  define A where "A = (if bk_prepared B \<and> bk_ctx B then bulk_note DirPathAbort B else B)"
  let ?H = "H - {HPrepared}" and ?F = "freeHandles A"
  have a: "open_handles env A = Some ?H" unfolding A_def by (rule closable_abort [OF assms])
  have k: "known A = known B" by (simp add: A_def)
  have f: "open_handles env ?F = Some (?H - {HStream, HArray, HCtx})"
    by (rule freed_handles [OF a]) (use assms k in \<open>auto simp: holding_def closable_def\<close>)
  have st: "bk_started ?F = bk_started B" by (simp add: freeHandles_def Let_def A_def bulk_note_def)
  have hr: "HReports \<in> H \<longleftrightarrow> bk_started B" using assms(1) known_mem(5) [of B] by (auto simp: holding_def)
  have h: "?H - {HStream, HArray, HCtx} = (if bk_started B then {HReports} else {})"
    using hr assms(2) by (auto simp: closable_def intro: bulk_handle.exhaust)
  have o: "open_handles env (if bk_started B then bulk_note (ReportEnd (bk_consumed B) False) ?F else ?F) = Some {}"
    using open_close [OF f, of "ReportEnd (bk_consumed B) False"] f h by (simp add: bars_def)
  have d: "destroy_load B = (if bk_started B then bulk_note (ReportEnd (bk_consumed B) False) ?F else ?F)
      \<lparr>bk_prepared := False, bk_started := False\<rparr>"
    by (simp only: destroy_load_def Let_def A_def)
  have "bk_active (destroy_load B) = bk_active B" unfolding d by (simp add: freeHandles_def Let_def A_def)
  moreover have "known (destroy_load B) = {}" unfolding d known_def by (simp add: freeHandles_def Let_def bulk_note_def)
  moreover have "open_handles env (destroy_load B) = Some {}" unfolding d by (simp only: open_simps o)
  ultimately show ?thesis using assms(1) by (simp add: holding_def)
qed

lemma finish_holding:
  assumes "stream_finish env ok B = (r, B')" "holding env a H B"
  shows "holding env a (H - {HReports}) B'"
proof (cases "bk_started B")
  case False
  then have "HReports \<notin> H" using assms(2) known_mem(5) [of B] by (auto simp: holding_def)
  with False assms show ?thesis by (simp add: stream_finish_def Diff_triv)
next
  case True
  let ?B1 = "bulk_note (ReportEnd (bk_consumed B) (bk_ok B \<and> ok)) (B\<lparr>bk_started := False, bk_ok := bk_ok B \<and> ok\<rparr>)"
  have "open_handles env (B\<lparr>bk_started := False, bk_ok := bk_ok B \<and> ok\<rparr>) = Some H" using assms(2) by (simp add: holding_def)
  from open_close [OF this, of "ReportEnd (bk_consumed B) (bk_ok B \<and> ok)"] holding_reports [OF assms(2) True]
  have h: "holding env a (H - {HReports}) ?B1" using assms(2) by (auto simp: bars_def holding_def)
  from assms(1) True have "B' = ?B1 \<or> (\<exists>e. B' = bulk_raise e ?B1)"
    by (simp add: stream_finish_def Let_def split: option.splits) metis
  with h show ?thesis by (elim disjE exE) (simp_all only: holding_raise)
qed

lemma terminate_holding:
  assumes "terminate env success B = (r, B')" "holding env a H B" "loading H"
  shows "\<exists>X. closable X \<and> holding env a X B'"
proof -
  have p: "bk_prepared B" "{HCtx, HPrepared} \<subseteq> H" "HParam \<notin> H"
    using assms(2,3) known_mem(2) [of B] by (auto simp: loading_def all_handles_def holding_def)
  obtain c Ba where po: "bulk_poll env B = (c, Ba)" by fastforce
  define success' where "success' = (success \<and> \<not> c)"
  let ?c = "if success' then DirPathFinish else DirPathAbort"
  obtain rc Bb where k: "bulk_check env ?c Ba = (rc, Bb)" by fastforce
  define B1 where "B1 = (if rc \<and> success' then bulk_note DirPathAbort (Bb\<lparr>bk_prepared := False\<rparr>) else Bb\<lparr>bk_prepared := False\<rparr>)"
  obtain r2 B2 where f: "stream_finish env (success' \<and> (\<not> c \<and> \<not> rc)) B1 = (r2, B2)" by fastforce
  have t: "B' = B2" using assms(1) po k f p(1) by (simp add: terminate_def Let_def success'_def [symmetric] B1_def [symmetric])
  have ha: "holding env a H Ba" using holding_poll [OF po] assms(2) by simp
  have "open_handles env (bulk_note ?c Ba) = Some (H - closes env (length (bk_calls Ba)) ?c)"
    by (rule open_close) (use ha p(2) in \<open>simp_all add: holding_def bars_def\<close>)
  moreover have b: "open_handles env Bb = open_handles env (bulk_note ?c Ba)" "known Bb = known Ba" "bk_active Bb = bk_active Ba"
    using check_notes(1) [OF k] by (elim disjE exE; simp)+
  ultimately have ob: "open_handles env Bb = Some (if rc \<and> success' then H else H - {HPrepared})"
    using check_notes(2) [OF k] by auto
  have o1: "open_handles env B1 = Some (H - {HPrepared})"
  proof (cases "rc \<and> success'")
    case True
    have "open_handles env (Bb\<lparr>bk_prepared := False\<rparr>) = Some H" using ob True by simp
    from open_close [OF this, of DirPathAbort] True p(2) show ?thesis by (simp add: B1_def bars_def)
  next
    case False
    with ob show ?thesis by (auto simp: B1_def)
  qed
  have "known B1 = known Ba - {HPrepared}" "bk_active B1 = bk_active Ba" using b(2,3) by (simp_all add: B1_def)
  moreover have "H - {HParam} - {HPrepared} = H - {HPrepared} - {HParam}" by blast
  ultimately have "holding env a (H - {HPrepared}) B1" using o1 ha by (simp add: holding_def)
  from finish_holding [OF f this] have "holding env a (H - {HPrepared} - {HReports}) B'" by (simp only: t)
  moreover have "closable (H - {HPrepared} - {HReports})" using p(3) by (simp add: closable_def)
  ultimately show ?thesis by (intro exI conjI)
qed

lemma initialize_holding:
  assumes "initialize env table columns parallel nolog bufsize B = (rc, B')" "holding env a {} B"
  shows "if rc = BulkOk then \<exists>H. loading H \<and> holding env a H B' else \<exists>X. closable X \<and> holding env a X B'"
proof -
  have none: "holding env a {} X \<Longrightarrow> \<exists>X'. closable X' \<and> holding env a X' X" for X
    by (rule exI [of _ "{}"]) (simp add: closable_def)
  obtain x B1 where p: "qoreOracleParseSimpleIdentifier env (c_str table) True B = (x, B1)" by fastforce
  let ?B2 = "bulk_note (DescribeTable (c_str table)) B1"
  have h1: "holding env a {} B1" using parse_holding [OF p] assms(2) by simp
  have h2: "holding env a {} ?B2" by (rule holding_note [OF h1]) (simp add: passing_def bars_def)
  show ?thesis
  proof (cases "x \<noteq> None \<and> length columns \<le> 65535 \<and> (\<exists>info. dpe_type_info env (c_str table) = Inr (Some info))")
    case False
    have nok: "refused B = (rc, X) \<Longrightarrow> rc \<noteq> BulkOk" "rc_fail what B = (rc, X) \<Longrightarrow> rc \<noteq> BulkOk" for B X what
      by (auto simp: refused_def rc_fail_def split: if_splits)
    have "rc \<noteq> BulkOk \<and> holding env a {} B'"
    proof (cases "x = None \<or> length columns > 65535")
      case True
      with assms(1) p have "refused B1 = (rc, B') \<or> rc_fail ''supports at most 65535 columns'' B1 = (rc, B')"
        by (cases x) (simp_all add: initialize_def)
      with nok refusals h1 show ?thesis by blast
    next
      case nx: False
      then obtain n where n: "x = Some n" by (cases x) simp_all
      show ?thesis
      proof (cases "dpe_type_info env (c_str table)")
        case (Inl e)
        with assms(1) p n nx have "rc = BulkFailed" "B' = bulk_raise e ?B2" by (simp_all add: initialize_def Let_def)
        with h2 show ?thesis by simp
      next
        case (Inr i)
        with False nx have "i = None" by (cases i) auto
        with Inr assms(1) p n nx have "rc_fail ''Oracle returned no metadata'' ?B2 = (rc, B')" by (simp add: initialize_def Let_def)
        with nok refusals h2 show ?thesis by blast
      qed
    qed
    with none show ?thesis by simp
  next
    case True
    then obtain info where i: "x \<noteq> None" "length columns \<le> 65535" "dpe_type_info env (c_str table) = Inr (Some info)" by blast
    obtain md B3 where ix: "index_columns env 0 (ti_cols info) [] ?B2 = (md, B3)" by fastforce
    have h3: "holding env a {} B3" using index_holding [OF ix] h2 by simp
    show ?thesis
    proof (cases md)
      case None
      with assms(1) p i ix h3 none show ?thesis by (auto simp: initialize_def Let_def)
    next
      case (Some m)
      obtain rc4 B4 where d: "describe_columns env info m columns [] B3 = (rc4, B4)" by fastforce
      have h4: "holding env a {} B4" using describe_holding [OF d] h3 by simp
      show ?thesis
      proof (cases "rc4 = BulkOk")
        case False
        with assms(1) p i ix Some d have "rc = rc4" "B' = B4" by (cases rc4; auto simp: initialize_def Let_def)+
        with False h4 none show ?thesis by simp
      next
        case True
        obtain q B5 where s: "bulk_seq (direct_path_setup env info parallel nolog bufsize (bk_columns B4)) B4 = (q, B5)" by fastforce
        from assms(1) p i ix Some d True s have r: "rc = (if q then BulkFailed else BulkOk)" "B' = B5"
          by (auto simp: initialize_def Let_def)
        from setup_holding [OF s h4] r show ?thesis by (auto simp: loading_def split: if_splits)
      qed
    qed
  qed
qed

section \<open>The life of a load\<close>

text \<open>The calls of the connection in any order; the caller may catch the exceptions.\<close>

inductive bulk_life :: "bulk_env \<Rightarrow> bulk \<Rightarrow> bulk \<Rightarrow> bool" for env where
  life_begin: "bulk_life env B (snd (bulkLoadBegin env table columns options B))"
| life_rows: "bulk_life env B (snd (bulkLoadRows env rows B))"
| life_end: "bulk_life env B (snd (bulkLoadEnd env success B))"
| life_caught: "bulk_life env B (B\<lparr>bk_sink := []\<rparr>)"

definition bulk_start :: "bulk \<Rightarrow> bool" where
  "bulk_start B \<longleftrightarrow> bk_calls B = [] \<and> \<not> bk_active B \<and> known B = {}"

definition life_ok :: "bulk_env \<Rightarrow> bulk \<Rightarrow> bool" where
  "life_ok env B \<longleftrightarrow> (\<exists>H. loading H \<and> holding env True H B) \<or> holding env False {} B"

lemma begin_life:
  assumes "bulkLoadBegin env table columns options B = (rc, B')" "life_ok env B"
  shows "life_ok env B'"
proof (cases "bk_active B")
  case True
  with assms(1) have "B' = bulk_raise (path_error ''an OCI direct path load is already active'') B"
    by (simp add: bulkLoadBegin_def rc_fail_def)
  then show ?thesis using assms(2) by (simp add: life_ok_def)
next
  case no: False
  with assms(2) have h: "holding env False {} B" by (auto simp: life_ok_def holding_def)
  show ?thesis
  proof (cases "bulk_options options")
    case (Inl e)
    with assms(1) no have "B' = bulk_raise e B" by (simp add: bulkLoadBegin_def)
    then show ?thesis using assms(2) by (simp add: life_ok_def)
  next
    case (Inr opts)
    obtain st par nolog bufsize where o: "opts = (st, par, nolog, bufsize)" by (cases opts) auto
    obtain rc1 B1 where i: "initialize env table columns par nolog bufsize (new_load env st B) = (rc1, B1)" by fastforce
    have "holding env False {} (new_load env st B)" using h by (simp add: holding_def new_load_def open_handles_def known_def)
    note ih = initialize_holding [OF i this]
    show ?thesis
    proof (cases "rc1 = BulkOk")
      case True
      with assms(1) no Inr o i have "B' = B1\<lparr>bk_active := True\<rparr>" by (simp add: bulkLoadBegin_def)
      with ih True show ?thesis by (auto simp: life_ok_def holding_def)
    next
      case False
      with assms(1) no Inr o i have B': "B' = destroy_load B1" by (cases rc1) (simp_all add: bulkLoadBegin_def)
      obtain X where "closable X" "holding env False X B1" using ih False by auto
      with destroyed_holding B' show ?thesis by (auto simp: life_ok_def)
    qed
  qed
qed

lemma rows_life:
  assumes "bulkLoadRows env rows B = (r, B')" "life_ok env B"
  shows "life_ok env B'"
proof (cases "bk_active B")
  case True
  with assms(2) obtain H where "loading H" "holding env True H B" by (auto simp: life_ok_def holding_def)
  moreover have "loadRows env rows B = (r, B')" using assms(1) True by (simp add: bulkLoadRows_def)
  ultimately show ?thesis using loadRows_holding by (auto simp: life_ok_def)
next
  case False
  with assms(1) have "B' = bulk_raise (path_error ''no OCI direct path load is active'') B" by (simp add: bulkLoadRows_def bulk_fail_def)
  then show ?thesis using assms(2) by (simp add: life_ok_def)
qed

lemma end_life:
  assumes "bulkLoadEnd env success B = (r, B')" "life_ok env B"
  shows "life_ok env B'"
proof (cases "bk_active B")
  case True
  with assms(2) obtain H where h: "loading H" "holding env True H B" by (auto simp: life_ok_def holding_def)
  obtain q B1 where t: "terminate env success (B\<lparr>bk_active := False\<rparr>) = (q, B1)" by fastforce
  have "holding env False H (B\<lparr>bk_active := False\<rparr>)" using h(2) by (simp add: holding_def)
  from terminate_holding [OF t this h(1)] obtain X where "closable X" "holding env False X B1" by blast
  moreover have "B' = destroy_load B1" using assms(1) True t by (simp add: bulkLoadEnd_def)
  ultimately show ?thesis using destroyed_holding by (auto simp: life_ok_def)
next
  case False
  with assms(1) have "B' = bulk_raise (path_error ''no OCI direct path load is active'') B" by (simp add: bulkLoadEnd_def bulk_fail_def)
  then show ?thesis using assms(2) by (simp add: life_ok_def)
qed

interpretation life: transition_invariant bulk_start "bulk_life env" "life_ok env" for env
proof
  show "bulk_start B \<Longrightarrow> life_ok env B" for B by (simp add: bulk_start_def life_ok_def holding_def open_handles_def)
  fix B B'
  assume ok: "life_ok env B" and "bulk_life env B B'"
  from this(2) show "life_ok env B'"
  proof cases
    case life_begin
    with begin_life [OF prod.collapse [symmetric] ok] show ?thesis by simp
  next
    case life_rows
    with rows_life [OF prod.collapse [symmetric] ok] show ?thesis by simp
  next
    case life_end
    with end_life [OF prod.collapse [symmetric] ok] show ?thesis by simp
  next
    case life_caught
    with ok show ?thesis by (auto simp: life_ok_def holding_def open_handles_def known_def)
  qed
qed


section \<open>Witnesses\<close>


end
