(* ===== verification/Bulk_Progress.thy ===== *)
theory Bulk_Progress
  imports Direct_Path
begin

text \<open>
  A bulk load whose calls are all accepted ends: no step fails, and every row of its blocks is in
  the table.
\<close>

section \<open>Steps that go on\<close>

text \<open>The server accepts every call, no one cancels, and the observer takes every report.\<close>

definition cooperative :: "bulk_env \<Rightarrow> bool" where
  "cooperative env \<longleftrightarrow> (\<forall>k. dpe_cancel env k = None \<and> accepted (dpe_status env k) \<and> dpe_report env k = None)"

definition bounds_of :: "bulk \<Rightarrow> sink \<times> int" where
  "bounds_of B = (bk_sink B, bk_consumed B)"

definition goes :: "bulk_step \<Rightarrow> bool" where
  "goes f \<longleftrightarrow> (\<forall>B. \<exists>B'. f B = (False, B') \<and> bounds_of B' = bounds_of B)"

lemma goesD: "goes f \<Longrightarrow> \<exists>B'. f B = (False, B') \<and> bounds_of B' = bounds_of B"
  by (simp add: goes_def)

lemma bounds_note [simp]: "bounds_of (bulk_note c B) = bounds_of B"
  by (simp add: bounds_of_def bulk_note_def)

lemma goes_seq: "list_all goes fs \<Longrightarrow> goes (bulk_seq fs)"
proof (induction fs)
  case (Cons f fs)
  show ?case unfolding goes_def
  proof
    fix B
    obtain B1 where 1: "f B = (False, B1)" "bounds_of B1 = bounds_of B" using Cons.prems by (auto dest: goesD)
    obtain B2 where 2: "bulk_seq fs B1 = (False, B2)" "bounds_of B2 = bounds_of B1" using Cons by (auto dest: goesD)
    show "\<exists>B'. bulk_seq (f # fs) B = (False, B') \<and> bounds_of B' = bounds_of B" using 1 2 by (simp add: bulk_seq.simps(2))
  qed
qed (simp add: goes_def)

lemma goes_poll: "cooperative env \<Longrightarrow> goes (bulk_poll env)"
  by (simp add: cooperative_def goes_def bulk_poll_def bounds_of_def)

lemma goes_poll_every: "cooperative env \<Longrightarrow> goes (poll_every env i)"
  by (simp add: goes_def poll_every_def goesD [OF goes_poll])

lemma goes_check: "cooperative env \<Longrightarrow> goes (bulk_check env c)"
  by (simp add: cooperative_def goes_def bulk_check_def bulk_status_def checkerr_accepted [THEN iffD2])

lemmas goes_calls = goes_poll goes_poll_every goes_check

section \<open>A chunk\<close>

lemma goes_reset: "cooperative env \<Longrightarrow> goes (resetHandles env)"
  unfolding resetHandles_def by (rule goes_seq) (simp add: goes_calls)

lemma goes_entries: "cooperative env \<Longrightarrow> goes (set_entries env cells offset n)"
  unfolding set_entries_def by (rule goes_seq) (auto simp: list_all_iff goes_calls)

lemma goes_loadStream:
  assumes "cooperative env"
  shows "goes (loadStream env)"
proof -
  have "bulk_status env B \<in> {OCI_SUCCESS, OCI_SUCCESS_WITH_INFO, OCI_ERROR}" for B
    using assms by (auto simp: cooperative_def accepted_def bulk_status_def)
  then show ?thesis unfolding loadStream_def Let_def
    by (intro goes_seq) (simp add: goes_calls [OF assms])
qed

lemma convert_rows_goes:
  assumes "cooperative env"
  shows "\<exists>B'. convert_rows env n off B = (Some n, B') \<and> bounds_of B' = bounds_of B"
proof -
  obtain B1 where p: "bulk_poll env B = (False, B1)" "bounds_of B1 = bounds_of B"
    using goesD [OF goes_poll [OF assms]] by blast
  obtain B2 where c: "bulk_check env (ArrayToStream n off) B1 = (False, B2)" "bounds_of B2 = bounds_of B1"
    using goesD [OF goes_check [OF assms]] by blast
  have "bulk_status env B1 = OCI_SUCCESS \<or> bulk_status env B1 = OCI_SUCCESS_WITH_INFO"
    using assms by (simp add: cooperative_def accepted_def bulk_status_def)
  with p c show ?thesis by (auto simp: convert_rows_def)
qed

text \<open>A conversion that is accepted is whole: the loop sends its rows and ends.\<close>

lemma goes_convert_loop:
  assumes "cooperative env"
  shows "goes (convert_loop env n off)"
  unfolding goes_def
proof
  fix B
  show "\<exists>B'. convert_loop env n off B = (False, B') \<and> bounds_of B' = bounds_of B"
  proof (cases "off < n")
    case True
    obtain B1 where 1: "convert_rows env n off B = (Some n, B1)" "bounds_of B1 = bounds_of B"
      using convert_rows_goes [OF assms] by blast
    obtain B2 where 2: "loadStream env B1 = (False, B2)" "bounds_of B2 = bounds_of B1"
      using goesD [OF goes_loadStream [OF assms]] by blast
    have "convert_loop env n n B2 = (False, B2)" by (simp add: convert_loop.simps)
    with True 1 2 show ?thesis by (simp add: convert_loop.simps [of env n off])
  qed (simp add: convert_loop.simps)
qed

lemma goes_loadChunk:
  assumes "cooperative env"
  shows "goes (loadChunk env cells offset n)"
proof -
  have "goes (\<lambda>B. if bk_used B then resetHandles env B else (False, B))"
    by (simp add: goes_def goesD [OF goes_reset [OF assms]])
  then have g: "goes (bulk_seq [\<lambda>B. if bk_used B then resetHandles env B else (False, B),
      set_entries env cells offset n, convert_loop env (word_of_nat n) 0])"
    by (intro goes_seq) (simp add: goes_entries [OF assms] goes_convert_loop [OF assms])
  show ?thesis unfolding goes_def
  proof
    fix B
    from goesD [OF g] obtain B1 where "bulk_seq [\<lambda>B. if bk_used B then resetHandles env B else (False, B),
      set_entries env cells offset n, convert_loop env (word_of_nat n) 0] B = (False, B1)" "bounds_of B1 = bounds_of B" by blast
    then show "\<exists>B'. loadChunk env cells offset n B = (False, B') \<and> bounds_of B' = bounds_of B"
      by (simp add: loadChunk_def then_set_def bounds_of_def)
  qed
qed

lemma load_chunks_goes:
  assumes "cooperative env"
  shows "\<exists>B'. load_chunks env cells m count offset B = (False, B') \<and> bounds_of B' = bounds_of B"
proof (induction "count - offset" arbitrary: offset B rule: less_induct)
  case less
  show ?case
  proof (cases "offset < count \<and> 0 < m")
    case True
    let ?n = "min m (count - offset)"
    obtain B1 where 1: "loadChunk env cells offset ?n B = (False, B1)" "bounds_of B1 = bounds_of B"
      using goesD [OF goes_loadChunk [OF assms]] by blast
    have "count - (offset + ?n) < count - offset" using True by auto
    from less [OF this] obtain B2 where "load_chunks env cells m count (offset + ?n) B1 = (False, B2)" "bounds_of B2 = bounds_of B1"
      by blast
    with True 1 show ?thesis by (simp add: load_chunks.simps [of env cells m count offset])
  next
    case False
    then have "load_chunks env cells m count offset B = (False, B)" by (subst load_chunks.simps) (simp only: if_False)
    then show ?thesis by simp
  qed
qed

section \<open>The cells of a block\<close>

lemma block_values_goes:
  assumes "cooperative env" "list_all2 (\<lambda>c v. hash_get rows (c_str (bc_key c)) = Some v) cs ws"
    "\<forall>l. QList l \<in> set ws \<longrightarrow> length l = k" "n = None \<or> n = Some k"
  shows "\<exists>n' B'. block_values env rows i cs n vs B = (Some (n', vs @ ws), B') \<and> bounds_of B' = bounds_of B
    \<and> (n' = None \<or> n' = Some k) \<and> (n' = None \<longrightarrow> (\<forall>l. QList l \<notin> set ws))"
  using assms(2-)
proof (induction cs ws arbitrary: i n vs B rule: list_all2_induct)
  case Nil
  then show ?case by auto
next
  case (Cons c cs v ws)
  obtain B1 where p: "poll_every env i B = (False, B1)" "bounds_of B1 = bounds_of B"
    using goesD [OF goes_poll_every [OF assms(1)]] by blast
  obtain n1 where n1: "block_count v n = Some n1" "n1 = None \<or> n1 = Some k" "n1 = None \<longrightarrow> (\<forall>l. v \<noteq> QList l)"
  proof (cases "\<exists>l. v = QList l")
    case True
    then obtain l where l: "v = QList l" by blast
    with Cons.prems show thesis by (intro that [of "Some k"]) (auto simp: block_count_def)
  next
    case False
    with Cons.prems(2) show thesis by (intro that [of n]) (cases v; simp add: block_count_def)+
  qed
  from Cons.IH [of n1 "Suc i" "vs @ [v]" B1] Cons.prems(1) n1(2) obtain n' B' where
    r: "block_values env rows (Suc i) cs n1 ((vs @ [v])) B1 = (Some (n', (vs @ [v]) @ ws), B')" "bounds_of B' = bounds_of B1"
      "n' = None \<or> n' = Some k" "n' = None \<longrightarrow> (\<forall>l. QList l \<notin> set ws)" by auto
  have "n' = None \<longrightarrow> n1 = None"
    using block_values_given [OF r(1)] by auto
  with r p n1 Cons.hyps(1) show ?case by auto
qed

definition cell_bytes :: "bulk_cell \<Rightarrow> nat" where
  "cell_bytes x = length (cell_data x)"

definition block_bytes :: "bulk_cell list list \<Rightarrow> nat" where
  "block_bytes cells = sum_list (map (\<lambda>row. sum_list (map cell_bytes row)) cells)"

lemma serialize_rows_goes:
  assumes "cooperative env" "list_all2 (\<lambda>v x. qoreOracleSerializeCell env c v = Inr x) vs xs"
    "int (payload + sum_list (map cell_bytes xs)) \<le> SIZE_MAX"
  shows "\<exists>B'. serialize_rows env c row vs cells payload B = (Some (cells @ xs, payload + sum_list (map cell_bytes xs)), B')
    \<and> bounds_of B' = bounds_of B"
  using assms(2-)
proof (induction vs xs arbitrary: row cells payload B rule: list_all2_induct)
  case (Cons v vs x xs)
  obtain B1 where p: "poll_every env row B = (False, B1)" "bounds_of B1 = bounds_of B"
    using goesD [OF goes_poll_every [OF assms(1)]] by blast
  have b: "\<not> int (length (cell_data x)) > SIZE_MAX - int payload" using Cons.prems by (simp add: cell_bytes_def)
  have "int ((payload + length (cell_data x)) + sum_list (map cell_bytes xs)) \<le> SIZE_MAX"
    using Cons.prems by (simp add: cell_bytes_def [of x])
  from Cons.IH [OF this, of "Suc row" "cells @ [x]" B1] obtain B' where
    "serialize_rows env c (Suc row) vs (cells @ [x]) (payload + length (cell_data x)) B1
      = (Some ((cells @ [x]) @ xs, (payload + length (cell_data x)) + sum_list (map cell_bytes xs)), B')"
    "bounds_of B' = bounds_of B1" by blast
  with p b Cons.hyps(1) show ?case by (simp add: cell_bytes_def [of x] add.assoc)
qed simp

lemma serialize_columns_goes:
  assumes "cooperative env"
    "list_all2 (\<lambda>(c, v) col. list_all2 (\<lambda>v x. qoreOracleSerializeCell env c v = Inr x) (map (row_value v) [0..<count]) col) cvs xs"
    "int (payload + block_bytes xs) \<le> SIZE_MAX"
  shows "\<exists>B'. serialize_columns env count i cvs cells payload B = (Some (cells @ xs, payload + block_bytes xs), B')
    \<and> bounds_of B' = bounds_of B"
  using assms(2-)
proof (induction cvs xs arbitrary: i cells payload B rule: list_all2_induct)
  case Nil
  then show ?case by (simp add: block_bytes_def)
next
  case (Cons cv cvs col xs)
  obtain c v where cv: "cv = (c, v)" by fastforce
  obtain B1 where p: "poll_every env i B = (False, B1)" "bounds_of B1 = bounds_of B"
    using goesD [OF goes_poll_every [OF assms(1)]] by blast
  have "int (payload + sum_list (map cell_bytes col)) \<le> SIZE_MAX" using Cons.prems by (simp add: block_bytes_def)
  from serialize_rows_goes [OF assms(1) _ this, of c "map (row_value v) [0..<count]" 0 "[]" B1] Cons.hyps(1) cv obtain B2 where
    s: "serialize_rows env c 0 (map (row_value v) [0..<count]) [] payload B1 = (Some (col, payload + sum_list (map cell_bytes col)), B2)"
      "bounds_of B2 = bounds_of B1" by auto
  have "int ((payload + sum_list (map cell_bytes col)) + block_bytes xs) \<le> SIZE_MAX" using Cons.prems by (simp add: block_bytes_def)
  from Cons.IH [OF this, of "Suc i" "cells @ [col]" B2] p s cv show ?case by (auto simp: block_bytes_def add.assoc)
qed

text \<open>The cells of a block by column.\<close>

definition by_column :: "nat \<Rightarrow> bulk_cell list list \<Rightarrow> bulk_cell list list" where
  "by_column m cells = map (\<lambda>i. map (\<lambda>row. row ! i) cells) [0..<m]"

lemma by_column_bytes:
  assumes "\<forall>row \<in> set cells. length row = m"
  shows "block_bytes (by_column m cells) = block_bytes cells"
proof -
  have "block_bytes (by_column m cells) = (\<Sum>i<m. \<Sum>j<length cells. cell_bytes (cells ! j ! i))"
    by (simp add: block_bytes_def by_column_def sum_list_sum_nth atLeast0LessThan)
  also have "\<dots> = (\<Sum>j<length cells. \<Sum>i<m. cell_bytes (cells ! j ! i))"
    by (rule sum.swap)
  also have "\<dots> = block_bytes cells"
    using assms by (simp add: block_bytes_def sum_list_sum_nth atLeast0LessThan)
  finally show ?thesis .
qed

lemma by_column_cells:
  assumes "\<forall>j < length cells. list_all2 (\<lambda>(c, v) x. qoreOracleSerializeCell env c (row_value v j) = Inr x) cvs (cells ! j)"
  shows "list_all2 (\<lambda>(c, v) col. list_all2 (\<lambda>v x. qoreOracleSerializeCell env c v = Inr x) (map (row_value v) [0..<length cells]) col)
    cvs (by_column (length cvs) cells)"
proof (rule list_all2_all_nthI)
  fix i assume i: "i < length cvs"
  obtain c v where cv: "cvs ! i = (c, v)" by fastforce
  have "qoreOracleSerializeCell env c (row_value v j) = Inr (cells ! j ! i)" if "j < length cells" for j
    using list_all2_nthD [OF assms [rule_format, OF that] i] cv by simp
  then have "list_all2 (\<lambda>v x. qoreOracleSerializeCell env c v = Inr x) (map (row_value v) [0..<length cells]) (by_column (length cvs) cells ! i)"
    using i by (simp add: list_all2_conv_all_nth by_column_def)
  with cv show "(\<lambda>(c, v) col. list_all2 (\<lambda>v x. qoreOracleSerializeCell env c v = Inr x) (map (row_value v) [0..<length cells]) col)
      (cvs ! i) (by_column (length cvs) cells ! i)" by simp
qed (simp add: by_column_def)

text \<open>The cells of a block are determined by it.\<close>

lemma block_cells_unique:
  assumes "block_cells env columns rows cells" "block_cells env columns rows cells'"
  shows "cells = cells'"
proof -
  from assms obtain vs ws where
    v: "list_all2 (\<lambda>c v. hash_get rows (c_str (bc_key c)) = Some v) columns vs" "\<forall>l. QList l \<in> set vs \<longrightarrow> length cells = length l"
      "(\<forall>l. QList l \<notin> set vs) \<longrightarrow> length cells = 1"
      "\<forall>j < length cells. list_all2 (\<lambda>(c, v) x. qoreOracleSerializeCell env c (row_value v j) = Inr x) (zip columns vs) (cells ! j)"
    and w: "list_all2 (\<lambda>c v. hash_get rows (c_str (bc_key c)) = Some v) columns ws" "\<forall>l. QList l \<in> set ws \<longrightarrow> length cells' = length l"
      "(\<forall>l. QList l \<notin> set ws) \<longrightarrow> length cells' = 1"
      "\<forall>j < length cells'. list_all2 (\<lambda>(c, v) x. qoreOracleSerializeCell env c (row_value v j) = Inr x) (zip columns ws) (cells' ! j)"
    unfolding block_cells_def by blast
  have vw: "ws = vs"
    by (rule nth_equalityI) (use v(1) w(1) in \<open>auto simp: list_all2_conv_all_nth\<close>)
  have len: "length cells = length cells'"
    using v(2,3) w(2,3) vw by metis
  show ?thesis
  proof (rule nth_equalityI [OF len])
    fix j assume j: "j < length cells"
    note a = v(4) [rule_format, OF j] and b = w(4) [rule_format, OF j [unfolded len]]
    show "cells ! j = cells' ! j"
    proof (rule nth_equalityI)
      show "length (cells ! j) = length (cells' ! j)" using a b vw by (simp add: list_all2_conv_all_nth)
      fix i assume "i < length (cells ! j)"
      then have i: "i < length (zip columns vs)" using a by (simp add: list_all2_conv_all_nth)
      from list_all2_nthD [OF a i] list_all2_nthD [OF b [unfolded vw] i] show "cells ! j ! i = cells' ! j ! i"
        by (auto split: prod.splits)
    qed
  qed
qed

section \<open>A whole load\<close>

lemma loadRows_goes:
  assumes "cooperative env" "length rows = length (bk_columns B)" "block_cells env (bk_columns B) rows cells"
    "bk_consumed B + int (block_bytes cells) \<le> 9223372036854775807" "0 \<le> bk_consumed B"
  shows "\<exists>B'. loadRows env rows B = (False, B') \<and> bk_sink B' = bk_sink B \<and> 0 \<le> bk_consumed B'
    \<and> bk_consumed B' \<le> bk_consumed B + int (block_bytes cells)"
proof -
  from assms(3) obtain vs where
    v: "list_all2 (\<lambda>c v. hash_get rows (c_str (bc_key c)) = Some v) (bk_columns B) vs" "\<forall>l. QList l \<in> set vs \<longrightarrow> length cells = length l"
      "(\<forall>l. QList l \<notin> set vs) \<longrightarrow> length cells = 1"
      "\<forall>j < length cells. list_all2 (\<lambda>(c, v) x. qoreOracleSerializeCell env c (row_value v j) = Inr x) (zip (bk_columns B) vs) (cells ! j)"
    unfolding block_cells_def by blast
  have "\<forall>l. QList l \<in> set vs \<longrightarrow> length l = length cells" using v(2) by simp
  from block_values_goes [OF assms(1) v(1) this disjI1 [OF refl], of 0 "[]" B] obtain n B1 where
    1: "block_values env rows 0 (bk_columns B) None [] B = (Some (n, vs), B1)" "bounds_of B1 = bounds_of B"
      "n = None \<or> n = Some (length cells)" "n = None \<longrightarrow> (\<forall>l. QList l \<notin> set vs)" by auto
  have count: "(case n of None \<Rightarrow> 1 | Some k \<Rightarrow> k) = length cells" using 1(3,4) v(3) by auto
  have c1: "bk_columns B1 = bk_columns B" using block_values_silent [OF 1(1)] by (simp add: silent_def frame_def)
  show ?thesis
  proof (cases "cells = []")
    case True
    with 1 count assms(2,5) have "loadRows env rows B = (False, B1)" by (simp add: loadRows_def)
    with 1(2) True assms(5) show ?thesis by (simp add: bounds_of_def block_bytes_def)
  next
    case False
    let ?m = "length (zip (bk_columns B) vs)"
    have "length row = ?m" if "row \<in> set cells" for row
    proof -
      from that obtain j where "j < length cells" "row = cells ! j" by (auto simp: in_set_conv_nth)
      with v(4) list_all2_lengthD show ?thesis by (metis (no_types, lifting))
    qed
    then have bytes: "block_bytes (by_column ?m cells) = block_bytes cells" by (intro by_column_bytes) blast
    have "int (0 + block_bytes (by_column ?m cells)) \<le> SIZE_MAX" using assms(4,5) bytes by (simp add: SIZE_MAX_def)
    from serialize_columns_goes [OF assms(1) by_column_cells [OF v(4)] this, of 0 "[]" B1] bytes obtain B2 where
      2: "serialize_columns env (length cells) 0 (zip (bk_columns B) vs) [] 0 B1 = (Some (by_column ?m cells, block_bytes cells), B2)"
        "bounds_of B2 = bounds_of B1" by auto
    from load_chunks_goes [OF assms(1)] obtain B3 where
      3: "load_chunks env (by_column ?m cells) (unat (bk_max_rows B2)) (length cells) 0 B2 = (False, B3)" "bounds_of B3 = bounds_of B2" by blast
    have b: "bk_sink B3 = bk_sink B" "bk_consumed B3 = bk_consumed B" using 1(2) 2(2) 3(2) by (simp_all add: bounds_of_def)
    have "loadRows env rows B = stream_addBytes env (block_bytes cells) B3"
      using 1(1) 2(1) 3(1) count c1 False assms(2) by (simp add: loadRows_def)
    moreover have "dpe_report env k = None" for k using assms(1) by (simp add: cooperative_def)
    ultimately show ?thesis using b assms(4,5)
      by (auto simp: stream_addBytes_def Let_def bulk_note_def)
  qed
qed

lemma blocks_go:
  assumes "cooperative env" "list_all2 (block_cells env columns) blocks cells" "\<forall>rows \<in> set blocks. length rows = length columns"
    "bk_columns B = columns" "bk_consumed B + int (block_bytes (concat cells)) \<le> 9223372036854775807" "0 \<le> bk_consumed B"
    "ready env B" "bk_max_rows B \<noteq> 0" "bk_active B"
  shows "\<exists>B'. bulk_seq (map (bulkLoadRows env) blocks) B = (False, B') \<and> bk_sink B' = bk_sink B"
  using assms(2-)
proof (induction blocks cells arbitrary: B rule: list_all2_induct)
  case (Cons b blocks c cells)
  have t: "block_bytes (concat (c # cells)) = block_bytes c + block_bytes (concat cells)" by (simp add: block_bytes_def)
  obtain B1 where 1: "loadRows env b B = (False, B1)" "bk_sink B1 = bk_sink B" "0 \<le> bk_consumed B1"
      "bk_consumed B1 \<le> bk_consumed B + int (block_bytes c)"
    using loadRows_goes [of env b B c] assms(1) Cons.hyps(1) Cons.prems t by auto
  from loadRows_sent [OF 1(1) Cons.prems(5,6)] obtain cs where
    s: "sent env B B1 cs" "ready env B1" by auto
  have f: "bk_columns B1 = columns" "bk_max_rows B1 \<noteq> 0" "bk_active B1" using s(1) Cons.prems by (simp_all add: sent_def)
  obtain B2 where 2: "bulk_seq (map (bulkLoadRows env) blocks) B1 = (False, B2)" "bk_sink B2 = bk_sink B1"
    using Cons.IH [of B1] Cons.prems t 1 s(2) f by auto
  have "bulkLoadRows env b B = (False, B1)" using 1(1) Cons.prems(7) by (simp add: bulkLoadRows_def)
  with 1(2) 2 show ?case by (simp add: bulk_seq.simps(2))
qed simp

lemma end_goes:
  assumes "cooperative env" "bk_active B" "bk_sink B = []"
  shows "\<exists>B'. bulkLoadEnd env True B = (False, B')"
proof -
  have rep: "dpe_report env k = None" for k using assms(1) by (simp add: cooperative_def)
  have fin: "\<exists>B'. stream_finish env ok B = (False, B') \<and> bk_sink B' = bk_sink B" for ok B
    by (simp add: stream_finish_def rep Let_def bulk_note_def)
  obtain B1 where 1: "bulk_poll env (B\<lparr>bk_active := False\<rparr>) = (False, B1)" "bounds_of B1 = bounds_of (B\<lparr>bk_active := False\<rparr>)"
    using goesD [OF goes_poll [OF assms(1)]] by blast
  obtain B2 where 2: "bulk_check env DirPathFinish B1 = (False, B2)" "bounds_of B2 = bounds_of B1"
    using goesD [OF goes_check [OF assms(1)]] by blast
  obtain B3 where 3: "stream_finish env True (B2\<lparr>bk_prepared := False\<rparr>) = (False, B3)" "bk_sink B3 = bk_sink B2" using fin by force
  obtain B4 where 4: "stream_finish env True (B\<lparr>bk_active := False\<rparr>) = (False, B4)" "bk_sink B4 = bk_sink B" using fin by force
  have "bk_sink B3 = []" using 1(2) 2(2) 3(2) assms(3) by (simp add: bounds_of_def)
  with 1 2 3 4 assms(2,3) show ?thesis by (simp add: bulkLoadEnd_def terminate_def)
qed

text \<open>C7: When the server accepts every call, no one cancels and the observer takes every report, a
  load that was begun gets done: no block of it fails, however many chunks it takes, its end
  succeeds, and the table then has every row of every block, in order.  The blocks have a value
  for every column that has a text, and together not more bytes than the counter of the stream.
\<close>

theorem bulk_load_completes:
  assumes "cooperative env" "bulkLoadBegin env table columns options B = (BulkOk, B1)" "bk_sink B1 = []"
    "list_all2 (block_cells env (bk_columns B1)) blocks cells" "\<forall>rows \<in> set blocks. length rows = length (bk_columns B1)"
    "0 \<le> bk_consumed B1" "bk_consumed B1 + int (block_bytes (concat cells)) \<le> 9223372036854775807"
  shows "\<exists>B2 B3. bulk_seq (map (bulkLoadRows env) blocks) B1 = (False, B2) \<and> bulkLoadEnd env True B2 = (False, B3)
    \<and> sv_table (server_of env B3) = sv_table (server_of env B) @ concat cells"
proof -
  note b = begin_ready [OF assms(2)]
  obtain B2 where 2: "bulk_seq (map (bulkLoadRows env) blocks) B1 = (False, B2)" "bk_sink B2 = []"
    using blocks_go [OF assms(1,4,5) refl assms(7,6) b(1,5,6)] assms(3) by auto
  have "bk_active B2" using blocks_sent [OF 2(1) b(1,5,6)] b(6) by (auto simp: sent_def)
  from end_goes [OF assms(1) this 2(2)] obtain B3 where 3: "bulkLoadEnd env True B2 = (False, B3)" by blast
  from whole_load [OF assms(2) 2(1) 3] obtain cells' where
    c: "list_all2 (block_cells env (bk_columns B1)) blocks cells'" "sv_table (server_of env B3) = sv_table (server_of env B) @ concat cells'"
    by (auto dest: list_all2_lengthD)
  have "cells' = cells"
    by (rule nth_equalityI) (use c(1) assms(4) block_cells_unique in \<open>auto simp: list_all2_conv_all_nth\<close>)
  with 2(1) 3 c(2) show ?thesis by blast
qed

text \<open>Three rows in a column array for two.\<close>

definition sample_cells :: "bulk_cell list list" where
  "sample_cells = [[Some ''7'', Some ''x''], [Some ''8'', Some ''x''], [Some ''9'', Some ''x'']]"

lemma sample_bounds: "bk_sink (snd sample_begun) = [] \<and> bk_consumed (snd sample_begun) = 0 \<and> length (bk_columns (snd sample_begun)) = 2"
  by code_simp

lemma sample_given:
  "list_all2 (\<lambda>c v. hash_get sample_block (c_str (bc_key c)) = Some v) (bk_columns (snd sample_begun)) (map snd sample_block)"
  by code_simp

lemma sample_serialized:
  "list_all (\<lambda>j. list_all2 (\<lambda>(c, v) x. qoreOracleSerializeCell sample_bulk_env c (row_value v j) = Inr x)
     (zip (bk_columns (snd sample_begun)) (map snd sample_block)) (sample_cells ! j)) [0, 1, 2]"
  by code_simp

lemma sample_block_cells: "block_cells sample_bulk_env (bk_columns (snd sample_begun)) sample_block sample_cells"
  unfolding block_cells_def
proof (intro exI [of _ "map snd sample_block"] conjI)
  have "\<forall>j < length sample_cells. j \<in> set [0, 1, 2]" by (auto simp: sample_cells_def)
  with sample_serialized show "\<forall>j < length sample_cells.
      list_all2 (\<lambda>(c, v) x. qoreOracleSerializeCell sample_bulk_env c (row_value v j) = Inr x)
        (zip (bk_columns (snd sample_begun)) (map snd sample_block)) (sample_cells ! j)"
    unfolding list_all_iff by blast
qed (rule sample_given | simp add: sample_block_def sample_cells_def)+

lemma bulk_load_completes_witness:
  "\<exists>B2 B3. bulk_seq (map (bulkLoadRows sample_bulk_env) [sample_block]) (snd sample_begun) = (False, B2)
     \<and> bulkLoadEnd sample_bulk_env True B2 = (False, B3)
     \<and> sv_table (server_of sample_bulk_env B3) = [[Some ''7'', Some ''x''], [Some ''8'', Some ''x''], [Some ''9'', Some ''x'']]"
proof -
  have b: "bulkLoadBegin sample_bulk_env ''t'' [QString ''id'' ''UTF-8'', QString ''name'' ''UTF-8''] None sample_bulk
      = (BulkOk, snd sample_begun)"
    by (intro prod_eqI) (use sample_begins in \<open>simp_all add: sample_begun_def\<close>)
  have c: "cooperative sample_bulk_env" by (simp add: cooperative_def sample_bulk_env_def accepted_def)
  have t: "sv_table (server_of sample_bulk_env sample_bulk) = []"
    by (simp add: server_of_def sample_bulk_def server_init_def)
  have k: "list_all2 (block_cells sample_bulk_env (bk_columns (snd sample_begun))) [sample_block] [sample_cells]"
    using sample_block_cells by simp
  have l: "\<forall>rows \<in> set [sample_block]. length rows = length (bk_columns (snd sample_begun))"
    using sample_bounds by (simp add: sample_block_def)
  have z: "0 \<le> bk_consumed (snd sample_begun)" "bk_consumed (snd sample_begun) + int (block_bytes (concat [sample_cells])) \<le> 9223372036854775807"
    using sample_bounds by (simp_all add: sample_cells_def block_bytes_def cell_bytes_def cell_data_def)
  from bulk_load_completes [OF c b conjunct1 [OF sample_bounds] k l z] t show ?thesis
    by (simp add: sample_cells_def)
qed

end
