(* ===== verification/Bulk_Text.thy ===== *)
theory Bulk_Text
  imports BulkLoad
begin

text \<open>
  The names a bulk load accepts and the text of its dates.
\<close>

section \<open>Names\<close>

text \<open>
  An unquoted Oracle name: a letter or underscore, then letters, digits, underscores, dollars and
  hashes; if qualified, it may have the name of a schema and a dot in front.
\<close>

definition name_part :: "char \<Rightarrow> bool" where
  "name_part c \<longleftrightarrow> c_isalnum c \<or> c = CHR ''_'' \<or> c = CHR ''$'' \<or> c = CHR ''#''"

definition simple_name :: "string \<Rightarrow> bool" where
  "simple_name s \<longleftrightarrow> s \<noteq> [] \<and> (c_isalpha (hd s) \<or> hd s = CHR ''_'') \<and> list_all name_part (tl s)"

definition simple_identifier :: "bool \<Rightarrow> string \<Rightarrow> bool" where
  "simple_identifier qualified s \<longleftrightarrow>
     simple_name s \<or> qualified \<and> (\<exists>schema name. s = schema @ ''.'' @ name \<and> simple_name schema \<and> simple_name name)"

lemma dot_part: "\<not> name_part CHR ''.''" "\<not> c_isalpha CHR ''.''"
  by (simp_all add: name_part_def c_class_defs)

text \<open>What the loop accepts after a name has begun, and at the start of one.\<close>

definition rest_ok :: "bool \<Rightarrow> bool \<Rightarrow> string \<Rightarrow> bool" where
  "rest_ok qualified saw_dot p \<longleftrightarrow>
     list_all name_part p \<or> qualified \<and> \<not> saw_dot \<and> (\<exists>a name. p = a @ ''.'' @ name \<and> list_all name_part a \<and> simple_name name)"

definition start_ok :: "bool \<Rightarrow> bool \<Rightarrow> string \<Rightarrow> bool" where
  "start_ok qualified saw_dot p \<longleftrightarrow> p \<noteq> [] \<and> (c_isalpha (hd p) \<or> hd p = CHR ''_'') \<and> rest_ok qualified saw_dot (tl p)"

lemma rest_Cons:
  "rest_ok q d (c # p) \<longleftrightarrow> (if c = CHR ''.'' then q \<and> \<not> d \<and> p \<noteq> [] \<and> start_ok q True p else name_part c \<and> rest_ok q d p)"
proof (cases "c = CHR ''.''")
  case True
  have "rest_ok q d (c # p) \<longleftrightarrow> q \<and> \<not> d \<and> simple_name p"
    unfolding rest_ok_def True by (auto simp: dot_part Cons_eq_append_conv intro: exI [of _ "[]"])
  moreover have "simple_name p \<longleftrightarrow> p \<noteq> [] \<and> start_ok q True p"
    by (auto simp: simple_name_def start_ok_def rest_ok_def)
  ultimately show ?thesis using True by auto
next
  case False
  have "(\<exists>a name. c # p = a @ ''.'' @ name \<and> list_all name_part a \<and> simple_name name)
      \<longleftrightarrow> name_part c \<and> (\<exists>a name. p = a @ ''.'' @ name \<and> list_all name_part a \<and> simple_name name)" (is "?l \<longleftrightarrow> ?r")
  proof
    assume ?l
    then obtain a name where e: "c # p = a @ ''.'' @ name" "list_all name_part a" "simple_name name" by blast
    with False obtain a' where "a = c # a'" by (cases a) auto
    with e show ?r by auto
  next
    assume ?r
    then obtain a name where "name_part c" "p = a @ ''.'' @ name" "list_all name_part a" "simple_name name" by blast
    then show ?l by (intro exI [of _ "c # a"] exI [of _ name]) simp
  qed
  then show ?thesis using False unfolding rest_ok_def by auto
qed

lemma start_identifier:
  assumes "v \<noteq> []"
  shows "start_ok q False v \<longleftrightarrow> simple_identifier q v"
proof -
  obtain c p where v: "v = c # p" using assms by (cases v) simp_all
  have "(\<exists>schema name. c # p = schema @ ''.'' @ name \<and> simple_name schema \<and> simple_name name)
      \<longleftrightarrow> (c_isalpha c \<or> c = CHR ''_'') \<and> (\<exists>a name. p = a @ ''.'' @ name \<and> list_all name_part a \<and> simple_name name)" (is "?l \<longleftrightarrow> ?r")
  proof
    assume ?l
    then obtain schema name where e: "c # p = schema @ ''.'' @ name" "simple_name schema" "simple_name name" by blast
    then show ?r by (cases schema) (auto simp: simple_name_def)
  next
    assume ?r
    then obtain a name where "c_isalpha c \<or> c = CHR ''_''" "p = a @ ''.'' @ name" "list_all name_part a" "simple_name name" by blast
    then show ?l by (intro exI [of _ "c # a"] exI [of _ name]) (simp add: simple_name_def)
  qed
  then show ?thesis unfolding v by (auto simp: start_ok_def rest_ok_def simple_identifier_def simple_name_def)
qed

lemma poll_every_sink:
  assumes "poll_every env i B = (c, B1)"
  shows "bk_sink B1 = bk_sink B @ (if c then [the (dpe_cancel env (bk_polls B))] else [])"
  using assms by (auto simp: poll_every_def bulk_poll_def bulk_raise_def Let_def split: if_splits option.splits)

lemma ident_loop_accepts:
  assumes "ident_loop env q st d n acc p B = (x, B')"
  shows "(\<exists>es. bk_sink B' = bk_sink B @ es \<and> (if es = [] then
      x = (if (if st then start_ok q d p else rest_ok q d p) then Some (acc @ map c_toupper p) else None) else x = None))"
  using assms
proof (induction env q st d n acc p B rule: ident_loop.induct)
  case (1 env q st d n acc B)
  then show ?case by (auto simp: start_ok_def rest_ok_def)
next
  case (2 env q st d n acc c p B)
  obtain k B1 where p: "poll_every env n B = (k, B1)" by fastforce
  note s = poll_every_sink [OF p]
  show ?case
  proof (cases k)
    case True
    with "2.prems" p s show ?thesis by (intro exI [of _ "[the (dpe_cancel env (bk_polls B))]"]) simp
  next
    case nk: False
    then have s1: "bk_sink B1 = bk_sink B" using s by simp
    show ?thesis
    proof (cases "c = CHR ''.''")
      case dot: True
      show ?thesis
      proof (cases "\<not> q \<or> d \<or> st \<or> p = []")
        case True
        with "2.prems" p nk dot have "x = None" "B' = B1" by (auto split: if_splits)
        moreover have "\<not> (if st then start_ok q d (c # p) else rest_ok q d (c # p))"
          using True dot by (auto simp: start_ok_def rest_Cons dot_part)
        ultimately show ?thesis using s1 by (intro exI [of _ "[]"]) simp
      next
        case False
        with "2.prems" p nk dot have r: "ident_loop env q True True (Suc n) (acc @ [c]) p B1 = (x, B')" by simp
        have t: "c_toupper c = c" using dot by (simp add: c_toupper_def c_class_defs)
        have a: "(if st then start_ok q d (c # p) else rest_ok q d (c # p)) \<longleftrightarrow> start_ok q True p"
          using False dot by (simp add: rest_Cons)
        from "2.IH"(1) [OF p [symmetric] refl nk dot False r] obtain es where
          "bk_sink B' = bk_sink B1 @ es" "if es = [] then x = (if start_ok q True p then Some ((acc @ [c]) @ map c_toupper p) else None)
             else x = None" by auto
        with s1 a t show ?thesis by (intro exI [of _ es]) simp
      qed
    next
      case nd: False
      show ?thesis
      proof (cases "st \<and> \<not> (c_isalpha c \<or> c = CHR ''_'') \<or> \<not> st \<and> \<not> name_part c")
        case True
        with "2.prems" p nk nd have "x = None" "B' = B1" by (auto simp: name_part_def split: if_splits)
        moreover have "\<not> (if st then start_ok q d (c # p) else rest_ok q d (c # p))"
          using True nd by (auto simp: start_ok_def rest_Cons)
        ultimately show ?thesis using s1 by (intro exI [of _ "[]"]) simp
      next
        case False
        then have f: "\<not> (st \<and> \<not> (c_isalpha c \<or> c = CHR ''_''))"
            "\<not> (\<not> st \<and> \<not> (c_isalnum c \<or> c = CHR ''_'' \<or> c = CHR ''$'' \<or> c = CHR ''#''))"
          by (simp_all add: name_part_def)
        with "2.prems" p nk nd have r: "ident_loop env q False d (Suc n) (acc @ [c_toupper c]) p B1 = (x, B')" by (simp split: if_splits)
        have "(if st then start_ok q d (c # p) else rest_ok q d (c # p)) \<longleftrightarrow> rest_ok q d p"
          using False nd by (auto simp: start_ok_def rest_Cons)
        moreover from "2.IH"(2) [OF p [symmetric] refl nk nd f r] obtain es where
          "bk_sink B' = bk_sink B1 @ es" "if es = [] then x = (if rest_ok q d p then Some ((acc @ [c_toupper c]) @ map c_toupper p) else None)
             else x = None" by auto
        ultimately show ?thesis using s1 by (intro exI [of _ es]) simp
      qed
    qed
  qed
qed


section \<open>The text of dates\<close>

text \<open>A date of the calendar with a year of four digits.\<close>

definition bulk_fields :: "date_fields \<Rightarrow> bool" where
  "bulk_fields f \<longleftrightarrow> 1 \<le> d_year f \<and> d_year f \<le> 9999 \<and> 1 \<le> d_month f \<and> d_month f \<le> 12 \<and> 1 \<le> d_day f \<and> d_day f \<le> 31
     \<and> 0 \<le> d_hour f \<and> d_hour f < 24 \<and> 0 \<le> d_minute f \<and> d_minute f < 60 \<and> 0 \<le> d_second f \<and> d_second f < 60
     \<and> 0 \<le> d_us f \<and> d_us f < 1000000"

text \<open>How the server reads the text by the format of its column.\<close>

definition field_at :: "string \<Rightarrow> nat \<Rightarrow> nat \<Rightarrow> int" where
  "field_at s i n = int (dec_val (take n (drop i s)))"

definition read_date :: "bool \<Rightarrow> string \<Rightarrow> date_fields" where
  "read_date fraction s = \<lparr>d_year = field_at s 0 4, d_month = field_at s 5 2, d_day = field_at s 8 2,
     d_hour = field_at s 11 2, d_minute = field_at s 14 2, d_second = field_at s 17 2,
     d_us = (if fraction then field_at s 20 6 else 0)\<rparr>"

lemma pad_int_value: "0 \<le> i \<Longrightarrow> int (dec_val (pad_int n i)) = i"
  by (simp add: pad_int_def dec_val_append)

lemma date_text_read:
  assumes "bulk_fields f"
  shows "read_date False (bulk_date_text f) = f\<lparr>d_us := 0\<rparr>"
    "read_date True (bulk_date_text f @ ''.'' @ pad_int 6 (d_us f)) = f"
    "length (bulk_date_text f) = 19" "length (bulk_date_text f @ ''.'' @ pad_int 6 (d_us f)) = 26"
proof -
  have l: "length (pad_int 4 (d_year f)) = 4" "length (pad_int 2 (d_month f)) = 2" "length (pad_int 2 (d_day f)) = 2"
      "length (pad_int 2 (d_hour f)) = 2" "length (pad_int 2 (d_minute f)) = 2" "length (pad_int 2 (d_second f)) = 2"
      "length (pad_int 6 (d_us f)) = 6"
    using assms by (simp_all add: bulk_fields_def pad_int_length)
  show "length (bulk_date_text f) = 19" "length (bulk_date_text f @ ''.'' @ pad_int 6 (d_us f)) = 26"
    by (simp_all add: bulk_date_text_def l)
  show "read_date False (bulk_date_text f) = f\<lparr>d_us := 0\<rparr>"
    "read_date True (bulk_date_text f @ ''.'' @ pad_int 6 (d_us f)) = f"
    using assms by (simp_all add: read_date_def field_at_def bulk_date_text_def l pad_int_value bulk_fields_def)
qed

text \<open>C27: A date that is loaded into a date or time stamp column is always accepted and fits the column, and
  the text that is sent reads back, by the format given for the column, as the same date: to the
  second in a date column, to the microsecond in a time stamp column.
\<close>

theorem bulk_date_roundtrip:
  assumes "bulk_column_of key m = Some col" "bc_kind col \<in> {BulkDate, BulkTimestamp}" "bulk_fields (dpe_fields env (AbsDate z f))"
  shows "\<exists>t. qoreOracleSerializeCell env col (QDate (AbsDate z f)) = Inr (Some t)
    \<and> read_date (bc_kind col = BulkTimestamp) t
        = (if bc_kind col = BulkTimestamp then dpe_fields env (AbsDate z f) else (dpe_fields env (AbsDate z f))\<lparr>d_us := 0\<rparr>)
    \<and> (bc_format col = ''YYYY-MM-DD HH24:MI:SS'' @ (if bc_kind col = BulkTimestamp then ''.FF6'' else []))"
proof -
  let ?f = "dpe_fields env (AbsDate z f)"
  have y: "1 \<le> d_year ?f" "d_year ?f \<le> 9999" using assms(3) by (simp_all add: bulk_fields_def)
  note r = date_text_read [OF assms(3)]
  from assms(1,2) consider "bc_kind col = BulkDate" "bc_max_size col = 32" "bc_format col = ''YYYY-MM-DD HH24:MI:SS''"
    | "bc_kind col = BulkTimestamp" "bc_max_size col = 40" "bc_format col = ''YYYY-MM-DD HH24:MI:SS.FF6''"
    by (auto simp: bulk_column_of_def Let_def split: column_type.splits if_splits)
  then show ?thesis
  proof cases
    case 1
    with y r show ?thesis
      by (intro exI [of _ "bulk_date_text ?f"]) (simp add: qoreOracleSerializeCell_def qoreOracleSerializeDate_def Let_def)
  next
    case 2
    with y r show ?thesis
      by (intro exI [of _ "bulk_date_text ?f @ ''.'' @ pad_int 6 (d_us ?f)"])
        (simp add: qoreOracleSerializeCell_def qoreOracleSerializeDate_def Let_def)
  qed
qed

section \<open>Witnesses\<close>

definition quiet_bulk_env :: bulk_env where
  "quiet_bulk_env = \<lparr>dpe_cancel = (\<lambda>k. None), dpe_status = (\<lambda>k. OCI_SUCCESS), dpe_error = (\<lambda>k. path_error ''failed''),
     dpe_count = (\<lambda>k. 1), dpe_report = (\<lambda>k. None), dpe_observer = False, dpe_type_info = (\<lambda>t. Inr None),
     dpe_text = (\<lambda>v. Inr []), dpe_fields = (\<lambda>d. case d of AbsDate z f \<Rightarrow> f | RelDate f \<Rightarrow> f)\<rparr>"

definition quiet_bulk :: bulk where
  "quiet_bulk = \<lparr>bk_calls = [], bk_polls = 0, bk_sink = [], bk_active = False, bk_ctx = False, bk_array = False,
     bk_stream_handle = False, bk_columns = [], bk_max_rows = 0, bk_prepared = False, bk_used = False, bk_observed = False,
     bk_started = False, bk_ok = True, bk_consumed = 0, bk_reported = 0\<rparr>"


definition sample_time :: date_fields where
  "sample_time = \<lparr>d_year = 2024, d_month = 2, d_day = 29, d_hour = 23, d_minute = 5, d_second = 9, d_us = 42\<rparr>"

lemma bulk_date_roundtrip_witness:
  "\<exists>m col t. bulk_column_of ''ts'' m = Some col \<and> qoreOracleSerializeCell quiet_bulk_env col (QDate (AbsDate LocalZone sample_time)) = Inr (Some t)
     \<and> read_date True t = sample_time"
proof -
  let ?m = "\<lparr>oc_name = ''TS'', oc_type = CDT_TIMESTAMP, oc_ocode = SQLT_TIMESTAMP, oc_size = 11, oc_prec = 6, oc_scale = 0\<rparr>"
  obtain col where c: "bulk_column_of ''ts'' ?m = Some col" "bc_kind col = BulkTimestamp" by (simp add: bulk_column_of_def Let_def)
  have "bulk_fields (dpe_fields quiet_bulk_env (AbsDate LocalZone sample_time))"
    by (simp add: bulk_fields_def quiet_bulk_env_def sample_time_def)
  from bulk_date_roundtrip [OF c(1) _ this] c show ?thesis by (auto simp: quiet_bulk_env_def)
qed

end
