(* ===== verification/Named_Types.thy ===== *)
theory Named_Types
  imports Connection Ocilib_Types
begin

text \<open>
  Named types (oracleobject.cpp): a hash or a list of the program is made into an Oracle object or
  collection, attribute by attribute and element by element, and an object or collection is read
  back.  The objects themselves belong to the OCILIB library: every call of the library is recorded
  and has the answer of an environment.
\<close>

section \<open>Calls and answers\<close>

text \<open>
  A handle is the place of the call that made it in the record of the calls.  What a call works on
  is an attribute of an object or the element that is put into a collection.
\<close>

datatype slot = Attr nat string | Elem nat

datatype nty_kind = KObject string | KColl string | KElem string | KTimestamp sqlt | KDate | KInterval sqlt | KLob bool

text \<open>\<open>AHandle\<close> assigns the value of a handle: a time stamp, date, interval, LOB, object or collection.\<close>

datatype nty_assign = ANull | AText string | ANumber string | ADouble "64 word" | ABigInt int | AHandle nat

datatype nty_fill = FTimestamp date_fields int | FDate date_fields | FYearMonth int int | FDaySecond date_fields int
  | FLob string int

datatype nty_read = RIsNull | RAttrIndex | RNumberToText | RString | RBigInt | RDouble | RTimestamp | RTimestampDate
  | RTimestampTime | RDate | RInterval | RIntervalFields | RObject | RColl

text \<open>\<open>Alloc\<close> and \<open>Free\<close> are the create and free functions of the kind of the handle.\<close>

datatype nty_call =
    GetTypeInfo string | GetColumn nat | GetColumnName nat
  | Alloc nty_kind | Free nat
  | Fill nat nty_fill | Assign slot nty_assign | AppendElem nat nat
  | Read slot nty_read
  | GetLob slot | LobLength nat | Preallocate int | ReadLob nat int int
  | CollSize nat | CollGetAt nat nat

text \<open>
  A call of the library succeeds, returns false or a null pointer without an exception, or raises
  one.
\<close>

datatype nty_answer = Done | Refused | Error exn

text \<open>
  What is put into a slot, as it is assigned: a number as the text, the integer or the double that
  is assigned.  An object has its type and the attributes that were assigned.
\<close>

datatype nty_data =
    DNull | DText string | DNumber string | DInt int | DDouble "64 word"
  | DTimestamp date_fields int | DDate date_fields | DYearMonth int int | DDaySecond date_fields int | DLob string
  | DObject string "(string \<times> nty_data) list" | DColl string "nty_data list"

record nty_env =
  ne_answer :: "nat \<Rightarrow> nty_answer"
  ne_type :: "string \<Rightarrow> nty_type option"
  ne_encoding :: string
  ne_max_width :: int
  ne_number :: number_option
  ne_text :: "qval \<Rightarrow> string outcome"
  ne_plain :: "qval \<Rightarrow> string"
  ne_float :: "qval \<Rightarrow> 64 word"
  ne_int :: "qval \<Rightarrow> int"
  ne_date :: "qval \<Rightarrow> qdate"
  ne_chars :: "string \<Rightarrow> int"
  ne_number_text :: "nty_data \<Rightarrow> string"
  ne_number_int :: "nty_data \<Rightarrow> int"
  ne_number_double :: "nty_data \<Rightarrow> 64 word"
  ne_offset :: "sqlt \<Rightarrow> date_fields \<Rightarrow> (int \<times> int) option"

text \<open>The calls that were made and the exceptions that were raised.\<close>

datatype nty_state = Nty (nt_calls: "nty_call list") (nt_sink: sink)

text \<open>The result of a step: a value, a failure that has been raised, or the end of the process.\<close>

datatype 'a got = Got 'a | Failed | Crashed

type_synonym 'a nty_step = "nty_state \<Rightarrow> 'a got \<times> nty_state"

definition nty_note :: "nty_call \<Rightarrow> nty_state \<Rightarrow> nty_state" where
  "nty_note c S = Nty (nt_calls S @ [c]) (nt_sink S)"

definition nty_raise :: "exn \<Rightarrow> nty_state \<Rightarrow> nty_state" where
  "nty_raise e S = Nty (nt_calls S) (nt_sink S @ [e])"

definition nty_fail :: "exn \<Rightarrow> 'a nty_step" where
  "nty_fail e S = (Failed, nty_raise e S)"

definition nty_answer_at :: "nty_env \<Rightarrow> nty_state \<Rightarrow> nty_answer" where
  "nty_answer_at env S = ne_answer env (length (nt_calls S))"

text \<open>\<open>if (*xsink)\<close>: raised now or before.\<close>

definition raised :: "nty_state \<Rightarrow> bool" where
  "raised S \<longleftrightarrow> nt_sink S \<noteq> []"

text \<open>
  \<open>if (!call(...)) { if (!*xsink) xsink->raiseException(...); return 0; }\<close>, the same for a call
  that takes no \<open>xsink\<close>, whose failure is always raised here, and a call after which only \<open>*xsink\<close>
  is tested.
\<close>

definition nty_call :: "nty_env \<Rightarrow> exn \<Rightarrow> nty_call \<Rightarrow> unit nty_step" where
  "nty_call env own c S =
     (let S1 = nty_note c S
      in case nty_answer_at env S of
           Done \<Rightarrow> (Got (), S1)
         | Refused \<Rightarrow> (Failed, if raised S1 then S1 else nty_raise own S1)
         | Error e \<Rightarrow> (Failed, nty_raise e S1))"

definition nty_call_no_xsink :: "nty_env \<Rightarrow> exn \<Rightarrow> nty_call \<Rightarrow> unit nty_step" where
  "nty_call_no_xsink env own c S =
     (if nty_answer_at env S = Done then (Got (), nty_note c S) else nty_fail own (nty_note c S))"

definition nty_query :: "nty_env \<Rightarrow> nty_call \<Rightarrow> unit nty_step" where
  "nty_query env c S =
     (let S1 = (case nty_answer_at env S of Error e \<Rightarrow> nty_raise e (nty_note c S) | _ \<Rightarrow> nty_note c S)
      in (if raised S1 then Failed else Got (), S1))"

text \<open>\<open>*xsink\<close> is tested first, then the pointer that was returned.\<close>

definition nty_lookup :: "nty_env \<Rightarrow> exn \<Rightarrow> nty_call \<Rightarrow> unit nty_step" where
  "nty_lookup env own c S =
     (let refused = (nty_answer_at env S = Refused); (r, S1) = nty_query env c S
      in if r = Got () \<and> refused then nty_fail own S1 else (r, S1))"

text \<open>Releasing a handle; the calls that take \<open>xsink\<close> may raise, which their caller does not see.\<close>

definition nty_free :: "nty_env \<Rightarrow> nty_call \<Rightarrow> nty_state \<Rightarrow> nty_state" where
  "nty_free env c S =
     (case nty_answer_at env S of Error e \<Rightarrow> nty_raise e (nty_note c S) | _ \<Rightarrow> nty_note c S)"

fun nty_seq :: "unit nty_step list \<Rightarrow> unit nty_step" where
  "nty_seq [] S = (Got (), S)"
| "nty_seq (f # fs) S = (case f S of (Got _, S1) \<Rightarrow> nty_seq fs S1 | x \<Rightarrow> x)"

text \<open>A step after one that gave a value; a failure ends the function.\<close>

definition nty_bind :: "'a got \<times> nty_state \<Rightarrow> ('a \<Rightarrow> nty_state \<Rightarrow> 'b got \<times> nty_state) \<Rightarrow> 'b got \<times> nty_state" where
  "nty_bind x f = (case x of (Got v, S) \<Rightarrow> f v S | (Failed, S) \<Rightarrow> (Failed, S) | (Crashed, S) \<Rightarrow> (Crashed, S))"

lemma nty_bind_simps [simp]:
  "nty_bind (Got v, S) f = f v S" "nty_bind (Failed, S) f = (Failed, S)" "nty_bind (Crashed, S) f = (Crashed, S)"
  by (simp_all add: nty_bind_def)

lemma nty_bind_cong [fundef_cong]:
  "x = y \<Longrightarrow> (\<And>v S. y = (Got v, S) \<Longrightarrow> f v S = g v S) \<Longrightarrow> nty_bind x f = nty_bind y g"
  by (auto simp: nty_bind_def split: prod.split got.split)

text \<open>A handle for the time of a block: made, used and released (\<open>ON_BLOCK_EXIT\<close>).\<close>

definition with_temp :: "(nty_state \<Rightarrow> unit got \<times> nty_state) \<Rightarrow> (nat \<Rightarrow> nty_state \<Rightarrow> nty_state) \<Rightarrow> (nat \<Rightarrow> unit nty_step list) \<Rightarrow> unit nty_step" where
  "with_temp create release body S =
     (let h = length (nt_calls S)
      in case create S of
           (Got _, S1) \<Rightarrow> (let (r, S2) = nty_seq (body h) S1 in (r, release h S2))
         | x \<Rightarrow> x)"

definition bind_error :: "string \<Rightarrow> exn" where
  "bind_error what = Exn ''BIND-NTY-ERROR'' what"

section \<open>The hashes that stand for named types\<close>

definition ORACLE_OBJECT :: string where "ORACLE_OBJECT = ''OracleObject''"
definition ORACLE_COLLECTION :: string where "ORACLE_COLLECTION = ''OracleCollection''"

definition ntyHashType :: "qval ohash option \<Rightarrow> string" where
  "ntyHashType n = (case n of None \<Rightarrow> [] | Some h \<Rightarrow> (case key_value h ''type'' of QString s e \<Rightarrow> s | _ \<Rightarrow> []))"

definition ntyCheckType :: "string \<Rightarrow> qval ohash \<Rightarrow> qtype \<Rightarrow> bool" where
  "ntyCheckType tname n t \<longleftrightarrow>
     qtype_of (key_value n ''type'') = NT_STRING \<and> qtype_of (key_value n ''^oratype^'') = NT_STRING
     \<and> qtype_of (key_value n ''^values^'') = t
     \<and> ntyHashType (Some n) \<noteq> [] \<and> c_str (ntyHashType (Some n)) = tname"

text \<open>The C string of the name of the type; a value that is no string does not get here.\<close>

definition type_name :: "qval ohash \<Rightarrow> string" where
  "type_name h = (case key_value h ''^oratype^'' of QString s e \<Rightarrow> c_str s | _ \<Rightarrow> [])"

definition attr_arg :: "qval ohash \<Rightarrow> string \<Rightarrow> qval option" where
  "attr_arg th cname =
     (case hash_get th cname of Some v \<Rightarrow> Some v | None \<Rightarrow> hash_get th (map c_tolower cname))"

definition get_type :: "nty_env \<Rightarrow> exn \<Rightarrow> string \<Rightarrow> nty_type nty_step" where
  "get_type env own tname S =
     (let S1 = nty_note (GetTypeInfo tname) S; refused = (Failed, if raised S1 then S1 else nty_raise own S1)
      in case nty_answer_at env S of
           Done \<Rightarrow> (case ne_type env tname of Some info \<Rightarrow> (Got info, S1) | None \<Rightarrow> refused)
         | Refused \<Rightarrow> refused
         | Error e \<Rightarrow> (Failed, nty_raise e S1))"

section \<open>Binding a value\<close>

definition bind_null :: "nty_env \<Rightarrow> slot \<Rightarrow> unit nty_step" where
  "bind_null env slot =
     (case slot of
        Attr obj name \<Rightarrow> nty_call env (bind_error ''unable to set object attribute to NULL'') (Assign slot ANull)
      | Elem e \<Rightarrow> nty_call_no_xsink env (bind_error ''failed to set element to NULL'') (Assign slot ANull))"

definition bind_text :: "nty_env \<Rightarrow> slot \<Rightarrow> qval \<Rightarrow> unit nty_step" where
  "bind_text env slot v S =
     (case ne_text env v of
        Raised e \<Rightarrow> nty_fail e S
      | Undefined \<Rightarrow> (Crashed, S)
      | Value s \<Rightarrow>
          if s = [] then bind_null env slot S
          else nty_call env (bind_error ''unable to assign a string value'') (Assign slot (AText (c_str s))) S)"

definition bind_number :: "nty_env \<Rightarrow> slot \<Rightarrow> qval \<Rightarrow> unit nty_step" where
  "bind_number env slot v =
     (case v of
        QString s e \<Rightarrow> nty_call env (bind_error ''NUMBER: unable to assign a string value'') (Assign slot (ANumber (ne_plain env v)))
      | QFloat f \<Rightarrow> nty_call env (bind_error ''NUMBER: unable to assign a float value'') (Assign slot (ADouble f))
      | QInt i \<Rightarrow> nty_call env (bind_error ''NUMBER: unable to assign an integer value'') (Assign slot (ABigInt i))
      | QNumber n \<Rightarrow> nty_call env (bind_error ''NUMBER: unable to assign a string value'') (Assign slot (ANumber (ne_plain env v)))
      | _ \<Rightarrow> nty_fail (bind_error ''NUMBER: unable to bind value''))"

definition bind_integer :: "nty_env \<Rightarrow> slot \<Rightarrow> qval \<Rightarrow> unit nty_step" where
  "bind_integer env slot v = nty_call env (bind_error ''unable to assign an integer value'') (Assign slot (ABigInt (ne_int env v)))"

definition bind_float :: "nty_env \<Rightarrow> slot \<Rightarrow> qval \<Rightarrow> unit nty_step" where
  "bind_float env slot v = nty_call env (bind_error ''unable to assign a double-precision value'') (Assign slot (ADouble (ne_float env v)))"

text \<open>The fields of a date in its own zone (\<open>getYear()\<close> and the like).\<close>

fun own_fields :: "qdate \<Rightarrow> date_fields" where
  "own_fields (AbsDate z f) = f"
| "own_fields (RelDate f) = f"

definition bind_timestamp :: "nty_env \<Rightarrow> slot \<Rightarrow> sqlt \<Rightarrow> date_fields \<Rightarrow> unit nty_step" where
  "bind_timestamp env slot t f =
     with_temp (nty_call env (bind_error ''failed to create timestamp object'') (Alloc (KTimestamp t))) (\<lambda>h. nty_note (Free h))
       (\<lambda>h. [nty_call env (bind_error ''failed to create timestamp from date/time value'') (Fill h (FTimestamp f (d_us f * 1000))),
             nty_call env (bind_error ''failed to set timestamp attribute'') (Assign slot (AHandle h))])"

definition create_date :: "nty_env \<Rightarrow> slot \<Rightarrow> unit nty_step" where
  "create_date env slot =
     (case slot of
        Attr obj name \<Rightarrow> nty_call env (bind_error ''failed to create date/time object'') (Alloc KDate)
      | Elem e \<Rightarrow> nty_call_no_xsink env (bind_error ''failed to create date/time object'') (Alloc KDate))"

definition bind_datetime :: "nty_env \<Rightarrow> slot \<Rightarrow> date_fields \<Rightarrow> unit nty_step" where
  "bind_datetime env slot f =
     with_temp (create_date env slot) (\<lambda>h. nty_note (Free h))
       (\<lambda>h. [nty_call env (bind_error ''failed to create date/time value'') (Fill h (FDate f)),
             nty_call env (bind_error ''failed to set date/time attribute'') (Assign slot (AHandle h))])"

definition bind_interval :: "nty_env \<Rightarrow> slot \<Rightarrow> sqlt \<Rightarrow> date_fields \<Rightarrow> unit nty_step" where
  "bind_interval env slot t f =
     with_temp (nty_call env (bind_error ''failed to create interval object'')
         (Alloc (KInterval (if t = SQLT_INTERVAL_YM then SQLT_INTERVAL_YM else SQLT_INTERVAL_DS)))) (\<lambda>h. nty_note (Free h))
       (\<lambda>h. [nty_call env (bind_error ''failed to set interval value'')
               (Fill h (if t = SQLT_INTERVAL_YM then FYearMonth (d_year f) (d_month f) else FDaySecond f (d_us f * 1000))),
             nty_call env (bind_error ''failed to set interval attribute'') (Assign slot (AHandle h))])"

definition bind_date :: "nty_env \<Rightarrow> slot \<Rightarrow> nty_column \<Rightarrow> qval \<Rightarrow> unit nty_step" where
  "bind_date env slot col v =
     (let f = own_fields (ne_date env v)
      in case oc_type col of
           CDT_TIMESTAMP \<Rightarrow> bind_timestamp env slot (oc_ocode col) f
         | CDT_DATETIME \<Rightarrow> bind_datetime env slot f
         | CDT_INTERVAL \<Rightarrow> bind_interval env slot (oc_ocode col) f
         | _ \<Rightarrow> nty_fail (bind_error ''Unknown DATE-like argument''))"

text \<open>The sizes are \<open>unsigned int\<close>.\<close>

definition lob_size :: "string \<Rightarrow> int" where
  "lob_size s = int (length s) mod 4294967296"

definition write_lob :: "nty_env \<Rightarrow> slot \<Rightarrow> bool \<Rightarrow> string \<Rightarrow> int \<Rightarrow> unit nty_step" where
  "write_lob env slot blob s chars =
     with_temp (nty_call env (bind_error ''failed to create LOB'') (Alloc (KLob blob))) (\<lambda>h. nty_free env (Free h))
       (\<lambda>h. [nty_call env (bind_error ''failed to write to LOB'') (Fill h (FLob (take (nat (lob_size s)) s) chars)),
             nty_call env (bind_error ''failed to set LOB attribute'') (Assign slot (AHandle h))])"

definition bind_lob_slot :: "nty_env \<Rightarrow> slot \<Rightarrow> qval \<Rightarrow> unit nty_step" where
  "bind_lob_slot env slot v S =
     (case v of
        QBinary b \<Rightarrow> if lob_size b \<noteq> 0 then write_lob env slot True b (lob_size b) S else bind_null env slot S
      | _ \<Rightarrow>
          (case ne_text env v of
             Raised e \<Rightarrow> nty_fail e S
           | Undefined \<Rightarrow> (Crashed, S)
           | Value s \<Rightarrow>
               if lob_size s \<noteq> 0 then write_lob env slot False s (ne_chars env s mod 4294967296) S
               else bind_null env slot S))"

text \<open>
  A type that is not supported: for an element the message takes the name of \<open>col->typinf\<close>, which is
  a null pointer unless the elements are themselves of a named type.
\<close>

definition bind_unsupported :: "slot \<Rightarrow> nty_column \<Rightarrow> unit nty_step" where
  "bind_unsupported slot col S =
     (case slot of
        Attr obj name \<Rightarrow> nty_fail (bind_error ''unknown datatype to bind as an attribute'') S
      | Elem e \<Rightarrow>
          if nc_typinf col = None then (Crashed, S)
          else nty_fail (Exn ''BIND-COLLECTION-ERROR'' ''unknown datatype to bind as an attribute'') S)"

definition bind_plain :: "nty_env \<Rightarrow> slot \<Rightarrow> nty_column \<Rightarrow> qval \<Rightarrow> unit nty_step" where
  "bind_plain env slot col v =
     (let t = oc_ocode col
      in if is_text_type t then bind_text env slot v
         else if t = SQLT_NUM then bind_number env slot v
         else if t = SQLT_INT then bind_integer env slot v
         else if is_float_type t then bind_float env slot v
         else if is_date_type t then bind_date env slot col v
         else if is_lob_type t then bind_lob_slot env slot v
         else bind_unsupported slot col)"

section \<open>Objects and collections\<close>

text \<open>Releasing an object or collection that could not be made (\<open>ObjectHolder\<close>, \<open>CollHolder\<close>).\<close>

definition held :: "nty_env \<Rightarrow> nat \<Rightarrow> unit got \<times> nty_state \<Rightarrow> nat got \<times> nty_state" where
  "held env h x =
     (case x of (Got _, S) \<Rightarrow> (Got h, S) | (Failed, S) \<Rightarrow> (Failed, nty_free env (Free h) S) | (Crashed, S) \<Rightarrow> (Crashed, S))"

text \<open>The element of a collection, which is released at the end in any case.\<close>

definition released :: "nty_env \<Rightarrow> nat \<Rightarrow> unit got \<times> nty_state \<Rightarrow> unit got \<times> nty_state" where
  "released env h x = (case x of (Crashed, S) \<Rightarrow> (Crashed, S) | (r, S) \<Rightarrow> (r, nty_free env (Free h) S))"

text \<open>The made object or collection is assigned and released; then \<open>*xsink\<close> is tested.\<close>

definition assign_made :: "nty_env \<Rightarrow> slot \<Rightarrow> nat got \<times> nty_state \<Rightarrow> unit got \<times> nty_state" where
  "assign_made env slot x =
     nty_bind x (\<lambda>o' S.
       let (r, S1) = nty_call env (bind_error ''unable to bind object or collection'') (Assign slot (AHandle o')) S;
           S2 = nty_free env (Free o') S1
       in (if r = Got () \<and> raised S2 then Failed else r, S2))"

lemma size_hash_value: "hash_get h k = Some v \<Longrightarrow> size v < size (QHash h)"
  by (induction h) (auto split: if_splits)

lemma size_key_value: "key_value h k = v \<Longrightarrow> v \<noteq> QNothing \<Longrightarrow> size v < size (QHash h)"
  by (auto simp: key_value_def split: option.splits dest: size_hash_value)

lemma size_attr_arg: "attr_arg h k = Some v \<Longrightarrow> size v < size (QHash h)"
  unfolding attr_arg_def by (auto split: option.splits dest: size_hash_value)

lemma size_key_hash: "key_value h k = QHash th \<Longrightarrow> size (QHash th) < size (QHash h)"
  using size_key_value by blast

lemma size_key_list: "key_value h k = QList l \<Longrightarrow> size (QList l) < size (QHash h)"
  using size_key_value by blast

function
  objBindQore :: "nty_env \<Rightarrow> qval ohash \<Rightarrow> nat nty_step" and
  collBindQore :: "nty_env \<Rightarrow> qval ohash \<Rightarrow> nat nty_step" and
  bind_attrs :: "nty_env \<Rightarrow> nat \<Rightarrow> qval ohash \<Rightarrow> nat \<Rightarrow> nty_column list \<Rightarrow> unit nty_step" and
  bind_elems :: "nty_env \<Rightarrow> nat \<Rightarrow> nat \<Rightarrow> nty_column \<Rightarrow> qval list \<Rightarrow> unit nty_step" and
  bind_nty :: "nty_env \<Rightarrow> slot \<Rightarrow> qval \<Rightarrow> unit nty_step"
where
  "objBindQore env h S =
     (if \<not> ntyCheckType ORACLE_OBJECT h NT_HASH then nty_fail (Exn ''BIND-ORACLE-OBJECT-ERROR'' ''not created with bindOracleObject()'') S
      else
        (case key_value h ''^values^'' of
           QHash th \<Rightarrow>
             nty_bind (get_type env (bind_error ''no type defined in the DB'') (type_name h) S) (\<lambda>info S1.
             nty_bind (nty_call env (bind_error ''unable to create object'') (Alloc (KObject (type_name h))) S1) (\<lambda>_ S2.
               held env (length (nt_calls S1))
                 (if nt_cols info = [] then nty_fail (bind_error ''unable to retrieve attribute info'') S2
                  else bind_attrs env (length (nt_calls S1)) th 1 (nt_cols info) S2)))
         | _ \<Rightarrow> (Failed, S)))"
| "collBindQore env h S =
     (if \<not> ntyCheckType ORACLE_COLLECTION h NT_LIST then nty_fail (Exn ''BIND-ORACLE-COLLECTION-ERROR'' ''not created with bindOracleCollection()'') S
      else
        (case key_value h ''^values^'' of
           QList vs \<Rightarrow>
             nty_bind (get_type env (bind_error ''no type defined in the DB'') (type_name h) S) (\<lambda>info S1.
             nty_bind (nty_call env (bind_error ''unable to create collection'') (Alloc (KColl (type_name h))) S1) (\<lambda>_ S2.
               held env (length (nt_calls S1))
                 (case nt_cols info of
                    [] \<Rightarrow> nty_fail (bind_error ''failed to retrieve column information'') S2
                  | col # _ \<Rightarrow>
                      nty_bind (nty_call env (bind_error ''failed to retrieve column information'') (GetColumn 1) S2) (\<lambda>_ S3.
                      nty_bind (nty_call env (bind_error ''failed to create element'') (Alloc (KElem (type_name h))) S3) (\<lambda>_ S4.
                        released env (length (nt_calls S3))
                          (bind_elems env (length (nt_calls S1)) (length (nt_calls S3)) col vs S4))))))
         | _ \<Rightarrow> (Failed, S)))"
| "bind_attrs env obj th i [] S = (Got (), S)"
| "bind_attrs env obj th i (c # cs) S =
     nty_bind
       (nty_seq [nty_lookup env (bind_error ''failed to retrieve column information'') (GetColumn i),
                 nty_lookup env (bind_error ''failed to retrieve column information'') (GetColumnName i)] S) (\<lambda>_ S1.
     nty_bind
       (case attr_arg th (oc_name c) of
          None \<Rightarrow> bind_null env (Attr obj (oc_name c)) S1
        | Some v \<Rightarrow>
            if is_null_or_nothing v then bind_null env (Attr obj (oc_name c)) S1
            else if is_nty_type (oc_ocode c) then bind_nty env (Attr obj (oc_name c)) v S1
            else bind_plain env (Attr obj (oc_name c)) c v S1) (\<lambda>_ S2.
     bind_attrs env obj th (Suc i) cs S2))"
| "bind_elems env coll e col [] S = (Got (), S)"
| "bind_elems env coll e col (v # vs) S =
     nty_bind
       (if is_null_or_nothing v then bind_null env (Elem e) S
        else if is_nty_type (oc_ocode col) then bind_nty env (Elem e) v S
        else bind_plain env (Elem e) col v S) (\<lambda>_ S1.
     nty_bind (nty_call env (bind_error ''failed to append element'') (AppendElem coll e) S1) (\<lambda>_ S2.
     bind_elems env coll e col vs S2))"
| "bind_nty env slot v S =
     (case v of
        QHash n \<Rightarrow>
          if ntyHashType (Some n) = ORACLE_OBJECT then assign_made env slot (objBindQore env n S)
          else if ntyHashType (Some n) = ORACLE_COLLECTION then assign_made env slot (collBindQore env n S)
          else nty_fail (bind_error ''Unknown NTY-like argument'') S
      | _ \<Rightarrow> nty_fail (bind_error ''Unknown NTY-like argument'') S)"
  by pat_completeness auto

termination
  by (relation "measures
      [\<lambda>x. case x of Inl (Inl (env, h, S)) \<Rightarrow> size (QHash h) | Inl (Inr (env, h, S)) \<Rightarrow> size (QHash h)
         | Inr (Inl (env, obj, th, i, cs, S)) \<Rightarrow> size (QHash th) | Inr (Inr (Inl (env, coll, e, col, vs, S))) \<Rightarrow> size (QList vs)
         | Inr (Inr (Inr (env, slot, v, S))) \<Rightarrow> size v,
       \<lambda>x. case x of Inl (Inl (env, h, S)) \<Rightarrow> 0 | Inl (Inr (env, h, S)) \<Rightarrow> 0
         | Inr (Inl (env, obj, th, i, cs, S)) \<Rightarrow> length cs | Inr (Inr (Inl (env, coll, e, col, vs, S))) \<Rightarrow> length vs
         | Inr (Inr (Inr (env, slot, v, S))) \<Rightarrow> 1]")
    (auto dest: size_key_hash size_key_list size_attr_arg)

declare objBindQore.simps [simp del] collBindQore.simps [simp del] bind_attrs.simps(2) [simp del] bind_elems.simps(2) [simp del]
  bind_nty.simps [simp del]

section \<open>Placeholders\<close>

definition placeholder :: "nty_env \<Rightarrow> exn \<Rightarrow> exn \<Rightarrow> nty_kind \<Rightarrow> string \<Rightarrow> nat nty_step" where
  "placeholder env no_type no_buffer k tname S =
     nty_bind (get_type env no_type tname S) (\<lambda>_ S1.
     nty_bind (nty_call env no_buffer (Alloc k) S1) (\<lambda>_ S2. (Got (length (nt_calls S1)), S2)))"

definition objPlaceholderQore :: "nty_env \<Rightarrow> string \<Rightarrow> nat nty_step" where
  "objPlaceholderQore env tname =
     placeholder env (Exn ''ORACLE-OBJECT-ERROR'' ''could not get type info'')
       (Exn ''ORACLE-OBJECT-ERROR'' ''could not create placeholder buffer'') (KObject tname) tname"

definition collPlaceholderQore :: "nty_env \<Rightarrow> string \<Rightarrow> nat nty_step" where
  "collPlaceholderQore env tname =
     placeholder env (Exn ''PLACEHOLDER-ORACLE-COLLECTION-ERROR'' ''no type defined in the DB'')
       (Exn ''ORACLE-COLLECTION-ERROR'' ''could not create placeholder buffer'') (KColl tname) tname"

end
