(* ===== verification/Named_Fetch.thy ===== *)
theory Named_Fetch
  imports Named_Types Columns
begin

text \<open>
  Reading objects and collections back (\<open>objToQore\<close> and \<open>collToQore\<close> of oracleobject.cpp).  What the
  library finds in an attribute or element is given as data; a getter that does not fit the data
  returns a null pointer.
\<close>

section \<open>Reading a value\<close>

definition fetch_error :: "string \<Rightarrow> exn" where
  "fetch_error what = Exn ''FETCH-NTY-ERROR'' what"

text \<open>A status that goes to \<open>checkerr\<close>.\<close>

definition nty_checkerr :: "nty_env \<Rightarrow> nty_call \<Rightarrow> unit nty_step" where
  "nty_checkerr env c S =
     (case nty_answer_at env S of Error e \<Rightarrow> nty_fail e (nty_note c S) | _ \<Rightarrow> (Got (), nty_note c S))"

text \<open>Some getters of elements take no \<open>xsink\<close>.\<close>

definition read_slot :: "nty_env \<Rightarrow> slot \<Rightarrow> exn \<Rightarrow> nty_read \<Rightarrow> unit nty_step" where
  "read_slot env slot own c =
     (case slot of Attr obj name \<Rightarrow> nty_call env own (Read slot c) | Elem e \<Rightarrow> nty_call_no_xsink env own (Read slot c))"

definition no_value :: "exn \<Rightarrow> 'a nty_step" where
  "no_value own S = (Failed, if raised S then S else nty_raise own S)"

text \<open>A step whose value is the one the data has.\<close>

definition got_value :: "exn \<Rightarrow> 'a option \<Rightarrow> unit got \<times> nty_state \<Rightarrow> 'a got \<times> nty_state" where
  "got_value own v x = nty_bind x (\<lambda>_ S. case v of Some q \<Rightarrow> (Got q, S) | None \<Rightarrow> no_value own S)"

definition fetch_text :: "nty_env \<Rightarrow> slot \<Rightarrow> nty_data \<Rightarrow> qval nty_step" where
  "fetch_text env slot d S =
     (let own = fetch_error ''failed to retrieve string value''
      in got_value own (case d of DText s \<Rightarrow> Some (QString s (ne_encoding env)) | _ \<Rightarrow> None) (read_slot env slot own RString S))"

fun is_number_data :: "nty_data \<Rightarrow> bool" where
  "is_number_data (DNumber t) = True"
| "is_number_data (DInt i) = True"
| "is_number_data (DDouble f) = True"
| "is_number_data d = False"

definition number_of_text :: "nty_env \<Rightarrow> string \<Rightarrow> qval" where
  "number_of_text env t =
     (case ne_number env of
        OPT_NUM_OPTIMAL \<Rightarrow> number_node (getNumberOptimal t)
      | OPT_NUM_STRING \<Rightarrow> QString t (ne_encoding env)
      | OPT_NUM_NUMERIC \<Rightarrow> QNumber t)"

definition fetch_number :: "nty_env \<Rightarrow> slot \<Rightarrow> nty_data \<Rightarrow> qval nty_step" where
  "fetch_number env slot d S =
     nty_bind (nty_call env (fetch_error ''failed to retrieve object attribute index'') (Read slot RAttrIndex) S) (\<lambda>_ S1.
       if \<not> is_number_data d then no_value (fetch_error ''failed to retrieve object attribute index'') S1
       else got_value (fetch_error ''number'') (Some (number_of_text env (ne_number_text env d))) (nty_checkerr env (Read slot RNumberToText) S1))"

definition fetch_integer :: "nty_env \<Rightarrow> slot \<Rightarrow> nty_data \<Rightarrow> qval nty_step" where
  "fetch_integer env slot d S =
     got_value (fetch_error ''integer'') (Some (QInt (ne_number_int env d))) (nty_query env (Read slot RBigInt) S)"

definition fetch_float :: "nty_env \<Rightarrow> slot \<Rightarrow> nty_data \<Rightarrow> qval nty_step" where
  "fetch_float env slot d S =
     got_value (fetch_error ''float'') (Some (QFloat (ne_number_double env d))) (nty_query env (Read slot RDouble) S)"

text \<open>
  \<open>getTimestamp\<close> raises for itself and returns a null pointer, which is set as the value: the failure
  is only seen where \<open>*xsink\<close> is tested next.
\<close>

definition timestamp_value :: "nty_env \<Rightarrow> slot \<Rightarrow> sqlt \<Rightarrow> date_fields \<Rightarrow> int \<Rightarrow> qval nty_step" where
  "timestamp_value env slot t f ns S =
     (case nty_seq [nty_checkerr env (Read slot RTimestampDate), nty_checkerr env (Read slot RTimestampTime)] S of
        (Got _, S1) \<Rightarrow>
          (case getTimestamp OCI_SUCCESS OCI_SUCCESS (fetch_error ''time stamp'') (t \<noteq> SQLT_TIMESTAMP)
                  \<lparr>dt_fields = f, dt_ns = ns, dt_offset = ne_offset env t f\<rparr> of
             Value q \<Rightarrow> (Got q, S1)
           | _ \<Rightarrow> (Got QNothing, S1))
      | (_, S1) \<Rightarrow> (Got QNothing, S1))"

definition interval_value :: "sqlt \<Rightarrow> nty_data \<Rightarrow> qval option" where
  "interval_value t d =
     (if t = SQLT_INTERVAL_YM then
        (case d of
           DYearMonth y m \<Rightarrow> Some (QDate (RelDate \<lparr>d_year = y, d_month = m, d_day = 0, d_hour = 0, d_minute = 0, d_second = 0, d_us = 0\<rparr>))
         | _ \<Rightarrow> None)
      else
        (case d of
           DDaySecond f ns \<Rightarrow> Some (QDate (RelDate (f\<lparr>d_year := 0, d_month := 0, d_us := sgn ns * (\<bar>ns\<bar> div 1000)\<rparr>)))
         | _ \<Rightarrow> None))"

definition fetch_date :: "nty_env \<Rightarrow> slot \<Rightarrow> nty_column \<Rightarrow> nty_data \<Rightarrow> qval nty_step" where
  "fetch_date env slot col d S =
     (case oc_type col of
        CDT_TIMESTAMP \<Rightarrow>
          (let own = fetch_error ''failed to retrieve timestamp''
           in nty_bind (read_slot env slot own RTimestamp S) (\<lambda>_ S1.
                case d of DTimestamp f ns \<Rightarrow> timestamp_value env slot (oc_ocode col) f ns S1 | _ \<Rightarrow> no_value own S1))
      | CDT_DATETIME \<Rightarrow>
          (let own = fetch_error ''failed to retrieve date''
           in got_value own (case d of DDate f \<Rightarrow> Some (getDate f) | _ \<Rightarrow> None) (nty_call env own (Read slot RDate) S))
      | CDT_INTERVAL \<Rightarrow>
          (let own = fetch_error ''failed to retrieve interval''
           in got_value own (interval_value (oc_ocode col) d)
                (nty_seq [read_slot env slot own RInterval, nty_call env own (Read slot RIntervalFields)] S))
      | _ \<Rightarrow> nty_fail (fetch_error ''Unknown DATE-like argument'') S)"

text \<open>The size of the buffer is an \<open>unsigned int\<close>.\<close>

definition lob_bytes :: "int \<Rightarrow> bool \<Rightarrow> int \<Rightarrow> int" where
  "lob_bytes width is_clob n = (if is_clob then n * width mod 4294967296 else n)"

definition lob_bytes_of :: "nty_data \<Rightarrow> string" where
  "lob_bytes_of d = (case d of DLob s \<Rightarrow> s | _ \<Rightarrow> [])"

text \<open>
  \<open>OCI_LobRead2\<close> fills the buffer as far as it goes; without any room it fails (it first takes four
  bytes for every character, which is no room again when the size of the buffer was 0).
\<close>

definition read_lob :: "nty_env \<Rightarrow> nat \<Rightarrow> bool \<Rightarrow> string \<Rightarrow> qval nty_step" where
  "read_lob env h is_clob s S =
     (let tl = (if nty_answer_at env S \<noteq> Done then 0 else if is_clob then ne_chars env s else int (length s));
          S1 = nty_free env (LobLength h) S
      in if tl = 0 then no_value (fetch_error ''failed to retrieve length'') S1
         else if tl \<ge> 4294967296 then nty_fail (fetch_error ''cannot read a LOB of this size'') S1
         else
           (let byte_len = lob_bytes (ne_max_width env) is_clob tl; t = take (nat byte_len) s; own = fetch_error ''failed to fetch bytes''
            in got_value own (if byte_len = 0 then None else Some (if is_clob then QString t (ne_encoding env) else QBinary t))
                 (nty_seq [nty_call_no_xsink env (fetch_error ''failed to allocate bytes'') (Preallocate byte_len),
                           nty_call env own (ReadLob h tl byte_len)] S1)))"

definition fetch_lob :: "nty_env \<Rightarrow> slot \<Rightarrow> nty_column \<Rightarrow> nty_data \<Rightarrow> qval nty_step" where
  "fetch_lob env slot col d S =
     nty_bind (nty_call env (fetch_error ''failed to retrieve LOB'') (GetLob slot) S) (\<lambda>_ S1.
       let (r, S2) = read_lob env (length (nt_calls S)) (oc_ocode col = SQLT_CLOB) (lob_bytes_of d) S1
       in (r, nty_free env (Free (length (nt_calls S))) S2))"

text \<open>
  The message for an attribute of a type that is not supported takes the name of \<open>col->typinf\<close>.
\<close>

definition fetch_unsupported :: "slot \<Rightarrow> nty_column \<Rightarrow> qval nty_step" where
  "fetch_unsupported slot col S =
     (case slot of
        Attr obj name \<Rightarrow>
          if nc_typinf col = None then (Crashed, S) else nty_fail (fetch_error ''unknown datatype to fetch as an attribute'') S
      | Elem e \<Rightarrow> nty_fail (fetch_error ''unknown datatype to fetch as an attribute'') S)"

text \<open>
  The numbers of a collection do not follow the options: without the scale of a float they are read
  as integers.
\<close>

definition fetch_number_slot :: "nty_env \<Rightarrow> slot \<Rightarrow> nty_column \<Rightarrow> nty_data \<Rightarrow> qval nty_step" where
  "fetch_number_slot env slot col d =
     (case slot of
        Attr obj name \<Rightarrow> fetch_number env slot d
      | Elem e \<Rightarrow> if oc_scale col = -127 \<and> oc_prec col > 0 then fetch_float env slot d else fetch_integer env slot d)"

definition fetch_plain :: "nty_env \<Rightarrow> slot \<Rightarrow> nty_column \<Rightarrow> nty_data \<Rightarrow> qval nty_step" where
  "fetch_plain env slot col d =
     (let t = oc_ocode col
      in if is_text_type t then fetch_text env slot d
         else if t = SQLT_NUM then fetch_number_slot env slot col d
         else if t = SQLT_INT then fetch_integer env slot d
         else if is_float_type t then fetch_float env slot d
         else if is_date_type t then fetch_date env slot col d
         else if is_lob_type t then fetch_lob env slot col d
         else fetch_unsupported slot col)"

section \<open>Objects and collections\<close>

definition attr_data :: "(string \<times> nty_data) list \<Rightarrow> string \<Rightarrow> nty_data" where
  "attr_data attrs name = (case map_of attrs name of Some d \<Rightarrow> d | None \<Rightarrow> DNull)"

lemma size_map_of_data: "map_of attrs k = Some d \<Longrightarrow> size d < size (DObject t attrs)"
  by (induction attrs) (auto split: if_splits)

lemma size_attr_data: "attr_data attrs k = d \<Longrightarrow> d \<noteq> DNull \<Longrightarrow> size d < size (DObject t attrs)"
  using size_map_of_data [of attrs k d t] by (auto simp: attr_data_def split: option.splits)

text \<open>The columns of a type; \<open>OCI_TypeInfoGetColumnCount2\<close> is 0 without any.\<close>

definition type_columns :: "nty_env \<Rightarrow> string \<Rightarrow> nty_column list" where
  "type_columns env tname = (case ne_type env tname of Some info \<Rightarrow> nt_cols info | None \<Rightarrow> [])"

definition fetched_as :: "('a \<Rightarrow> qval) \<Rightarrow> 'a got \<times> nty_state \<Rightarrow> qval got \<times> nty_state" where
  "fetched_as f x = nty_bind x (\<lambda>v S. (if raised S then Failed else Got (f v), S))"

function
  objToQore :: "nty_env \<Rightarrow> nat \<Rightarrow> string \<Rightarrow> (string \<times> nty_data) list \<Rightarrow> qval ohash nty_step" and
  collToQore :: "nty_env \<Rightarrow> nat \<Rightarrow> string \<Rightarrow> nty_data list \<Rightarrow> qval list nty_step" and
  fetch_attrs :: "nty_env \<Rightarrow> nat \<Rightarrow> (string \<times> nty_data) list \<Rightarrow> nat \<Rightarrow> nty_column list \<Rightarrow> qval ohash \<Rightarrow> qval ohash nty_step" and
  fetch_elems :: "nty_env \<Rightarrow> nat \<Rightarrow> nat \<Rightarrow> nty_column \<Rightarrow> nty_data list \<Rightarrow> qval list \<Rightarrow> qval list nty_step" and
  fetch_nty :: "nty_env \<Rightarrow> slot \<Rightarrow> nty_column \<Rightarrow> nty_data \<Rightarrow> qval nty_step"
where
  "objToQore env obj tname attrs S =
     (if type_columns env tname = [] then nty_fail (fetch_error ''unable to retrieve attribute info'') S
      else fetch_attrs env obj attrs 1 (type_columns env tname) [] S)"
| "collToQore env coll tname xs S =
     nty_bind (nty_query env (CollSize coll) S) (\<lambda>_ S1.
       case type_columns env tname of
         [] \<Rightarrow> no_value (fetch_error ''failed to retrieve column type information'') S1
       | col # _ \<Rightarrow>
           nty_bind (nty_call env (fetch_error ''failed to retrieve column type information'') (GetColumn 1) S1) (\<lambda>_ S2.
             fetch_elems env coll 1 col xs [] S2))"
| "fetch_attrs env obj attrs i [] rv S = (Got rv, S)"
| "fetch_attrs env obj attrs i (c # cs) rv S =
     nty_bind
       (nty_seq [nty_call env (fetch_error ''failed to retrieve column information'') (GetColumn i),
                 nty_call env (fetch_error ''failed to retrieve column name'') (GetColumnName i),
                 nty_query env (Read (Attr obj (oc_name c)) RIsNull)] S) (\<lambda>_ S1.
     nty_bind
       (if attr_data attrs (oc_name c) = DNull then (Got QNull, S1)
        else if is_nty_type (oc_ocode c) then fetch_nty env (Attr obj (oc_name c)) c (attr_data attrs (oc_name c)) S1
        else fetch_plain env (Attr obj (oc_name c)) c (attr_data attrs (oc_name c)) S1) (\<lambda>q S2.
     fetch_attrs env obj attrs (Suc i) cs (hash_set (oc_name c) q rv) S2))"
| "fetch_elems env coll i col [] rv S = (Got rv, S)"
| "fetch_elems env coll i col (d # ds) rv S =
     nty_bind (nty_call env (fetch_error ''failed to retrieve collection element'') (CollGetAt coll i) S) (\<lambda>_ S1.
     nty_bind
       (let e = length (nt_calls S); S2 = nty_note (Read (Elem e) RIsNull) S1
        in if d = DNull then (Got QNull, S2)
           else if is_nty_type (oc_ocode col) then fetch_nty env (Elem e) col d S2
           else fetch_plain env (Elem e) col d S2) (\<lambda>q S3.
     fetch_elems env coll (Suc i) col ds (rv @ [q]) S3))"
| "fetch_nty env slot col d S =
     (case nc_typinf col of
        None \<Rightarrow> (Crashed, S)
      | Some is_coll \<Rightarrow>
          nty_bind (nty_call env (fetch_error ''failed to fetch object or collection'') (Read slot (if is_coll then RColl else RObject)) S) (\<lambda>_ S1.
            case d of
              DColl t xs \<Rightarrow>
                if is_coll then fetched_as QList (collToQore env (length (nt_calls S)) t xs S1)
                else no_value (fetch_error ''failed to fetch object'') S1
            | DObject t as' \<Rightarrow>
                if \<not> is_coll then fetched_as QHash (objToQore env (length (nt_calls S)) t as' S1)
                else no_value (fetch_error ''failed to fetch collection'') S1
            | _ \<Rightarrow> no_value (fetch_error ''failed to fetch object or collection'') S1))"
  by pat_completeness auto

termination
  by (relation "measures
      [\<lambda>x. case x of Inl (Inl (env, o', t, as', S)) \<Rightarrow> size (DObject t as') | Inl (Inr (env, o', t, xs, S)) \<Rightarrow> size (DColl t xs)
         | Inr (Inl (env, o', as', i, cs, rv, S)) \<Rightarrow> size (DObject [] as') | Inr (Inr (Inl (env, o', i, c, xs, rv, S))) \<Rightarrow> size (DColl [] xs)
         | Inr (Inr (Inr (env, slot, c, d, S))) \<Rightarrow> size d,
       \<lambda>x. case x of Inl y \<Rightarrow> 1 | Inr (Inr (Inr y)) \<Rightarrow> 2 | Inr y \<Rightarrow> 0,
       \<lambda>x. case x of Inr (Inl (env, o', as', i, cs, rv, S)) \<Rightarrow> length cs | _ \<Rightarrow> 0]")
    (auto dest: size_attr_data [OF refl])

declare objToQore.simps [simp del] collToQore.simps [simp del] fetch_attrs.simps(2) [simp del] fetch_elems.simps(2) [simp del]
  fetch_nty.simps [simp del]

end
