(* ===== verification/Named_Handles.thy ===== *)
theory Named_Handles
  imports Named_Fetch
begin

text \<open>
  The handles of named types: every call works on handles that are allocated, and what is made on
  the way of binding or fetching is released once, whichever call failed.
\<close>

section \<open>The ledger of the handles\<close>

fun slot_handle :: "slot \<Rightarrow> nat" where
  "slot_handle (Attr obj name) = obj"
| "slot_handle (Elem e) = e"

fun assigned :: "nty_assign \<Rightarrow> nat set" where
  "assigned (AHandle h) = {h}"
| "assigned _ = {}"

fun uses :: "nty_call \<Rightarrow> nat set" where
  "uses (Free h) = {h}"
| "uses (Fill h x) = {h}"
| "uses (Assign slot a) = insert (slot_handle slot) (assigned a)"
| "uses (AppendElem coll e) = {coll, e}"
| "uses (LobLength h) = {h}"
| "uses (ReadLob h n b) = {h}"
| "uses _ = {}"

fun makes_handle :: "nty_call \<Rightarrow> bool" where
  "makes_handle (Alloc k) = True"
| "makes_handle (GetLob slot) = True"
| "makes_handle _ = False"

fun frees :: "nty_call \<Rightarrow> nat set" where
  "frees (Free h) = {h}"
| "frees _ = {}"

definition ledger_step :: "nty_env \<Rightarrow> nat \<Rightarrow> nty_call \<Rightarrow> nat set \<Rightarrow> nat set option" where
  "ledger_step env p c H =
     (if uses c \<subseteq> H then Some (H - frees c \<union> (if makes_handle c \<and> ne_answer env p = Done then {p} else {})) else None)"

fun ledger :: "nty_env \<Rightarrow> nat \<Rightarrow> nty_call list \<Rightarrow> nat set \<Rightarrow> nat set option" where
  "ledger env p [] H = Some H"
| "ledger env p (c # cs) H = (case ledger_step env p c H of None \<Rightarrow> None | Some H' \<Rightarrow> ledger env (Suc p) cs H')"

text \<open>The handles that are allocated after the calls that were made, if each call had what it uses.\<close>

definition open_nty :: "nty_env \<Rightarrow> nty_state \<Rightarrow> nat set option" where
  "open_nty env S = ledger env 0 (nt_calls S) {}"

lemma ledger_append:
  "ledger env p (cs @ ds) H = (case ledger env p cs H of None \<Rightarrow> None | Some H' \<Rightarrow> ledger env (p + length cs) ds H')"
  by (induction cs arbitrary: p H) (auto split: option.split)

lemma nt_note_simps [simp]:
  "nt_calls (nty_note c S) = nt_calls S @ [c]" "nt_sink (nty_note c S) = nt_sink S"
  "nt_calls (nty_raise e S) = nt_calls S" "nt_sink (nty_raise e S) = nt_sink S @ [e]"
  "raised (nty_raise e S)" "raised (nty_note c S) = raised S"
  by (simp_all add: nty_note_def nty_raise_def raised_def)

lemma open_nty_note [simp]:
  "open_nty env (nty_note c S) = (case open_nty env S of None \<Rightarrow> None | Some H \<Rightarrow> ledger_step env (length (nt_calls S)) c H)"
  by (simp add: open_nty_def ledger_append split: option.split)

lemma open_raise [simp]: "open_nty env (nty_raise e S) = open_nty env S"
  by (simp add: open_nty_def)

lemma ledger_bound: "ledger env p cs H = Some H' \<Longrightarrow> H \<subseteq> {..<p} \<Longrightarrow> H' \<subseteq> {..<p + length cs}"
proof (induction cs arbitrary: p H)
  case (Cons c cs)
  then obtain H1 where 1: "ledger_step env p c H = Some H1" "ledger env (Suc p) cs H1 = Some H'"
    by (auto split: option.splits)
  then have "H1 \<subseteq> {..<Suc p}" using Cons.prems(2) by (auto simp: ledger_step_def split: if_splits)
  from Cons.IH [OF 1(2) this] show ?case by simp
qed simp

lemma open_bound: "open_nty env S = Some H \<Longrightarrow> H \<subseteq> {..<length (nt_calls S)}"
  unfolding open_nty_def using ledger_bound [of env 0 "nt_calls S" "{}" H] by simp

lemma open_fresh: "open_nty env S = Some H \<Longrightarrow> length (nt_calls S) \<notin> H"
  using open_bound by blast

section \<open>Steps that leave the ledger as it was\<close>

text \<open>
  A step that works on the handles \<open>U\<close> leaves the ledger as it was, and if it fails an exception has
  been raised.
\<close>

definition neutral :: "nty_env \<Rightarrow> nat set \<Rightarrow> 'a nty_step \<Rightarrow> bool" where
  "neutral env U f \<longleftrightarrow>
     (\<forall>S H r S'. open_nty env S = Some H \<longrightarrow> U \<subseteq> H \<longrightarrow> f S = (r, S') \<longrightarrow> r \<noteq> Crashed
        \<longrightarrow> open_nty env S' = Some H \<and> (r = Failed \<longrightarrow> raised S'))"

lemma neutralI:
  "(\<And>S H r S'. open_nty env S = Some H \<Longrightarrow> U \<subseteq> H \<Longrightarrow> f S = (r, S') \<Longrightarrow> r \<noteq> Crashed
     \<Longrightarrow> open_nty env S' = Some H \<and> (r = Failed \<longrightarrow> raised S')) \<Longrightarrow> neutral env U f"
  unfolding neutral_def by iprover

lemma neutralD:
  "neutral env U f \<Longrightarrow> open_nty env S = Some H \<Longrightarrow> U \<subseteq> H \<Longrightarrow> f S = (r, S') \<Longrightarrow> r \<noteq> Crashed
     \<Longrightarrow> open_nty env S' = Some H \<and> (r = Failed \<longrightarrow> raised S')"
  unfolding neutral_def by iprover

lemma neutral_mono: "neutral env U f \<Longrightarrow> U \<subseteq> V \<Longrightarrow> neutral env V f"
  unfolding neutral_def by (iprover intro: subset_trans)

definition harmless :: "nty_call \<Rightarrow> bool" where
  "harmless c \<longleftrightarrow> \<not> makes_handle c \<and> frees c = {}"

lemma harmless_simps [simp]:
  "harmless (GetTypeInfo t)" "harmless (GetColumn i)" "harmless (GetColumnName i)" "harmless (Fill h x)"
  "harmless (Assign slot a)" "harmless (AppendElem h e)" "harmless (Read slot c)" "harmless (LobLength h)"
  "harmless (Preallocate n)" "harmless (ReadLob h n b)" "harmless (CollSize h)" "harmless (CollGetAt h i)"
  by (simp_all add: harmless_def)

lemma harmless_step: "harmless c \<Longrightarrow> uses c \<subseteq> H \<Longrightarrow> ledger_step env p c H = Some H"
  by (simp add: harmless_def ledger_step_def)

lemma neutral_call: "harmless c \<Longrightarrow> neutral env (uses c) (nty_call env own c)"
proof (rule neutralI)
  fix S H r S'
  assume "harmless c" "open_nty env S = Some H" "uses c \<subseteq> H" "nty_call env own c S = (r, S')"
  then show "open_nty env S' = Some H \<and> (r = Failed \<longrightarrow> raised S')"
    by (cases "nty_answer_at env S"; cases "raised S") (clarsimp simp: nty_call_def harmless_step)+
qed

lemma neutral_call_no_xsink: "harmless c \<Longrightarrow> neutral env (uses c) (nty_call_no_xsink env own c)"
proof (rule neutralI)
  fix S H r S'
  assume "harmless c" "open_nty env S = Some H" "uses c \<subseteq> H" "nty_call_no_xsink env own c S = (r, S')"
  then show "open_nty env S' = Some H \<and> (r = Failed \<longrightarrow> raised S')"
    by (cases "nty_answer_at env S") (clarsimp simp: nty_call_no_xsink_def nty_fail_def harmless_step)+
qed

lemma neutral_query: "harmless c \<Longrightarrow> neutral env (uses c) (nty_query env c)"
proof (rule neutralI)
  fix S H r S'
  assume "harmless c" "open_nty env S = Some H" "uses c \<subseteq> H" "nty_query env c S = (r, S')"
  then show "open_nty env S' = Some H \<and> (r = Failed \<longrightarrow> raised S')"
    by (cases "nty_answer_at env S"; cases "raised S") (clarsimp simp: nty_query_def harmless_step)+
qed

lemma neutral_lookup: "harmless c \<Longrightarrow> neutral env (uses c) (nty_lookup env own c)"
proof (rule neutralI)
  fix S H r S'
  assume "harmless c" "open_nty env S = Some H" "uses c \<subseteq> H" "nty_lookup env own c S = (r, S')"
  then show "open_nty env S' = Some H \<and> (r = Failed \<longrightarrow> raised S')"
    by (cases "nty_answer_at env S"; cases "raised S") (clarsimp simp: nty_lookup_def nty_query_def nty_fail_def harmless_step)+
qed

lemma neutral_checkerr: "harmless c \<Longrightarrow> neutral env (uses c) (nty_checkerr env c)"
proof (rule neutralI)
  fix S H r S'
  assume "harmless c" "open_nty env S = Some H" "uses c \<subseteq> H" "nty_checkerr env c S = (r, S')"
  then show "open_nty env S' = Some H \<and> (r = Failed \<longrightarrow> raised S')"
    by (cases "nty_answer_at env S") (clarsimp simp: nty_checkerr_def nty_fail_def harmless_step)+
qed

lemma neutral_fail: "neutral env U (nty_fail e)"
  by (rule neutralI) (auto simp: nty_fail_def)

lemma neutral_crash: "neutral env U (\<lambda>S. (Crashed, S))"
  by (rule neutralI) simp

lemma neutral_no_value: "neutral env U (no_value own)"
  by (rule neutralI) (auto simp: no_value_def)

lemma neutral_Got: "neutral env U (\<lambda>S. (Got x, S))"
  by (rule neutralI) auto

lemma neutral_seq: "(\<And>f. f \<in> set fs \<Longrightarrow> neutral env U f) \<Longrightarrow> neutral env U (nty_seq fs)"
proof (induction fs)
  case Nil
  show ?case by (rule neutralI) auto
next
  case (Cons f fs)
  show ?case
  proof (rule neutralI)
    fix S H r S'
    assume o: "open_nty env S = Some H" "U \<subseteq> H" and e: "nty_seq (f # fs) S = (r, S')" "r \<noteq> Crashed"
    obtain r1 S1 where f: "f S = (r1, S1)" by fastforce
    have n: "neutral env U f" "neutral env U (nty_seq fs)" using Cons by simp_all
    show "open_nty env S' = Some H \<and> (r = Failed \<longrightarrow> raised S')"
    proof (cases r1)
      case (Got u)
      with neutralD [OF n(1) o f] neutralD [OF n(2) _ o(2), of S1 r S'] e f show ?thesis by simp
    next
      case Failed
      with neutralD [OF n(1) o f] e f show ?thesis by simp
    next
      case Crashed
      with e f show ?thesis by simp
    qed
  qed
qed

lemma open_nty_free:
  "open_nty env S = Some H \<Longrightarrow> h \<in> H \<Longrightarrow> open_nty env (nty_free env (Free h) S) = Some (H - {h})"
  "open_nty env S = Some H \<Longrightarrow> h \<in> H \<Longrightarrow> open_nty env (nty_note (Free h) S) = Some (H - {h})"
  by (auto simp: nty_free_def ledger_step_def split: nty_answer.splits)

lemma raised_nty_free: "raised S \<Longrightarrow> raised (nty_free env c S)"
  by (auto simp: nty_free_def split: nty_answer.splits)

lemmas call_defs = nty_call_def nty_call_no_xsink_def nty_fail_def Let_def ledger_step_def

text \<open>A call that makes a handle.\<close>

definition creates :: "nty_env \<Rightarrow> unit nty_step \<Rightarrow> bool" where
  "creates env f \<longleftrightarrow>
     (\<forall>S H r S'. open_nty env S = Some H \<longrightarrow> f S = (r, S')
        \<longrightarrow> r \<noteq> Crashed \<and> (r = Failed \<longrightarrow> open_nty env S' = Some H \<and> raised S')
          \<and> (r = Got () \<longrightarrow> open_nty env S' = Some (insert (length (nt_calls S)) H)))"

lemma creates_call: "makes_handle c \<Longrightarrow> uses c = {} \<Longrightarrow> frees c = {} \<Longrightarrow> creates env (nty_call env own c)"
  by (auto simp: creates_def call_defs nty_answer_at_def split: nty_answer.splits if_splits)

lemma creates_call_no_xsink: "makes_handle c \<Longrightarrow> uses c = {} \<Longrightarrow> frees c = {} \<Longrightarrow> creates env (nty_call_no_xsink env own c)"
  by (auto simp: creates_def call_defs nty_answer_at_def split: nty_answer.splits if_splits)

lemma neutral_with_temp:
  assumes "creates env create" "\<And>h. neutral env (insert h U) (nty_seq (body h))"
    "\<And>h S H. open_nty env S = Some H \<Longrightarrow> h \<in> H \<Longrightarrow> open_nty env (release h S) = Some (H - {h})"
    "\<And>h S. raised S \<Longrightarrow> raised (release h S)"
  shows "neutral env U (with_temp create release body)"
proof (rule neutralI)
  fix S H r S'
  assume o: "open_nty env S = Some H" "U \<subseteq> H" and e: "with_temp create release body S = (r, S')" "r \<noteq> Crashed"
  let ?h = "length (nt_calls S)"
  obtain r1 S1 where c: "create S = (r1, S1)" by fastforce
  note cr = assms(1) [unfolded creates_def, rule_format, OF o(1) c]
  show "open_nty env S' = Some H \<and> (r = Failed \<longrightarrow> raised S')"
  proof (cases r1)
    case (Got u)
    obtain r2 S2 where b: "nty_seq (body ?h) S1 = (r2, S2)" by fastforce
    from e Got c b have s: "r = r2" "S' = release ?h S2" by (auto simp: with_temp_def Let_def)
    have "open_nty env S1 = Some (insert ?h H)" using cr Got by simp
    from neutralD [OF assms(2) this _ b] o(2) s e(2) have
      2: "open_nty env S2 = Some (insert ?h H)" "r2 = Failed \<Longrightarrow> raised S2" by auto
    have "insert ?h H - {?h} = H" using open_fresh [OF o(1)] by auto
    with assms(3) [OF 2(1), of ?h] 2(2) assms(4) s show ?thesis by auto
  next
    case Failed
    with e c cr show ?thesis by (auto simp: with_temp_def Let_def)
  next
    case Crashed
    with cr show ?thesis by simp
  qed
qed

section \<open>Binding a value\<close>

lemma neutral_null: "neutral env {slot_handle slot} (bind_null env slot)"
  using neutral_call [of "Assign slot ANull" env] neutral_call_no_xsink [of "Assign slot ANull" env]
  by (cases slot) (simp_all add: bind_null_def)

lemma neutral_assign: "assigned a = {} \<Longrightarrow> neutral env {slot_handle slot} (nty_call env own (Assign slot a))"
  using neutral_call [of "Assign slot a" env own] by simp

lemma neutral_text: "neutral env {slot_handle slot} (bind_text env slot v)"
proof (cases "ne_text env v")
  case (Value s)
  then show ?thesis unfolding bind_text_def [abs_def] using neutral_null [of env slot] neutral_assign [of "AText (c_str s)" env slot]
    by (cases "s = []") simp_all
qed (simp_all add: bind_text_def [abs_def] neutral_crash neutral_fail)

lemma neutral_number: "neutral env {slot_handle slot} (bind_number env slot v)"
  by (cases v) (simp_all add: bind_number_def neutral_assign neutral_fail)

lemma neutral_fill_assign:
  "neutral env (insert h {slot_handle slot}) (nty_seq [nty_call env own1 (Fill h x), nty_call env own2 (Assign slot (AHandle h))])"
proof (rule neutral_seq)
  fix f assume "f \<in> set [nty_call env own1 (Fill h x), nty_call env own2 (Assign slot (AHandle h))]"
  moreover have "neutral env {h} (nty_call env own1 (Fill h x))" using neutral_call [of "Fill h x" env own1] by simp
  moreover have "neutral env {slot_handle slot, h} (nty_call env own2 (Assign slot (AHandle h)))"
    using neutral_call [of "Assign slot (AHandle h)" env own2] by simp
  ultimately show "neutral env (insert h {slot_handle slot}) f" by (auto intro: neutral_mono)
qed

lemma creates_date: "creates env (create_date env slot)"
  by (cases slot) (simp_all add: create_date_def creates_call creates_call_no_xsink)

lemma neutral_date: "neutral env {slot_handle slot} (bind_date env slot col v)"
  unfolding bind_date_def Let_def bind_timestamp_def bind_datetime_def bind_interval_def
  by (cases "oc_type col")
    (auto intro!: neutral_with_temp neutral_fill_assign creates_call creates_date neutral_fail dest: open_nty_free(2) simp del: open_nty_note)

lemma neutral_write_lob: "neutral env {slot_handle slot} (write_lob env slot blob s n)"
  unfolding write_lob_def
  by (auto intro!: neutral_with_temp neutral_fill_assign creates_call raised_nty_free dest: open_nty_free(1))

lemma neutral_lob: "neutral env {slot_handle slot} (bind_lob_slot env slot v)"
proof -
  have t: "neutral env {slot_handle slot} (\<lambda>S. case ne_text env v of Raised e \<Rightarrow> nty_fail e S | Undefined \<Rightarrow> (Crashed, S)
      | Value s \<Rightarrow> if lob_size s \<noteq> 0 then write_lob env slot False s (ne_chars env s mod 4294967296) S else bind_null env slot S)"
  proof (cases "ne_text env v")
    case (Value s)
    then show ?thesis by (cases "lob_size s = 0") (simp_all add: neutral_write_lob neutral_null)
  qed (simp_all add: neutral_fail neutral_crash)
  show ?thesis
  proof (cases v)
    case (QBinary b)
    then show ?thesis by (cases "lob_size b = 0") (simp_all add: bind_lob_slot_def [abs_def] neutral_write_lob neutral_null)
  qed (use t in \<open>simp_all add: bind_lob_slot_def [abs_def]\<close>)
qed

lemma neutral_unsupported: "neutral env U (bind_unsupported slot col)"
  by (cases slot; cases "nc_typinf col") (simp_all add: bind_unsupported_def [abs_def] neutral_fail neutral_crash)

lemma neutral_plain: "neutral env {slot_handle slot} (bind_plain env slot col v)"
  unfolding bind_plain_def Let_def bind_integer_def bind_float_def
  by (simp add: neutral_text neutral_number neutral_assign neutral_date neutral_lob neutral_unsupported)

section \<open>Objects and collections\<close>

lemma neutral_if:
  "(P \<Longrightarrow> neutral env U f) \<Longrightarrow> (\<not> P \<Longrightarrow> neutral env U g) \<Longrightarrow> neutral env U (\<lambda>S. if P then f S else g S)"
  by (cases P) simp_all

lemma neutral_bind:
  assumes "neutral env U f" "\<And>x. neutral env U (g x)"
  shows "neutral env U (\<lambda>S. nty_bind (f S) g)"
proof (rule neutralI)
  fix S H r S'
  assume o: "open_nty env S = Some H" "U \<subseteq> H" and e: "nty_bind (f S) g = (r, S')" "r \<noteq> Crashed"
  obtain r1 S1 where f: "f S = (r1, S1)" by fastforce
  show "open_nty env S' = Some H \<and> (r = Failed \<longrightarrow> raised S')"
  proof (cases r1)
    case (Got u)
    with neutralD [OF assms(1) o f] neutralD [OF assms(2) _ o(2), of S1 u r S'] e f show ?thesis by simp
  next
    case Failed
    with neutralD [OF assms(1) o f] e f show ?thesis by simp
  next
    case Crashed
    with e f show ?thesis by simp
  qed
qed

text \<open>A function that gives a new handle.\<close>

definition makes :: "nty_env \<Rightarrow> nat nty_step \<Rightarrow> bool" where
  "makes env f \<longleftrightarrow>
     (\<forall>S H r S'. open_nty env S = Some H \<longrightarrow> f S = (r, S') \<longrightarrow> r \<noteq> Crashed
        \<longrightarrow> (case r of Got o' \<Rightarrow> o' \<notin> H \<and> open_nty env S' = Some (insert o' H) | _ \<Rightarrow> open_nty env S' = Some H \<and> raised S'))"

lemma makesI:
  "(\<And>S H r S'. open_nty env S = Some H \<Longrightarrow> f S = (r, S') \<Longrightarrow> r \<noteq> Crashed
     \<Longrightarrow> case r of Got o' \<Rightarrow> o' \<notin> H \<and> open_nty env S' = Some (insert o' H) | _ \<Rightarrow> open_nty env S' = Some H \<and> raised S')
   \<Longrightarrow> makes env f"
  unfolding makes_def by iprover

lemma makesD:
  "makes env f \<Longrightarrow> open_nty env S = Some H \<Longrightarrow> f S = (r, S') \<Longrightarrow> r \<noteq> Crashed
     \<Longrightarrow> case r of Got o' \<Rightarrow> o' \<notin> H \<and> open_nty env S' = Some (insert o' H) | _ \<Rightarrow> open_nty env S' = Some H \<and> raised S'"
  unfolding makes_def by iprover

lemma makes_fail: "makes env (nty_fail e)"
  by (rule makesI) (clarsimp simp: nty_fail_def)

lemma makes_bind:
  assumes "neutral env {} f" "\<And>x. makes env (g x)"
  shows "makes env (\<lambda>S. nty_bind (f S) g)"
proof (rule makesI)
  fix S H r S'
  assume o: "open_nty env S = Some H" and e: "nty_bind (f S) g = (r, S')" "r \<noteq> Crashed"
  obtain r1 S1 where f: "f S = (r1, S1)" by fastforce
  show "case r of Got o' \<Rightarrow> o' \<notin> H \<and> open_nty env S' = Some (insert o' H) | _ \<Rightarrow> open_nty env S' = Some H \<and> raised S'"
  proof (cases r1)
    case (Got u)
    have "open_nty env S1 = Some H" using neutralD [OF assms(1) o _ f] Got by simp
    with makesD [OF assms(2)] e f Got show ?thesis by simp
  next
    case Failed
    with neutralD [OF assms(1) o _ f] e f show ?thesis by auto
  next
    case Crashed
    with e f show ?thesis by simp
  qed
qed

lemma makes_held:
  assumes "creates env f" "\<And>h. neutral env {h} (g h)"
  shows "makes env (\<lambda>S. nty_bind (f S) (\<lambda>_ S1. held env (length (nt_calls S)) (g (length (nt_calls S)) S1)))"
proof (rule makesI)
  fix S H r S'
  let ?h = "length (nt_calls S)"
  assume o: "open_nty env S = Some H" and e: "nty_bind (f S) (\<lambda>_ S1. held env ?h (g ?h S1)) = (r, S')" "r \<noteq> Crashed"
  obtain r1 S1 where f: "f S = (r1, S1)" by fastforce
  note cr = assms(1) [unfolded creates_def, rule_format, OF o f]
  note fr = open_fresh [OF o]
  show "case r of Got o' \<Rightarrow> o' \<notin> H \<and> open_nty env S' = Some (insert o' H) | _ \<Rightarrow> open_nty env S' = Some H \<and> raised S'"
  proof (cases r1)
    case (Got u)
    then have o1: "open_nty env S1 = Some (insert ?h H)" using cr by simp
    obtain r2 S2 where g: "g ?h S1 = (r2, S2)" by fastforce
    note n = neutralD [OF assms(2) o1 _ g]
    show ?thesis
    proof (cases r2)
      case (Got u')
      with n e f g \<open>r1 = Got u\<close> fr show ?thesis by (auto simp: held_def)
    next
      case Failed
      with n have "open_nty env S2 = Some (insert ?h H)" "raised S2" by simp_all
      with open_nty_free(1) [of env S2 "insert ?h H" ?h] Failed e f g \<open>r1 = Got u\<close> fr show ?thesis
        by (auto simp: held_def raised_nty_free)
    next
      case Crashed
      with e f g \<open>r1 = Got u\<close> show ?thesis by (simp add: held_def)
    qed
  next
    case Failed
    with cr e f show ?thesis by auto
  next
    case Crashed
    with cr show ?thesis by simp
  qed
qed

lemma neutral_released:
  assumes "creates env f" "\<And>h. neutral env (insert h U) (g h)"
  shows "neutral env U (\<lambda>S. nty_bind (f S) (\<lambda>_ S1. released env (length (nt_calls S)) (g (length (nt_calls S)) S1)))"
proof (rule neutralI)
  fix S H r S'
  let ?h = "length (nt_calls S)"
  assume o: "open_nty env S = Some H" "U \<subseteq> H" and e: "nty_bind (f S) (\<lambda>_ S1. released env ?h (g ?h S1)) = (r, S')" "r \<noteq> Crashed"
  obtain r1 S1 where f: "f S = (r1, S1)" by fastforce
  note cr = assms(1) [unfolded creates_def, rule_format, OF o(1) f]
  note fr = open_fresh [OF o(1)]
  show "open_nty env S' = Some H \<and> (r = Failed \<longrightarrow> raised S')"
  proof (cases r1)
    case (Got u)
    then have o1: "open_nty env S1 = Some (insert ?h H)" using cr by simp
    obtain r2 S2 where g: "g ?h S1 = (r2, S2)" by fastforce
    have i: "insert ?h U \<subseteq> insert ?h H" using o(2) by auto
    have nc: "r2 \<noteq> Crashed" using e f g Got by (auto simp: released_def)
    have n: "open_nty env S2 = Some (insert ?h H)" "r2 = Failed \<longrightarrow> raised S2" using neutralD [OF assms(2) o1 i g nc] by simp_all
    have x: "r = r2" "S' = nty_free env (Free ?h) S2" using e f g Got nc by (auto simp: released_def split: got.splits)
    show ?thesis using open_nty_free(1) [OF n(1), of ?h] n(2) fr x by (auto simp: raised_nty_free)
  next
    case Failed
    with cr e f show ?thesis by simp
  next
    case Crashed
    with cr show ?thesis by simp
  qed
qed

lemma neutral_assign_made:
  assumes "makes env f"
  shows "neutral env {slot_handle slot} (\<lambda>S. assign_made env slot (f S))"
proof (rule neutralI)
  fix S H r S'
  assume o: "open_nty env S = Some H" "{slot_handle slot} \<subseteq> H" and e: "assign_made env slot (f S) = (r, S')" "r \<noteq> Crashed"
  obtain r1 S1 where f: "f S = (r1, S1)" by fastforce
  show "open_nty env S' = Some H \<and> (r = Failed \<longrightarrow> raised S')"
  proof (cases r1)
    case (Got o')
    let ?c = "Assign slot (AHandle o')" and ?own = "bind_error ''unable to bind object or collection''"
    have m: "o' \<notin> H" "open_nty env S1 = Some (insert o' H)" using makesD [OF assms o(1) f] Got by auto
    obtain r2 S2 where c: "nty_call env ?own ?c S1 = (r2, S2)" by fastforce
    have nc: "r2 \<noteq> Crashed" using c by (auto simp: nty_call_def Let_def split: nty_answer.splits)
    have n: "open_nty env S2 = Some (insert o' H)" "r2 = Failed \<longrightarrow> raised S2"
      using neutralD [OF neutral_call m(2) _ c nc] o(2) by auto
    have x: "S' = nty_free env (Free o') S2" "r = (if r2 = Got () \<and> raised S' then Failed else r2)"
      using e f Got c by (auto simp: assign_made_def Let_def split: if_splits)
    show ?thesis using open_nty_free(1) [OF n(1), of o'] n(2) m(1) x raised_nty_free by (auto split: if_splits)
  next
    case Failed
    with makesD [OF assms o(1) f] e f show ?thesis by (auto simp: assign_made_def)
  next
    case Crashed
    with e f show ?thesis by (auto simp: assign_made_def)
  qed
qed

lemma neutral_get_type: "neutral env U (get_type env own t)"
proof (rule neutralI)
  fix S H r S'
  assume "open_nty env S = Some H" "get_type env own t S = (r, S')"
  then show "open_nty env S' = Some H \<and> (r = Failed \<longrightarrow> raised S')"
    by (cases "nty_answer_at env S"; cases "ne_type env t"; cases "raised S") (clarsimp simp: get_type_def ledger_step_def)+
qed

lemma neutral_attrs:
  assumes "\<And>v slot. size v < size (QHash th) \<Longrightarrow> neutral env {slot_handle slot} (bind_nty env slot v)"
  shows "neutral env {obj} (bind_attrs env obj th i cs)"
proof (induction cs arbitrary: i)
  case Nil
  show ?case by (rule neutralI) (clarsimp)
next
  case (Cons c cs)
  let ?slot = "Attr obj (oc_name c)"
  have l: "neutral env {obj} (nty_lookup env own (GetColumn i))" "neutral env {obj} (nty_lookup env own (GetColumnName i))" for own
    using neutral_mono [OF neutral_lookup [of "GetColumn i" env own], of "{obj}"]
      neutral_mono [OF neutral_lookup [of "GetColumnName i" env own], of "{obj}"] by simp_all
  have v: "neutral env {obj} (\<lambda>S. case attr_arg th (oc_name c) of
          None \<Rightarrow> bind_null env ?slot S
        | Some v \<Rightarrow>
            if is_null_or_nothing v then bind_null env ?slot S
            else if is_nty_type (oc_ocode c) then bind_nty env ?slot v S
            else bind_plain env ?slot c v S)"
    using neutral_null [of env ?slot] neutral_plain [of env ?slot] assms [of _ ?slot] size_attr_arg [of th "oc_name c"]
    by (cases "attr_arg th (oc_name c)") (simp, simp del: qval.size, intro neutral_if, simp_all)
  show ?case
    unfolding bind_attrs.simps(2) [abs_def] by (intro neutral_bind neutral_seq v Cons.IH) (auto simp: l)
qed

lemma neutral_elems:
  assumes "\<And>v slot. size v < size (QList vs) \<Longrightarrow> neutral env {slot_handle slot} (bind_nty env slot v)"
  shows "neutral env {e, coll} (bind_elems env coll e col vs)"
  using assms
proof (induction vs)
  case Nil
  show ?case by (rule neutralI) (clarsimp)
next
  case (Cons v vs)
  have a: "neutral env {e, coll} (nty_call env own (AppendElem coll e))" for own
    using neutral_call [of "AppendElem coll e" env own] by (simp add: insert_commute)
  have b: "neutral env {e, coll} (bind_null env (Elem e))" "neutral env {e, coll} (bind_plain env (Elem e) col v)"
    "neutral env {e, coll} (bind_nty env (Elem e) v)"
    using neutral_mono [OF neutral_null [of env "Elem e"]] neutral_mono [OF neutral_plain [of env "Elem e" col v]]
      neutral_mono [OF Cons.prems [of v "Elem e"]] by simp_all
  have v: "neutral env {e, coll} (\<lambda>S. if is_null_or_nothing v then bind_null env (Elem e) S
        else if is_nty_type (oc_ocode col) then bind_nty env (Elem e) v S
        else bind_plain env (Elem e) col v S)"
    by (intro neutral_if b)
  show ?case
    unfolding bind_elems.simps(2) [abs_def] by (intro neutral_bind v a Cons.IH Cons.prems) simp
qed

lemma neutral_nty:
  assumes "\<And>n. v = QHash n \<Longrightarrow> makes env (objBindQore env n) \<and> makes env (collBindQore env n)"
  shows "neutral env {slot_handle slot} (bind_nty env slot v)"
proof (cases v)
  case (QHash n)
  with assms show ?thesis
    unfolding bind_nty.simps [abs_def] by (simp, intro neutral_if neutral_assign_made neutral_fail) simp_all
qed (simp_all add: bind_nty.simps [abs_def] neutral_fail)

lemma makes_bound: "makes env (objBindQore env h) \<and> makes env (collBindQore env h)"
proof (induction "size (QHash h)" arbitrary: h rule: less_induct)
  case less
  have deeper: "neutral env {slot_handle slot} (bind_nty env slot v)" if "size v < size (QHash h)" for slot v
    by (rule neutral_nty) (use less that in auto)
  have "makes env (objBindQore env h)"
  proof (cases "ntyCheckType ORACLE_OBJECT h NT_HASH")
    case True
    then obtain th where th: "key_value h ''^values^'' = QHash th"
      by (cases "key_value h ''^values^''") (auto simp: ntyCheckType_def)
    have "neutral env {obj} (bind_attrs env obj th 1 cs)" for obj cs
      by (rule neutral_attrs) (use deeper size_key_hash [OF th] in \<open>meson less_trans\<close>)
    then have "neutral env {obj} (\<lambda>S. if cs = [] then nty_fail e S else bind_attrs env obj th 1 cs S)" for obj cs e
      by (intro neutral_if neutral_fail)
    with True th show ?thesis
      by (simp add: objBindQore.simps [abs_def], intro makes_bind neutral_get_type makes_held creates_call) simp_all
  qed (simp add: objBindQore.simps [abs_def] makes_fail)
  moreover have "makes env (collBindQore env h)"
  proof (cases "ntyCheckType ORACLE_COLLECTION h NT_LIST")
    case True
    then obtain vs where vs: "key_value h ''^values^'' = QList vs"
      by (cases "key_value h ''^values^''") (auto simp: ntyCheckType_def)
    have el: "neutral env {e, coll} (bind_elems env coll e col vs)" for e coll col
      by (rule neutral_elems) (use deeper size_key_list [OF vs] in \<open>meson less_trans\<close>)
    have gc: "neutral env {coll} (nty_call env own (GetColumn i))" for coll own i
      using neutral_mono [OF neutral_call [of "GetColumn i" env own], of "{coll}"] by simp
    have "neutral env {coll} (\<lambda>S. case cs of [] \<Rightarrow> nty_fail e1 S
        | col # _ \<Rightarrow> nty_bind (nty_call env e2 (GetColumn 1) S) (\<lambda>_ S3.
            nty_bind (nty_call env e3 (Alloc (KElem (type_name h))) S3) (\<lambda>_ S4.
              released env (length (nt_calls S3)) (bind_elems env coll (length (nt_calls S3)) col vs S4))))" for coll cs e1 e2 e3
      by (cases cs) (simp add: neutral_fail, simp, intro neutral_bind gc neutral_released creates_call el, simp_all)
    with True vs show ?thesis
      by (simp add: collBindQore.simps [abs_def], intro makes_bind neutral_get_type makes_held creates_call) simp_all
  qed (simp add: collBindQore.simps [abs_def] makes_fail)
  ultimately show ?case by simp
qed

section \<open>Fetching\<close>

lemma neutral_read: "neutral env {} (nty_call env own (Read slot c))" "neutral env {} (nty_query env (Read slot c))"
  "neutral env {} (nty_checkerr env (Read slot c))" "neutral env {} (read_slot env slot own c)"
  using neutral_call [of "Read slot c" env own] neutral_query [of "Read slot c" env] neutral_checkerr [of "Read slot c" env]
    neutral_call_no_xsink [of "Read slot c" env own]
  by (cases slot, simp_all add: read_slot_def)+

lemma neutral_got_value: "neutral env U f \<Longrightarrow> neutral env U (\<lambda>S. got_value own v (f S))"
  unfolding got_value_def by (cases v) (auto intro!: neutral_bind neutral_no_value neutral_Got)

lemma neutral_fetch_text: "neutral env {} (fetch_text env slot d)"
  unfolding fetch_text_def [abs_def] Let_def by (intro neutral_got_value neutral_read)

lemma neutral_fetch_number: "neutral env {} (fetch_number env slot d)"
  unfolding fetch_number_def [abs_def] by (intro neutral_bind neutral_read neutral_if neutral_no_value neutral_got_value)

lemma neutral_fetch_integer: "neutral env {} (fetch_integer env slot d)"
  unfolding fetch_integer_def [abs_def] by (intro neutral_got_value neutral_read)

lemma neutral_fetch_float: "neutral env {} (fetch_float env slot d)"
  unfolding fetch_float_def [abs_def] by (intro neutral_got_value neutral_read)

lemma neutral_timestamp_value: "neutral env {} (timestamp_value env slot t f ns)"
proof (rule neutralI)
  fix S H r S'
  let ?f = "nty_seq [nty_checkerr env (Read slot RTimestampDate), nty_checkerr env (Read slot RTimestampTime)]"
  assume o: "open_nty env S = Some H" "{} \<subseteq> H" and e: "timestamp_value env slot t f ns S = (r, S')"
  obtain r1 S1 where f: "?f S = (r1, S1)" by fastforce
  have nc: "r1 \<noteq> Crashed" using f by (auto simp: nty_checkerr_def nty_fail_def split: nty_answer.splits)
  have "neutral env {} ?f" by (rule neutral_seq) (auto simp: neutral_read)
  from neutralD [OF this o f nc] e f show "open_nty env S' = Some H \<and> (r = Failed \<longrightarrow> raised S')"
    by (auto simp: timestamp_value_def split: got.splits outcome.splits)
qed

lemma neutral_fetch_date: "neutral env {} (fetch_date env slot col d)"
proof -
  have t: "neutral env {} (\<lambda>S1. case d of DTimestamp f ns \<Rightarrow> timestamp_value env slot (oc_ocode col) f ns S1 | _ \<Rightarrow> no_value own S1)" for own
    by (cases d) (simp_all add: neutral_timestamp_value neutral_no_value)
  show ?thesis
    unfolding fetch_date_def [abs_def] Let_def
    by (cases "oc_type col")
      (auto intro!: neutral_bind neutral_read t neutral_got_value neutral_seq neutral_fail simp del: nty_seq.simps)
qed

lemma neutral_read_lob: "neutral env {h} (read_lob env h is_clob s)"
proof (rule neutralI)
  fix S H r S'
  assume o: "open_nty env S = Some H" "{h} \<subseteq> H" and e: "read_lob env h is_clob s S = (r, S')" "r \<noteq> Crashed"
  define S1 where "S1 = nty_free env (LobLength h) S"
  have o1: "open_nty env S1 = Some H"
    using o by (auto simp: S1_def nty_free_def ledger_step_def split: nty_answer.splits)
  have n: "neutral env {h} (\<lambda>S. got_value own v
      (nty_seq [nty_call_no_xsink env own' (Preallocate n), nty_call env own (ReadLob h m k)] S))" for own own' n m k and v :: "qval option"
    using neutral_mono [OF neutral_call_no_xsink [of "Preallocate n" env own'], of "{h}"] neutral_call [of "ReadLob h m k" env own]
    by (intro neutral_got_value neutral_seq) auto
  note x = e(1) [unfolded read_lob_def Let_def, folded S1_def]
  let ?tl = "if nty_answer_at env S \<noteq> Done then 0 else if is_clob then ne_chars env s else int (length s)"
  show "open_nty env S' = Some H \<and> (r = Failed \<longrightarrow> raised S')"
  proof (cases "?tl = 0")
    case True
    show ?thesis by (rule neutralD [OF neutral_no_value o1 o(2) x [unfolded if_P [OF True]] e(2)])
  next
    case False
    note x = x [unfolded if_not_P [OF False]]
    show ?thesis
    proof (cases "?tl \<ge> 4294967296")
      case True
      show ?thesis by (rule neutralD [OF neutral_fail o1 o(2) x [unfolded if_P [OF True]] e(2)])
    next
      case False
      show ?thesis by (rule neutralD [OF n o1 o(2) x [unfolded if_not_P [OF False]] e(2)])
    qed
  qed
qed

lemma neutral_fetch_lob: "neutral env {} (fetch_lob env slot col d)"
proof (rule neutralI)
  fix S H r S'
  let ?h = "length (nt_calls S)"
  assume o: "open_nty env S = Some H" "{} \<subseteq> H" and e: "fetch_lob env slot col d S = (r, S')" "r \<noteq> Crashed"
  obtain r1 S1 where f: "nty_call env (fetch_error ''failed to retrieve LOB'') (GetLob slot) S = (r1, S1)" by fastforce
  have cr: "creates env (nty_call env (fetch_error ''failed to retrieve LOB'') (GetLob slot))" by (rule creates_call) simp_all
  note cr = cr [unfolded creates_def, rule_format, OF o(1) f]
  show "open_nty env S' = Some H \<and> (r = Failed \<longrightarrow> raised S')"
  proof (cases r1)
    case (Got u)
    then have o1: "open_nty env S1 = Some (insert ?h H)" using cr by simp
    obtain r2 S2 where g: "read_lob env ?h (oc_ocode col = SQLT_CLOB) (lob_bytes_of d) S1 = (r2, S2)" by fastforce
    have x: "r = r2" "S' = nty_free env (Free ?h) S2" using e f g Got by (auto simp: fetch_lob_def)
    have n: "open_nty env S2 = Some (insert ?h H)" "r2 = Failed \<longrightarrow> raised S2"
      using neutralD [OF neutral_read_lob o1 _ g] x e(2) by auto
    show ?thesis using open_nty_free(1) [OF n(1), of ?h] n(2) open_fresh [OF o(1)] x by (auto simp: raised_nty_free)
  next
    case Failed
    with cr e f show ?thesis by (auto simp: fetch_lob_def)
  next
    case Crashed
    with cr show ?thesis by simp
  qed
qed

lemma neutral_fetch_plain: "neutral env {} (fetch_plain env slot col d)"
  unfolding fetch_plain_def Let_def fetch_number_slot_def fetch_unsupported_def [abs_def]
  by (cases slot; cases "nc_typinf col")
    (auto simp: neutral_fetch_text neutral_fetch_number neutral_fetch_integer neutral_fetch_float neutral_fetch_date neutral_fetch_lob
       neutral_fail neutral_crash)

lemma neutral_fetched: "neutral env U f \<Longrightarrow> neutral env U (\<lambda>S. fetched_as g (f S))"
  unfolding fetched_as_def by (rule neutral_bind, assumption, rule neutralI) (auto split: if_splits)

lemma neutral_fetch_attrs:
  assumes "\<And>d slot c. size d < size (DObject [] attrs) \<Longrightarrow> neutral env {} (fetch_nty env slot c d)"
  shows "neutral env {} (fetch_attrs env obj attrs i cs rv)"
proof (induction cs arbitrary: i rv)
  case Nil
  show ?case by (rule neutralI) clarsimp
next
  case (Cons c cs)
  let ?d = "attr_data attrs (oc_name c)" and ?slot = "Attr obj (oc_name c)"
  have l: "neutral env {} (nty_call env own (GetColumn i))" "neutral env {} (nty_call env own (GetColumnName i))" for own
    using neutral_call [of "GetColumn i" env own] neutral_call [of "GetColumnName i" env own] by simp_all
  have n: "neutral env {} (fetch_nty env ?slot c ?d)" if "?d \<noteq> DNull"
    using assms [OF size_attr_data [OF refl that]] .
  have v: "neutral env {} (\<lambda>S. if ?d = DNull then (Got QNull, S) else if is_nty_type (oc_ocode c) then fetch_nty env ?slot c ?d S
      else fetch_plain env ?slot c ?d S)"
    by (intro neutral_if neutral_Got n neutral_fetch_plain)
  show ?case
    unfolding fetch_attrs.simps(2) [abs_def]
    by (intro neutral_bind neutral_seq v Cons.IH) (auto simp: l neutral_read)
qed

lemma neutral_fetch_elems:
  assumes "\<And>d slot. size d < size (DColl [] ds) \<Longrightarrow> neutral env {} (fetch_nty env slot col d)"
  shows "neutral env {} (fetch_elems env coll i col ds rv)"
  using assms
proof (induction ds arbitrary: i rv)
  case Nil
  show ?case by (rule neutralI) clarsimp
next
  case (Cons d ds)
  have el: "neutral env {} (\<lambda>S. if d = DNull then (Got QNull, S) else if is_nty_type (oc_ocode col) then fetch_nty env (Elem e) col d S
      else fetch_plain env (Elem e) col d S)" for e
    by (intro neutral_if neutral_Got Cons.prems neutral_fetch_plain) simp
  have ih: "neutral env {} (fetch_elems env coll (Suc i) col ds rv')" for rv'
    by (rule Cons.IH) (use Cons.prems in simp)
  show ?case
  proof (rule neutralI)
    fix S H r S'
    assume o: "open_nty env S = Some H" "{} \<subseteq> H" and e: "fetch_elems env coll i col (d # ds) rv S = (r, S')" "r \<noteq> Crashed"
    let ?e = "length (nt_calls S)"
    have a: "neutral env {} (nty_call env own (CollGetAt coll i))" for own
      using neutral_call [of "CollGetAt coll i" env own] by simp
    have b: "neutral env {} (\<lambda>S. (Got (), nty_note (Read (Elem ?e) RIsNull) S))"
      by (rule neutralI) (clarsimp simp: ledger_step_def)
    have "neutral env {} (\<lambda>S. nty_bind (nty_call env (fetch_error ''failed to retrieve collection element'') (CollGetAt coll i) S) (\<lambda>_ S1.
       nty_bind (nty_bind (Got (), nty_note (Read (Elem ?e) RIsNull) S1) (\<lambda>_ S2.
           if d = DNull then (Got QNull, S2) else if is_nty_type (oc_ocode col) then fetch_nty env (Elem ?e) col d S2
           else fetch_plain env (Elem ?e) col d S2)) (\<lambda>q S3. fetch_elems env coll (Suc i) col ds (rv @ [q]) S3)))"
      by (intro neutral_bind a b el ih)
    from neutralD [OF this o _ e(2)] e(1) show "open_nty env S' = Some H \<and> (r = Failed \<longrightarrow> raised S')"
      by (simp add: fetch_elems.simps(2) Let_def)
  qed
qed

lemma neutral_fetch_data:
  "(\<forall>t obj as'. d = DObject t as' \<longrightarrow> neutral env {} (objToQore env obj t as'))
   \<and> (\<forall>t coll xs. d = DColl t xs \<longrightarrow> neutral env {} (collToQore env coll t xs))
   \<and> (\<forall>slot col. neutral env {} (fetch_nty env slot col d))"
proof (induction "size d" arbitrary: d rule: less_induct)
  case less
  have deeper: "neutral env {} (fetch_nty env slot col d')" if "size d' < size d" for slot col d'
    using less that by blast
  have ob: "neutral env {} (objToQore env obj t as')" if d: "d = DObject t as'" for obj t as'
  proof -
    have "neutral env {} (fetch_attrs env obj as' 1 cs [])" for cs
      by (rule neutral_fetch_attrs) (use deeper d in auto)
    then show ?thesis
      unfolding objToQore.simps [abs_def] by (intro neutral_if neutral_fail)
  qed
  have co: "neutral env {} (collToQore env coll t xs)" if d: "d = DColl t xs" for coll t xs
  proof -
    have f: "neutral env {} (fetch_elems env coll 1 col xs [])" for col
      by (rule neutral_fetch_elems) (use deeper d in auto)
    have a: "neutral env {} (nty_query env (CollSize coll))" "neutral env {} (nty_call env own (GetColumn 1))" for own
      using neutral_query [of "CollSize coll" env] neutral_call [of "GetColumn 1" env own] by simp_all
    have "neutral env {} (\<lambda>S1. case cs of [] \<Rightarrow> no_value own S1
        | col # _ \<Rightarrow> nty_bind (nty_call env own (GetColumn 1) S1) (\<lambda>_ S2. fetch_elems env coll 1 col xs [] S2))" for cs own
    proof (cases cs)
      case (Cons col cs')
      then show ?thesis using neutral_bind [OF a(2) f [of col]] by simp
    qed (simp add: neutral_no_value)
    then show ?thesis
      unfolding collToQore.simps [abs_def] by (intro neutral_bind a)
  qed
  have "neutral env {} (fetch_nty env slot col d)" for slot col
  proof (cases "nc_typinf col")
    case None
    then show ?thesis unfolding fetch_nty.simps [abs_def] by (simp add: neutral_crash)
  next
    case (Some is_coll)
    show ?thesis
    proof (rule neutralI)
      fix S H r S'
      assume o: "open_nty env S = Some H" "{} \<subseteq> H" and e: "fetch_nty env slot col d S = (r, S')" "r \<noteq> Crashed"
      let ?h = "length (nt_calls S)"
      let ?g = "\<lambda>S1. case d of
              DColl t xs \<Rightarrow> if is_coll then fetched_as QList (collToQore env ?h t xs S1) else no_value (fetch_error ''failed to fetch object'') S1
            | DObject t as' \<Rightarrow> if \<not> is_coll then fetched_as QHash (objToQore env ?h t as' S1) else no_value (fetch_error ''failed to fetch collection'') S1
            | _ \<Rightarrow> no_value (fetch_error ''failed to fetch object or collection'') S1"
      have "neutral env {} ?g"
        using ob co by (cases d) (auto intro!: neutral_if neutral_fetched neutral_no_value)
      then have "neutral env {} (\<lambda>S. nty_bind (nty_call env (fetch_error ''failed to fetch object or collection'')
          (Read slot (if is_coll then RColl else RObject)) S) (\<lambda>_. ?g))"
        by (intro neutral_bind neutral_read)
      from neutralD [OF this o _ e(2)] e(1) Some show "open_nty env S' = Some H \<and> (r = Failed \<longrightarrow> raised S')"
        by (simp add: fetch_nty.simps)
    qed
  qed
  with ob co show ?case by blast
qed

section \<open>Property\<close>

text \<open>C19: Binding and fetching named types uses handles only while they are allocated and leaves none behind:
  a hash that is bound gives one new handle, that of the object or collection, and everything made on
  the way (nested objects, elements, time stamps, dates, intervals, LOBs) has been released; if it
  fails, whichever call failed, nothing is left and an exception has been raised.  Fetching leaves
  the handles as they were.
\<close>

theorem named_handles_released:
  assumes "open_nty env S = Some H" "objBindQore env h S = (r1, S1)" "collBindQore env h' S = (r2, S2)"
    "objToQore env obj t as' S = (r3, S3)" "collToQore env coll t' xs S = (r4, S4)"
    "r1 \<noteq> Crashed" "r2 \<noteq> Crashed" "r3 \<noteq> Crashed" "r4 \<noteq> Crashed"
  shows "(case r1 of Got o' \<Rightarrow> o' \<notin> H \<and> open_nty env S1 = Some (insert o' H) | _ \<Rightarrow> open_nty env S1 = Some H \<and> raised S1)
    \<and> (case r2 of Got o' \<Rightarrow> o' \<notin> H \<and> open_nty env S2 = Some (insert o' H) | _ \<Rightarrow> open_nty env S2 = Some H \<and> raised S2)
    \<and> open_nty env S3 = Some H \<and> (r3 = Failed \<longrightarrow> raised S3)
    \<and> open_nty env S4 = Some H \<and> (r4 = Failed \<longrightarrow> raised S4)"
proof -
  have "neutral env {} (objToQore env obj t as')" "neutral env {} (collToQore env coll t' xs)"
    using neutral_fetch_data [of "DObject t as'" env] neutral_fetch_data [of "DColl t' xs" env] by simp_all
  from neutralD [OF this(1) assms(1) _ assms(4,8)] neutralD [OF this(2) assms(1) _ assms(5,9)]
    makesD [OF conjunct1 [OF makes_bound] assms(1,2,6)] makesD [OF conjunct2 [OF makes_bound] assms(1,3,7)]
  show ?thesis by simp
qed

section \<open>Witness\<close>

text \<open>
  A type with a text, a time stamp and a nested object; the second environment refuses the text of
  the nested object.
\<close>

definition sample_column :: "string \<Rightarrow> column_type \<Rightarrow> sqlt \<Rightarrow> bool option \<Rightarrow> nty_column" where
  "sample_column n ct t nested = \<lparr>oc_name = n, oc_type = ct, oc_ocode = t, oc_size = 30, oc_prec = 0, oc_scale = 0, nc_typinf = nested\<rparr>"

definition sample_types :: "string \<Rightarrow> nty_type option" where
  "sample_types t =
     (if t = ''PERSON'' then
        Some \<lparr>nt_schema = ''OWNER'', nt_name = t, nt_cols = [sample_column ''NAME'' CDT_TEXT SQLT_CHR None,
          sample_column ''BORN'' CDT_TIMESTAMP SQLT_TIMESTAMP None, sample_column ''HOME'' (CDT_other 7) SQLT_NTY (Some False)]\<rparr>
      else if t = ''ADDRESS'' then
        Some \<lparr>nt_schema = ''OWNER'', nt_name = t, nt_cols = [sample_column ''STREET'' CDT_TEXT SQLT_CHR None,
          sample_column ''NUMBER'' CDT_NUMERIC SQLT_NUM None]\<rparr>
      else if t = ''NUMBERS'' then Some \<lparr>nt_schema = ''OWNER'', nt_name = t, nt_cols = [sample_column [] CDT_NUMERIC SQLT_NUM None]\<rparr>
      else None)"

definition sample_nty_env :: "(nat \<Rightarrow> nty_answer) \<Rightarrow> nty_env" where
  "sample_nty_env answers =
     \<lparr>ne_answer = answers, ne_type = sample_types, ne_encoding = ''UTF-8'', ne_max_width = 4, ne_number = OPT_NUM_OPTIMAL,
      ne_text = (\<lambda>v. case v of QString s e \<Rightarrow> Value s | _ \<Rightarrow> Value []), ne_plain = (\<lambda>v. case v of QString s e \<Rightarrow> s | _ \<Rightarrow> []),
      ne_float = (\<lambda>v. 0), ne_int = (\<lambda>v. case v of QInt i \<Rightarrow> i | _ \<Rightarrow> 0), ne_date = (\<lambda>v. case v of QDate d \<Rightarrow> d | _ \<Rightarrow>
        RelDate \<lparr>d_year = 0, d_month = 0, d_day = 0, d_hour = 0, d_minute = 0, d_second = 0, d_us = 0\<rparr>), ne_chars = (\<lambda>s. int (length s)),
      ne_number_text = (\<lambda>d. case d of DInt i \<Rightarrow> show_int i | DNumber t \<Rightarrow> t | _ \<Rightarrow> []), ne_number_int = (\<lambda>d. case d of DInt i \<Rightarrow> i | _ \<Rightarrow> 0),
      ne_number_double = (\<lambda>d. 0), ne_offset = (\<lambda>t f. None)\<rparr>"

definition sample_address :: "qval" where
  "sample_address = QHash [(''type'', QString ''OracleObject'' ''UTF-8''), (''^oratype^'', QString ''ADDRESS'' ''UTF-8''),
     (''^values^'', QHash [(''street'', QString ''Main'' ''UTF-8''), (''NUMBER'', QInt 5)])]"

definition sample_person :: "qval ohash" where
  "sample_person = [(''type'', QString ''OracleObject'' ''UTF-8''), (''^oratype^'', QString ''PERSON'' ''UTF-8''),
     (''^values^'', QHash [(''NAME'', QString ''Ann'' ''UTF-8''),
        (''BORN'', QDate (AbsDate ServerZone \<lparr>d_year = 1980, d_month = 2, d_day = 3, d_hour = 4, d_minute = 5, d_second = 6, d_us = 7\<rparr>)),
        (''HOME'', sample_address)])]"

definition sample_numbers :: "qval ohash" where
  "sample_numbers = [(''type'', QString ''OracleCollection'' ''UTF-8''), (''^oratype^'', QString ''NUMBERS'' ''UTF-8''),
     (''^values^'', QList [QInt 1, QNull, QString ''2.5'' ''UTF-8''])]"

lemma named_handles_released_witness:
  "fst (objBindQore (sample_nty_env (\<lambda>n. if n = 17 then Refused else Done)) sample_person (Nty [] [])) = Failed
   \<and> open_nty (sample_nty_env (\<lambda>n. if n = 17 then Refused else Done))
       (snd (objBindQore (sample_nty_env (\<lambda>n. if n = 17 then Refused else Done)) sample_person (Nty [] []))) = Some {}
   \<and> open_nty (sample_nty_env (\<lambda>n. if n = 17 then Refused else Done))
       (snd (collBindQore (sample_nty_env (\<lambda>n. if n = 17 then Refused else Done)) sample_numbers (Nty [] []))) = Some {1}"
proof -
  let ?e = "sample_nty_env (\<lambda>n. if n = 17 then Refused else Done)" and ?S = "Nty [] []"
  have o: "open_nty ?e ?S = Some {}" by (simp add: open_nty_def)
  have r: "fst (objBindQore ?e sample_person ?S) = Failed" "fst (collBindQore ?e sample_numbers ?S) = Got 1"
    "fst (objToQore ?e 0 ''ADDRESS'' [] ?S) \<noteq> Crashed" "fst (collToQore ?e 0 ''NUMBERS'' [] ?S) \<noteq> Crashed"
    by code_simp+
  obtain r1 S1 r2 S2 r3 S3 r4 S4 where
    e: "objBindQore ?e sample_person ?S = (r1, S1)" "collBindQore ?e sample_numbers ?S = (r2, S2)"
      "objToQore ?e 0 ''ADDRESS'' [] ?S = (r3, S3)" "collToQore ?e 0 ''NUMBERS'' [] ?S = (r4, S4)"
    by (metis surj_pair)
  with r have "r1 = Failed" "r2 = Got 1" "r3 \<noteq> Crashed" "r4 \<noteq> Crashed" by simp_all
  with named_handles_released [OF o e] e show ?thesis by simp
qed

end
