(* ===== verification/Named_Values.thy ===== *)
theory Named_Values
  imports Named_Handles
begin

text \<open>
  What a bound object or collection holds: the calls of the library are given their documented
  meaning, and the object that is made has exactly the values of the hash.
\<close>

section \<open>The meaning of the calls\<close>

text \<open>What each handle holds: a call that does not succeed has no effect.\<close>

fun assigned_data :: "(nat \<Rightarrow> nty_data) \<Rightarrow> nty_assign \<Rightarrow> nty_data" where
  "assigned_data st ANull = DNull"
| "assigned_data st (AText s) = DText s"
| "assigned_data st (ANumber s) = DNumber s"
| "assigned_data st (ADouble f) = DDouble f"
| "assigned_data st (ABigInt i) = DInt i"
| "assigned_data st (AHandle h) = st h"

fun fill_data :: "nty_fill \<Rightarrow> nty_data" where
  "fill_data (FTimestamp f ns) = DTimestamp (f\<lparr>d_us := 0\<rparr>) ns"
| "fill_data (FDate f) = DDate (f\<lparr>d_us := 0\<rparr>)"
| "fill_data (FYearMonth y m) = DYearMonth y m"
| "fill_data (FDaySecond f ns) = DDaySecond (f\<lparr>d_year := 0, d_month := 0, d_us := 0\<rparr>) ns"
| "fill_data (FLob s n) = DLob s"

fun set_attr :: "string \<Rightarrow> nty_data \<Rightarrow> nty_data \<Rightarrow> nty_data" where
  "set_attr n d (DObject t as') = DObject t (AList.update n d as')"
| "set_attr n d x = x"

fun append_data :: "nty_data \<Rightarrow> nty_data \<Rightarrow> nty_data" where
  "append_data d (DColl t xs) = DColl t (xs @ [d])"
| "append_data d x = x"

fun put :: "slot \<Rightarrow> nty_data \<Rightarrow> (nat \<Rightarrow> nty_data) \<Rightarrow> (nat \<Rightarrow> nty_data)" where
  "put (Attr obj n) d st = st(obj := set_attr n d (st obj))"
| "put (Elem e) d st = st(e := d)"

fun initial_data :: "nty_kind \<Rightarrow> nty_data" where
  "initial_data (KObject t) = DObject t []"
| "initial_data (KColl t) = DColl t []"
| "initial_data _ = DNull"

fun nty_effect :: "nat \<Rightarrow> nty_call \<Rightarrow> (nat \<Rightarrow> nty_data) \<Rightarrow> (nat \<Rightarrow> nty_data)" where
  "nty_effect p (Alloc k) st = st(p := initial_data k)"
| "nty_effect p (Fill h x) st = st(h := fill_data x)"
| "nty_effect p (Assign slot a) st = put slot (assigned_data st a) st"
| "nty_effect p (AppendElem coll e) st = st(coll := append_data (st e) (st coll))"
| "nty_effect p _ st = st"

fun nty_run :: "nty_env \<Rightarrow> nat \<Rightarrow> nty_call list \<Rightarrow> (nat \<Rightarrow> nty_data) \<Rightarrow> (nat \<Rightarrow> nty_data)" where
  "nty_run env p [] st = st"
| "nty_run env p (c # cs) st = nty_run env (Suc p) cs (if ne_answer env p = Done then nty_effect p c st else st)"

definition store_of :: "nty_env \<Rightarrow> nty_state \<Rightarrow> nat \<Rightarrow> nty_data" where
  "store_of env S = nty_run env 0 (nt_calls S) (\<lambda>h. DNull)"

lemma nty_run_append: "nty_run env p (cs @ ds) st = nty_run env (p + length cs) ds (nty_run env p cs st)"
  by (induction cs arbitrary: p st) simp_all

lemma store_note [simp]:
  "store_of env (nty_note c S) = (if nty_answer_at env S = Done then nty_effect (length (nt_calls S)) c (store_of env S) else store_of env S)"
  by (simp add: store_of_def nty_run_append nty_answer_at_def)

lemma store_raise [simp]: "store_of env (nty_raise e S) = store_of env S"
  by (simp add: store_of_def)

abbreviation made :: "nty_state \<Rightarrow> nat" where
  "made S \<equiv> length (nt_calls S)"

lemma call_Got: "nty_call env own c S = (Got u, S') \<Longrightarrow> S' = nty_note c S \<and> nty_answer_at env S = Done"
  by (auto simp: nty_call_def Let_def split: nty_answer.splits)

lemma call_no_xsink_Got: "nty_call_no_xsink env own c S = (Got u, S') \<Longrightarrow> S' = nty_note c S \<and> nty_answer_at env S = Done"
  by (auto simp: nty_call_no_xsink_def nty_fail_def split: if_splits)

lemma lookup_Got: "nty_lookup env own c S = (Got u, S') \<Longrightarrow> S' = nty_note c S"
  by (auto simp: nty_lookup_def nty_query_def nty_fail_def Let_def split: nty_answer.splits if_splits)

lemma free_store [simp]: "store_of env (nty_free env (Free h) S) = store_of env S" "made (nty_free env (Free h) S) = Suc (made S)"
  by (auto simp: nty_free_def split: nty_answer.splits)

section \<open>Values\<close>

text \<open>What a value that is no named type is in a slot of a column.\<close>

definition text_data :: "nty_env \<Rightarrow> qval \<Rightarrow> nty_data option" where
  "text_data env v = (case ne_text env v of Value s \<Rightarrow> Some (if s = [] then DNull else DText (c_str s)) | _ \<Rightarrow> None)"

definition number_data :: "nty_env \<Rightarrow> qval \<Rightarrow> nty_data option" where
  "number_data env v =
     (case v of
        QInt i \<Rightarrow> Some (DInt i)
      | QFloat f \<Rightarrow> Some (DDouble f)
      | QString s e \<Rightarrow> Some (DNumber (ne_plain env v))
      | QNumber n \<Rightarrow> Some (DNumber (ne_plain env v))
      | _ \<Rightarrow> None)"

definition date_data :: "column_type \<Rightarrow> sqlt \<Rightarrow> date_fields \<Rightarrow> nty_data option" where
  "date_data ct t f =
     (case ct of
        CDT_TIMESTAMP \<Rightarrow> Some (DTimestamp (f\<lparr>d_us := 0\<rparr>) (d_us f * 1000))
      | CDT_DATETIME \<Rightarrow> Some (DDate (f\<lparr>d_us := 0\<rparr>))
      | CDT_INTERVAL \<Rightarrow>
          Some (if t = SQLT_INTERVAL_YM then DYearMonth (d_year f) (d_month f)
                else DDaySecond (f\<lparr>d_year := 0, d_month := 0, d_us := 0\<rparr>) (d_us f * 1000))
      | _ \<Rightarrow> None)"

definition lob_datum :: "nty_env \<Rightarrow> qval \<Rightarrow> nty_data option" where
  "lob_datum env v =
     (case (case v of QBinary b \<Rightarrow> Value b | _ \<Rightarrow> ne_text env v) of
        Value s \<Rightarrow> Some (if lob_size s = 0 then DNull else DLob (take (nat (lob_size s)) s))
      | _ \<Rightarrow> None)"

definition plain_data :: "nty_env \<Rightarrow> nty_column \<Rightarrow> qval \<Rightarrow> nty_data option" where
  "plain_data env c v =
     (let t = oc_ocode c
      in if is_text_type t then text_data env v
         else if t = SQLT_NUM then number_data env v
         else if t = SQLT_INT then Some (DInt (ne_int env v))
         else if is_float_type t then Some (DDouble (ne_float env v))
         else if is_date_type t then date_data (oc_type c) t (own_fields (ne_date env v))
         else if is_lob_type t then lob_datum env v
         else None)"

text \<open>
  The value of an attribute: the one under its name, or else the one under its name in lower case;
  a key that is missing is as if it had no value.
\<close>

definition given :: "qval ohash \<Rightarrow> nty_column \<Rightarrow> qval" where
  "given th c = (case hash_get th (oc_name c) of
       Some v \<Rightarrow> v
     | None \<Rightarrow> (case hash_get th (map c_tolower (oc_name c)) of Some v \<Rightarrow> v | None \<Rightarrow> QNothing))"

lemma given_attr_arg: "given th c = (case attr_arg th (oc_name c) of Some v \<Rightarrow> v | None \<Rightarrow> QNothing)"
  by (simp add: given_def attr_arg_def split: option.splits)

text \<open>
  \<open>stands env c v d\<close>: the data \<open>d\<close> stands for the value \<open>v\<close> in a slot of the column \<open>c\<close>.  An object has
  every attribute of its type, a collection an element for every value.
\<close>

inductive stands :: "nty_env \<Rightarrow> nty_column \<Rightarrow> qval \<Rightarrow> nty_data \<Rightarrow> bool" for env where
  stands_null: "is_null_or_nothing v \<Longrightarrow> stands env c v DNull"
| stands_plain: "\<not> is_null_or_nothing v \<Longrightarrow> \<not> is_nty_type (oc_ocode c) \<Longrightarrow> plain_data env c v = Some d \<Longrightarrow> stands env c v d"
| stands_object: "is_nty_type (oc_ocode c) \<Longrightarrow> ntyHashType (Some h) = ORACLE_OBJECT \<Longrightarrow> key_value h ''^values^'' = QHash th
    \<Longrightarrow> list_all2 (\<lambda>a nd. fst nd = oc_name a \<and> stands env a (given th a) (snd nd)) (type_columns env (type_name h)) as'
    \<Longrightarrow> stands env c (QHash h) (DObject (type_name h) as')"
| stands_collection: "is_nty_type (oc_ocode c) \<Longrightarrow> ntyHashType (Some h) = ORACLE_COLLECTION \<Longrightarrow> key_value h ''^values^'' = QList vs
    \<Longrightarrow> type_columns env (type_name h) = a # rest \<Longrightarrow> list_all2 (stands env a) vs ds
    \<Longrightarrow> stands env c (QHash h) (DColl (type_name h) ds)"

section \<open>Binding a value puts its data into the slot\<close>

definition puts :: "nty_env \<Rightarrow> slot \<Rightarrow> (nty_data \<Rightarrow> bool) \<Rightarrow> unit nty_step \<Rightarrow> bool" where
  "puts env slot P f \<longleftrightarrow>
     (\<forall>S S'. f S = (Got (), S') \<longrightarrow> slot_handle slot < made S
        \<longrightarrow> made S \<le> made S' \<and> (\<exists>d. P d \<and> (\<forall>h < made S. store_of env S' h = put slot d (store_of env S) h)))"

lemma putsI:
  "(\<And>S S'. f S = (Got (), S') \<Longrightarrow> slot_handle slot < made S
     \<Longrightarrow> made S \<le> made S' \<and> (\<exists>d. P d \<and> (\<forall>h < made S. store_of env S' h = put slot d (store_of env S) h))) \<Longrightarrow> puts env slot P f"
  unfolding puts_def by iprover

lemma putsD:
  "puts env slot P f \<Longrightarrow> f S = (Got (), S') \<Longrightarrow> slot_handle slot < made S
     \<Longrightarrow> made S \<le> made S' \<and> (\<exists>d. P d \<and> (\<forall>h < made S. store_of env S' h = put slot d (store_of env S) h))"
  unfolding puts_def by iprover

lemma puts_mono: "puts env slot P f \<Longrightarrow> (\<And>d. P d \<Longrightarrow> Q d) \<Longrightarrow> puts env slot Q f"
  unfolding puts_def by meson

lemma puts_never: "(\<And>S S'. f S \<noteq> (Got (), S')) \<Longrightarrow> puts env slot P f"
  unfolding puts_def by simp

lemma puts_fail: "puts env slot P (nty_fail e)"
  by (rule puts_never) (simp add: nty_fail_def)

lemma puts_assign:
  assumes "assigned a = {}" "P (assigned_data (\<lambda>h. DNull) a)"
  shows "puts env slot P (nty_call env own (Assign slot a))"
proof (rule putsI)
  fix S S'
  assume c: "nty_call env own (Assign slot a) S = (Got (), S')"
  have "assigned_data (store_of env S) a = assigned_data (\<lambda>h. DNull) a" using assms(1) by (cases a) simp_all
  with call_Got [OF c] assms(2)
  show "made S \<le> made S' \<and> (\<exists>d. P d \<and> (\<forall>h < made S. store_of env S' h = put slot d (store_of env S) h))" by auto
qed

lemma puts_null: "P DNull \<Longrightarrow> puts env slot P (bind_null env slot)"
proof (cases slot)
  case (Attr obj n)
  assume "P DNull"
  with Attr show ?thesis by (simp add: bind_null_def puts_assign)
next
  case (Elem e)
  assume "P DNull"
  show ?thesis
  proof (rule putsI)
    fix S S'
    assume "bind_null env slot S = (Got (), S')"
    then have "S' = nty_note (Assign slot ANull) S \<and> nty_answer_at env S = Done"
      using Elem call_no_xsink_Got by (simp add: bind_null_def)
    with \<open>P DNull\<close>
    show "made S \<le> made S' \<and> (\<exists>d. P d \<and> (\<forall>h < made S. store_of env S' h = put slot d (store_of env S) h))" by auto
  qed
qed

lemma put_other: "h \<noteq> slot_handle slot \<Longrightarrow> put slot d st h = st h"
  by (cases slot) simp_all

lemma put_agree: "(\<And>h. h < n \<Longrightarrow> st h = st' h) \<Longrightarrow> h < n \<Longrightarrow> put slot d st h = put slot d st' h"
  by (cases slot) auto

lemma puts_temp:
  assumes "\<And>S S'. create S = (Got (), S') \<Longrightarrow> S' = nty_note (Alloc k) S \<and> nty_answer_at env S = Done"
    "\<And>h S. store_of env (release h S) = store_of env S" "\<And>h S. made S \<le> made (release h S)" "P (fill_data x)"
  shows "puts env slot P (with_temp create release (\<lambda>h. [nty_call env own1 (Fill h x), nty_call env own2 (Assign slot (AHandle h))]))"
proof (rule putsI)
  fix S S'
  let ?h = "made S"
  assume e: "with_temp create release (\<lambda>h. [nty_call env own1 (Fill h x), nty_call env own2 (Assign slot (AHandle h))]) S = (Got (), S')"
    and s: "slot_handle slot < made S"
  obtain r1 S1 where c: "create S = (r1, S1)" by fastforce
  then have r1: "r1 = Got ()" using e by (cases r1) (auto simp: with_temp_def Let_def)
  with assms(1) c have S1: "S1 = nty_note (Alloc k) S" "nty_answer_at env S = Done" by auto
  obtain r2 S2 where f: "nty_call env own1 (Fill ?h x) S1 = (r2, S2)" by fastforce
  then have "r2 = Got ()" using e c r1 by (cases r2) (auto simp: with_temp_def Let_def)
  with call_Got f have S2: "S2 = nty_note (Fill ?h x) S1" "nty_answer_at env S1 = Done" by auto
  obtain r3 S3 where g: "nty_call env own2 (Assign slot (AHandle ?h)) S2 = (r3, S3)" by fastforce
  then have r3: "r3 = Got ()" using e c r1 f \<open>r2 = Got ()\<close> by (cases r3) (auto simp: with_temp_def Let_def)
  with call_Got g have S3: "S3 = nty_note (Assign slot (AHandle ?h)) S2" "nty_answer_at env S2 = Done" by auto
  have S': "S' = release ?h S3" using e c r1 f \<open>r2 = Got ()\<close> g r3 by (auto simp: with_temp_def Let_def)
  have "store_of env S' h = put slot (fill_data x) (store_of env S) h" if "h < made S" for h
  proof -
    have "store_of env S' h = put slot (fill_data x) (store_of env S2) h" using S' S3 assms(2) S2 by simp
    also have "\<dots> = put slot (fill_data x) (store_of env S) h"
      by (rule put_agree [where n = "made S"]) (use S1 S2 that in auto)
    finally show ?thesis .
  qed
  moreover have "made S \<le> made S'" using assms(3) [of S3 ?h] S' S1(1) S2(1) S3(1) by simp
  ultimately show "made S \<le> made S' \<and> (\<exists>d. P d \<and> (\<forall>h < made S. store_of env S' h = put slot d (store_of env S) h))"
    using assms(4) by blast
qed

lemma note_free_store [simp]: "store_of env (nty_note (Free h) S) = store_of env S"
  by simp

abbreviation has :: "nty_env \<Rightarrow> nty_column \<Rightarrow> qval \<Rightarrow> nty_data \<Rightarrow> bool" where
  "has env col v d \<equiv> plain_data env col v = Some d"

lemma puts_text: "puts env slot (\<lambda>d. text_data env v = Some d) (bind_text env slot v)"
proof (cases "ne_text env v")
  case (Value s)
  then show ?thesis
    unfolding bind_text_def [abs_def] text_data_def by (cases "s = []") (simp_all add: puts_null puts_assign)
qed (simp_all add: bind_text_def [abs_def] puts_fail puts_never)

lemma puts_number: "puts env slot (\<lambda>d. number_data env v = Some d) (bind_number env slot v)"
  by (cases v) (simp_all add: bind_number_def number_data_def puts_assign puts_fail)

lemma create_date_Got: "create_date env slot S = (Got (), S') \<Longrightarrow> S' = nty_note (Alloc KDate) S \<and> nty_answer_at env S = Done"
  by (cases slot) (auto simp: create_date_def dest: call_Got call_no_xsink_Got)

lemma puts_date: "puts env slot (\<lambda>d. date_data (oc_type col) (oc_ocode col) (own_fields (ne_date env v)) = Some d) (bind_date env slot col v)"
proof -
  let ?f = "own_fields (ne_date env v)"
  have "puts env slot (\<lambda>d. d = DTimestamp (?f\<lparr>d_us := 0\<rparr>) (d_us ?f * 1000)) (bind_timestamp env slot (oc_ocode col) ?f)"
    unfolding bind_timestamp_def by (rule puts_temp) (auto dest: call_Got)
  moreover have "puts env slot (\<lambda>d. d = DDate (?f\<lparr>d_us := 0\<rparr>)) (bind_datetime env slot ?f)"
    unfolding bind_datetime_def by (rule puts_temp) (auto dest: create_date_Got)
  moreover have "puts env slot (\<lambda>d. d = fill_data (if oc_ocode col = SQLT_INTERVAL_YM then FYearMonth (d_year ?f) (d_month ?f)
      else FDaySecond ?f (d_us ?f * 1000))) (bind_interval env slot (oc_ocode col) ?f)"
    unfolding bind_interval_def by (rule puts_temp) (auto dest: call_Got)
  ultimately show ?thesis
    unfolding bind_date_def Let_def
    by (cases "oc_type col") (auto simp: date_data_def puts_fail elim!: puts_mono)
qed

lemma puts_write_lob: "puts env slot (\<lambda>d. d = DLob (take (nat (lob_size s)) s)) (write_lob env slot blob s n)"
  unfolding write_lob_def by (rule puts_temp) (auto dest: call_Got)

lemma puts_lob: "puts env slot (\<lambda>d. lob_datum env v = Some d) (bind_lob_slot env slot v)"
proof -
  have w: "puts env slot (\<lambda>d. d = (if lob_size s = 0 then DNull else DLob (take (nat (lob_size s)) s)))
      (\<lambda>S. if lob_size s \<noteq> 0 then write_lob env slot blob s n S else bind_null env slot S)" for s blob n
    using puts_write_lob [of env slot s blob n] puts_null [of "\<lambda>d. d = DNull" env slot] by (cases "lob_size s = 0") simp_all
  have "puts env slot (\<lambda>d. lob_datum env v = Some d) (bind_lob_slot env slot v)" if "\<And>b. v \<noteq> QBinary b"
  proof (cases "ne_text env v")
    case (Value s)
    have eq: "bind_lob_slot env slot v = (\<lambda>S. if lob_size s \<noteq> 0 then write_lob env slot False s (ne_chars env s mod 4294967296) S else bind_null env slot S)"
      "lob_datum env v = Some (if lob_size s = 0 then DNull else DLob (take (nat (lob_size s)) s))"
      using that Value by (cases v; simp add: bind_lob_slot_def [abs_def] lob_datum_def)+
    show ?thesis unfolding eq by (rule puts_mono [OF w]) simp
  next
    case (Raised e)
    then show ?thesis using that by (cases v) (auto simp: bind_lob_slot_def [abs_def] nty_fail_def intro!: puts_never)
  next
    case Undefined
    then show ?thesis using that by (cases v) (auto simp: bind_lob_slot_def [abs_def] intro!: puts_never)
  qed
  moreover have "puts env slot (\<lambda>d. lob_datum env v = Some d) (bind_lob_slot env slot v)" if "v = QBinary b" for b
  proof -
    have eq: "bind_lob_slot env slot v = (\<lambda>S. if lob_size b \<noteq> 0 then write_lob env slot True b (lob_size b) S else bind_null env slot S)"
      "lob_datum env v = Some (if lob_size b = 0 then DNull else DLob (take (nat (lob_size b)) b))"
      using that by (simp_all add: bind_lob_slot_def [abs_def] lob_datum_def)
    show ?thesis unfolding eq by (rule puts_mono [OF w]) simp
  qed
  ultimately show ?thesis by blast
qed

lemma puts_plain: "puts env slot (has env col v) (bind_plain env slot col v)"
proof -
  have "puts env slot P (bind_unsupported slot col)" for P
    by (rule puts_never) (auto simp: bind_unsupported_def nty_fail_def split: slot.splits)
  then show ?thesis
    unfolding bind_plain_def plain_data_def Let_def bind_integer_def bind_float_def
    using puts_text [of env slot v] puts_number [of env slot v] puts_date [of env slot col v] puts_lob [of env slot v]
    by (simp add: puts_assign)
qed

section \<open>Objects and collections have their values\<close>

definition object_of :: "nty_env \<Rightarrow> qval ohash \<Rightarrow> nty_data \<Rightarrow> bool" where
  "object_of env h d \<longleftrightarrow>
     (\<exists>th as'. key_value h ''^values^'' = QHash th \<and> d = DObject (type_name h) as'
        \<and> list_all2 (\<lambda>a nd. fst nd = oc_name a \<and> stands env a (given th a) (snd nd)) (type_columns env (type_name h)) as')"

definition collection_of :: "nty_env \<Rightarrow> qval ohash \<Rightarrow> nty_data \<Rightarrow> bool" where
  "collection_of env h d \<longleftrightarrow>
     (\<exists>vs ds a rest. key_value h ''^values^'' = QList vs \<and> d = DColl (type_name h) ds
        \<and> type_columns env (type_name h) = a # rest \<and> list_all2 (stands env a) vs ds)"

lemma stands_of:
  "is_nty_type (oc_ocode c) \<Longrightarrow> ntyHashType (Some h) = ORACLE_OBJECT \<Longrightarrow> object_of env h d \<Longrightarrow> stands env c (QHash h) d"
  "is_nty_type (oc_ocode c) \<Longrightarrow> ntyHashType (Some h) = ORACLE_COLLECTION \<Longrightarrow> collection_of env h d \<Longrightarrow> stands env c (QHash h) d"
  unfolding object_of_def collection_of_def by (auto intro: stands_object stands_collection)

definition makes_value :: "nty_env \<Rightarrow> (nty_data \<Rightarrow> bool) \<Rightarrow> nat nty_step \<Rightarrow> bool" where
  "makes_value env Q f \<longleftrightarrow>
     (\<forall>S S' o'. f S = (Got o', S') \<longrightarrow> made S \<le> o' \<and> o' < made S' \<and> (\<forall>h < made S. store_of env S' h = store_of env S h)
        \<and> Q (store_of env S' o'))"

lemma makes_valueI:
  "(\<And>S S' o'. f S = (Got o', S') \<Longrightarrow> made S \<le> o' \<and> o' < made S' \<and> (\<forall>h < made S. store_of env S' h = store_of env S h)
        \<and> Q (store_of env S' o')) \<Longrightarrow> makes_value env Q f"
  unfolding makes_value_def by iprover

lemma makes_valueD:
  "makes_value env Q f \<Longrightarrow> f S = (Got o', S') \<Longrightarrow> made S \<le> o' \<and> o' < made S' \<and> (\<forall>h < made S. store_of env S' h = store_of env S h)
        \<and> Q (store_of env S' o')"
  unfolding makes_value_def by iprover

lemma bind_Got: "nty_bind x f = (Got v, S') \<Longrightarrow> \<exists>u S. x = (Got u, S) \<and> f u S = (Got v, S')"
  by (auto simp: nty_bind_def split: prod.splits got.splits)

lemma seq_lookup_Got:
  assumes "nty_seq [nty_lookup env own1 c1, nty_lookup env own2 c2] S = (Got u, S')"
  shows "S' = nty_note c2 (nty_note c1 S)"
proof -
  obtain r1 S1 where a: "nty_lookup env own1 c1 S = (r1, S1)" by fastforce
  with assms have r1: "r1 = Got ()" by (cases r1) auto
  obtain r2 S2 where b: "nty_lookup env own2 c2 S1 = (r2, S2)" by fastforce
  with assms a r1 have "r2 = Got ()" "S' = S2" by (cases r2; auto)+
  with a b r1 lookup_Got show ?thesis by blast
qed

lemma get_type_Got: "get_type env own t S = (Got info, S') \<Longrightarrow> S' = nty_note (GetTypeInfo t) S \<and> ne_type env t = Some info"
  by (auto simp: get_type_def Let_def split: nty_answer.splits option.splits)

lemma puts_assign_made:
  assumes "makes_value env Q f"
  shows "puts env slot Q (\<lambda>S. assign_made env slot (f S))"
proof (rule putsI)
  fix S S'
  assume e: "assign_made env slot (f S) = (Got (), S')" and s: "slot_handle slot < made S"
  obtain o' S1 where f: "f S = (Got o', S1)" using e unfolding assign_made_def by (auto dest: bind_Got)
  note m = makes_valueD [OF assms f]
  obtain r2 S2 where c: "nty_call env (bind_error ''unable to bind object or collection'') (Assign slot (AHandle o')) S1 = (r2, S2)"
    by fastforce
  have r: "r2 = Got ()" "S' = nty_free env (Free o') S2" using e f c by (auto simp: assign_made_def Let_def split: if_splits)
  have S2: "S2 = nty_note (Assign slot (AHandle o')) S1" "nty_answer_at env S1 = Done" using call_Got c r(1) by auto
  have "store_of env S' h = put slot (store_of env S1 o') (store_of env S) h" if "h < made S" for h
    using r(2) S2 put_agree [of "made S" "store_of env S1" "store_of env S" h slot] m that by simp
  then show "made S \<le> made S' \<and> (\<exists>d. Q d \<and> (\<forall>h < made S. store_of env S' h = put slot d (store_of env S) h))"
    using m r(2) S2(1) by auto
qed

lemma puts_value:
  assumes "is_nty_type (oc_ocode c) \<Longrightarrow> \<not> is_null_or_nothing v \<Longrightarrow> puts env slot (stands env c v) (bind_nty env slot v)"
  shows "puts env slot (stands env c v) (\<lambda>S. if is_null_or_nothing v then bind_null env slot S
      else if is_nty_type (oc_ocode c) then bind_nty env slot v S else bind_plain env slot c v S)"
proof (cases "is_null_or_nothing v")
  case True
  then show ?thesis by (simp add: puts_null stands_null)
next
  case False
  then show ?thesis
    using assms puts_mono [OF puts_plain [of env slot c v], of "stands env c v"] stands_plain [of v c env]
    by (cases "is_nty_type (oc_ocode c)") simp_all
qed

lemma attrs_hold:
  assumes deeper: "\<And>v slot c. size v < size (QHash th) \<Longrightarrow> is_nty_type (oc_ocode c) \<Longrightarrow> puts env slot (stands env c v) (bind_nty env slot v)"
  shows "bind_attrs env obj th i cs S = (Got (), S') \<Longrightarrow> obj < made S \<Longrightarrow> store_of env S obj = DObject t as'
    \<Longrightarrow> distinct (map fst as' @ map oc_name cs)
    \<Longrightarrow> \<exists>bs. list_all2 (\<lambda>a nd. fst nd = oc_name a \<and> stands env a (given th a) (snd nd)) cs bs
      \<and> store_of env S' obj = DObject t (as' @ bs) \<and> made S \<le> made S' \<and> (\<forall>h < made S. h \<noteq> obj \<longrightarrow> store_of env S' h = store_of env S h)"
proof (induction cs arbitrary: i S as')
  case Nil
  then show ?case by simp
next
  case (Cons c cs)
  let ?slot = "Attr obj (oc_name c)"
  let ?f = "\<lambda>S1. case attr_arg th (oc_name c) of
          None \<Rightarrow> bind_null env ?slot S1
        | Some v \<Rightarrow> if is_null_or_nothing v then bind_null env ?slot S1
            else if is_nty_type (oc_ocode c) then bind_nty env ?slot v S1
            else bind_plain env ?slot c v S1"
  from bind_Got [OF Cons.prems(1) [unfolded bind_attrs.simps(2)]] obtain u S1 where
    1: "nty_seq [nty_lookup env (bind_error ''failed to retrieve column information'') (GetColumn i),
                 nty_lookup env (bind_error ''failed to retrieve column information'') (GetColumnName i)] S = (Got u, S1)"
    and 2: "nty_bind (?f S1) (\<lambda>_ S2. bind_attrs env obj th (Suc i) cs S2) = (Got (), S')" by blast
  from bind_Got [OF 2] obtain S2 where f: "?f S1 = (Got (), S2)" and r: "bind_attrs env obj th (Suc i) cs S2 = (Got (), S')"
    by auto
  have S1: "store_of env S1 = store_of env S" "made S1 = Suc (Suc (made S))" using seq_lookup_Got [OF 1] by simp_all
  have "puts env ?slot (stands env c (given th c)) ?f"
  proof (cases "attr_arg th (oc_name c)")
    case None
    then show ?thesis by (simp add: given_attr_arg puts_null stands_null)
  next
    case (Some v)
    have "puts env ?slot (stands env c v) (\<lambda>S. if is_null_or_nothing v then bind_null env ?slot S
      else if is_nty_type (oc_ocode c) then bind_nty env ?slot v S else bind_plain env ?slot c v S)"
      by (rule puts_value) (rule deeper [OF size_attr_arg [OF Some]])
    with Some show ?thesis by (simp add: given_attr_arg)
  qed
  from putsD [OF this f] Cons.prems(2) S1(2) obtain d where
    d: "stands env c (given th c) d" "made S1 \<le> made S2" "\<And>h. h < made S1 \<Longrightarrow> store_of env S2 h = put ?slot d (store_of env S1) h"
    by auto
  have fresh: "hash_get as' (oc_name c) = None" using Cons.prems(4) by (auto simp: map_of_eq_None_iff)
  have "store_of env S2 obj = DObject t (as' @ [(oc_name c, d)])"
    using d(3) [of obj] Cons.prems(2,3) S1 hash_set_fresh [OF fresh] by simp
  from Cons.IH [OF r _ this] Cons.prems(2,4) S1 d(2) obtain bs where
    bs: "list_all2 (\<lambda>a nd. fst nd = oc_name a \<and> stands env a (given th a) (snd nd)) cs bs"
      "store_of env S' obj = DObject t ((as' @ [(oc_name c, d)]) @ bs)" "made S2 \<le> made S'"
      "\<forall>h < made S2. h \<noteq> obj \<longrightarrow> store_of env S' h = store_of env S2 h" by fastforce
  have "store_of env S' h = store_of env S h" if "h < made S" "h \<noteq> obj" for h
    using bs(4) d(2) d(3) [of h] S1 that by simp
  with bs(1-3) d(1,2) S1 show ?case by (intro exI [of _ "(oc_name c, d) # bs"]) simp
qed

lemma elems_hold:
  assumes "\<And>v slot. size v < size (QList vs) \<Longrightarrow> is_nty_type (oc_ocode col) \<Longrightarrow> puts env slot (stands env col v) (bind_nty env slot v)"
  shows "bind_elems env coll e col vs S = (Got (), S') \<Longrightarrow> coll < made S \<Longrightarrow> e < made S \<Longrightarrow> e \<noteq> coll \<Longrightarrow> store_of env S coll = DColl t xs
    \<Longrightarrow> \<exists>ds. list_all2 (stands env col) vs ds \<and> store_of env S' coll = DColl t (xs @ ds) \<and> made S \<le> made S'
      \<and> (\<forall>h < made S. h \<noteq> coll \<longrightarrow> h \<noteq> e \<longrightarrow> store_of env S' h = store_of env S h)"
  using assms
proof (induction vs arbitrary: S xs)
  case Nil
  then show ?case by simp
next
  case (Cons v vs)
  let ?f = "\<lambda>S. if is_null_or_nothing v then bind_null env (Elem e) S
        else if is_nty_type (oc_ocode col) then bind_nty env (Elem e) v S
        else bind_plain env (Elem e) col v S"
  from bind_Got [OF Cons.prems(1) [unfolded bind_elems.simps(2)]] obtain S1 where
    f: "?f S = (Got (), S1)"
    and 2: "nty_bind (nty_call env (bind_error ''failed to append element'') (AppendElem coll e) S1) (\<lambda>_ S2. bind_elems env coll e col vs S2) = (Got (), S')"
    by auto
  from bind_Got [OF 2] obtain S2 where c: "nty_call env (bind_error ''failed to append element'') (AppendElem coll e) S1 = (Got (), S2)"
    and r: "bind_elems env coll e col vs S2 = (Got (), S')" by auto
  have "puts env (Elem e) (stands env col v) ?f"
    by (rule puts_value) (use Cons.prems(6) in simp)
  from putsD [OF this f] Cons.prems(3) obtain d where
    d: "stands env col v d" "made S \<le> made S1" "\<And>h. h < made S \<Longrightarrow> store_of env S1 h = put (Elem e) d (store_of env S) h" by auto
  have S2: "S2 = nty_note (AppendElem coll e) S1" "nty_answer_at env S1 = Done" using call_Got [OF c] by simp_all
  have "store_of env S2 coll = DColl t (xs @ [d])"
    using S2 d(3) [of coll] d(3) [of e] Cons.prems(2-5) by simp
  moreover have "coll < made S2" "e < made S2" using S2 d(2) Cons.prems(2,3) by simp_all
  ultimately obtain ds where
    ds: "list_all2 (stands env col) vs ds" "store_of env S' coll = DColl t ((xs @ [d]) @ ds)" "made S2 \<le> made S'"
      "\<forall>h < made S2. h \<noteq> coll \<longrightarrow> h \<noteq> e \<longrightarrow> store_of env S' h = store_of env S2 h"
    using Cons.IH [OF r _ _ Cons.prems(4)] Cons.prems(6) by fastforce
  have "store_of env S' h = store_of env S h" if "h < made S" "h \<noteq> coll" "h \<noteq> e" for h
    using ds(4) S2 d(2) d(3) [of h] that by simp
  with ds(1-3) d(1,2) S2 show ?case by (intro exI [of _ "d # ds"]) simp
qed

lemma nty_holds:
  assumes "\<And>n. v = QHash n \<Longrightarrow> makes_value env (object_of env n) (objBindQore env n) \<and> makes_value env (collection_of env n) (collBindQore env n)"
    "is_nty_type (oc_ocode c)"
  shows "puts env slot (stands env c v) (bind_nty env slot v)"
proof (cases v)
  case (QHash n)
  have o: "puts env slot (object_of env n) (\<lambda>S. assign_made env slot (objBindQore env n S))"
    "puts env slot (collection_of env n) (\<lambda>S. assign_made env slot (collBindQore env n S))"
    using assms(1) [OF QHash] puts_assign_made by blast+
  show ?thesis
    unfolding bind_nty.simps [abs_def] QHash
    using puts_mono [OF o(1)] puts_mono [OF o(2)] stands_of [OF assms(2), of n env]
    by (cases "ntyHashType (Some n) = ORACLE_OBJECT"; cases "ntyHashType (Some n) = ORACLE_COLLECTION") (simp_all add: puts_fail)
qed (simp_all add: bind_nty.simps [abs_def] puts_fail)

definition distinct_attributes :: "nty_env \<Rightarrow> bool" where
  "distinct_attributes env \<longleftrightarrow> (\<forall>t. distinct (map oc_name (type_columns env t)))"

lemma bound_holds:
  assumes "distinct_attributes env"
  shows "makes_value env (object_of env h) (objBindQore env h) \<and> makes_value env (collection_of env h) (collBindQore env h)"
proof (induction "size (QHash h)" arbitrary: h rule: less_induct)
  case less
  have deeper: "puts env slot (stands env c v) (bind_nty env slot v)" if "size v < size (QHash h)" "is_nty_type (oc_ocode c)" for slot v c
    by (rule nty_holds) (use less that in auto)
  have "makes_value env (object_of env h) (objBindQore env h)"
  proof (rule makes_valueI)
    fix S S' o'
    assume e: "objBindQore env h S = (Got o', S')"
    then obtain th where th: "ntyCheckType ORACLE_OBJECT h NT_HASH" "key_value h ''^values^'' = QHash th"
      by (auto simp: objBindQore.simps nty_fail_def split: if_splits qval.splits)
    from e th bind_Got obtain info S1 where t: "get_type env (bind_error ''no type defined in the DB'') (type_name h) S = (Got info, S1)"
      and 2: "nty_bind (nty_call env (bind_error ''unable to create object'') (Alloc (KObject (type_name h))) S1) (\<lambda>_ S2.
               held env (made S1)
                 (if nt_cols info = [] then nty_fail (bind_error ''unable to retrieve attribute info'') S2
                  else bind_attrs env (made S1) th 1 (nt_cols info) S2)) = (Got o', S')"
      by (fastforce simp: objBindQore.simps)
    from bind_Got [OF 2] obtain S2 where c: "nty_call env (bind_error ''unable to create object'') (Alloc (KObject (type_name h))) S1 = (Got (), S2)"
      and 3: "held env (made S1) (if nt_cols info = [] then nty_fail (bind_error ''unable to retrieve attribute info'') S2
                  else bind_attrs env (made S1) th 1 (nt_cols info) S2) = (Got o', S')" by auto
    have S1: "S1 = nty_note (GetTypeInfo (type_name h)) S" "ne_type env (type_name h) = Some info" using get_type_Got [OF t] by simp_all
    have S2: "S2 = nty_note (Alloc (KObject (type_name h))) S1" "nty_answer_at env S1 = Done" using call_Got [OF c] by simp_all
    have o': "o' = made S1" and b: "bind_attrs env (made S1) th 1 (nt_cols info) S2 = (Got (), S')"
      using 3 by (auto simp: held_def nty_fail_def split: prod.splits got.splits if_splits)
    have cols: "type_columns env (type_name h) = nt_cols info" using S1(2) by (simp add: type_columns_def)
    have d: "distinct (map fst [] @ map oc_name (nt_cols info))"
      using assms [unfolded distinct_attributes_def, rule_format, of "type_name h"] cols by simp
    have "store_of env S2 (made S1) = DObject (type_name h) []" "made S1 < made S2" using S2 by simp_all
    note st = this
    have deeper': "puts env slot (stands env c v) (bind_nty env slot v)" if "size v < size (QHash th)" "is_nty_type (oc_ocode c)" for slot v c
      by (rule deeper [OF less_trans [OF that(1) size_key_hash [OF th(2)]] that(2)])
    from attrs_hold [OF deeper' b st(2,1) d] obtain bs where
      bs: "list_all2 (\<lambda>a nd. fst nd = oc_name a \<and> stands env a (given th a) (snd nd)) (nt_cols info) bs"
        "store_of env S' (made S1) = DObject (type_name h) bs" "made S2 \<le> made S'"
        "\<And>k. k < made S2 \<Longrightarrow> k \<noteq> made S1 \<Longrightarrow> store_of env S' k = store_of env S2 k"
      by auto
    have "object_of env h (store_of env S' o')" unfolding object_of_def using th(2) bs(1,2) o' cols by auto
    moreover have "store_of env S' k = store_of env S k" if "k < made S" for k using bs(4) [of k] S1 S2 that by simp
    ultimately show "made S \<le> o' \<and> o' < made S' \<and> (\<forall>h < made S. store_of env S' h = store_of env S h) \<and> object_of env h (store_of env S' o')"
      using o' S1 S2 bs(3) by simp
  qed
  moreover have "makes_value env (collection_of env h) (collBindQore env h)"
  proof (rule makes_valueI)
    fix S S' o'
    assume e: "collBindQore env h S = (Got o', S')"
    then obtain vs where vs: "ntyCheckType ORACLE_COLLECTION h NT_LIST" "key_value h ''^values^'' = QList vs"
      by (auto simp: collBindQore.simps nty_fail_def split: if_splits qval.splits)
    let ?col = "bind_error ''failed to retrieve column information''" and ?el = "bind_error ''failed to create element''"
    let ?g = "\<lambda>info S1 S2. held env (made S1)
                 (case nt_cols info of
                    [] \<Rightarrow> nty_fail ?col S2
                  | col # _ \<Rightarrow>
                      nty_bind (nty_call env ?col (GetColumn 1) S2) (\<lambda>_ S3.
                      nty_bind (nty_call env ?el (Alloc (KElem (type_name h))) S3) (\<lambda>_ S4.
                        released env (made S3) (bind_elems env (made S1) (made S3) col vs S4))))"
    from e vs bind_Got obtain info S1 where t: "get_type env (bind_error ''no type defined in the DB'') (type_name h) S = (Got info, S1)"
      and 2: "nty_bind (nty_call env (bind_error ''unable to create collection'') (Alloc (KColl (type_name h))) S1) (\<lambda>_ S2. ?g info S1 S2) = (Got o', S')"
      by (fastforce simp: collBindQore.simps)
    from bind_Got [OF 2] obtain S2 where c: "nty_call env (bind_error ''unable to create collection'') (Alloc (KColl (type_name h))) S1 = (Got (), S2)"
      and 3: "?g info S1 S2 = (Got o', S')" by auto
    have S1: "S1 = nty_note (GetTypeInfo (type_name h)) S" "ne_type env (type_name h) = Some info" using get_type_Got [OF t] by simp_all
    have S2: "S2 = nty_note (Alloc (KColl (type_name h))) S1" "nty_answer_at env S1 = Done" using call_Got [OF c] by simp_all
    from 3 obtain col rest where cols: "nt_cols info = col # rest" by (cases "nt_cols info") (auto simp: held_def nty_fail_def)
    from 3 cols have o': "o' = made S1" and 4: "nty_bind (nty_call env ?col (GetColumn 1) S2) (\<lambda>_ S3.
                      nty_bind (nty_call env ?el (Alloc (KElem (type_name h))) S3) (\<lambda>_ S4.
                        released env (made S3) (bind_elems env (made S1) (made S3) col vs S4))) = (Got (), S')"
      by (auto simp: held_def split: prod.splits got.splits)
    from bind_Got [OF 4] obtain S3 where c3: "nty_call env ?col (GetColumn 1) S2 = (Got (), S3)"
      and 5: "nty_bind (nty_call env ?el (Alloc (KElem (type_name h))) S3) (\<lambda>_ S4.
                        released env (made S3) (bind_elems env (made S1) (made S3) col vs S4)) = (Got (), S')" by auto
    from bind_Got [OF 5] obtain S4 where c4: "nty_call env ?el (Alloc (KElem (type_name h))) S3 = (Got (), S4)"
      and 6: "released env (made S3) (bind_elems env (made S1) (made S3) col vs S4) = (Got (), S')" by auto
    have S3: "S3 = nty_note (GetColumn 1) S2" using call_Got [OF c3] by simp
    have S4: "S4 = nty_note (Alloc (KElem (type_name h))) S3" "nty_answer_at env S3 = Done" using call_Got [OF c4] by simp_all
    obtain S5 where b: "bind_elems env (made S1) (made S3) col vs S4 = (Got (), S5)" and S': "S' = nty_free env (Free (made S3)) S5"
      using 6 by (auto simp: released_def split: prod.splits got.splits)
    have st: "store_of env S4 (made S1) = DColl (type_name h) []" "made S1 < made S4" "made S3 < made S4" "made S3 \<noteq> made S1"
      using S2 S3 S4 by simp_all
    have deeper': "puts env slot (stands env col v) (bind_nty env slot v)" if "size v < size (QList vs)" "is_nty_type (oc_ocode col)" for slot v
      by (rule deeper [OF less_trans [OF that(1) size_key_list [OF vs(2)]] that(2)])
    from elems_hold [OF deeper' b st(2,3,4,1)] obtain ds where
      ds: "list_all2 (stands env col) vs ds" "store_of env S5 (made S1) = DColl (type_name h) ds" "made S4 \<le> made S5"
        "\<And>k. k < made S4 \<Longrightarrow> k \<noteq> made S1 \<Longrightarrow> k \<noteq> made S3 \<Longrightarrow> store_of env S5 k = store_of env S4 k"
      by auto
    have "type_columns env (type_name h) = col # rest" using S1(2) cols by (simp add: type_columns_def)
    then have "collection_of env h (store_of env S' o')" unfolding collection_of_def using vs(2) ds(1,2) o' S' by auto
    moreover have "store_of env S' k = store_of env S k" if "k < made S" for k using ds(4) [of k] S1 S2 S3 S4 S' that by simp
    ultimately show "made S \<le> o' \<and> o' < made S' \<and> (\<forall>h < made S. store_of env S' h = store_of env S h) \<and> collection_of env h (store_of env S' o')"
      using o' S1 S2 S3 S4 ds(3) S' by simp
  qed
  ultimately show ?case by simp
qed

end
