(* ===== verification/Named_Roundtrip.thy ===== *)
theory Named_Roundtrip
  imports Named_Values
begin

text \<open>
  Objects and collections that are bound and fetched again: which values come back as they were
  given, at any depth.
\<close>

section \<open>What is fetched_as\<close>

text \<open>No call raises by itself (a call may still be refused).\<close>

definition quiet :: "nty_env \<Rightarrow> bool" where
  "quiet env \<longleftrightarrow> (\<forall>n e. ne_answer env n \<noteq> Error e)"

definition fetch_value :: "nty_env \<Rightarrow> slot \<Rightarrow> nty_column \<Rightarrow> nty_data \<Rightarrow> qval nty_step" where
  "fetch_value env slot c d S =
     (if d = DNull then (Got QNull, S) else if is_nty_type (oc_ocode c) then fetch_nty env slot c d S else fetch_plain env slot c d S)"

text \<open>What data reads as, in an attribute or in an element.\<close>

definition timestamp_zone :: "nty_env \<Rightarrow> sqlt \<Rightarrow> date_fields \<Rightarrow> zone" where
  "timestamp_zone env t f =
     (if t = SQLT_TIMESTAMP then ServerZone
      else case ne_offset env t f of Some (oh, om) \<Rightarrow> OffsetZone (oh * 3600 + om * 60) | None \<Rightarrow> ServerZone)"

definition date_read :: "nty_env \<Rightarrow> nty_column \<Rightarrow> nty_data \<Rightarrow> qval option" where
  "date_read env c d =
     (case oc_type c of
        CDT_TIMESTAMP \<Rightarrow>
          (case d of DTimestamp f ns \<Rightarrow> Some (QDate (AbsDate (timestamp_zone env (oc_ocode c) f) (f\<lparr>d_us := ns div 1000\<rparr>))) | _ \<Rightarrow> None)
      | CDT_DATETIME \<Rightarrow> (case d of DDate f \<Rightarrow> Some (getDate f) | _ \<Rightarrow> None)
      | CDT_INTERVAL \<Rightarrow> interval_value (oc_ocode c) d
      | _ \<Rightarrow> None)"

definition lob_read :: "nty_env \<Rightarrow> bool \<Rightarrow> string \<Rightarrow> qval option" where
  "lob_read env is_clob s =
     (let n = (if is_clob then ne_chars env s else int (length s)); b = lob_bytes (ne_max_width env) is_clob n
      in if n = 0 \<or> n \<ge> 4294967296 \<or> b = 0 then None
         else Some (if is_clob then QString (take (nat b) s) (ne_encoding env) else QBinary (take (nat b) s)))"

definition number_read :: "nty_env \<Rightarrow> bool \<Rightarrow> nty_column \<Rightarrow> nty_data \<Rightarrow> qval option" where
  "number_read env elem c d =
     (if elem then Some (if oc_scale c = -127 \<and> oc_prec c > 0 then QFloat (ne_number_double env d) else QInt (ne_number_int env d))
      else if is_number_data d then Some (number_of_text env (ne_number_text env d)) else None)"

definition read_data :: "nty_env \<Rightarrow> bool \<Rightarrow> nty_column \<Rightarrow> nty_data \<Rightarrow> qval option" where
  "read_data env elem c d =
     (let t = oc_ocode c
      in if is_text_type t then (case d of DText s \<Rightarrow> Some (QString s (ne_encoding env)) | _ \<Rightarrow> None)
         else if t = SQLT_NUM then number_read env elem c d
         else if t = SQLT_INT then Some (QInt (ne_number_int env d))
         else if is_float_type t then Some (QFloat (ne_number_double env d))
         else if is_date_type t then date_read env c d
         else if is_lob_type t then lob_read env (t = SQLT_CLOB) (lob_bytes_of d)
         else None)"

fun is_elem :: "slot \<Rightarrow> bool" where
  "is_elem (Attr obj n) = False"
| "is_elem (Elem e) = True"

lemma got_value_Got: "got_value own v x = (Got q, S') \<Longrightarrow> v = Some q"
  by (auto simp: got_value_def no_value_def nty_bind_def split: prod.splits got.splits option.splits)

lemma no_value_not_Got: "no_value own S \<noteq> (Got q, S')"
  by (simp add: no_value_def)

lemma checkerr_quiet: "quiet env \<Longrightarrow> nty_checkerr env c S = (Got (), nty_note c S)"
  by (auto simp: nty_checkerr_def quiet_def nty_answer_at_def split: nty_answer.split)

lemma timestamp_value_quiet:
  assumes "quiet env" "timestamp_value env slot t f ns S = (Got q, S')"
  shows "q = QDate (AbsDate (timestamp_zone env t f) (f\<lparr>d_us := ns div 1000\<rparr>))"
proof -
  have g: "getTimestamp OCI_SUCCESS OCI_SUCCESS err (t \<noteq> SQLT_TIMESTAMP) \<lparr>dt_fields = f, dt_ns = ns, dt_offset = ne_offset env t f\<rparr>
      = Value (QDate (AbsDate (timestamp_zone env t f) (f\<lparr>d_us := ns div 1000\<rparr>)))" for err
    by (simp add: getTimestamp_def checkerr_def timestamp_zone_def Let_def)
  show ?thesis
    using assms(2) by (simp add: timestamp_value_def checkerr_quiet [OF assms(1)] g)
qed

lemma fetch_date_Got:
  assumes "quiet env" "fetch_date env slot c d S = (Got q, S')"
  shows "date_read env c d = Some q"
proof (cases "oc_type c")
  case CDT_TIMESTAMP
  with assms(2) bind_Got obtain u S1 where "(case d of DTimestamp f ns \<Rightarrow> timestamp_value env slot (oc_ocode c) f ns S1
      | _ \<Rightarrow> no_value (fetch_error ''failed to retrieve timestamp'') S1) = (Got q, S')"
    by (fastforce simp: fetch_date_def Let_def)
  with CDT_TIMESTAMP timestamp_value_quiet [OF assms(1)] show ?thesis
    by (cases d) (auto simp: date_read_def no_value_not_Got)
next
  case CDT_DATETIME
  with assms(2) show ?thesis by (auto simp: fetch_date_def date_read_def Let_def dest: got_value_Got)
next
  case CDT_INTERVAL
  with assms(2) show ?thesis by (auto simp: fetch_date_def date_read_def Let_def simp del: nty_seq.simps dest: got_value_Got)
qed (use assms(2) in \<open>simp_all add: fetch_date_def nty_fail_def\<close>)

lemma read_lob_Got:
  assumes "read_lob env h is_clob s S = (Got q, S')"
  shows "lob_read env is_clob s = Some q"
proof (cases "nty_answer_at env S = Done")
  case True
  then show ?thesis
    using assms by (auto simp: read_lob_def lob_read_def Let_def no_value_not_Got nty_fail_def simp del: nty_seq.simps
        split: if_splits dest: got_value_Got)
next
  case False
  then show ?thesis using assms by (simp add: read_lob_def Let_def no_value_not_Got)
qed

lemma fetch_lob_Got:
  assumes "fetch_lob env slot c d S = (Got q, S')"
  shows "lob_read env (oc_ocode c = SQLT_CLOB) (lob_bytes_of d) = Some q"
proof -
  from bind_Got [OF assms [unfolded fetch_lob_def]] obtain S1 where
    "(let (r, S2) = read_lob env (made S) (oc_ocode c = SQLT_CLOB) (lob_bytes_of d) S1 in (r, nty_free env (Free (made S)) S2)) = (Got q, S')"
    by blast
  then obtain S2 where "read_lob env (made S) (oc_ocode c = SQLT_CLOB) (lob_bytes_of d) S1 = (Got q, S2)"
    by (auto simp: Let_def split: prod.splits)
  then show ?thesis by (rule read_lob_Got)
qed

lemma fetch_number_Got: "fetch_number env slot d S = (Got q, S') \<Longrightarrow> is_number_data d \<and> q = number_of_text env (ne_number_text env d)"
  by (auto simp: fetch_number_def no_value_not_Got split: if_splits dest!: bind_Got dest: got_value_Got)

lemma fetch_number_slot_Got: "fetch_number_slot env slot c d S = (Got q, S') \<Longrightarrow> number_read env (is_elem slot) c d = Some q"
  by (cases slot)
    (auto simp: fetch_number_slot_def number_read_def fetch_float_def fetch_integer_def split: if_splits dest: fetch_number_Got got_value_Got)

lemma fetch_plain_Got:
  assumes "quiet env" "fetch_plain env slot c d S = (Got q, S')"
  shows "read_data env (is_elem slot) c d = Some q"
proof -
  have u: "fetch_unsupported slot c S \<noteq> (Got q, S')" by (auto simp: fetch_unsupported_def nty_fail_def split: slot.splits)
  have i: "fetch_integer env slot d S = (Got q, S') \<Longrightarrow> q = QInt (ne_number_int env d)"
    "fetch_float env slot d S = (Got q, S') \<Longrightarrow> q = QFloat (ne_number_double env d)"
    "fetch_text env slot d S = (Got q, S') \<Longrightarrow> (case d of DText s \<Rightarrow> Some (QString s (ne_encoding env)) | _ \<Rightarrow> None) = Some q"
    by (auto simp: fetch_integer_def fetch_float_def fetch_text_def Let_def dest: got_value_Got)
  show ?thesis
    using assms(2) u i fetch_number_slot_Got [of env slot c d S q S'] fetch_date_Got [OF assms(1), of slot c d S q S']
      fetch_lob_Got [of env slot c d S q S']
    by (auto simp: fetch_plain_def read_data_def Let_def split: if_splits)
qed

section \<open>Values that come back\<close>

text \<open>
  The conditions for a value that is no named type: text without a zero byte in the encoding of the
  datasource, numbers in the range of the type they are read as, dates in the zone they are read in
  (a date without a fraction of a second), intervals with only their own fields, LOBs that fit the
  buffer.  The environment must turn numbers into text and back as documented.
\<close>

fun number_ok :: "nty_env \<Rightarrow> bool \<Rightarrow> nty_column \<Rightarrow> qval \<Rightarrow> bool" where
  "number_ok env elem c (QInt i) \<longleftrightarrow>
     (if elem then \<not> (oc_scale c = -127 \<and> oc_prec c > 0) \<and> ne_number_int env (DInt i) = i
      else ne_number env = OPT_NUM_OPTIMAL \<and> i64_ok i \<and> ne_number_text env (DInt i) = show_int i)"
| "number_ok env elem c (QFloat f) \<longleftrightarrow> elem \<and> oc_scale c = -127 \<and> oc_prec c > 0 \<and> ne_number_double env (DDouble f) = f"
| "number_ok env elem c (QNumber n) \<longleftrightarrow> \<not> elem \<and> ne_number env = OPT_NUM_NUMERIC \<and> ne_plain env (QNumber n) = n
     \<and> ne_number_text env (DNumber n) = n"
| "number_ok env elem c _ \<longleftrightarrow> False"

fun date_ok :: "nty_env \<Rightarrow> nty_column \<Rightarrow> qdate \<Rightarrow> bool" where
  "date_ok env c (AbsDate z f) \<longleftrightarrow>
     (oc_type c = CDT_TIMESTAMP \<and> z = timestamp_zone env (oc_ocode c) (f\<lparr>d_us := 0\<rparr>)
      \<or> oc_type c = CDT_DATETIME \<and> z = ServerZone \<and> d_us f = 0)"
| "date_ok env c (RelDate f) \<longleftrightarrow>
     oc_type c = CDT_INTERVAL
     \<and> (if oc_ocode c = SQLT_INTERVAL_YM then d_day f = 0 \<and> d_hour f = 0 \<and> d_minute f = 0 \<and> d_second f = 0 \<and> d_us f = 0
        else d_year f = 0 \<and> d_month f = 0)"

definition text_ok :: "nty_env \<Rightarrow> qval \<Rightarrow> bool" where
  "text_ok env v \<longleftrightarrow> (case v of QString s e \<Rightarrow> e = ne_encoding env \<and> ne_text env v = Value s \<and> s \<noteq> [] \<and> CHR 0x00 \<notin> set s | _ \<Rightarrow> False)"

definition lob_ok :: "nty_env \<Rightarrow> bool \<Rightarrow> qval \<Rightarrow> bool" where
  "lob_ok env is_clob v \<longleftrightarrow>
     (case v of
        QBinary b \<Rightarrow> \<not> is_clob \<and> b \<noteq> [] \<and> int (length b) < 4294967296
      | QString s e \<Rightarrow> is_clob \<and> e = ne_encoding env \<and> ne_text env v = Value s \<and> s \<noteq> [] \<and> int (length s) < 4294967296
          \<and> 0 < ne_chars env s \<and> int (length s) \<le> ne_chars env s * ne_max_width env
          \<and> ne_chars env s < 4294967296 \<and> ne_chars env s * ne_max_width env < 4294967296
      | _ \<Rightarrow> False)"

definition leaf_ok :: "nty_env \<Rightarrow> bool \<Rightarrow> nty_column \<Rightarrow> qval \<Rightarrow> bool" where
  "leaf_ok env elem c v \<longleftrightarrow>
     (let t = oc_ocode c
      in if is_text_type t then text_ok env v
         else if t = SQLT_NUM then number_ok env elem c v
         else if t = SQLT_INT then (\<exists>i. v = QInt i \<and> ne_int env v = i \<and> ne_number_int env (DInt i) = i)
         else if is_float_type t then (\<exists>f. v = QFloat f \<and> ne_float env v = f \<and> ne_number_double env (DDouble f) = f)
         else if is_date_type t then (\<exists>d. v = QDate d \<and> ne_date env v = d \<and> date_ok env c d)
         else is_lob_type t \<and> lob_ok env (t = SQLT_CLOB) v)"

text \<open>
  \<open>comes_back env elem c v w\<close>: the value \<open>v\<close> of a slot of the column \<open>c\<close> is fetched as \<open>w\<close>.  What has no
  value or is stored as NULL (an empty text or LOB) comes back as NULL; of an object come the values
  of its attributes under their names, of a collection those of its elements.
\<close>

inductive comes_back :: "nty_env \<Rightarrow> bool \<Rightarrow> nty_column \<Rightarrow> qval \<Rightarrow> qval \<Rightarrow> bool" for env where
  back_null: "is_null_or_nothing v \<Longrightarrow> comes_back env elem c v QNull"
| back_empty: "\<not> is_nty_type (oc_ocode c) \<Longrightarrow> plain_data env c v = Some DNull \<Longrightarrow> comes_back env elem c v QNull"
| back_leaf: "leaf_ok env elem c v \<Longrightarrow> comes_back env elem c v v"
| back_object: "is_nty_type (oc_ocode c) \<Longrightarrow> nc_typinf c = Some False \<Longrightarrow> ntyHashType (Some h) = ORACLE_OBJECT
    \<Longrightarrow> key_value h ''^values^'' = QHash th
    \<Longrightarrow> list_all2 (\<lambda>a w. comes_back env False a (given th a) w) (type_columns env (type_name h)) ws
    \<Longrightarrow> comes_back env elem c (QHash h) (QHash (zip (map oc_name (type_columns env (type_name h))) ws))"
| back_collection: "is_nty_type (oc_ocode c) \<Longrightarrow> nc_typinf c = Some True \<Longrightarrow> ntyHashType (Some h) = ORACLE_COLLECTION
    \<Longrightarrow> key_value h ''^values^'' = QList vs \<Longrightarrow> type_columns env (type_name h) = a # rest
    \<Longrightarrow> list_all2 (comes_back env True a) vs ws \<Longrightarrow> comes_back env elem c (QHash h) (QList ws)"

lemma c_str_id: "CHR 0x00 \<notin> set s \<Longrightarrow> c_str s = s"
  by (auto simp: c_str_def takeWhile_eq_all_conv)

lemma type_classes:
  "is_text_type t \<Longrightarrow> \<not> is_nty_type t" "is_float_type t \<Longrightarrow> \<not> is_nty_type t" "is_date_type t \<Longrightarrow> \<not> is_nty_type t"
  "is_lob_type t \<Longrightarrow> \<not> is_nty_type t" "\<not> is_nty_type SQLT_NUM" "\<not> is_nty_type SQLT_INT"
  by (auto simp: is_text_type_def is_float_type_def is_date_type_def is_lob_type_def is_nty_type_def)

lemma number_roundtrip:
  assumes "number_ok env elem c v"
  shows "\<exists>d. number_data env v = Some d \<and> d \<noteq> DNull \<and> number_read env elem c d = Some v"
  using assms
  by (cases v) (auto simp: number_data_def number_read_def number_of_text_def getNumberOptimal_show_int split: if_splits)

lemma date_roundtrip:
  assumes "date_ok env c d"
  shows "\<exists>x. date_data (oc_type c) (oc_ocode c) (own_fields d) = Some x \<and> x \<noteq> DNull \<and> date_read env c x = Some (QDate d)"
proof (cases d)
  case (AbsDate z f)
  have "d_us f = 0 \<Longrightarrow> f\<lparr>d_us := 0\<rparr> = f" by simp
  with assms AbsDate show ?thesis by (auto simp: date_data_def date_read_def getDate_def)
next
  case (RelDate f)
  have us: "sgn (d_us f * 1000) * (\<bar>d_us f * 1000\<bar> div 1000) = d_us f" by (simp add: abs_mult sgn_mult abs_sgn mult.commute)
  have "f = \<lparr>d_year = d_year f, d_month = d_month f, d_day = d_day f, d_hour = d_hour f, d_minute = d_minute f, d_second = d_second f, d_us = d_us f\<rparr>"
    by simp
  with assms RelDate us show ?thesis
    by (auto simp: date_data_def date_read_def interval_value_def split: if_splits)
qed

lemma lob_roundtrip:
  assumes "lob_ok env is_clob v"
  shows "\<exists>x. lob_datum env v = Some x \<and> x \<noteq> DNull \<and> lob_read env is_clob (lob_bytes_of x) = Some v"
proof (cases v)
  case (QBinary b)
  with assms have "lob_size b = int (length b)" "b \<noteq> []" "\<not> is_clob" by (auto simp: lob_ok_def lob_size_def)
  with QBinary assms show ?thesis by (auto simp: lob_datum_def lob_read_def lob_bytes_of_def lob_bytes_def lob_ok_def Let_def)
next
  case (QString s e)
  with assms have s: "lob_size s = int (length s)" "s \<noteq> []" by (auto simp: lob_ok_def lob_size_def)
  let ?m = "ne_chars env s * ne_max_width env"
  have m: "int (length s) \<le> ?m" "?m < 4294967296" using QString assms by (auto simp: lob_ok_def)
  have "0 < int (length s)" using s(2) by simp
  with m(1) have "0 < ?m" by linarith
  with m have "?m mod 4294967296 = ?m" "0 < ?m" "nat ?m \<ge> length s" by simp_all
  then have "lob_read env is_clob s = Some v"
    using QString assms by (auto simp: lob_read_def lob_bytes_def lob_ok_def Let_def)
  moreover have "lob_datum env v = Some (DLob s)" using QString assms s by (auto simp: lob_datum_def lob_ok_def)
  ultimately show ?thesis by (simp add: lob_bytes_of_def)
qed (use assms in \<open>simp_all add: lob_ok_def\<close>)

lemma leaf_roundtrip:
  assumes "leaf_ok env elem c v"
  shows "\<not> is_nty_type (oc_ocode c) \<and> \<not> is_null_or_nothing v
    \<and> (\<exists>d. plain_data env c v = Some d \<and> d \<noteq> DNull \<and> read_data env elem c d = Some v)"
proof -
  let ?t = "oc_ocode c"
  have tx: "text_ok env v \<Longrightarrow> \<exists>s. v = QString s (ne_encoding env) \<and> text_data env v = Some (DText s)"
    by (cases v) (auto simp: text_ok_def text_data_def c_str_id)
  have nn: "text_ok env v \<or> number_ok env elem c v \<or> lob_ok env b v \<Longrightarrow> \<not> is_null_or_nothing v" for b
    by (cases v) (auto simp: text_ok_def lob_ok_def)
  consider "is_text_type ?t" | "\<not> is_text_type ?t" "?t = SQLT_NUM" | "\<not> is_text_type ?t" "?t = SQLT_INT"
    | "\<not> is_text_type ?t" "?t \<noteq> SQLT_NUM" "?t \<noteq> SQLT_INT" "is_float_type ?t"
    | "\<not> is_text_type ?t" "?t \<noteq> SQLT_NUM" "?t \<noteq> SQLT_INT" "\<not> is_float_type ?t" "is_date_type ?t"
    | "\<not> is_text_type ?t" "?t \<noteq> SQLT_NUM" "?t \<noteq> SQLT_INT" "\<not> is_float_type ?t" "\<not> is_date_type ?t" "is_lob_type ?t"
    using assms unfolding leaf_ok_def Let_def by (auto split: if_splits)
  then show ?thesis
  proof cases
    case 1
    with assms tx nn type_classes(1) show ?thesis by (auto simp: leaf_ok_def plain_data_def read_data_def Let_def)
  next
    case 2
    with assms number_roundtrip [of env elem c v] nn type_classes(5) show ?thesis
      by (auto simp: leaf_ok_def plain_data_def read_data_def Let_def)
  next
    case 3
    with assms type_classes(6) show ?thesis by (cases v) (auto simp: leaf_ok_def plain_data_def read_data_def Let_def)
  next
    case 4
    with assms type_classes(2) show ?thesis by (cases v) (auto simp: leaf_ok_def plain_data_def read_data_def Let_def)
  next
    case 5
    with assms type_classes(3) date_roundtrip [of env c] show ?thesis by (cases v) (auto simp: leaf_ok_def plain_data_def read_data_def Let_def)
  next
    case 6
    with assms type_classes(4) lob_roundtrip [of env "?t = SQLT_CLOB" v] nn show ?thesis
      by (auto simp: leaf_ok_def plain_data_def read_data_def Let_def)
  qed
qed

section \<open>Objects and collections come back\<close>

lemma attrs_fetched:
  "list_all2 (\<lambda>c w. \<forall>S q S'. fetch_value env (Attr obj (oc_name c)) c (attr_data as' (oc_name c)) S = (Got q, S') \<longrightarrow> q = w) cs ws
    \<Longrightarrow> fetch_attrs env obj as' i cs rv S = (Got r, S') \<Longrightarrow> distinct (map fst rv @ map oc_name cs)
    \<Longrightarrow> r = rv @ zip (map oc_name cs) ws"
proof (induction cs ws arbitrary: i rv S rule: list_all2_induct)
  case Nil
  then show ?case by simp
next
  case (Cons c cs w ws)
  from bind_Got [OF Cons.prems(1) [unfolded fetch_attrs.simps(2)]] obtain S1 where
    "nty_bind (fetch_value env (Attr obj (oc_name c)) c (attr_data as' (oc_name c)) S1) (\<lambda>q S2.
       fetch_attrs env obj as' (Suc i) cs (hash_set (oc_name c) q rv) S2) = (Got r, S')"
    unfolding fetch_value_def by blast
  from bind_Got [OF this] obtain q S2 where
    q: "fetch_value env (Attr obj (oc_name c)) c (attr_data as' (oc_name c)) S1 = (Got q, S2)"
    and r: "fetch_attrs env obj as' (Suc i) cs (hash_set (oc_name c) q rv) S2 = (Got r, S')" by blast
  have "q = w" using Cons.hyps(1) q by blast
  moreover have "hash_get rv (oc_name c) = None" using Cons.prems(2) by (auto simp: map_of_eq_None_iff)
  ultimately have "hash_set (oc_name c) q rv = rv @ [(oc_name c, w)]" by (simp add: hash_set_fresh)
  with Cons.IH [OF r] Cons.prems(2) show ?case by auto
qed

lemma elems_fetched:
  "list_all2 (\<lambda>d w. \<forall>e S q S'. fetch_value env (Elem e) col d S = (Got q, S') \<longrightarrow> q = w) ds ws
    \<Longrightarrow> fetch_elems env coll i col ds rv S = (Got r, S') \<Longrightarrow> r = rv @ ws"
proof (induction ds ws arbitrary: i rv S rule: list_all2_induct)
  case Nil
  then show ?case by simp
next
  case (Cons d ds w ws)
  from bind_Got [OF Cons.prems [unfolded fetch_elems.simps(2)]] obtain e S1 where
    "nty_bind (fetch_value env (Elem e) col d S1) (\<lambda>q S3. fetch_elems env coll (Suc i) col ds (rv @ [q]) S3) = (Got r, S')"
    unfolding fetch_value_def Let_def by blast
  from bind_Got [OF this] obtain q S3 where
    "fetch_value env (Elem e) col d S1 = (Got q, S3)" "fetch_elems env coll (Suc i) col ds (rv @ [q]) S3 = (Got r, S')" by blast
  with Cons.hyps(1) Cons.IH show ?case by fastforce
qed

lemma object_fetched:
  assumes "distinct_attributes env"
    "list_all2 (\<lambda>a nd. fst nd = oc_name a \<and> stands env a (given th a) (snd nd)) (type_columns env t) as'"
    "list_all2 (\<lambda>a w. \<forall>d slot S q S'. is_elem slot = False \<longrightarrow> stands env a (given th a) d \<longrightarrow> fetch_value env slot a d S = (Got q, S')
        \<longrightarrow> q = w) (type_columns env t) ws"
    "objToQore env obj t as' S = (Got r, S')"
  shows "r = zip (map oc_name (type_columns env t)) ws"
proof -
  let ?cs = "type_columns env t"
  have d: "distinct (map oc_name ?cs)" using assms(1) by (simp add: distinct_attributes_def)
  have keys: "map fst as' = map oc_name ?cs"
    using assms(2) by (auto simp: list_all2_conv_all_nth intro: nth_equalityI)
  have f: "fetch_attrs env obj as' 1 ?cs [] S = (Got r, S')"
    using assms(4) by (simp add: objToQore.simps nty_fail_def split: if_splits)
  have "list_all2 (\<lambda>c w. \<forall>S q S'. fetch_value env (Attr obj (oc_name c)) c (attr_data as' (oc_name c)) S = (Got q, S') \<longrightarrow> q = w) ?cs ws"
    unfolding list_all2_conv_all_nth
  proof (intro conjI allI impI)
    show "length ?cs = length ws" using assms(3) by (rule list_all2_lengthD)
    fix i S q S'
    assume i: "i < length ?cs" and e: "fetch_value env (Attr obj (oc_name (?cs ! i))) (?cs ! i) (attr_data as' (oc_name (?cs ! i))) S = (Got q, S')"
    have nd: "fst (as' ! i) = oc_name (?cs ! i)" "stands env (?cs ! i) (given th (?cs ! i)) (snd (as' ! i))" "i < length as'"
      using assms(2) i by (auto simp: list_all2_conv_all_nth)
    have "map_of as' (oc_name (?cs ! i)) = Some (snd (as' ! i))"
      using nd d keys by (intro map_of_is_SomeI) (auto simp flip: nd(1))
    then have "attr_data as' (oc_name (?cs ! i)) = snd (as' ! i)" by (simp add: attr_data_def)
    moreover have "\<forall>d slot S q S'. is_elem slot = False \<longrightarrow> stands env (?cs ! i) (given th (?cs ! i)) d
        \<longrightarrow> fetch_value env slot (?cs ! i) d S = (Got q, S') \<longrightarrow> q = ws ! i"
      using list_all2_nthD [OF assms(3) i] .
    moreover have "is_elem (Attr obj (oc_name (?cs ! i))) = False" by simp
    ultimately show "q = ws ! i" using nd(2) e by metis
  qed
  from attrs_fetched [OF this f] d show ?thesis by simp
qed

lemma collection_fetched:
  assumes "type_columns env t = a # rest" "list_all2 (stands env a) vs ds"
    "list_all2 (\<lambda>v w. \<forall>d slot S q S'. is_elem slot = True \<longrightarrow> stands env a v d \<longrightarrow> fetch_value env slot a d S = (Got q, S') \<longrightarrow> q = w) vs ws"
    "collToQore env coll t ds S = (Got r, S')"
  shows "r = ws"
proof -
  from bind_Got [OF assms(4) [unfolded collToQore.simps assms(1) list.case]] obtain S1 where
    "nty_bind (nty_call env (fetch_error ''failed to retrieve column type information'') (GetColumn 1) S1) (\<lambda>_ S2.
             fetch_elems env coll 1 a ds [] S2) = (Got r, S')" by blast
  from bind_Got [OF this] obtain S2 where f: "fetch_elems env coll 1 a ds [] S2 = (Got r, S')" by blast
  have "list_all2 (\<lambda>d w. \<forall>e S q S'. fetch_value env (Elem e) a d S = (Got q, S') \<longrightarrow> q = w) ds ws"
    unfolding list_all2_conv_all_nth
  proof (intro conjI allI impI)
    show "length ds = length ws" using assms(2,3) by (simp add: list_all2_lengthD [symmetric])
    fix i e S q S'
    assume i: "i < length ds" and e: "fetch_value env (Elem e) a (ds ! i) S = (Got q, S')"
    have "stands env a (vs ! i) (ds ! i)" using list_all2_nthD2 [OF assms(2) i] .
    moreover have "\<forall>d slot S q S'. is_elem slot = True \<longrightarrow> stands env a (vs ! i) d \<longrightarrow> fetch_value env slot a d S = (Got q, S')
        \<longrightarrow> q = ws ! i"
      using list_all2_nthD [OF assms(3)] i list_all2_lengthD [OF assms(2)] by simp
    moreover have "is_elem (Elem e) = True" by simp
    ultimately show "q = ws ! i" using e by metis
  qed
  from elems_fetched [OF this f] show ?thesis by simp
qed

lemma fetched_Got: "fetched_as f x = (Got q, S') \<Longrightarrow> \<exists>v S. x = (Got v, S) \<and> q = f v"
  unfolding fetched_as_def by (auto dest!: bind_Got split: if_splits)

lemma value_roundtrip:
  assumes "distinct_attributes env" "quiet env"
  shows "comes_back env elem c v w \<Longrightarrow> is_elem slot = elem \<Longrightarrow> stands env c v d \<Longrightarrow> fetch_value env slot c d S = (Got q, S') \<Longrightarrow> q = w"
proof (induction arbitrary: slot d S q S' rule: comes_back.induct)
  case (back_null v elem c)
  then have "d = DNull" by (auto elim: stands.cases)
  with back_null show ?case by (simp add: fetch_value_def)
next
  case (back_empty c v elem)
  then have "d = DNull" by (auto elim: stands.cases)
  with back_empty show ?case by (simp add: fetch_value_def)
next
  case (back_leaf elem c v)
  note l = leaf_roundtrip [OF back_leaf.hyps]
  from back_leaf.prems(2) l have "plain_data env c v = Some d" by (auto elim: stands.cases)
  with l have "d \<noteq> DNull" "read_data env elem c d = Some v" by auto
  with back_leaf.prems l fetch_plain_Got [OF assms(2)] show ?case by (fastforce simp: fetch_value_def)
next
  case (back_object c h th ws elem)
  have o: "ORACLE_OBJECT \<noteq> ORACLE_COLLECTION" by (simp add: ORACLE_OBJECT_def ORACLE_COLLECTION_def)
  from back_object.prems(2) back_object.hyps o obtain as' where
    d: "d = DObject (type_name h) as'"
      "list_all2 (\<lambda>a nd. fst nd = oc_name a \<and> stands env a (given th a) (snd nd)) (type_columns env (type_name h)) as'"
    by (auto elim: stands.cases)
  from back_object.prems(3) back_object.hyps(1,2) d(1) obtain S1 where
    "fetched_as QHash (objToQore env (made S) (type_name h) as' S1) = (Got q, S')"
    by (auto simp: fetch_value_def fetch_nty.simps dest!: bind_Got)
  from fetched_Got [OF this] obtain r S2 where r: "objToQore env (made S) (type_name h) as' S1 = (Got r, S2)" "q = QHash r" by blast
  have "list_all2 (\<lambda>a w. \<forall>d slot S q S'. is_elem slot = False \<longrightarrow> stands env a (given th a) d \<longrightarrow> fetch_value env slot a d S = (Got q, S')
        \<longrightarrow> q = w) (type_columns env (type_name h)) ws"
    by (rule list_all2_mono [OF back_object.IH]) blast
  from object_fetched [OF assms(1) d(2) this r(1)] r(2) show ?case by simp
next
  case (back_collection c h vs a rest ws elem)
  have o: "ORACLE_OBJECT \<noteq> ORACLE_COLLECTION" by (simp add: ORACLE_OBJECT_def ORACLE_COLLECTION_def)
  from back_collection.prems(2) back_collection.hyps o obtain ds where
    d: "d = DColl (type_name h) ds" "list_all2 (stands env a) vs ds"
    by (auto elim: stands.cases)
  from back_collection.prems(3) back_collection.hyps(1,2) d(1) obtain S1 where
    "fetched_as QList (collToQore env (made S) (type_name h) ds S1) = (Got q, S')"
    by (auto simp: fetch_value_def fetch_nty.simps dest!: bind_Got)
  from fetched_Got [OF this] obtain r S2 where r: "collToQore env (made S) (type_name h) ds S1 = (Got r, S2)" "q = QList r" by blast
  have "list_all2 (\<lambda>v w. \<forall>d slot S q S'. is_elem slot = True \<longrightarrow> stands env a v d \<longrightarrow> fetch_value env slot a d S = (Got q, S')
        \<longrightarrow> q = w) vs ws"
    by (rule list_all2_mono [OF back_collection.IH]) blast
  from collection_fetched [OF back_collection.hyps(5) d(2) this r(1)] r(2) show ?case by simp
qed

section \<open>Properties\<close>



text \<open>C25: The buffer for a CLOB has the number of characters times the greatest width of a character, modulo 2 to the
  32: the CLOB is read whole exactly if it fits that, and where the product passes 2 to the 32 the
  value is cut, without an exception, to the size that is left; at exactly a multiple the fetch fails.
\<close>

theorem clob_buffer_wraps:
  assumes "fetch_lob env slot c (DLob s) S = (Got q, S')" "oc_ocode c = SQLT_CLOB"
  shows "q = QString (take (nat (ne_chars env s * ne_max_width env mod 4294967296)) s) (ne_encoding env)
    \<and> (q = QString s (ne_encoding env) \<longleftrightarrow> int (length s) \<le> ne_chars env s * ne_max_width env mod 4294967296)
    \<and> ne_chars env s * ne_max_width env mod 4294967296 \<noteq> 0 \<and> 0 < ne_chars env s mod 4294967296"
proof -
  let ?n = "ne_chars env s" and ?m = "ne_chars env s * ne_max_width env mod 4294967296"
  from fetch_lob_Got [OF assms(1)] assms(2) have l: "lob_read env True s = Some q" by (simp add: lob_bytes_of_def)
  then have q: "q = QString (take (nat ?m) s) (ne_encoding env)" "?m \<noteq> 0" "?n \<noteq> 0" "?n < 4294967296"
    by (auto simp: lob_read_def lob_bytes_def Let_def split: if_splits)
  have "0 \<le> ?m" by simp
  then have "take (nat ?m) s = s \<longleftrightarrow> int (length s) \<le> ?m" by (simp add: take_all_iff nat_le_iff le_nat_iff)
  moreover have "?n mod 4294967296 \<noteq> 0" 
    using q(2) by (metis mod_0 mod_mult_left_eq mult_zero_left)
  then have "0 < ?n mod 4294967296" by (metis pos_mod_sign zero_less_numeral order_le_less)
  ultimately show ?thesis using q by simp
qed

section \<open>Witnesses\<close>

definition quiet_env :: nty_env where "quiet_env = sample_nty_env (\<lambda>_. Done)"

definition sample_born :: date_fields where
  "sample_born = \<lparr>d_year = 1980, d_month = 2, d_day = 3, d_hour = 4, d_minute = 5, d_second = 6, d_us = 7\<rparr>"

definition sample_attributes :: "(string \<times> nty_data) list" where
  "sample_attributes = [(''NAME'', DText ''Ann''), (''BORN'', DTimestamp (sample_born\<lparr>d_us := 0\<rparr>) 7000),
     (''HOME'', DObject ''ADDRESS'' [(''STREET'', DText ''Main''), (''NUMBER'', DInt 5)])]"

lemma sample_distinct: "distinct_attributes quiet_env"
  by (auto simp: distinct_attributes_def type_columns_def quiet_env_def sample_nty_env_def sample_types_def sample_column_def)

lemma sample_quiet: "quiet quiet_env"
  by (simp add: quiet_def quiet_env_def sample_nty_env_def)

lemma sample_bound: "fst (objBindQore quiet_env sample_person (Nty [CollSize 0] [])) = Got 2"
    "store_of quiet_env (snd (objBindQore quiet_env sample_person (Nty [CollSize 0] []))) 2 = DObject ''PERSON'' sample_attributes"
    "fst (collBindQore quiet_env sample_numbers (Nty [CollSize 0] [])) = Got 2"
  by code_simp+



text \<open>A CLOB of 1 GB and a character of one byte each, with characters of at most four bytes.\<close>

definition sample_clob :: string where "sample_clob = replicate 1073741825 CHR ''a''"

lemma length_sample_clob: "length sample_clob = 1073741825"
  unfolding sample_clob_def by (rule length_replicate)

lemma clob_buffer_wraps_witness:
  "fst (fetch_lob quiet_env (Attr 0 ''DOC'') (sample_column ''DOC'' (CDT_other 7) SQLT_CLOB None) (DLob sample_clob) (Nty [] []))
     = Got (QString (take 4 sample_clob) ''UTF-8'')"
proof -
  let ?c = "sample_column ''DOC'' (CDT_other 7) SQLT_CLOB None"
  obtain r S' where e: "fetch_lob quiet_env (Attr 0 ''DOC'') ?c (DLob sample_clob) (Nty [] []) = (r, S')" by (metis surj_pair)
  have "(case fst (fetch_lob quiet_env (Attr 0 ''DOC'') ?c (DLob sample_clob) (Nty [] [])) of Got _ \<Rightarrow> True | _ \<Rightarrow> False)"
    by (simp add: fetch_lob_def read_lob_def nty_call_def nty_call_no_xsink_def nty_answer_at_def nty_note_def nty_free_def Let_def
        quiet_env_def sample_nty_env_def sample_column_def lob_bytes_of_def lob_bytes_def got_value_def length_sample_clob)
  with e obtain q where q: "r = Got q" by (auto split: got.splits)
  have "oc_ocode ?c = SQLT_CLOB" "ne_chars quiet_env sample_clob = 1073741825" "ne_max_width quiet_env = 4" "ne_encoding quiet_env = ''UTF-8''"
    by (simp_all add: sample_column_def quiet_env_def sample_nty_env_def length_sample_clob)
  with clob_buffer_wraps [OF e [unfolded q]] e q show ?thesis by simp
qed

end
